(* ===== verification/Prelude.thy ===== *)
theory Prelude
  imports Main "HOL-Library.Word"
begin

text \<open>
  Shared vocabulary of the development: the machine integers of the sources as words of
  their width, byte buffers as lists of bytes, the memory image of an unsigned integer on
  a little-endian host (what \<open>std::memcpy\<close> of an integer reads and writes), writes of a
  byte block at an offset of a buffer, and the generic lemmas on lists and words that the
  component theories rely on.
\<close>

unbundle bit_operations_syntax

type_synonym u8 = "8 word"
type_synonym u16 = "16 word"
type_synonym u32 = "32 word"
type_synonym u64 = "64 word"
type_synonym bytes = "u8 list"

text \<open>
  \<open>layout\<close> collects the facts that compute a field of a fixed-layout buffer,
  \<open>wellformed\<close> the preservation facts of component invariants.
\<close>

named_theorems layout \<open>facts that compute fields of fixed-layout buffers\<close>
named_theorems wellformed \<open>preservation of component invariants\<close>

section \<open>Memory image of integers\<close>

text \<open>
  \<open>le_bytes n v\<close> is the memory image of the \<open>n\<close>-byte integer \<open>v\<close> on a little-endian host,
  \<open>of_le_bytes\<close> reads it back.
\<close>

definition le_bytes :: "nat \<Rightarrow> 'a::len word \<Rightarrow> bytes" where
  "le_bytes n v = map (\<lambda>i. ucast (drop_bit (8 * i) v)) [0..<n]"

fun of_le_bytes :: "bytes \<Rightarrow> 'a::len word" where
  "of_le_bytes [] = 0"
| "of_le_bytes (b # bs) = ucast b OR push_bit 8 (of_le_bytes bs)"

lemma length_le_bytes [simp]: "length (le_bytes n v) = n"
  by (simp add: le_bytes_def)

lemma nth_le_bytes: "i < n \<Longrightarrow> le_bytes n v ! i = ucast (drop_bit (8 * i) v)"
  by (simp add: le_bytes_def)

lemma bit_of_le_bytes:
  "bit (of_le_bytes bs :: 'a::len word) k \<longleftrightarrow>
     k < LENGTH('a) \<and> k < 8 * length bs \<and> bit (bs ! (k div 8)) (k mod 8)"
proof (induction bs arbitrary: k)
  case Nil
  then show ?case by simp
next
  case (Cons b bs)
  show ?case
  proof (cases "k < 8")
    case True
    then show ?thesis
      by (auto simp add: bit_or_iff bit_ucast_iff bit_push_bit_iff)
  next
    case False
    then have "(b # bs) ! (k div 8) = bs ! ((k - 8) div 8)" and "(k - 8) mod 8 = k mod 8"
      by (auto simp add: nth_Cons' le_div_geq le_mod_geq)
    moreover have "\<not> bit b k"
      using False bit_imp_le_length [of b k] by auto
    ultimately show ?thesis
      using False Cons.IH [of "k - 8"]
      by (auto simp add: bit_or_iff bit_ucast_iff bit_push_bit_iff)
  qed
qed

lemma of_le_bytes_le_bytes:
  fixes v :: "'a::len word"
  assumes "LENGTH('a) \<le> 8 * n"
  shows "of_le_bytes (le_bytes n v) = v"
proof (rule bit_word_eqI)
  fix k assume "k < LENGTH('a)"
  with assms have "k div 8 < n" by auto
  then show "bit (of_le_bytes (le_bytes n v) :: 'a word) k = bit v k"
    using \<open>k < LENGTH('a)\<close> assms
    by (auto simp add: bit_of_le_bytes nth_le_bytes bit_ucast_iff bit_drop_bit_eq)
qed

lemma le_bytes_of_le_bytes:
  assumes "length bs = n" and "8 * n \<le> LENGTH('a)"
  shows "le_bytes n (of_le_bytes bs :: 'a::len word) = bs"
proof (rule nth_equalityI)
  show "length (le_bytes n (of_le_bytes bs :: 'a word)) = length bs"
    using assms by simp
next
  fix i assume "i < length (le_bytes n (of_le_bytes bs :: 'a word))"
  then have i: "i < n" by simp
  have "bit (of_le_bytes bs :: 'a word) (8 * i + k) = bit (bs ! i) k" if "k < 8" for k
  proof -
    have "8 * i + k < 8 * n" using i that by linarith
    moreover have "(8 * i + k) div 8 = i" and "(8 * i + k) mod 8 = k"
      using that by auto
    ultimately show ?thesis using assms by (simp add: bit_of_le_bytes)
  qed
  then show "le_bytes n (of_le_bytes bs :: 'a word) ! i = bs ! i"
    using i by (auto intro!: bit_word_eqI simp add: nth_le_bytes bit_ucast_iff bit_drop_bit_eq)
qed

lemma le_bytes_append: "le_bytes (m + n) v = le_bytes m v @ le_bytes n (drop_bit (8 * m) v)"
  by (rule nth_equalityI) (auto simp add: nth_append nth_le_bytes algebra_simps drop_bit_drop_bit)

lemma le_bytes_ucast:
  fixes v :: "'a::len word"
  assumes "8 * n \<le> LENGTH('b::len)"
  shows "le_bytes n (ucast v :: 'b word) = le_bytes n v"
proof (rule nth_equalityI)
  fix i assume "i < length (le_bytes n (ucast v :: 'b word))"
  then have i: "i < n" by simp
  then show "le_bytes n (ucast v :: 'b word) ! i = le_bytes n v ! i"
    using assms by (auto intro!: bit_word_eqI simp add: nth_le_bytes bit_simps)
qed simp

lemma le_bytes_4:
  "le_bytes 4 v = [ucast v, ucast (drop_bit 8 v), ucast (drop_bit 16 v), ucast (drop_bit 24 v)]"
proof -
  have "[0..<4] = [0, 1, 2, 3::nat]" by (simp add: upt_rec)
  then show ?thesis by (simp add: le_bytes_def)
qed

section \<open>Writes into a buffer\<close>

text \<open>\<open>put_at buf off bs\<close> is \<open>std::memcpy(buf + off, bs, |bs|)\<close>.\<close>

definition put_at :: "bytes \<Rightarrow> nat \<Rightarrow> bytes \<Rightarrow> bytes" where
  "put_at buf off bs = take off buf @ bs @ drop (off + length bs) buf"

definition get_at :: "bytes \<Rightarrow> nat \<Rightarrow> nat \<Rightarrow> bytes" where
  "get_at buf off n = take n (drop off buf)"

lemma length_put_at [simp]:
  "off + length bs \<le> length buf \<Longrightarrow> length (put_at buf off bs) = length buf"
  by (simp add: put_at_def)

lemma put_at_prefix:
  "length pre = off \<Longrightarrow> put_at (pre @ rest) off bs = (pre @ bs) @ drop (length bs) rest"
  by (auto simp add: put_at_def)

lemma get_put_same:
  "off + length bs \<le> length buf \<Longrightarrow> length bs = n \<Longrightarrow> get_at (put_at buf off bs) off n = bs"
  by (simp add: put_at_def get_at_def)

lemma get_put_before:
  "o2 + n \<le> off \<Longrightarrow> off + length bs \<le> length buf \<Longrightarrow>
     get_at (put_at buf off bs) o2 n = get_at buf o2 n"
  by (auto simp add: put_at_def get_at_def take_drop min_def)

lemma get_put_after:
  "off + length bs \<le> o2 \<Longrightarrow> off + length bs \<le> length buf \<Longrightarrow>
     get_at (put_at buf off bs) o2 n = get_at buf o2 n"
  by (auto simp add: put_at_def get_at_def)

lemma get_at_append_left [layout]:
  "off + n \<le> length xs \<Longrightarrow> get_at (xs @ ys) off n = get_at xs off n"
  by (simp add: get_at_def)

lemma get_at_append_right [layout]:
  "length xs \<le> off \<Longrightarrow> get_at (xs @ ys) off n = get_at ys (off - length xs) n"
  by (simp add: get_at_def)

lemma get_at_Cons [layout]: "0 < off \<Longrightarrow> get_at (x # xs) off n = get_at xs (off - 1) n"
  by (simp add: get_at_def drop_Cons')

lemma get_at_whole [layout]: "length xs = n \<Longrightarrow> get_at xs 0 n = xs"
  by (simp add: get_at_def)

lemma length_get_at [layout]: "off + n \<le> length xs \<Longrightarrow> length (get_at xs off n) = n"
  by (simp add: get_at_def)

section \<open>Words and lists\<close>

lemma xor_right_cancel: "a XOR c = b XOR c \<longleftrightarrow> a = (b :: 'a::len word)"
  by (metis xor.assoc xor.right_neutral xor_self_eq)


lemma drop_Suc_nth: "i < length xs \<Longrightarrow> drop i xs = xs ! i # drop (Suc i) xs"
  by (rule Cons_nth_drop_Suc [symmetric])

lemma list_update_split:
  "i < length xs \<Longrightarrow> xs[i := x] = take i xs @ x # drop (Suc i) xs"
  by (rule upd_conv_take_nth_drop)

lemma unat_plus_one: "(x :: 'a::len word) < y \<Longrightarrow> unat (x + 1) = unat x + 1"
proof -
  assume "x < y"
  have "unat y < 2 ^ LENGTH('a)" by (rule unsigned_less)
  moreover have "unat x < unat y" using \<open>x < y\<close> by (simp add: word_less_nat_alt)
  ultimately have "Suc (unat x) < 2 ^ LENGTH('a)" by linarith
  then show ?thesis by (simp add: unat_word_ariths)
qed

lemma word_next: "(x :: 'a::len word) < y \<Longrightarrow> x < x + 1 \<and> x + 1 \<le> y"
  using unat_plus_one [of x y] by (auto simp add: word_less_nat_alt word_le_nat_alt)

section \<open>Time\<close>

text \<open>Points and durations of the monotonic clock, in nanoseconds; handlers get \<open>now\<close> as an
  argument.\<close>

type_synonym time = int

definition microseconds :: "int \<Rightarrow> time" where "microseconds n = 1000 * n"
definition milliseconds :: "int \<Rightarrow> time" where "milliseconds n = 1000000 * n"
definition seconds :: "int \<Rightarrow> time" where "seconds n = 1000000000 * n"

section \<open>Runs of a component\<close>

text \<open>A component is driven by a list of events; an invariant every handler keeps holds after
  every run.\<close>

fun run_events :: "('e \<Rightarrow> 's \<Rightarrow> 's) \<Rightarrow> 'e list \<Rightarrow> 's \<Rightarrow> 's" where
  "run_events step [] s = s"
| "run_events step (e # es) s = run_events step es (step e s)"

locale stepwise =
  fixes inv :: "'s \<Rightarrow> bool" and step :: "'e \<Rightarrow> 's \<Rightarrow> 's"
  assumes step_keeps: "inv s \<Longrightarrow> inv (step e s)"
begin

lemma run_keeps: "inv s \<Longrightarrow> inv (run_events step es s)"
  by (induction es arbitrary: s) (simp_all add: step_keeps)

end

end
