(* ===== verification/Wire.thy ===== *)
theory Wire
  imports Prelude
begin

text \<open>
  The wire vocabulary of the tight transport: \<open>wire_format.hpp\<close> (constants, the channel
  nibble of the \<open>reserved\<close> field, the byte-order helpers) and the enumerations and the packet
  header of \<open>types.hpp\<close>.  The \<open>put\<close>/\<open>get\<close> helpers are the lambdas of
  \<open>packet_codec.cpp\<close>: a byte-order conversion followed by a \<open>memcpy\<close> of the integer on a
  little-endian host.
\<close>

section \<open>Constants and byte order\<close>

definition kMagic :: u32 where "kMagic = 0x54474854"
definition kVersion :: u8 where "kVersion = 1"
definition kHeaderSize :: nat where "kHeaderSize = 48"
definition kFlagEncrypted :: u16 where "kFlagEncrypted = 0x8000"
definition kChannelShift :: nat where "kChannelShift = 12"
definition kChannelMask :: u16 where "kChannelMask = 0xF000"
definition kRealSizeMask :: u16 where "kRealSizeMask = 0x0FFF"

definition channel_of :: "u16 \<Rightarrow> u8" where
  "channel_of r = ucast (drop_bit kChannelShift (r AND kChannelMask))"

definition to_be16 :: "u16 \<Rightarrow> u16" where
  "to_be16 v = push_bit 8 (v AND 0x00FF) OR drop_bit 8 (v AND 0xFF00)"

definition to_be32 :: "u32 \<Rightarrow> u32" where
  "to_be32 v = push_bit 24 (v AND 0x000000FF) OR push_bit 8 (v AND 0x0000FF00)
     OR drop_bit 8 (v AND 0x00FF0000) OR drop_bit 24 (v AND 0xFF000000)"

definition to_be64 :: "u64 \<Rightarrow> u64" where
  "to_be64 v =
     push_bit 32 (ucast (to_be32 (ucast (drop_bit 32 v AND 0xFFFFFFFF))))
     OR ucast (to_be32 (ucast (v AND 0xFFFFFFFF)))"

section \<open>Enumerations\<close>

text \<open>A \<open>PacketType\<close> read from the wire is a cast of an unchecked byte, so a value outside the
  enumerators is possible and kept as \<open>Unknown\<close>.\<close>

datatype packet_type =
    Handshake | HandshakeAck | Online | Heartbeat | Bye | Data | Parity | Ack | Report | Probe
  | Command | Unknown u8

fun packet_type_of_byte :: "u8 \<Rightarrow> packet_type" where
  "packet_type_of_byte b =
     (if b = 0 then Handshake else if b = 1 then HandshakeAck else if b = 2 then Online
      else if b = 3 then Heartbeat else if b = 4 then Bye else if b = 5 then Data
      else if b = 6 then Parity else if b = 7 then Ack else if b = 8 then Report
      else if b = 9 then Probe else if b = 10 then Command else Unknown b)"

declare packet_type_of_byte.simps [simp del]

fun packet_type_byte :: "packet_type \<Rightarrow> u8" where
  "packet_type_byte Handshake = 0"
| "packet_type_byte HandshakeAck = 1"
| "packet_type_byte Online = 2"
| "packet_type_byte Heartbeat = 3"
| "packet_type_byte Bye = 4"
| "packet_type_byte Data = 5"
| "packet_type_byte Parity = 6"
| "packet_type_byte Ack = 7"
| "packet_type_byte Report = 8"
| "packet_type_byte Probe = 9"
| "packet_type_byte Command = 10"
| "packet_type_byte (Unknown b) = b"

datatype link_role = Leaf | Node

datatype link_state = LClosed | LHandshake | LEstablished | LOnline

datatype lite_profile = Audio | Video

section \<open>Packet header\<close>

record packet_header =
  h_magic :: u32
  h_version :: u8
  h_type :: packet_type
  h_flags :: u16
  h_client_id :: u32
  h_session_id :: u64
  h_sequence :: u32
  h_acknowledgment :: u32
  h_message_id :: u32
  h_fragment_index :: u16
  h_fragment_count :: u16
  h_payload_size :: u16
  h_reserved :: u16
  h_tick :: u32
  h_checksum :: u32

text \<open>The value-initialised header \<open>PacketHeader{}\<close>.\<close>

definition header0 :: packet_header where
  "header0 = \<lparr> h_magic = 0, h_version = 0, h_type = Handshake, h_flags = 0, h_client_id = 0,
     h_session_id = 0, h_sequence = 0, h_acknowledgment = 0, h_message_id = 0,
     h_fragment_index = 0, h_fragment_count = 0, h_payload_size = 0, h_reserved = 0,
     h_tick = 0, h_checksum = 0 \<rparr>"

section \<open>Fixed-offset integers of a datagram\<close>

definition put8 :: "bytes \<Rightarrow> nat \<Rightarrow> u8 \<Rightarrow> bytes" where
  "put8 p off v = put_at p off [v]"

definition put16 :: "bytes \<Rightarrow> nat \<Rightarrow> u16 \<Rightarrow> bytes" where
  "put16 p off v = put_at p off (le_bytes 2 (to_be16 v))"

definition put32 :: "bytes \<Rightarrow> nat \<Rightarrow> u32 \<Rightarrow> bytes" where
  "put32 p off v = put_at p off (le_bytes 4 (to_be32 v))"

definition put64 :: "bytes \<Rightarrow> nat \<Rightarrow> u64 \<Rightarrow> bytes" where
  "put64 p off v = put_at p off (le_bytes 8 (to_be64 v))"

definition get16 :: "bytes \<Rightarrow> nat \<Rightarrow> u16" where
  "get16 p off = to_be16 (of_le_bytes (get_at p off 2))"

definition get32 :: "bytes \<Rightarrow> nat \<Rightarrow> u32" where
  "get32 p off = to_be32 (of_le_bytes (get_at p off 4))"

definition get64 :: "bytes \<Rightarrow> nat \<Rightarrow> u64" where
  "get64 p off =
     (let lo = get32 p off; hi = get32 p (off + 4) in push_bit 32 (ucast hi) OR ucast lo)"

section \<open>Lemmas\<close>

lemma packet_type_byte_of_byte [simp]: "packet_type_byte (packet_type_of_byte b) = b"
  by (simp add: packet_type_of_byte.simps)

lemma packet_type_of_byte_byte:
  "(\<And>b. t = Unknown b \<Longrightarrow> 10 < b) \<Longrightarrow> packet_type_of_byte (packet_type_byte t) = t"
  by (cases t) (auto simp add: packet_type_of_byte.simps)

lemma masks_u16: "(0x00FF::u16) = mask 8" "(0xFF00::u16) = push_bit 8 (mask 8)"
  by (simp_all add: mask_eq_exp_minus_1 push_bit_eq_mult)

lemma masks_u32:
  "(0x000000FF::u32) = mask 8" "(0x0000FF00::u32) = push_bit 8 (mask 8)"
  "(0x00FF0000::u32) = push_bit 16 (mask 8)" "(0xFF000000::u32) = push_bit 24 (mask 8)"
  by (simp_all add: mask_eq_exp_minus_1 push_bit_eq_mult)

lemma mask_u64: "(0xFFFFFFFF::u64) = mask 32"
  by (simp add: mask_eq_exp_minus_1)

lemma bit_to_be16: "bit (to_be16 v) k \<longleftrightarrow> k < 16 \<and> bit v (8 * (1 - k div 8) + k mod 8)"
proof -
  have "k = 8 * (k div 8) + k mod 8" by simp
  then obtain q r where k: "k = 8 * q + r" and r: "r < 8"
    by (metis mod_less_divisor zero_less_numeral)
  have d: "k div 8 = q" "k mod 8 = r" using k r by auto
  consider "q = 0" | "q = 1" | "2 \<le> q" by linarith
  then show ?thesis using r unfolding d unfolding k
    by cases (auto simp add: to_be16_def masks_u16 bit_simps add.commute)
qed

lemma bit_to_be32: "bit (to_be32 v) k \<longleftrightarrow> k < 32 \<and> bit v (8 * (3 - k div 8) + k mod 8)"
proof -
  have "k = 8 * (k div 8) + k mod 8" by simp
  then obtain q r where k: "k = 8 * q + r" and r: "r < 8"
    by (metis mod_less_divisor zero_less_numeral)
  have d: "k div 8 = q" "k mod 8 = r" using k r by auto
  consider "q = 0" | "q = 1" | "q = 2" | "q = 3" | "4 \<le> q" by linarith
  then show ?thesis using r unfolding d unfolding k
    by cases (auto simp add: to_be32_def masks_u32 bit_simps add.commute)
qed

lemma to_be16_involution [simp]: "to_be16 (to_be16 v) = v"
proof (rule bit_word_eqI)
  fix k assume k: "k < LENGTH(16)"
  define q where "q = Suc 0 - k div 8"
  have "(8 * q + k mod 8) div 8 = q" "(8 * q + k mod 8) mod 8 = k mod 8" by auto
  moreover have "8 * q + k mod 8 < 16"
    by (auto simp add: q_def intro: le_less_trans [of _ "8 * 1 + k mod 8"])
  moreover have "Suc 0 - q = k div 8" using k by (auto simp add: q_def)
  ultimately show "bit (to_be16 (to_be16 v)) k = bit v k"
    using k by (simp add: bit_to_be16 flip: q_def)
qed

lemma to_be32_involution [simp]: "to_be32 (to_be32 v) = v"
proof (rule bit_word_eqI)
  fix k assume k: "k < LENGTH(32)"
  define q where "q = 3 - k div 8"
  have "(8 * q + k mod 8) div 8 = q" "(8 * q + k mod 8) mod 8 = k mod 8" by auto
  moreover have "8 * q + k mod 8 < 32"
    by (auto simp add: q_def intro: le_less_trans [of _ "8 * 3 + k mod 8"])
  moreover have "3 - q = k div 8" using k by (auto simp add: q_def)
  ultimately show "bit (to_be32 (to_be32 v)) k = bit v k"
    using k by (simp add: bit_to_be32 flip: q_def)
qed

lemma le_bytes_to_be32:
  "le_bytes 4 (to_be32 v) =
     [ucast (drop_bit 24 v), ucast (drop_bit 16 v), ucast (drop_bit 8 v), ucast v]"
proof -
  have "(ucast (drop_bit (8 * i) (to_be32 v)) :: u8) = ucast (drop_bit (8 * (3 - i)) v)"
    if "i < 4" for i
    by (rule bit_word_eqI) (use that in \<open>auto simp add: bit_simps bit_to_be32 div_add1_eq\<close>)
  from this [of 0] this [of 1] this [of 2] this [of 3] show ?thesis
    by (simp add: le_bytes_4)
qed

text \<open>\<open>to_be64\<close> swaps the bytes of each half but leaves the halves in place: on a little-endian
  host the low word goes first on the wire.\<close>

lemma le_bytes_to_be64:
  "le_bytes 8 (to_be64 v) =
     le_bytes 4 (to_be32 (ucast v)) @ le_bytes 4 (to_be32 (ucast (drop_bit 32 v)))"
proof -
  have lo: "le_bytes 4 (to_be64 v) = le_bytes 4 (to_be32 (ucast v))"
  proof (rule nth_equalityI)
    fix i assume "i < length (le_bytes 4 (to_be64 v))"
    then show "le_bytes 4 (to_be64 v) ! i = le_bytes 4 (to_be32 (ucast v)) ! i"
      by (auto intro!: bit_word_eqI simp add: nth_le_bytes to_be64_def mask_u64 bit_simps bit_to_be32)
  qed simp
  have "drop_bit 32 (to_be64 v) = ucast (to_be32 (ucast (drop_bit 32 v)))"
    by (auto intro!: bit_word_eqI simp add: to_be64_def mask_u64 bit_simps bit_to_be32)
  then have "le_bytes 4 (drop_bit (8 * 4) (to_be64 v)) =
      le_bytes 4 (to_be32 (ucast (drop_bit 32 v)))"
    by (simp add: le_bytes_ucast)
  then show ?thesis
    using le_bytes_append [of 4 4 "to_be64 v"] lo by simp
qed

text \<open>Reading back what was written, at the same place and past a disjoint block.\<close>

lemma get16_put16: "off + 2 \<le> length p \<Longrightarrow> get16 (put16 p off v) off = v"
  by (simp add: get16_def put16_def get_put_same of_le_bytes_le_bytes)

lemma get32_put32: "off + 4 \<le> length p \<Longrightarrow> get32 (put32 p off v) off = v"
  by (simp add: get32_def put32_def get_put_same of_le_bytes_le_bytes)

lemma word_split_32: "push_bit 32 (ucast (ucast (drop_bit 32 v) :: u32)) OR ucast (ucast v :: u32) = (v :: u64)"
  by (auto intro!: bit_word_eqI simp add: bit_simps)

lemma get64_of_bytes:
  assumes "get_at p off 8 = le_bytes 8 (to_be64 v)"
  shows "get64 p off = v"
proof -
  have "get_at p off 4 = take 4 (get_at p off 8)"
    by (simp add: get_at_def)
  moreover have "get_at p (off + 4) 4 = drop 4 (get_at p off 8)"
    by (simp add: get_at_def drop_take add.commute)
  ultimately have "get32 p off = ucast v" and "get32 p (off + 4) = ucast (drop_bit 32 v)"
    using assms by (simp_all add: get32_def le_bytes_to_be64 of_le_bytes_le_bytes)
  then show ?thesis by (simp add: get64_def word_split_32)
qed

lemma get64_put64: "off + 8 \<le> length p \<Longrightarrow> get64 (put64 p off v) off = v"
  by (rule get64_of_bytes) (simp add: put64_def get_put_same)

lemma length_put [simp]:
  "off + 1 \<le> length p \<Longrightarrow> length (put8 p off b) = length p"
  "off + 2 \<le> length p \<Longrightarrow> length (put16 p off h) = length p"
  "off + 4 \<le> length p \<Longrightarrow> length (put32 p off w) = length p"
  "off + 8 \<le> length p \<Longrightarrow> length (put64 p off d) = length p"
  by (simp_all add: put8_def put16_def put32_def put64_def)

end
