(* ===== verification/Crc32.thy ===== *)
theory Crc32
  imports Prelude
begin

text \<open>
  The checksum of \<open>crc32.cpp\<close>: the 256-entry table and the streaming update, the interface
  \<open>stream_checksum\<close> the packet codec relies on, and the facts that discharge it: the
  table-driven update is the bit-serial division by the reflected polynomial, and it is
  injective in any window of at most four bytes.
\<close>

section \<open>Operations\<close>

text \<open>One turn of the inner loop of \<open>init_crc_table\<close>.\<close>

definition crc_step :: "u32 \<Rightarrow> u32" where
  "crc_step c = (if c AND 1 \<noteq> 0 then 0xEDB88320 XOR drop_bit 1 c else drop_bit 1 c)"

definition g_crc_table :: "u32 list" where
  "g_crc_table = map (\<lambda>i. (crc_step ^^ 8) (word_of_nat i)) [0..<256]"

fun crc32_update :: "u32 \<Rightarrow> bytes \<Rightarrow> u32" where
  "crc32_update crc [] = crc"
| "crc32_update crc (b # bs) =
     crc32_update (g_crc_table ! unat ((crc XOR ucast b) AND 0xFF) XOR drop_bit 8 crc) bs"

definition crc32_compute :: "bytes \<Rightarrow> u32" where
  "crc32_compute data = crc32_update 0xFFFFFFFF data XOR 0xFFFFFFFF"

section \<open>The interface of a streaming checksum\<close>

text \<open>
  What a client of a streaming checksum needs: feeding the pieces one after the other is
  feeding their concatenation, the state after a fixed suffix still tells apart the states
  before it, and two different blocks of the same length up to \<open>w\<close> lead to different states.
\<close>

locale stream_checksum =
  fixes upd :: "'s \<Rightarrow> 'b list \<Rightarrow> 's" and w :: nat
  assumes upd_Nil: "upd s [] = s"
    and upd_append: "upd s (xs @ ys) = upd (upd s xs) ys"
    and upd_inj: "upd s xs = upd t xs \<Longrightarrow> s = t"
    and upd_window: "length xs = length ys \<Longrightarrow> length xs \<le> w \<Longrightarrow> upd s xs = upd s ys \<Longrightarrow> xs = ys"
begin

lemma upd_three: "upd (upd (upd s xs) ys) zs = upd s (xs @ ys @ zs)"
  by (simp add: upd_append)

lemma burst_detected:
  assumes "length xs = length ys" and "length xs \<le> w" and "xs \<noteq> ys"
  shows "upd s (pre @ xs @ post) \<noteq> upd s (pre @ ys @ post)"
proof
  assume "upd s (pre @ xs @ post) = upd s (pre @ ys @ post)"
  then have "upd (upd s pre) xs = upd (upd s pre) ys"
    by (auto simp add: upd_append dest: upd_inj)
  then show False using assms upd_window by blast
qed

end

section \<open>The table is bit-serial division\<close>

lemma funpow_xor_hom:
  fixes f :: "'a::len word \<Rightarrow> 'a word"
  assumes "\<And>x y. f (x XOR y) = f x XOR f y"
  shows "(f ^^ n) (x XOR y) = (f ^^ n) x XOR (f ^^ n) y"
  by (induction n) (simp_all add: assms)

lemma crc_step_bit: "crc_step c = (if bit c 0 then 0xEDB88320 else 0) XOR drop_bit 1 c"
  by (simp add: crc_step_def and_one_eq bit_0 mod2_eq_if)

lemma crc_step_xor: "crc_step (x XOR y) = crc_step x XOR crc_step y"
  by (auto simp add: crc_step_bit drop_bit_xor bit_simps ac_simps bit_eq_iff)

lemmas crc_steps_xor = funpow_xor_hom [of crc_step, OF crc_step_xor]

lemma crc_poly_top: "bit (0xEDB88320 :: u32) 31"
  by (simp add: bit_iff_odd_drop_bit drop_bit_eq_div)

lemma crc_step_inj: "crc_step x = crc_step y \<Longrightarrow> x = y"
proof -
  assume eq: "crc_step x = crc_step y"
  define d where "d = x XOR y"
  have z: "crc_step d = 0"
    unfolding d_def crc_step_xor eq by simp
  have "\<not> bit (drop_bit 1 d) 31"
    using bit_imp_le_length [of d 32] by (auto simp add: bit_drop_bit_eq)
  then have b0: "\<not> bit d 0"
    using arg_cong [OF z, of "\<lambda>v. bit v 31"] crc_poly_top
    by (auto simp add: crc_step_bit bit_xor_iff split: if_splits)
  then have z1: "drop_bit 1 d = 0" using z by (simp add: crc_step_bit)
  have "d = 0"
  proof (rule bit_word_eqI)
    fix k assume "k < LENGTH(32)"
    show "bit d k = bit (0 :: u32) k"
    proof (cases k)
      case 0
      then show ?thesis using b0 by simp
    next
      case (Suc j)
      then show ?thesis
        using arg_cong [OF z1, of "\<lambda>z. bit z j"] by (simp add: bit_drop_bit_eq)
    qed
  qed
  then have "(x XOR y) XOR y = y" by (simp add: d_def)
  then show "x = y" by (simp add: xor.assoc)
qed

lemma crc_steps_inj: "(crc_step ^^ n) x = (crc_step ^^ n) y \<Longrightarrow> x = y"
  by (induction n) (auto dest: crc_step_inj)

lemma crc_steps_shift:
  "(\<And>k. k < n \<Longrightarrow> \<not> bit x k) \<Longrightarrow> (crc_step ^^ n) x = drop_bit n x"
proof (induction n)
  case (Suc n)
  then have "(crc_step ^^ n) x = drop_bit n x" by simp
  moreover have "\<not> bit (drop_bit n x) 0" using Suc.prems by (simp add: bit_drop_bit_eq)
  ultimately show ?case by (simp add: crc_step_bit [of "drop_bit n x"])
qed simp

lemma crc_table_step:
  "g_crc_table ! unat ((crc XOR ucast b) AND 0xFF) XOR drop_bit 8 crc
   = (crc_step ^^ 8) (crc XOR ucast (b :: u8))"
proof -
  define x where "x = crc XOR ucast b"
  have m: "(0xFF :: u32) = mask 8" by (simp add: mask_eq_exp_minus_1)
  have lt: "unat (x AND 0xFF) < 256"
    unfolding m by (simp add: unsigned_take_bit_eq take_bit_nat_less_exp [of 8, simplified] flip: take_bit_eq_mask)
  then have tab: "g_crc_table ! unat (x AND 0xFF) = (crc_step ^^ 8) (x AND 0xFF)"
    by (simp add: g_crc_table_def)
  have split: "x = (x AND mask 8) XOR (x AND NOT (mask 8))"
    by (rule bit_word_eqI) (auto simp add: bit_simps)
  have "(crc_step ^^ 8) (x AND NOT (mask 8)) = drop_bit 8 (x AND NOT (mask 8))"
    by (rule crc_steps_shift) (simp add: bit_simps)
  also have "\<dots> = drop_bit 8 crc"
    by (rule bit_word_eqI) (auto simp add: x_def bit_simps dest: bit_imp_le_length)
  finally have "(crc_step ^^ 8) x = (crc_step ^^ 8) (x AND mask 8) XOR drop_bit 8 crc"
    using split crc_steps_xor by metis
  then show ?thesis using tab by (simp add: x_def m)
qed


lemma crc32_update_serial:
  "crc32_update crc bs = foldl (\<lambda>c b. (crc_step ^^ 8) (c XOR ucast b)) crc bs"
  by (induction bs arbitrary: crc) (simp_all add: crc_table_step del: funpow.simps)

section \<open>The checksum laws hold\<close>

lemma crc32_update_append: "crc32_update crc (xs @ ys) = crc32_update (crc32_update crc xs) ys"
  by (induction xs arbitrary: crc) simp_all

lemma crc32_update_inj: "crc32_update s xs = crc32_update t xs \<Longrightarrow> s = t"
proof (induction xs arbitrary: s t)
  case (Cons b xs)
  then have "(crc_step ^^ 8) (s XOR ucast b) = (crc_step ^^ 8) (t XOR ucast b)"
    by (simp add: crc_table_step)
  then have "s XOR ucast b = t XOR ucast b" by (rule crc_steps_inj)
  then have "(s XOR ucast b) XOR ucast b = (t XOR ucast b) XOR ucast b" by simp
  then show ?case by (simp add: xor.assoc)
qed simp

lemma push_bit_low: "k < n \<Longrightarrow> \<not> bit (push_bit n (w :: 'a::len word)) k"
  by (simp add: bit_push_bit_iff)

text \<open>Over at most four bytes the update is one division of the little-endian word they form.\<close>

lemma crc32_update_word:
  "length bs \<le> 4 \<Longrightarrow> crc32_update c bs = (crc_step ^^ (8 * length bs)) (c XOR of_le_bytes bs)"
proof (induction bs arbitrary: c)
  case (Cons b bs)
  define w where "w = (of_le_bytes bs :: u32)"
  have len: "length bs \<le> 3" using Cons.prems by simp
  have hi: "(crc_step ^^ 8) (push_bit 8 w) = w"
  proof -
    have "drop_bit 8 (push_bit 8 w) = w"
      using len by (auto intro!: bit_word_eqI simp add: bit_simps w_def bit_of_le_bytes)
    then show ?thesis by (simp only: crc_steps_shift [OF push_bit_low])
  qed
  have or_xor: "(ucast b OR push_bit 8 w :: u32) = ucast b XOR push_bit 8 w"
    by (rule bit_word_eqI) (auto simp add: bit_simps dest: bit_imp_le_length)
  have "(crc_step ^^ (8 * length bs + 8)) (c XOR (ucast b XOR push_bit 8 w))
        = (crc_step ^^ (8 * length bs)) ((crc_step ^^ 8) (c XOR ucast b) XOR w)"
    by (simp only: funpow_add comp_apply crc_steps_xor hi flip: xor.assoc)
  moreover have "crc32_update c (b # bs)
        = (crc_step ^^ (8 * length bs)) ((crc_step ^^ 8) (c XOR ucast b) XOR w)"
    using Cons.IH [of "(crc_step ^^ 8) (c XOR ucast b)"] Cons.prems
    by (simp add: crc_table_step w_def del: funpow.simps)
  ultimately show ?case by (simp add: or_xor add.commute flip: w_def)
qed simp

lemma crc32_update_window:
  assumes "length xs = length ys" and "length xs \<le> 4" and "crc32_update s xs = crc32_update s ys"
  shows "xs = ys"
proof -
  have "s XOR of_le_bytes xs = s XOR (of_le_bytes ys :: u32)"
    using assms by (auto simp add: crc32_update_word dest: crc_steps_inj)
  then have "s XOR (s XOR of_le_bytes xs) = s XOR (s XOR (of_le_bytes ys :: u32))" by simp
  then have "of_le_bytes xs = (of_le_bytes ys :: u32)" by (simp flip: xor.assoc)
  then show ?thesis
    using le_bytes_of_le_bytes [of xs "length xs", where 'a = 32]
      le_bytes_of_le_bytes [of ys "length xs", where 'a = 32] assms by simp
qed

interpretation crc: stream_checksum crc32_update 4
  by unfold_locales
    (auto simp add: crc32_update_append dest: crc32_update_inj intro: crc32_update_window)

declare crc32_update.simps [simp del]

section \<open>Properties\<close>

text \<open>
  The table-driven checksum is CRC-32.  For every input \<open>crc32_compute\<close> is the
  bit-serial division: eight shift-and-subtract steps of the reflected polynomial
  \<open>0xEDB88320\<close> per byte, from the all-ones state, complemented at the end.
\<close>

theorem crc32_table_is_serial:
  "crc32_compute data =
     NOT (foldl (\<lambda>c b. (crc_step ^^ 8) (c XOR ucast b)) (- 1) data)"
proof -
  have "(0xFFFFFFFF :: u32) = - 1" by simp
  moreover have "x XOR - 1 = NOT x" for x :: u32
    by (rule bit_word_eqI) (simp add: bit_simps)
  ultimately show ?thesis
    unfolding crc32_compute_def crc32_update_serial by (simp only:)
qed

end
