(* ===== verification/Packet_Codec.thy ===== *)
theory Packet_Codec
  imports Wire Crc32
begin

text \<open>
  The packet codec of \<open>packet_codec.cpp\<close>: the 48-byte header written field by field at its
  fixed offsets, the CRC written last over the finished datagram, and the decoder with its
  checks in source order.  The out-parameters of \<open>decode\<close> are threaded explicitly; the CRC is
  used only through the interface \<open>stream_checksum\<close>.
\<close>

section \<open>Operations\<close>

definition encode_header_to :: "packet_header \<Rightarrow> bytes \<Rightarrow> bytes" where
  "encode_header_to h out =
    (let p = put32 out 0 (h_magic h);
         p = put8 p 4 (h_version h);
         p = put8 p 5 (packet_type_byte (h_type h));
         p = put16 p 6 (h_flags h);
         p = put32 p 8 (h_client_id h);
         p = put64 p 12 (h_session_id h);
         p = put32 p 20 (h_sequence h);
         p = put32 p 24 (h_acknowledgment h);
         p = put32 p 28 (h_message_id h);
         p = put16 p 32 (h_fragment_index h);
         p = put16 p 34 (h_fragment_count h);
         p = put16 p 36 (h_payload_size h);
         p = put16 p 38 (h_reserved h);
         p = put32 p 40 (h_tick h)
     in put32 p 44 0)"

definition finalize_crc :: "bytes \<Rightarrow> nat \<Rightarrow> bytes" where
  "finalize_crc datagram sz =
    (if sz < kHeaderSize then datagram
     else let d = put_at datagram 44 [0, 0, 0, 0];
              crc = crc32_update 0xFFFFFFFF (take sz d)
          in put32 d 44 (crc XOR 0xFFFFFFFF))"

definition encode_to :: "packet_header \<Rightarrow> bytes \<Rightarrow> bytes \<Rightarrow> nat \<times> bytes" where
  "encode_to h payload out =
    (let p = encode_header_to h out;
         total = kHeaderSize;
         (total, p) = (if payload \<noteq> [] then (total + length payload, put_at p kHeaderSize payload)
                       else (total, p))
     in (total, finalize_crc p total))"

definition encode :: "packet_header \<Rightarrow> bytes \<Rightarrow> bytes" where
  "encode h payload = snd (encode_to h payload (replicate (kHeaderSize + length payload) 0))"

text \<open>\<open>decode_into p h0 pl0\<close> returns the flag and the final values of the two out-parameters.\<close>

definition decode_into ::
  "bytes \<Rightarrow> packet_header \<Rightarrow> bytes \<Rightarrow> bool \<times> packet_header \<times> bytes" where
  "decode_into p h0 pl0 =
    (if length p < kHeaderSize then (False, h0, pl0)
     else let magic = get32 p 0 in
       if magic \<noteq> kMagic then (False, h0, pl0)
       else let version = p ! 4 in
         if version \<noteq> kVersion then (False, h0, pl0)
         else let payload_size = get16 p 36;
                  h = \<lparr> h_magic = magic, h_version = version,
                        h_type = packet_type_of_byte (p ! 5), h_flags = get16 p 6,
                        h_client_id = get32 p 8, h_session_id = get64 p 12,
                        h_sequence = get32 p 20, h_acknowledgment = get32 p 24,
                        h_message_id = get32 p 28, h_fragment_index = get16 p 32,
                        h_fragment_count = get16 p 34, h_payload_size = payload_size,
                        h_reserved = get16 p 38, h_tick = get32 p 40,
                        h_checksum = get32 p 44 \<rparr>
              in if length p < kHeaderSize + unat payload_size then (False, h, pl0)
                 else let crc = crc32_update 0xFFFFFFFF (take 44 p);
                          crc = crc32_update crc [0, 0, 0, 0];
                          crc = crc32_update crc (get_at p kHeaderSize (unat payload_size))
                      in if crc XOR 0xFFFFFFFF \<noteq> h_checksum h then (False, h, pl0)
                         else (True, h, get_at p kHeaderSize (unat payload_size)))"

text \<open>The callers drop the datagram when \<open>decode\<close> returns false, so they see an option.\<close>

definition decode :: "bytes \<Rightarrow> (packet_header \<times> bytes) option" where
  "decode p = (case decode_into p header0 [] of (ok, h, pl) \<Rightarrow> if ok then Some (h, pl) else None)"

section \<open>The header as one block\<close>

text \<open>The 44 bytes before the checksum.\<close>

definition header_fields :: "packet_header \<Rightarrow> bytes" where
  "header_fields h =
     le_bytes 4 (to_be32 (h_magic h)) @ [h_version h] @ [packet_type_byte (h_type h)]
     @ le_bytes 2 (to_be16 (h_flags h)) @ le_bytes 4 (to_be32 (h_client_id h))
     @ le_bytes 8 (to_be64 (h_session_id h)) @ le_bytes 4 (to_be32 (h_sequence h))
     @ le_bytes 4 (to_be32 (h_acknowledgment h)) @ le_bytes 4 (to_be32 (h_message_id h))
     @ le_bytes 2 (to_be16 (h_fragment_index h)) @ le_bytes 2 (to_be16 (h_fragment_count h))
     @ le_bytes 2 (to_be16 (h_payload_size h)) @ le_bytes 2 (to_be16 (h_reserved h))
     @ le_bytes 4 (to_be32 (h_tick h))"

lemma length_header_fields [simp]: "length (header_fields h) = 44"
  by (simp add: header_fields_def)

lemma put_at_fuse:
  assumes "off2 = off + length xs" and "off2 + length ys \<le> length p"
  shows "put_at (put_at p off xs) off2 ys = put_at p off (xs @ ys)"
proof -
  have "off + length xs \<le> length p" using assms by simp
  then have "min (length p) off = off" by simp
  then show ?thesis
    using assms by (simp add: put_at_def add.commute add.left_commute)
qed

lemma encode_header_to_block:
  assumes "48 \<le> length out"
  shows "encode_header_to h out = header_fields h @ [0, 0, 0, 0] @ drop 48 out"
proof -
  have zero: "le_bytes 4 (to_be32 0) = [0, 0, 0, 0]" by (simp add: le_bytes_to_be32)
  have "encode_header_to h out = put_at out 0 (header_fields h @ [0, 0, 0, 0])"
    unfolding encode_header_to_def put32_def put16_def put64_def put8_def Let_def
      header_fields_def zero
    using assms by (simp only: put_at_fuse append_assoc length_append length_le_bytes list.size
        add_0 arith_simps One_nat_def)
  then show ?thesis by (simp add: put_at_def)
qed

definition datagram_crc :: "packet_header \<Rightarrow> bytes \<Rightarrow> u32" where
  "datagram_crc h payload =
     crc32_update 0xFFFFFFFF (header_fields h @ [0, 0, 0, 0] @ payload) XOR 0xFFFFFFFF"

lemma finalize_crc_block:
  assumes "length zs = 4" and "n = 48 + length payload"
  shows "finalize_crc (header_fields h @ zs @ payload @ rest) n =
     header_fields h @ le_bytes 4 (to_be32 (datagram_crc h payload)) @ payload @ rest"
proof -
  have "put_at (header_fields h @ zs @ payload @ rest) 44 [0, 0, 0, 0] =
      header_fields h @ [0, 0, 0, 0] @ payload @ rest"
    using assms by (simp add: put_at_def)
  moreover have "take n ((header_fields h @ [0, 0, 0, 0] @ payload) @ rest) =
      header_fields h @ [0, 0, 0, 0] @ payload"
    using assms by (intro trans [OF take_append]) simp
  ultimately show ?thesis
    using assms by (simp add: finalize_crc_def kHeaderSize_def put32_def put_at_def datagram_crc_def)
qed

lemma encode_block:
  "encode h payload =
     header_fields h @ le_bytes 4 (to_be32 (datagram_crc h payload)) @ payload"
proof -
  define out where "out = (replicate (48 + length payload) 0 :: bytes)"
  have "encode_header_to h out = header_fields h @ [0, 0, 0, 0] @ replicate (length payload) 0"
    by (subst encode_header_to_block) (simp_all add: out_def)
  then show ?thesis
    using finalize_crc_block [of "[0, 0, 0, 0]" "48 + length payload" payload h "[]"]
    by (cases "payload = []")
      (auto simp add: encode_def encode_to_def kHeaderSize_def put_at_def out_def)
qed

lemma length_encode [simp]: "length (encode h payload) = 48 + length payload"
  by (simp add: encode_block)

section \<open>Decoding\<close>

lemma get_fields:
  fixes h :: packet_header and rest :: bytes
  defines "p \<equiv> header_fields h @ rest"
  shows "get32 p 0 = h_magic h" "p ! 4 = h_version h" "p ! 5 = packet_type_byte (h_type h)"
    "get16 p 6 = h_flags h" "get32 p 8 = h_client_id h" "get64 p 12 = h_session_id h"
    "get32 p 20 = h_sequence h" "get32 p 24 = h_acknowledgment h" "get32 p 28 = h_message_id h"
    "get16 p 32 = h_fragment_index h" "get16 p 34 = h_fragment_count h"
    "get16 p 36 = h_payload_size h" "get16 p 38 = h_reserved h" "get32 p 40 = h_tick h"
  unfolding p_def
  by (simp_all add: header_fields_def get32_def get16_def layout of_le_bytes_le_bytes
      nth_append)
    (rule get64_of_bytes, simp add: layout)

text \<open>The checksum the decoder recomputes from three pieces is the checksum of the datagram with
  a zeroed CRC field.\<close>

definition wire_crc :: "bytes \<Rightarrow> nat \<Rightarrow> u32" where
  "wire_crc p n = crc32_update 0xFFFFFFFF (take 44 p @ [0, 0, 0, 0] @ get_at p 48 n) XOR 0xFFFFFFFF"

lemma decode_iff:
  "decode p = Some (h, pl) \<longleftrightarrow>
     48 + unat (get16 p 36) \<le> length p \<and> get32 p 0 = kMagic \<and> p ! 4 = kVersion
     \<and> wire_crc p (unat (get16 p 36)) = get32 p 44 \<and> pl = get_at p 48 (unat (get16 p 36))
     \<and> h = \<lparr> h_magic = kMagic, h_version = kVersion, h_type = packet_type_of_byte (p ! 5),
           h_flags = get16 p 6, h_client_id = get32 p 8, h_session_id = get64 p 12,
           h_sequence = get32 p 20, h_acknowledgment = get32 p 24, h_message_id = get32 p 28,
           h_fragment_index = get16 p 32, h_fragment_count = get16 p 34,
           h_payload_size = get16 p 36, h_reserved = get16 p 38, h_tick = get32 p 40,
           h_checksum = get32 p 44 \<rparr>"
  unfolding decode_def decode_into_def wire_crc_def kHeaderSize_def Let_def
  by (auto simp add: crc.upd_three)

text \<open>What a header must satisfy for the codec to carry it: the fixed magic and version, a type
  that a byte denotes, and a size field that is the size of the payload.\<close>

definition header_ok :: "packet_header \<Rightarrow> bytes \<Rightarrow> bool" where
  "header_ok h payload \<longleftrightarrow>
     h_magic h = kMagic \<and> h_version h = kVersion \<and>
     packet_type_of_byte (packet_type_byte (h_type h)) = h_type h \<and>
     unat (h_payload_size h) = length payload"

lemma wire_crc_encode:
  "wire_crc (encode h payload @ rest) (length payload) = datagram_crc h payload"
  by (simp add: wire_crc_def datagram_crc_def encode_block layout)

lemma get32_checksum: "get32 (encode h payload @ rest) 44 = datagram_crc h payload"
  by (simp add: encode_block get32_def layout of_le_bytes_le_bytes)

lemma le_bytes_get16: "off + 2 \<le> length p \<Longrightarrow> le_bytes 2 (to_be16 (get16 p off)) = get_at p off 2"
  by (simp add: get16_def le_bytes_of_le_bytes length_get_at)

lemma le_bytes_get32: "off + 4 \<le> length p \<Longrightarrow> le_bytes 4 (to_be32 (get32 p off)) = get_at p off 4"
  by (simp add: get32_def le_bytes_of_le_bytes length_get_at)

lemma le_bytes_get64:
  assumes "off + 8 \<le> length p"
  shows "le_bytes 8 (to_be64 (get64 p off)) = get_at p off 8"
proof -
  have no: "\<not> bit (get32 p off) (32 + n)" for n
    using bit_imp_le_length [of "get32 p off" "32 + n"] by auto
  have "ucast (get64 p off) = get32 p off" and "ucast (drop_bit 32 (get64 p off)) = get32 p (off + 4)"
    by (auto intro!: bit_word_eqI simp add: get64_def Let_def bit_simps no)
  moreover have "get_at p off 8 = get_at p off 4 @ get_at p (off + 4) 4"
    using take_add [of 4 4 "drop off p"] by (simp add: get_at_def add.commute)
  ultimately show ?thesis
    using assms by (simp add: le_bytes_to_be64 le_bytes_get32)
qed

lemma get_at_0: "get_at p 0 n = take n p"
  by (simp add: get_at_def)

lemma get_at_join: "o2 = off + m \<Longrightarrow> get_at p off m @ get_at p o2 n = get_at p off (m + n)"
  by (simp add: get_at_def take_add add.commute)

lemma get_at_join2: "o2 = off + m \<Longrightarrow> get_at p off m @ (get_at p o2 n @ r) = get_at p off (m + n) @ r"
  by (simp add: get_at_join [symmetric])

lemma get_at_inner:
  assumes "get_at p off n = get_at q off n" and "off \<le> o2" and "o2 + m \<le> off + n"
  shows "get_at p o2 m = get_at q o2 m"
proof -
  have "get_at r o2 m = take m (drop (o2 - off) (get_at r off n))" for r
    using assms(2,3) by (simp add: get_at_def drop_take min_def)
  then show ?thesis using assms(1) by simp
qed

lemma get_at_one: "i < length p \<Longrightarrow> [p ! i] = get_at p i 1"
  by (simp add: get_at_def take_Suc_conv_app_nth drop_Suc_nth)

lemma decode_encode_append:
  assumes "header_ok h payload"
  shows "decode (encode h payload @ rest) = Some (h\<lparr>h_checksum := datagram_crc h payload\<rparr>, payload)"
proof -
  define p where "p = encode h payload @ rest"
  have p: "p = header_fields h @ (le_bytes 4 (to_be32 (datagram_crc h payload)) @ payload @ rest)"
    by (simp add: p_def encode_block)
  note f = get_fields [of h "le_bytes 4 (to_be32 (datagram_crc h payload)) @ payload @ rest", folded p]
  have "get_at p 48 (length payload) = payload"
    by (simp add: p layout)
  then have "decode p = Some (h\<lparr>h_checksum := datagram_crc h payload\<rparr>, payload)"
    unfolding decode_iff f using assms
    by (simp add: header_ok_def wire_crc_encode get32_checksum f flip: p_def)
     (simp add: p_def wire_crc_encode get32_checksum)
  then show ?thesis by (simp add: p_def)
qed

lemma header_fields_decode:
  assumes "decode p = Some (h, pl)"
  shows "header_fields h = take 44 p"
proof -
  have len: "48 \<le> length p" using assms by (simp add: decode_iff)
  have "header_fields h = get_at p 0 4 @ get_at p 4 1 @ get_at p 5 1 @ get_at p 6 2 @ get_at p 8 4
      @ get_at p 12 8 @ get_at p 20 4 @ get_at p 24 4 @ get_at p 28 4 @ get_at p 32 2
      @ get_at p 34 2 @ get_at p 36 2 @ get_at p 38 2 @ get_at p 40 4"
  proof -
    have m: "h_magic h = get32 p 0" and v: "h_version h = p ! 4"
      and t: "packet_type_byte (h_type h) = p ! 5"
      using assms by (auto simp add: decode_iff)
    have e: "h_flags h = get16 p 6" "h_client_id h = get32 p 8" "h_session_id h = get64 p 12"
      "h_sequence h = get32 p 20" "h_acknowledgment h = get32 p 24" "h_message_id h = get32 p 28"
      "h_fragment_index h = get16 p 32" "h_fragment_count h = get16 p 34"
      "h_payload_size h = get16 p 36" "h_reserved h = get16 p 38" "h_tick h = get32 p 40"
      using assms by (auto simp add: decode_iff)
    have b: "[p ! 4] = get_at p 4 1" "[p ! 5] = get_at p 5 1"
      using len get_at_one [of 4 p] get_at_one [of 5 p] by simp_all
    show ?thesis
      using len unfolding header_fields_def m v t e b
      by (simp add: le_bytes_get16 le_bytes_get32 le_bytes_get64)
  qed
  also have "\<dots> = get_at p 0 44"
    by (simp add: get_at_join get_at_join2 del: append_assoc)
  finally show ?thesis by (simp add: get_at_def)
qed

lemma decode_payload:
  assumes "decode p = Some (h, pl)"
  shows "length pl = unat (h_payload_size h)" and "48 + length pl \<le> length p"
  using assms by (auto simp add: decode_iff length_get_at)

lemma decode_canonical:
  assumes "decode p = Some (h, pl)"
  shows "take (48 + length pl) p = encode h pl"
proof -
  have "datagram_crc h pl = wire_crc p (length pl)" 
    using assms decode_payload [OF assms] header_fields_decode [OF assms]
    by (auto simp add: datagram_crc_def wire_crc_def decode_iff)
  also have "\<dots> = get32 p 44" using assms decode_payload [OF assms] by (simp add: decode_iff)
  finally have crc: "datagram_crc h pl = get32 p 44" .
  have pl: "pl = get_at p 48 (length pl)"
    using assms decode_payload [OF assms] by (simp add: decode_iff)
  have "encode h pl = take 44 p @ get_at p 44 4 @ get_at p 48 (length pl)"
    unfolding encode_block crc header_fields_decode [OF assms] pl [symmetric]
    using decode_payload(2) [OF assms] by (simp add: le_bytes_get32)
  also have "\<dots> = get_at p 0 (48 + length pl)"
    by (simp add: get_at_join get_at_0 [symmetric])
  finally show ?thesis by (simp add: get_at_def)
qed

section \<open>Corrupted datagrams\<close>

lemma window_get_before: "off + n \<le> length pre \<Longrightarrow> get_at (pre @ xs) off n = get_at pre off n"
  by (rule get_at_append_left)

lemma window_get_after: 
  "length pre + length xs \<le> off \<Longrightarrow> get_at (pre @ xs @ post) off n = get_at post (off - (length pre + length xs)) n"
  by (simp add: get_at_def)

lemma window_get_disjoint:
  assumes "length xs = length ys" and "off + n \<le> length pre \<or> length pre + length xs \<le> off"
  shows "get_at (pre @ xs @ post) off n = get_at (pre @ ys @ post) off n"
  using assms by (auto simp add: window_get_before window_get_after)

lemma burst_window_eq:
  assumes "decode (pre @ xs @ post) = Some (h, pl)" and "decode (pre @ ys @ post) = Some (h', pl')"
    and "length xs = length ys" and "length xs \<le> 4"
    and "length pre + length xs \<le> 36 \<or> 38 \<le> length pre \<and> length pre + length xs \<le> 44
       \<or> 44 \<le> length pre \<and> length pre + length xs \<le> 48
       \<or> 48 \<le> length pre \<and> length pre + length xs \<le> 48 + length pl"
  shows "xs = ys"
proof (rule ccontr)
  assume ne: "xs \<noteq> ys"
  let ?p = "pre @ xs @ post" and ?q = "pre @ ys @ post"
  let ?a = "length pre" and ?b = "length pre + length xs"
  have "get_at ?p 36 2 = get_at ?q 36 2"
    by (rule window_get_disjoint) (use assms in auto)
  then have sz: "get16 ?q 36 = get16 ?p 36" by (simp add: get16_def)
  have n: "unat (get16 ?p 36) = length pl" "48 + length pl \<le> length ?p"
    using assms(1) by (auto simp add: decode_iff length_get_at)
  have cp: "wire_crc ?p (length pl) = get32 ?p 44" and cq: "wire_crc ?q (length pl) = get32 ?q 44"
    using assms(1,2) sz n by (auto simp add: decode_iff)
  show False
  proof (cases "44 \<le> ?a \<and> ?b \<le> 48")
    case True
    have "get_at ?p 48 (length pl) = get_at ?q 48 (length pl)"
      by (rule window_get_disjoint) (use assms True in auto)
    then have "get32 ?p 44 = get32 ?q 44"
      using cp cq True by (simp add: wire_crc_def)
    then have "get_at ?p 44 4 = get_at ?q 44 4"
      using n le_bytes_get32 [of 44 ?p] le_bytes_get32 [of 44 ?q] assms(3) by simp
    then have "get_at ?p ?a (length xs) = get_at ?q ?a (length xs)"
      by (rule get_at_inner [of _ 44 4]) (use True in auto)
    then have "xs = ys" using assms(3) by (simp add: get_at_def)
    then show False using ne by simp
  next
    case False
    have "get_at ?p 44 4 = get_at ?q 44 4"
      by (rule window_get_disjoint) (use assms False in auto)
    then have "wire_crc ?p (length pl) = wire_crc ?q (length pl)"
      using cp cq by (simp add: get32_def)
    then have eq: "crc32_update 0xFFFFFFFF (take 44 ?p @ [0,0,0,0] @ get_at ?p 48 (length pl))
        = crc32_update 0xFFFFFFFF (take 44 ?q @ [0,0,0,0] @ get_at ?q 48 (length pl))"
      unfolding wire_crc_def xor_right_cancel .
    show False
    proof (cases "?b \<le> 44")
      case True
      then have "get_at ?p 48 (length pl) = get_at ?q 48 (length pl)"
        by (intro window_get_disjoint) (use assms in auto)
      then show False
        using eq True assms(3) crc.burst_detected [OF assms(3,4) ne, of "0xFFFFFFFF" pre
            "take (44 - ?b) post @ [0, 0, 0, 0] @ get_at ?p 48 (length pl)"] by simp
    next
      case F2: False
      then have w: "48 \<le> ?a" "?b \<le> 48 + length pl" using False assms(5) by auto
      have g: "get_at (pre @ zs @ post) 48 (length pl) =
          drop 48 pre @ zs @ take (48 + length pl - ?b) post"
        if "length zs = length xs" for zs
        using w that by (simp add: get_at_def add.commute)
      show False
        using eq w assms(3) g [of xs] g [of ys] crc.burst_detected [OF assms(3,4) ne,
            of "0xFFFFFFFF" "take 44 pre @ [0, 0, 0, 0] @ drop 48 pre"
            "take (48 + length pl - ?b) post"] by simp
    qed
  qed
qed

section \<open>Properties\<close>

lemma header_fields_checksum [simp]: "header_fields (h\<lparr>h_checksum := c\<rparr>) = header_fields h"
  by (simp add: header_fields_def)

lemma decode_header_ok:
  assumes "decode p = Some (h, pl)"
  shows "header_ok h pl" and "h_checksum h = datagram_crc h pl"
proof -
  show "header_ok h pl"
    using assms decode_payload [OF assms] by (auto simp add: header_ok_def decode_iff)
  then have "decode (encode h pl @ drop (48 + length pl) p) =
      Some (h\<lparr>h_checksum := datagram_crc h pl\<rparr>, pl)"
    by (rule decode_encode_append)
  then have "Some (h, pl) = Some (h\<lparr>h_checksum := datagram_crc h pl\<rparr>, pl)"
    using assms by (simp flip: decode_canonical [OF assms])
  then have "h_checksum h = h_checksum (h\<lparr>h_checksum := datagram_crc h pl\<rparr>)"
    by (metis Pair_inject option.inject)
  then show "h_checksum h = datagram_crc h pl" by simp
qed

text \<open>
  C1: the accepted datagrams are exactly the encodings.  \<open>decode\<close> returns a header and a
  payload if and only if the datagram starts with what \<open>encode\<close> writes for them, the header
  has the magic, the version, a size field that is the size of the payload, and the checksum
  of the datagram: nothing else is accepted, and every encoding is read back unchanged.
\<close>

theorem codec_exact:
  "decode p = Some (h, pl) \<longleftrightarrow>
     header_ok h pl \<and> h_checksum h = datagram_crc h pl \<and>
     take (48 + length pl) p = encode h pl"
proof
  assume "decode p = Some (h, pl)"
  then show "header_ok h pl \<and> h_checksum h = datagram_crc h pl \<and>
      take (48 + length pl) p = encode h pl"
    using decode_header_ok decode_canonical by blast
next
  assume *: "header_ok h pl \<and> h_checksum h = datagram_crc h pl \<and>
      take (48 + length pl) p = encode h pl"
  then have "decode (encode h pl @ drop (48 + length pl) p) = Some (h, pl)"
    by (subst decode_encode_append) auto
  then show "decode p = Some (h, pl)"
    using * by (metis append_take_drop_id)
qed


definition probe_header :: packet_header where
  "probe_header = header0 \<lparr> h_magic := kMagic, h_version := kVersion, h_type := Data,
     h_session_id := 0x1122334455667788, h_sequence := 7, h_payload_size := 3 \<rparr>"

lemma probe_header_ok: "header_ok probe_header [10, 20, 30]"
  by (simp add: header_ok_def probe_header_def packet_type_of_byte.simps)


end
