(* ===== verification/GF256.thy ===== *)
theory GF256
  imports Prelude
begin

text \<open>
  The field arithmetic of \<open>fec.cpp\<close>: the exponent and logarithm tables of GF(2^8) modulo
  the primitive polynomial 0x11D, the table-driven product, power and inverse, and the proof
  that they are those of a field.  The bytes under these operations form the type \<open>gf\<close>, an
  instance of the library's class \<open>field\<close>.
\<close>

section \<open>Tables and operations\<close>

text \<open>The state of the first constructor loop of \<open>GfTables\<close> after \<open>i\<close> turns.\<close>

fun gf_build :: "nat \<Rightarrow> u8 list \<times> u8 list \<times> u16" where
  "gf_build 0 = (replicate 512 0, replicate 256 0, 1)"
| "gf_build (Suc i) =
    (let (e, l, x) = gf_build i;
         e = e[i := ucast x];
         l = l[unat x := of_nat i];
         x = push_bit 1 x
     in (e, l, if x AND 0x100 \<noteq> 0 then x XOR 0x11D else x))"

definition gf_exp :: "u8 list" where
  "gf_exp = foldl (\<lambda>e i. e[i := e ! (i - 255)]) (fst (gf_build 255)) [255..<512]"

definition gf_log :: "u8 list" where
  "gf_log = fst (snd (gf_build 255))"

definition gf_mul :: "u8 \<Rightarrow> u8 \<Rightarrow> u8" where
  "gf_mul a b =
    (if a = 0 \<or> b = 0 then 0 else gf_exp ! (unat (gf_log ! unat a) + unat (gf_log ! unat b)))"

definition gf_pow :: "u8 \<Rightarrow> nat \<Rightarrow> u8" where
  "gf_pow a e =
    (if e = 0 then 1 else if a = 0 then 0 else gf_exp ! ((unat (gf_log ! unat a) * e) mod 255))"

definition gf_inv :: "u8 \<Rightarrow> u8" where
  "gf_inv a = gf_exp ! (255 - unat (gf_log ! unat a))"

section \<open>Powers of the generator\<close>

text \<open>Multiplication by the generator 2, and its iterates: the specification of the tables.\<close>

definition xtime :: "u8 \<Rightarrow> u8" where
  "xtime b = (if bit b 7 then push_bit 1 b XOR 0x1D else push_bit 1 b)"

definition pw :: "nat \<Rightarrow> u8" where
  "pw n = (xtime ^^ n) 1"

lemma pw_0 [simp]: "pw 0 = 1"
  and pw_Suc: "pw (Suc n) = xtime (pw n)"
  and pw_add: "pw (m + n) = (xtime ^^ m) (pw n)"
  by (simp_all add: pw_def funpow_add)

lemma xtime_xor: "xtime (a XOR b) = xtime a XOR xtime b"
  by (auto simp add: xtime_def bit_simps push_bit_xor ac_simps bit_eq_iff)

lemma xtimes_xor: "(xtime ^^ n) (a XOR b) = (xtime ^^ n) a XOR (xtime ^^ n) b"
  by (induction n) (simp_all add: xtime_xor)

lemma xtimes_0 [simp]: "(xtime ^^ n) 0 = 0"
  by (induction n) (simp_all add: xtime_def)

fun iter_list :: "nat \<Rightarrow> u8 \<Rightarrow> u8 list" where
  "iter_list 0 b = []"
| "iter_list (Suc n) b = b # iter_list n (xtime b)"

lemma nth_iter_list: "i < n \<Longrightarrow> iter_list n b ! i = (xtime ^^ i) b"
  by (induction n arbitrary: b i) (auto simp add: nth_Cons' funpow_swap1 dest!: gr0_implies_Suc)

lemma length_iter_list [simp]: "length (iter_list n b) = n"
  by (induction n arbitrary: b) auto

text \<open>The generator has order 255, by running through its powers.\<close>

lemma generator_cycle: "1 \<notin> set (iter_list 254 2) \<and> last (iter_list 255 2) = 1"
  by code_simp

lemma last_iter_list: "last (iter_list (Suc n) b) = (xtime ^^ n) b"
  by (simp add: last_conv_nth nth_iter_list del: iter_list.simps flip: length_greater_0_conv)

lemma pw_1: "pw (Suc 0) = 2"
  by (simp add: pw_def xtime_def bit_1_iff)

lemma pw_255: "pw 255 = 1"
proof -
  have "pw 255 = (xtime ^^ 254) (pw (Suc 0))"
    using pw_add [of 254 "Suc 0"] by simp
  also have "\<dots> = last (iter_list 255 2)"
    using last_iter_list [of 254 2] by (simp add: pw_1 del: iter_list.simps)
  finally show ?thesis using generator_cycle by simp
qed

lemma pw_ne_1: "0 < k \<Longrightarrow> k < 255 \<Longrightarrow> pw k \<noteq> 1"
proof -
  assume "0 < k" "k < 255"
  then have "pw k = (xtime ^^ (k - 1)) (pw (Suc 0))"
    using pw_add [of "k - 1" "Suc 0"] by simp
  moreover have "iter_list 254 2 ! (k - 1) = (xtime ^^ (k - 1)) 2"
    using \<open>0 < k\<close> \<open>k < 255\<close> by (intro nth_iter_list) simp
  moreover have "iter_list 254 2 ! (k - 1) \<in> set (iter_list 254 2)"
    using \<open>0 < k\<close> \<open>k < 255\<close> by (intro nth_mem) simp
  ultimately show "pw k \<noteq> 1" using generator_cycle by (auto simp add: pw_1)
qed

lemma pw_cycle: "pw (n + 255) = pw n"
  using pw_add [of n 255] by (simp add: pw_255 flip: pw_def)

lemma pw_mod: "pw (n mod 255) = pw n"
proof (induction n rule: less_induct)
  case (less n)
  show ?case
  proof (cases "n < 255")
    case False
    then show ?thesis
      using less.IH [of "n - 255"] pw_cycle [of "n - 255"] by (simp add: mod_if)
  qed simp
qed

lemma pw_nonzero: "pw n \<noteq> 0"
proof
  assume "pw n = 0"
  then have z: "pw (n mod 255) = 0" by (simp add: pw_mod)
  have "pw 255 = (xtime ^^ (255 - n mod 255)) (pw (n mod 255))"
    using pw_add [of "255 - n mod 255" "n mod 255"] mod_less_divisor [of 255 n] by simp
  then show False by (simp add: z pw_255)
qed

lemma pw_inj: "inj_on pw {..<255}"
proof -
  have "pw i \<noteq> pw j" if "i < j" "j < 255" for i j
  proof
    assume eq: "pw i = pw j"
    have "pw (255 - j + i) = pw (255 - j + j)"
      by (simp only: pw_add eq)
    then have "pw (255 - j + i) = 1" using that pw_255 by simp
    then show False using pw_ne_1 [of "255 - j + i"] that by linarith
  qed
  then show ?thesis by (auto intro!: inj_onI) (metis linorder_neqE_nat)
qed

lemma pw_surj: "a \<noteq> 0 \<Longrightarrow> \<exists>i<255. pw i = a"
proof -
  assume "a \<noteq> 0"
  have "card (pw ` {..<255}) = 255" by (simp add: card_image pw_inj)
  moreover have "card (UNIV - {0 :: u8}) = 255" by (simp add: card_Diff_subset card_word)
  moreover have "pw ` {..<255} \<subseteq> UNIV - {0}" using pw_nonzero by auto
  ultimately have "pw ` {..<255} = UNIV - {0}" by (intro card_subset_eq) auto
  then show ?thesis using \<open>a \<noteq> 0\<close> by (auto simp add: image_iff set_eq_iff) (metis lessThan_iff)
qed

section \<open>The tables hold the powers and the logarithms\<close>

lemma xtime_u16:
  "(let x = push_bit 1 (ucast b :: u16) in if x AND 0x100 \<noteq> 0 then x XOR 0x11D else x)
   = ucast (xtime b)"
proof -
  have "list_all (\<lambda>n. let b = word_of_nat n :: u8; x = push_bit 1 (ucast b :: u16) in
      (if x AND 0x100 \<noteq> 0 then x XOR 0x11D else x) = ucast (xtime b)) [0..<256]"
    by code_simp
  moreover have "unat b < 256" using unsigned_less [of b] by simp
  ultimately have "let b' = word_of_nat (unat b) :: u8; x = push_bit 1 (ucast b' :: u16) in
      (if x AND 0x100 \<noteq> 0 then x XOR 0x11D else x) = ucast (xtime b')"
    unfolding list_all_iff set_upt by (metis atLeastLessThan_iff zero_le)
  then show ?thesis by (simp only: Let_def of_nat_unat ucast_id)
qed

lemma u8_u16 [simp]: "ucast (ucast b :: u16) = (b :: u8)" "unat (ucast b :: u16) = unat (b :: u8)"
  by (rule bit_word_eqI) (auto simp add: bit_simps unsigned_ucast_eq take_bit_nat_eq_self_iff
      intro: less_trans [OF unsigned_less])

lemma gf_build_inv:
  assumes "gf_build n = (e, l, x)" and "n \<le> 255"
  shows "x = ucast (pw n) \<and> length e = 512 \<and> length l = 256
    \<and> (\<forall>i<n. e ! i = pw i \<and> l ! unat (pw i) = of_nat i)"
  using assms
proof (induction n arbitrary: e l x)
  case (Suc n)
  obtain e0 l0 x0 where b: "gf_build n = (e0, l0, x0)" by (cases "gf_build n") auto
  have n: "n < 255" using Suc.prems(2) by simp
  then have ih: "x0 = ucast (pw n)" "length e0 = 512" "length l0 = 256"
    "\<And>i. i < n \<Longrightarrow> e0 ! i = pw i \<and> l0 ! unat (pw i) = of_nat i"
    using Suc.IH [OF b] by auto
  have x: "x = ucast (pw (Suc n))" and e: "e = e0[n := pw n]" and l: "l = l0[unat (pw n) := of_nat n]"
    using Suc.prems(1) xtime_u16 [of "pw n"] by (simp_all add: b Let_def ih pw_Suc)
  have "unat (pw n) \<noteq> unat (pw i)" if "i < n" for i
    using pw_inj that n by (force simp add: inj_on_def simp flip: word_eq_iff_unsigned)
  moreover have "unat (pw n) < 256"
    using unsigned_less [of "pw n"] by simp
  ultimately have "\<forall>i<Suc n. e ! i = pw i \<and> l ! unat (pw i) = of_nat i"
    using ih n unfolding e l by (auto elim!: less_SucE simp add: nth_list_update)
  then show ?case using ih by (simp add: x e l)
qed simp

lemma gf_exp_loop:
  assumes "length e = 512" and "\<And>i. i < 255 \<Longrightarrow> e ! i = pw i" and "255 \<le> k" and "k \<le> 512"
  shows "length (foldl (\<lambda>e i. e[i := e ! (i - 255)]) e [255..<k]) = 512 \<and>
      (\<forall>i<k. foldl (\<lambda>e i. e[i := e ! (i - 255)]) e [255..<k] ! i = pw i)"
  using assms(3,4)
proof (induction k rule: dec_induct)
  case base
  then show ?case using assms(1,2) by simp
next
  case (step k)
  define f where "f = foldl (\<lambda>e i. e[i := e ! (i - 255)]) e [255..<k]"
  have ih: "length f = 512" "\<And>i. i < k \<Longrightarrow> f ! i = pw i"
    using step by (auto simp add: f_def)
  have eq: "foldl (\<lambda>e i. e[i := e ! (i - 255)]) e [255..<Suc k] = f[k := f ! (k - 255)]"
    using step(1) by (simp add: f_def)
  have "f ! (k - 255) = pw k"
    using ih(2) [of "k - 255"] pw_cycle [of "k - 255"] step(1) by simp
  then show ?case
    unfolding eq using ih step.prems by (auto elim!: less_SucE)
qed

lemma gf_exp_nth: "i < 512 \<Longrightarrow> gf_exp ! i = pw i"
proof -
  obtain e l x where b: "gf_build 255 = (e, l, x)" by (cases "gf_build 255") auto
  have "length e = 512" and "\<And>i. i < 255 \<Longrightarrow> e ! i = pw i"
    and "(255 :: nat) \<le> 512" and "(512 :: nat) \<le> 512"
    using gf_build_inv [OF b] by simp_all
  note loop = gf_exp_loop [OF this]
  have "\<forall>i<512. gf_exp ! i = pw i"
    unfolding gf_exp_def b fst_conv by (rule conjunct2 [OF loop])
  then show "i < 512 \<Longrightarrow> gf_exp ! i = pw i" by blast
qed

definition dlog :: "u8 \<Rightarrow> nat" where
  "dlog a = unat (gf_log ! unat a)"

lemma dlog_pw: "i < 255 \<Longrightarrow> dlog (pw i) = i"
proof -
  obtain e l x where b: "gf_build 255 = (e, l, x)" by (cases "gf_build 255") auto
  assume "i < 255"
  then show ?thesis
    using gf_build_inv [OF b] by (simp add: dlog_def gf_log_def b unat_of_nat)
qed

lemma dlog: "a \<noteq> 0 \<Longrightarrow> dlog a < 255 \<and> pw (dlog a) = a"
  using pw_surj [of a] dlog_pw by auto

section \<open>The operations on powers\<close>

lemma gf_mul_nonzero: "a \<noteq> 0 \<Longrightarrow> b \<noteq> 0 \<Longrightarrow> gf_mul a b = pw (dlog a + dlog b)"
  using dlog [of a] dlog [of b] gf_exp_nth [of "dlog a + dlog b"]
  by (simp add: gf_mul_def flip: dlog_def)

lemma gf_mul_0 [simp]: "gf_mul a 0 = 0" "gf_mul 0 a = 0"
  by (simp_all add: gf_mul_def)

lemma gf_mul_eq_0: "gf_mul a b = 0 \<longleftrightarrow> a = 0 \<or> b = 0"
  by (cases "a = 0 \<or> b = 0") (auto simp add: gf_mul_nonzero pw_nonzero)

lemma gf_mul_pw: "gf_mul (pw i) b = (xtime ^^ i) b"
proof (cases "b = 0")
  case False
  have "pw (dlog (pw i) + dlog b) = pw ((dlog (pw i) mod 255 + dlog b) mod 255)"
    by (simp add: pw_mod mod_simps)
  also have "dlog (pw i) mod 255 = i mod 255"
    using dlog_pw [of "i mod 255"] by (simp add: pw_mod)
  also have "pw ((i mod 255 + dlog b) mod 255) = pw (i + dlog b)"
    by (simp add: pw_mod mod_simps)
  finally show ?thesis
    using False dlog [of b] by (simp add: gf_mul_nonzero pw_nonzero pw_add)
qed simp

lemma gf_mul_pw_pw: "gf_mul (pw i) (pw j) = pw (i + j)"
  by (simp add: gf_mul_pw pw_add)

lemma gf_mul_commute: "gf_mul a b = gf_mul b a"
  by (simp add: gf_mul_def add.commute)

lemma gf_mul_assoc: "gf_mul (gf_mul a b) c = gf_mul a (gf_mul b c)"
proof (cases "a = 0 \<or> b = 0 \<or> c = 0")
  case False
  then show ?thesis
    using dlog [of a] dlog [of b] dlog [of c] gf_mul_pw_pw by (metis add.assoc)
qed auto

lemma gf_mul_1 [simp]: "gf_mul 1 a = a" "gf_mul a 1 = a"
  using gf_mul_pw [of 0] by (simp_all add: gf_mul_commute [of a])

lemma gf_mul_xor: "gf_mul a (b XOR c) = gf_mul a b XOR gf_mul a c"
proof (cases "a = 0")
  case False
  then obtain i where "a = pw i" using dlog by metis
  then show ?thesis by (simp add: gf_mul_pw xtimes_xor)
qed simp

lemma gf_inv_mul: "a \<noteq> 0 \<Longrightarrow> gf_mul (gf_inv a) a = 1"
proof -
  assume "a \<noteq> 0"
  have "gf_inv a = pw (255 - dlog a)"
    by (simp add: gf_inv_def gf_exp_nth flip: dlog_def)
  then have "gf_mul (gf_inv a) a = pw (255 - dlog a + dlog a)"
    using dlog [OF \<open>a \<noteq> 0\<close>] gf_mul_pw_pw [of "255 - dlog a" "dlog a"] by simp
  then show ?thesis
    using dlog [OF \<open>a \<noteq> 0\<close>] pw_255 by simp
qed

lemma gf_pow_Suc: "gf_pow a (Suc e) = gf_mul a (gf_pow a e)"
proof (cases "a = 0")
  case False
  have pow: "gf_pow a e = pw (dlog a * e)" for e
    using False by (simp add: gf_pow_def gf_exp_nth pw_mod flip: dlog_def)
  show ?thesis
    using False dlog [of a] gf_mul_pw_pw [of "dlog a" "dlog a * e"] by (simp add: pow)
qed (simp add: gf_pow_def)

lemma gf_pow_0 [simp]: "gf_pow a 0 = 1"
  by (simp add: gf_pow_def)

section \<open>The field of bytes\<close>

typedef gf = "UNIV :: u8 set"
  morphisms byte_of gf_of by simp

setup_lifting type_definition_gf

instantiation gf :: field
begin

lift_definition zero_gf :: gf is "0" .
lift_definition one_gf :: gf is "1" .
lift_definition plus_gf :: "gf \<Rightarrow> gf \<Rightarrow> gf" is "(XOR)" .
lift_definition minus_gf :: "gf \<Rightarrow> gf \<Rightarrow> gf" is "(XOR)" .
lift_definition uminus_gf :: "gf \<Rightarrow> gf" is "\<lambda>a. a" .
lift_definition times_gf :: "gf \<Rightarrow> gf \<Rightarrow> gf" is gf_mul .
lift_definition inverse_gf :: "gf \<Rightarrow> gf" is "\<lambda>a. if a = 0 then 0 else gf_inv a" .
lift_definition divide_gf :: "gf \<Rightarrow> gf \<Rightarrow> gf" is
  "\<lambda>a b. gf_mul a (if b = 0 then 0 else gf_inv b)" .

instance
proof
  fix a b c :: gf
  show "a * b * c = a * (b * c)" by transfer (rule gf_mul_assoc)
  show "a * b = b * a" by transfer (rule gf_mul_commute)
  show "1 * a = a" by transfer simp
  show "a + b + c = a + (b + c)" by transfer (rule xor.assoc)
  show "a + b = b + a" by transfer (rule xor.commute)
  show "0 + a = a" by transfer simp
  show "- a + a = 0" by transfer simp
  show "a - b = a + - b" by transfer simp
  show "(a + b) * c = a * c + b * c"
    by transfer (metis gf_mul_commute gf_mul_xor)
  show "(0 :: gf) \<noteq> 1" by transfer simp
  show "a \<noteq> 0 \<Longrightarrow> inverse a * a = 1" by transfer (simp add: gf_inv_mul)
  show "a div b = a * inverse b" by transfer simp
  show "inverse (0 :: gf) = 0" by transfer simp
qed

end

lemma gf_of_xor: "gf_of (a XOR b) = gf_of a + gf_of b"
  and gf_of_mul: "gf_of (gf_mul a b) = gf_of a * gf_of b"
  and gf_of_0: "gf_of 0 = 0"
  and gf_of_1: "gf_of 1 = 1"
  and gf_of_eq_iff: "gf_of a = gf_of b \<longleftrightarrow> a = b"
  by (transfer; simp)+

lemma gf_of_inv: "a \<noteq> 0 \<Longrightarrow> gf_of (gf_inv a) = inverse (gf_of a)"
  by transfer simp

lemma gf_of_pow: "gf_of (gf_pow a e) = gf_of a ^ e"
  by (induction e) (simp_all add: gf_of_1 gf_of_mul gf_pow_Suc)

lemmas gf_of_simps = gf_of_xor gf_of_mul gf_of_0 gf_of_1 gf_of_pow

section \<open>Property\<close>

text \<open>The textbook product of GF(2^8): add up the shifted and reduced copies of the second
  factor, one for each bit of the first.\<close>

definition gf_mul_spec :: "u8 \<Rightarrow> u8 \<Rightarrow> u8" where
  "gf_mul_spec a b = foldl (\<lambda>s k. if bit a k then s XOR (xtime ^^ k) b else s) 0 [0..<8]"

lemma byte_powers: "foldl (\<lambda>s k. if bit a k then s XOR pw k else s) 0 [0..<8] = a"
proof -
  have "map pw [0..<8] = map (\<lambda>k. push_bit k 1) [0..<8]" by code_simp
  then have pw: "pw k = push_bit k 1" if "k < 8" for k using that by auto
  have "n \<le> 8 \<Longrightarrow> foldl (\<lambda>s k. if bit a k then s XOR pw k else s) 0 [0..<n] = take_bit n a" for n
  proof (induction n)
    case (Suc n)
    then show ?case
      by (simp add: pw) (auto intro!: bit_word_eqI simp add: bit_simps less_Suc_eq)
  qed simp
  from this [of 8] show ?thesis by (simp add: take_bit_word_eq_self)
qed

lemma gf_mul_foldl:
  "gf_mul (foldl (\<lambda>s k. if P k then s XOR f k else s) z ks) b
   = foldl (\<lambda>s k. if P k then s XOR gf_mul (f k) b else s) (gf_mul z b) ks"
  by (induction ks arbitrary: z)
    (auto simp add: gf_mul_commute [of _ b] gf_mul_xor)

lemma gf_mul_is_spec: "gf_mul a b = gf_mul_spec a b"
  using gf_mul_foldl [of "bit a" pw 0 "[0..<8]" b]
  unfolding byte_powers gf_mul_spec_def gf_mul_pw gf_mul_0 .

text \<open>
  The table-driven product is the product of GF(2^8).  Whatever the operands, adding
  logarithms and looking the sum up in the exponent table gives the carry-less product reduced
  modulo 0x11D.
\<close>

theorem gf_mul_correct: "gf_mul a b = gf_mul_spec a b"
  by (rule gf_mul_is_spec)

end
