(* ===== verification/Fec.thy ===== *)
theory Fec
  imports GF256
begin

text \<open>
  The Reed-Solomon erasure code of \<open>fec.cpp\<close> (class \<open>ReedSolomon\<close>): the encoder, the
  Gaussian elimination of the decoder and the proofs that what it returns is the original
  data and when it is bound to succeed.  A fragment missing from the input is \<open>None\<close>, as
  \<open>std::nullopt\<close> in the source; a received parity is its index with its content.
\<close>

section \<open>Operations\<close>

text \<open>\<open>coef p j\<close> is \<open>(j + 1)^p\<close>, the index cast to a byte first.\<close>

definition coef :: "nat \<Rightarrow> nat \<Rightarrow> u8" where
  "coef parity_index data_index = gf_pow (of_nat (data_index + 1)) parity_index"

text \<open>\<open>dst ^= c * src\<close> on the common prefix, with the fast path for \<open>c = 1\<close>.\<close>

definition gf_mul_add :: "bytes \<Rightarrow> bytes \<Rightarrow> u8 \<Rightarrow> nat \<Rightarrow> bytes" where
  "gf_mul_add dst src c width =
    (if c = 0 \<or> length src = 0 then dst
     else let n = min (length dst) (min (length src) width)
          in if c = 1 then map2 (XOR) (take n dst) (take n src) @ drop n dst
             else let lc = gf_log ! unat c
                  in map2 (\<lambda>d s. if s \<noteq> 0 then d XOR gf_exp ! (unat lc + unat (gf_log ! unat s))
                                 else d) (take n dst) (take n src) @ drop n dst)"

fun encode_fold :: "bytes \<Rightarrow> nat \<Rightarrow> nat \<Rightarrow> bytes list \<Rightarrow> nat \<Rightarrow> bytes" where
  "encode_fold acc p j [] width = acc"
| "encode_fold acc p j (f # fs) width =
     encode_fold (gf_mul_add acc f (coef p j) width) p (Suc j) fs width"

text \<open>One entry of \<open>out\<close>: a buffer that is too short is replaced, a longer one keeps its tail.\<close>

definition encode_row :: "bytes list \<Rightarrow> nat \<Rightarrow> nat \<Rightarrow> bytes \<Rightarrow> bytes" where
  "encode_row fragments p width buf =
     encode_fold (if length buf < width then replicate width 0
                  else replicate width 0 @ drop width buf) p 0 fragments width"

definition encode_into :: "bytes list \<Rightarrow> nat \<Rightarrow> nat \<Rightarrow> bytes list \<Rightarrow> bytes list" where
  "encode_into fragments parity_count width out =
    (let out = (if length out < parity_count
                then out @ replicate (parity_count - length out) [] else out)
     in map (\<lambda>p. encode_row fragments p width (out ! p)) [0..<parity_count] @ drop parity_count out)"

definition rs_encode :: "bytes list \<Rightarrow> nat \<Rightarrow> nat \<Rightarrow> bytes list" where
  "rs_encode fragments parity_count width = encode_into fragments parity_count width []"

definition missing_of :: "bytes option list \<Rightarrow> nat list" where
  "missing_of data = filter (\<lambda>i. data ! i = None) [0..<length data]"

text \<open>\<open>Bytes::resize\<close> with zero fill.\<close>

definition resize0 :: "bytes \<Rightarrow> nat \<Rightarrow> bytes" where
  "resize0 b n = (if length b < n then b @ replicate (n - length b) 0 else take n b)"

fun syndrome :: "bytes \<Rightarrow> nat \<Rightarrow> nat \<Rightarrow> bytes option list \<Rightarrow> nat \<Rightarrow> bytes" where
  "syndrome acc p j [] width = acc"
| "syndrome acc p j (None # ds) width = syndrome acc p (Suc j) ds width"
| "syndrome acc p j (Some d # ds) width =
     syndrome (gf_mul_add acc d (coef p j) width) p (Suc j) ds width"

text \<open>The elimination state: the rows of the matrix and the right-hand sides.\<close>

type_synonym system = "bytes list \<times> bytes list"

function find_pivot :: "bytes list \<Rightarrow> nat \<Rightarrow> nat \<Rightarrow> nat \<Rightarrow> nat" where
  "find_pivot a col m pivot =
    (if pivot < m \<and> a ! pivot ! col = 0 then find_pivot a col m (Suc pivot) else pivot)"
  by auto
termination by (relation "measure (\<lambda>(a, col, m, pivot). m - pivot)") auto

definition swap :: "'a list \<Rightarrow> nat \<Rightarrow> nat \<Rightarrow> 'a list" where
  "swap xs i j = xs[i := xs ! j, j := xs ! i]"

text \<open>The assignment loop over \<open>j = col .. m - 1\<close> of one row.\<close>

definition upd_from :: "nat \<Rightarrow> nat \<Rightarrow> (nat \<Rightarrow> u8 \<Rightarrow> u8) \<Rightarrow> bytes \<Rightarrow> bytes" where
  "upd_from col m f row = foldl (\<lambda>row j. row[j := f j (row ! j)]) row [col..<m]"

definition normalise :: "nat \<Rightarrow> nat \<Rightarrow> system \<Rightarrow> system" where
  "normalise m col s =
    (let (a, syn) = s;
         inv = gf_inv (a ! col ! col)
     in (a[col := upd_from col m (\<lambda>j x. gf_mul x inv) (a ! col)],
         syn[col := map (\<lambda>b. gf_mul b inv) (syn ! col)]))"

definition eliminate_row :: "nat \<Rightarrow> nat \<Rightarrow> nat \<Rightarrow> system \<Rightarrow> nat \<Rightarrow> system" where
  "eliminate_row m col width s r =
    (let (a, syn) = s in
     if r = col then s
     else let f = a ! r ! col in
       if f = 0 then s
       else (a[r := upd_from col m (\<lambda>j x. x XOR gf_mul f (a ! col ! j)) (a ! r)],
             syn[r := gf_mul_add (syn ! r) (syn ! col) f width]))"

definition eliminate_col :: "nat \<Rightarrow> nat \<Rightarrow> nat \<Rightarrow> system \<Rightarrow> system option" where
  "eliminate_col m width col s =
    (let (a, syn) = s; pivot = find_pivot a col m col in
     if pivot = m then None
     else let s = (if pivot \<noteq> col then (swap a pivot col, swap syn pivot col) else (a, syn))
          in Some (foldl (eliminate_row m col width) (normalise m col s) [0..<m]))"

fun gauss :: "nat \<Rightarrow> nat \<Rightarrow> nat list \<Rightarrow> system \<Rightarrow> system option" where
  "gauss m width [] s = Some s"
| "gauss m width (col # cols) s =
    (case eliminate_col m width col s of None \<Rightarrow> None | Some s \<Rightarrow> gauss m width cols s)"

text \<open>The system set up from the first \<open>m\<close> received parities.\<close>

definition rs_system ::
  "bytes option list \<Rightarrow> (nat \<times> bytes) list \<Rightarrow> nat \<Rightarrow> nat list \<Rightarrow> system" where
  "rs_system data parity width missing =
    (let m = length missing in
     (map (\<lambda>r. map (\<lambda>c. coef (fst (parity ! r)) (missing ! c)) [0..<m]) [0..<m],
      map (\<lambda>r. syndrome (resize0 (snd (parity ! r)) width) (fst (parity ! r)) 0 data width) [0..<m]))"

text \<open>\<open>data\<close> is an in-out parameter: its final value is returned beside the flag.\<close>

definition rs_decode ::
  "bytes option list \<Rightarrow> (nat \<times> bytes) list \<Rightarrow> nat \<Rightarrow> bool \<times> bytes option list" where
  "rs_decode data parity width =
    (let missing = missing_of data in
     if missing = [] then (True, data)
     else if length missing > length parity then (False, data)
     else let m = length missing in
       case gauss m width [0..<m] (rs_system data parity width missing) of
         None \<Rightarrow> (False, data)
       | Some (a, syn) \<Rightarrow>
           (True, foldl (\<lambda>d c. d[missing ! c := Some (syn ! c)]) data [0..<m]))"

declare find_pivot.simps [simp del]

section \<open>The interface of an erasure code\<close>

text \<open>\<open>received enc D n width data parity\<close>: the input of the decoder is what is left of the
  fragments \<open>D\<close> and of \<open>n\<close> parities computed from them; \<open>restored\<close> is the completed list, the
  missing fragments padded to \<open>width\<close>.\<close>

definition received ::
  "(bytes list \<Rightarrow> nat \<Rightarrow> nat \<Rightarrow> bytes list) \<Rightarrow> bytes list \<Rightarrow> nat \<Rightarrow> nat \<Rightarrow>
   bytes option list \<Rightarrow> (nat \<times> bytes) list \<Rightarrow> bool" where
  "received enc D n width data parity \<longleftrightarrow>
     length data = length D \<and>
     (\<forall>i<length D. data ! i = None \<or> data ! i = Some (D ! i)) \<and>
     (\<forall>(p, b)\<in>set parity. p < n \<and> b = enc D n width ! p)"

definition restored :: "bytes list \<Rightarrow> nat \<Rightarrow> bytes option list \<Rightarrow> bytes option list" where
  "restored D width data =
     map (\<lambda>i. if data ! i = None then Some (resize0 (D ! i) width) else data ! i) [0..<length D]"

text \<open>What the transport relies on: parities of one width, a decoder that never invents content,
  leaves the data alone when it gives up, and does not give up when the parities are consecutive
  and at least as many as the missing fragments of at most 255.\<close>

locale erasure_code =
  fixes enc :: "bytes list \<Rightarrow> nat \<Rightarrow> nat \<Rightarrow> bytes list"
    and dec :: "bytes option list \<Rightarrow> (nat \<times> bytes) list \<Rightarrow> nat \<Rightarrow> bool \<times> bytes option list"
  assumes enc_count: "length (enc D n width) = n"
    and enc_width: "p < n \<Longrightarrow> length (enc D n width ! p) = width"
    and dec_failed: "dec data parity width = (False, d) \<Longrightarrow> d = data"
    and dec_sound: "received enc D n width data parity \<Longrightarrow>
      dec data parity width = (True, d) \<Longrightarrow> d = restored D width data"
    and dec_complete: "length (missing_of data) \<le> length parity \<Longrightarrow> length data \<le> 255 \<Longrightarrow>
      (\<And>r. r < length (missing_of data) \<Longrightarrow> fst (parity ! r) = b + r) \<Longrightarrow>
      fst (dec data parity width)"
begin

lemma dec_never_wrong:
  assumes "received enc D n width data parity"
  shows "dec data parity width \<in> {(False, data), (True, restored D width data)}"
  using dec_failed [of data parity width] dec_sound [OF assms]
  by (cases "dec data parity width"; cases "fst (dec data parity width)") auto

lemma dec_recovers:
  assumes "received enc D n width data parity" and "length D \<le> 255"
    and "length (missing_of data) \<le> length parity"
    and "\<And>r. r < length (missing_of data) \<Longrightarrow> fst (parity ! r) = b + r"
  shows "dec data parity width = (True, restored D width data)"
proof -
  have "length data \<le> 255" using assms(1,2) by (simp add: received_def)
  then have "fst (dec data parity width)" using dec_complete [OF assms(3) _ assms(4)] by blast
  then show ?thesis using dec_never_wrong [OF assms(1)] by auto
qed

lemma restored_all: "received enc D n width data parity \<Longrightarrow> None \<notin> set (restored D width data)"
  by (auto simp add: restored_def)

end

section \<open>Bytes as field elements\<close>

text \<open>\<open>at k b\<close> is byte \<open>k\<close> of a fragment as a field element, zero past its end.\<close>

definition at :: "nat \<Rightarrow> bytes \<Rightarrow> gf" where
  "at k b = (if k < length b then gf_of (b ! k) else 0)"

definition cf :: "nat \<Rightarrow> nat \<Rightarrow> gf" where
  "cf p j = gf_of (coef p j)"

lemma cf_pow: "cf p j = gf_of (of_nat (Suc j)) ^ p"
  by (simp add: cf_def coef_def gf_of_pow)

lemma length_gf_mul_add [simp]: "length (gf_mul_add dst src c width) = length dst"
  by (simp add: gf_mul_add_def Let_def)

lemma gf_mul_table:
  "c \<noteq> 0 \<Longrightarrow> (if s \<noteq> 0 then d XOR gf_exp ! (unat (gf_log ! unat c) + unat (gf_log ! unat s)) else d)
   = d XOR gf_mul c s"
  by (simp add: gf_mul_def)

lemma gf_mul_add_nth:
  assumes "k < length dst"
  shows "gf_mul_add dst src c width ! k =
    (if k < width \<and> k < length src then dst ! k XOR gf_mul c (src ! k) else dst ! k)"
proof (cases "c = 0 \<or> length src = 0")
  case True
  then show ?thesis by (auto simp add: gf_mul_add_def)
next
  case False
  define n where "n = min (length dst) (min (length src) width)"
  show ?thesis
  proof (cases "k < n")
    case True
    then show ?thesis
      using False assms
      by (auto simp add: gf_mul_add_def Let_def nth_append gf_mul_table n_def simp del: gf_mul_0)
  next
    case k: False
    then have "gf_mul_add dst src c width ! k = dst ! k"
      using False assms by (auto simp add: gf_mul_add_def Let_def nth_append simp flip: n_def)
        (auto simp add: n_def)
    then show ?thesis using k assms by (auto simp add: n_def)
  qed
qed

lemma at_gf_mul_add:
  "k < width \<Longrightarrow> k < length dst \<Longrightarrow>
     at k (gf_mul_add dst src c width) = at k dst + gf_of c * at k src"
  by (simp add: at_def gf_mul_add_nth gf_of_simps)

lemma at_replicate_0 [simp]: "at k (replicate n 0) = 0"
  by (simp add: at_def gf_of_0)

lemma at_resize0 [simp]: "k < n \<Longrightarrow> at k (resize0 b n) = at k b"
  by (auto simp add: at_def resize0_def nth_append gf_of_0)

lemma length_resize0 [simp]: "length (resize0 b n) = n"
  by (simp add: resize0_def)

lemma at_eqI: "length x = length y \<Longrightarrow> (\<And>k. k < length y \<Longrightarrow> at k x = at k y) \<Longrightarrow> x = y"
  by (rule nth_equalityI) (auto simp add: at_def gf_of_eq_iff)

section \<open>The encoder\<close>

lemma length_encode_fold [simp]: "length (encode_fold acc p j fs width) = length acc"
  by (induction fs arbitrary: acc j) auto

lemma at_encode_fold:
  "k < width \<Longrightarrow> k < length acc \<Longrightarrow>
     at k (encode_fold acc p j fs width) = at k acc + (\<Sum>i<length fs. cf p (j + i) * at k (fs ! i))"
proof (induction fs arbitrary: acc j)
  case (Cons f fs)
  then show ?case
    by (simp add: at_gf_mul_add sum.lessThan_Suc_shift add.assoc del: sum.lessThan_Suc
        flip: cf_def)
qed simp

lemma length_rs_encode [simp]: "length (rs_encode fs n width) = n"
  by (simp add: rs_encode_def encode_into_def Let_def)

lemma rs_encode_nth:
  assumes "p < n"
  shows "length (rs_encode fs n width ! p) = width"
    and "k < width \<Longrightarrow> at k (rs_encode fs n width ! p) = (\<Sum>i<length fs. cf p i * at k (fs ! i))"
  using assms
  by (simp_all add: rs_encode_def encode_into_def encode_row_def at_encode_fold Let_def)

lemma length_syndrome [simp]: "length (syndrome acc p j ds width) = length acc"
  by (induction acc p j ds width rule: syndrome.induct) auto

fun term_of_frag :: "nat \<Rightarrow> nat \<Rightarrow> nat \<Rightarrow> bytes option \<Rightarrow> gf" where
  "term_of_frag k p i None = 0"
| "term_of_frag k p i (Some b) = cf p i * at k b"

lemma at_syndrome:
  "k < width \<Longrightarrow> k < length acc \<Longrightarrow>
     at k (syndrome acc p j ds width) = at k acc + (\<Sum>i<length ds. term_of_frag k p (j + i) (ds ! i))"
proof (induction ds arbitrary: acc j)
  case (Cons d ds)
  then show ?case
    by (cases d)
      (simp_all add: at_gf_mul_add sum.lessThan_Suc_shift add.assoc
        del: sum.lessThan_Suc flip: cf_def)
qed simp

section \<open>Elimination steps and the solutions of the system\<close>

definition wf_sys :: "nat \<Rightarrow> nat \<Rightarrow> system \<Rightarrow> bool" where
  "wf_sys m width s \<longleftrightarrow> length (fst s) = m \<and> length (snd s) = m \<and>
     (\<forall>r<m. length (fst s ! r) = m \<and> length (snd s ! r) = width)"

definition ent :: "system \<Rightarrow> nat \<Rightarrow> nat \<Rightarrow> gf" where
  "ent s r c = gf_of (fst s ! r ! c)"

definition rhs :: "nat \<Rightarrow> system \<Rightarrow> nat \<Rightarrow> gf" where
  "rhs k s r = at k (snd s ! r)"

text \<open>\<open>x\<close> solves the linear system with matrix \<open>A\<close> and right-hand side \<open>b\<close>.\<close>

definition solves :: "nat \<Rightarrow> (nat \<Rightarrow> nat \<Rightarrow> gf) \<Rightarrow> (nat \<Rightarrow> gf) \<Rightarrow> (nat \<Rightarrow> gf) \<Rightarrow> bool" where
  "solves m A b x \<longleftrightarrow> (\<forall>r<m. (\<Sum>c<m. A r c * x c) = b r)"

definition unit_cols :: "nat \<Rightarrow> nat \<Rightarrow> system \<Rightarrow> bool" where
  "unit_cols m n s \<longleftrightarrow> (\<forall>r<m. \<forall>c<n. ent s r c = (if r = c then 1 else 0))"

lemma solves_swap:
  assumes "i < m" and "j < m"
    and "\<And>r c. r < m \<Longrightarrow> A' r c = A (if r = i then j else if r = j then i else r) c"
    and "\<And>r. r < m \<Longrightarrow> b' r = b (if r = i then j else if r = j then i else r)"
  shows "solves m A' b' x \<longleftrightarrow> solves m A b x"
proof -
  define p where "p = (\<lambda>r. if r = i then j else if r = j then i else r)"
  have p: "p r < m" "p (p r) = r" if "r < m" for r
    using that assms(1,2) by (auto simp add: p_def)
  have "solves m A' b' x \<longleftrightarrow> (\<forall>r<m. (\<Sum>c<m. A (p r) c * x c) = b (p r))"
    unfolding solves_def using assms(3,4) by (auto simp add: p_def)
  also have "\<dots> \<longleftrightarrow> solves m A b x"
    unfolding solves_def using p by metis
  finally show ?thesis .
qed

lemma solves_scale:
  assumes "i < m" and "e \<noteq> 0"
    and "\<And>r c. r < m \<Longrightarrow> c < m \<Longrightarrow> A' r c = (if r = i then e * A r c else A r c)"
    and "\<And>r. r < m \<Longrightarrow> b' r = (if r = i then e * b r else b r)"
  shows "solves m A' b' x \<longleftrightarrow> solves m A b x"
proof -
  have "(\<Sum>c<m. A' r c * x c) = (if r = i then e else 1) * (\<Sum>c<m. A r c * x c)" if "r < m" for r
    using that assms(3) by (auto simp add: sum_distrib_left mult.assoc)
  then show ?thesis
    unfolding solves_def using assms by auto
qed

lemma solves_eliminate:
  assumes "i < m" and "f i = 0"
    and "\<And>r c. r < m \<Longrightarrow> c < m \<Longrightarrow> A' r c = A r c + f r * A i c"
    and "\<And>r. r < m \<Longrightarrow> b' r = b r + f r * b i"
  shows "solves m A' b' x \<longleftrightarrow> solves m A b x"
proof -
  have row: "(\<Sum>c<m. A' r c * x c) = (\<Sum>c<m. A r c * x c) + f r * (\<Sum>c<m. A i c * x c)"
    if "r < m" for r
    using that assms(3) by (simp add: distrib_right sum.distrib sum_distrib_left mult.assoc)
  show ?thesis
  proof
    assume L: "solves m A' b' x"
    then have i: "(\<Sum>c<m. A i c * x c) = b i"
      using row [OF assms(1)] assms by (auto simp add: solves_def)
    show "solves m A b x"
      unfolding solves_def using L row assms(4) i by (auto simp add: solves_def)
  next
    assume "solves m A b x"
    then show "solves m A' b' x"
      unfolding solves_def using row assms by simp
  qed
qed

lemma length_swap [simp]: "length (swap xs i j) = length xs"
  by (simp add: swap_def)

lemma swap_nth:
  "i < length xs \<Longrightarrow> j < length xs \<Longrightarrow> r < length xs \<Longrightarrow>
     swap xs i j ! r = xs ! (if r = i then j else if r = j then i else r)"
  by (auto simp add: swap_def nth_list_update)

lemma upd_from_nth:
  assumes "m \<le> length row"
  shows "length (upd_from col m f row) = length row"
    and "j < length row \<Longrightarrow>
      upd_from col m f row ! j = (if col \<le> j \<and> j < m then f j (row ! j) else row ! j)"
proof -
  have "length (upd_from col m f row) = length row \<and>
      (\<forall>j<length row. upd_from col m f row ! j = (if col \<le> j \<and> j < m then f j (row ! j) else row ! j))"
    using assms
  proof (induction m)
    case (Suc m)
    then show ?case
      by (cases "col \<le> m") (auto simp add: upd_from_def nth_list_update less_Suc_eq)
  qed (simp add: upd_from_def)
  then show "length (upd_from col m f row) = length row"
    and "j < length row \<Longrightarrow>
      upd_from col m f row ! j = (if col \<le> j \<and> j < m then f j (row ! j) else row ! j)"
    by auto
qed

lemma find_pivot_le: "pivot \<le> m \<Longrightarrow> pivot \<le> find_pivot a col m pivot \<and> find_pivot a col m pivot \<le> m"
proof (induction a col m pivot rule: find_pivot.induct)
  case (1 a col m pivot)
  then show ?case
    by (cases "pivot < m \<and> a ! pivot ! col = 0") (auto simp add: find_pivot.simps [of a col m pivot])
qed

lemma find_pivot_zero: "pivot \<le> r \<Longrightarrow> r < find_pivot a col m pivot \<Longrightarrow> a ! r ! col = 0"
proof (induction a col m pivot rule: find_pivot.induct)
  case (1 a col m pivot)
  then show ?case
    unfolding find_pivot.simps [of a col m pivot]
    by (cases "pivot < m \<and> a ! pivot ! col = 0"; cases "pivot = r") auto
qed

lemma find_pivot_nonzero:
  "find_pivot a col m pivot < m \<Longrightarrow> a ! find_pivot a col m pivot ! col \<noteq> 0"
proof (induction a col m pivot rule: find_pivot.induct)
  case (1 a col m pivot)
  then show ?case
    by (auto simp add: find_pivot.simps [of a col m pivot] split: if_splits)
qed

text \<open>Normalising the pivot row and eliminating its column from the others.\<close>

lemma normalise_sys:
  assumes wf: "wf_sys m width s" and col: "col < m" and piv: "ent s col col \<noteq> 0"
    and left: "\<And>c. c < col \<Longrightarrow> ent s col c = 0"
  shows "wf_sys m width (normalise m col s)"
    and "r < m \<Longrightarrow> c < m \<Longrightarrow> ent (normalise m col s) r c =
      (if r = col then inverse (ent s col col) * ent s r c else ent s r c)"
    and "r < m \<Longrightarrow> k < width \<Longrightarrow> rhs k (normalise m col s) r =
      (if r = col then inverse (ent s col col) * rhs k s r else rhs k s r)"
proof -
  obtain a syn where s: "s = (a, syn)" by (cases s)
  have inv: "gf_of (gf_inv (a ! col ! col)) = inverse (ent s col col)"
    using piv by (cases "a ! col ! col = 0") (auto simp add: ent_def s gf_of_inv gf_of_0)
  have len: "length a = m" "length syn = m" "\<And>r. r < m \<Longrightarrow> length (a ! r) = m"
    "\<And>r. r < m \<Longrightarrow> length (syn ! r) = width"
    using wf by (auto simp add: wf_sys_def s)
  show "wf_sys m width (normalise m col s)"
    using col len by (auto simp add: wf_sys_def s normalise_def Let_def nth_list_update upd_from_nth)
  show "ent (normalise m col s) r c =
      (if r = col then inverse (ent s col col) * ent s r c else ent s r c)" if "r < m" "c < m"
    using that col len left [of c] inv
    by (auto simp add: s normalise_def Let_def ent_def nth_list_update upd_from_nth gf_of_simps
        mult.commute)
  show "rhs k (normalise m col s) r =
      (if r = col then inverse (ent s col col) * rhs k s r else rhs k s r)" if "r < m" "k < width"
    using that col len inv
    by (auto simp add: s normalise_def Let_def rhs_def at_def nth_list_update gf_of_simps
        mult.commute)
qed

lemma eliminate_row_sys:
  assumes wf: "wf_sys m width s" and col: "col < m" and i: "i < m"
    and left: "\<And>c. c < col \<Longrightarrow> ent s col c = 0"
  shows "wf_sys m width (eliminate_row m col width s i)"
    and "r < m \<Longrightarrow> c < m \<Longrightarrow> ent (eliminate_row m col width s i) r c =
      (if r = i \<and> i \<noteq> col then ent s r c + ent s r col * ent s col c else ent s r c)"
    and "r < m \<Longrightarrow> k < width \<Longrightarrow> rhs k (eliminate_row m col width s i) r =
      (if r = i \<and> i \<noteq> col then rhs k s r + ent s r col * rhs k s col else rhs k s r)"
proof -
  obtain a syn where s: "s = (a, syn)" by (cases s)
  have len: "length a = m" "length syn = m" "\<And>r. r < m \<Longrightarrow> length (a ! r) = m"
    "\<And>r. r < m \<Longrightarrow> length (syn ! r) = width"
    using wf by (auto simp add: wf_sys_def s)
  show "wf_sys m width (eliminate_row m col width s i)"
    using i len
    by (auto simp add: wf_sys_def s eliminate_row_def Let_def nth_list_update upd_from_nth)
  show "ent (eliminate_row m col width s i) r c =
      (if r = i \<and> i \<noteq> col then ent s r c + ent s r col * ent s col c else ent s r c)"
    if "r < m" "c < m"
    using that i col len left [of c]
    by (auto simp add: s eliminate_row_def Let_def ent_def nth_list_update upd_from_nth gf_of_simps)
  show "rhs k (eliminate_row m col width s i) r =
      (if r = i \<and> i \<noteq> col then rhs k s r + ent s r col * rhs k s col else rhs k s r)"
    if "r < m" "k < width"
    using that i col len
    by (auto simp add: s eliminate_row_def Let_def rhs_def ent_def nth_list_update at_gf_mul_add
        gf_of_simps)
qed

lemma eliminate_rows_sys:
  assumes "wf_sys m width s" and "col < m" and "n \<le> m" and "\<And>c. c < col \<Longrightarrow> ent s col c = 0"
  shows "wf_sys m width (foldl (eliminate_row m col width) s [0..<n]) \<and>
    (\<forall>r<m. \<forall>c<m. ent (foldl (eliminate_row m col width) s [0..<n]) r c =
      (if r < n \<and> r \<noteq> col then ent s r c + ent s r col * ent s col c else ent s r c)) \<and>
    (\<forall>r<m. \<forall>k<width. rhs k (foldl (eliminate_row m col width) s [0..<n]) r =
      (if r < n \<and> r \<noteq> col then rhs k s r + ent s r col * rhs k s col else rhs k s r))"
  using assms(3)
proof (induction n)
  case (Suc n)
  define t where "t = foldl (eliminate_row m col width) s [0..<n]"
  have t: "wf_sys m width t"
    "\<And>r c. r < m \<Longrightarrow> c < m \<Longrightarrow> ent t r c =
      (if r < n \<and> r \<noteq> col then ent s r c + ent s r col * ent s col c else ent s r c)"
    "\<And>r k. r < m \<Longrightarrow> k < width \<Longrightarrow> rhs k t r =
      (if r < n \<and> r \<noteq> col then rhs k s r + ent s r col * rhs k s col else rhs k s r)"
    using Suc by (simp_all add: t_def)
  have left: "\<And>c. c < col \<Longrightarrow> ent t col c = 0"
    using t(2) assms(2,4) by simp
  have n: "n < m" using Suc.prems by simp
  have eq: "foldl (eliminate_row m col width) s [0..<Suc n] = eliminate_row m col width t n"
    by (simp add: t_def)
  note step = eliminate_row_sys [OF t(1) assms(2) n left]
  show ?case
    unfolding eq using step t(2,3) assms(2) n by (auto simp add: less_Suc_eq)
qed (use assms in simp)

text \<open>One column: on success the column becomes a unit vector and neither the solutions nor the
  kernel change; on failure every remaining row is zero there.\<close>

lemma swap_sys:
  assumes "wf_sys m width (a, syn)" and "i < m" and "j < m"
  defines "t \<equiv> (swap a i j, swap syn i j)"
  shows "wf_sys m width t"
    and "r < m \<Longrightarrow> ent t r c = ent (a, syn) (if r = i then j else if r = j then i else r) c"
    and "r < m \<Longrightarrow> rhs k t r = rhs k (a, syn) (if r = i then j else if r = j then i else r)"
  using assms by (auto simp add: wf_sys_def ent_def rhs_def swap_nth)

lemma eliminate_col_Some:
  assumes "eliminate_col m width col s = Some s'" and "wf_sys m width s" and "col < m"
    and "unit_cols m col s"
  shows "wf_sys m width s' \<and> unit_cols m (Suc col) s'
    \<and> (\<forall>k<width. \<forall>x. solves m (ent s') (rhs k s') x \<longleftrightarrow> solves m (ent s) (rhs k s) x)
    \<and> (\<forall>x. solves m (ent s') (\<lambda>_. 0) x \<longleftrightarrow> solves m (ent s) (\<lambda>_. 0) x)"
proof -
  obtain a syn where s: "s = (a, syn)" by (cases s)
  define p where "p = find_pivot a col m col"
  have p: "col \<le> p" "p < m" "a ! p ! col \<noteq> 0"
    using assms(1,3) find_pivot_le [of col m a col] find_pivot_nonzero [of a col m col]
    by (auto simp add: eliminate_col_def s Let_def p_def split: if_splits)
  define t where "t = (if p \<noteq> col then (swap a p col, swap syn p col) else (a, syn))"
  define \<pi> where "\<pi> = (\<lambda>r. if r = p then col else if r = col then p else r)"
  have t: "wf_sys m width t" "\<And>r c. r < m \<Longrightarrow> ent t r c = ent s (\<pi> r) c"
    "\<And>r k. r < m \<Longrightarrow> rhs k t r = rhs k s (\<pi> r)"
    using swap_sys [OF assms(2) [unfolded s] p(2) assms(3)] assms(2)
    by (auto simp add: t_def s \<pi>_def)
  have piv: "ent t col col \<noteq> 0"
    using t(2) [OF assms(3), of col] p by (auto simp add: \<pi>_def ent_def s gf_of_eq_iff simp flip: gf_of_0)
  have unit: "ent t r c = (if r = c then 1 else 0)" if "r < m" "c < col" for r c
    using assms(3,4) p that t(2) [of r c] by (auto simp add: unit_cols_def \<pi>_def)
  then have left: "\<And>c. c < col \<Longrightarrow> ent t col c = 0" using assms(3) by simp
  define e where "e = inverse (ent t col col)"
  have e: "e \<noteq> 0" "e * ent t col col = 1" using piv by (simp_all add: e_def)
  define u where "u = normalise m col t"
  note nrm = normalise_sys [OF t(1) assms(3) piv left, folded u_def e_def]
  have uleft: "\<And>c. c < col \<Longrightarrow> ent u col c = 0" using nrm(2) left assms(3) by simp
  have s': "s' = foldl (eliminate_row m col width) u [0..<m]"
    using assms(1) p by (auto simp add: eliminate_col_def s Let_def u_def t_def simp flip: p_def)
  note el = eliminate_rows_sys [OF nrm(1) assms(3) le_refl uleft, folded s']
  have ent': "ent s' r c = ent u r c + (if r = col then 0 else ent u r col) * ent u col c"
    if "r < m" "c < m" for r c using el that by auto
  have rhs': "rhs k s' r = rhs k u r + (if r = col then 0 else ent u r col) * rhs k u col"
    if "r < m" "k < width" for r k using el that by auto
  have sol: "solves m (ent s') (rhs k s') x \<longleftrightarrow> solves m (ent s) (rhs k s) x" if "k < width" for k x
  proof -
    have "solves m (ent s') (rhs k s') x \<longleftrightarrow> solves m (ent u) (rhs k u) x"
      by (rule solves_eliminate [OF assms(3), where f = "\<lambda>r. if r = col then 0 else ent u r col"])
        (use ent' rhs' that in simp_all)
    also have "\<dots> \<longleftrightarrow> solves m (ent t) (rhs k t) x"
      by (rule solves_scale [OF assms(3) e(1)]) (use nrm that in simp_all)
    also have "\<dots> \<longleftrightarrow> solves m (ent s) (rhs k s) x"
      by (rule solves_swap [OF p(2) assms(3)]) (use t in \<open>simp_all add: \<pi>_def\<close>)
    finally show ?thesis .
  qed
  have ker: "solves m (ent s') (\<lambda>_. 0) x \<longleftrightarrow> solves m (ent s) (\<lambda>_. 0) x" for x
  proof -
    have "solves m (ent s') (\<lambda>_. 0) x \<longleftrightarrow> solves m (ent u) (\<lambda>_. 0) x"
      by (rule solves_eliminate [OF assms(3), where f = "\<lambda>r. if r = col then 0 else ent u r col"])
        (use ent' in simp_all)
    also have "\<dots> \<longleftrightarrow> solves m (ent t) (\<lambda>_. 0) x"
      by (rule solves_scale [OF assms(3) e(1)]) (use nrm in simp_all)
    also have "\<dots> \<longleftrightarrow> solves m (ent s) (\<lambda>_. 0) x"
      by (rule solves_swap [OF p(2) assms(3)]) (use t in \<open>simp_all add: \<pi>_def\<close>)
    finally show ?thesis .
  qed
  have double: "x + x = (0 :: gf)" for x by transfer simp
  have "ent s' r c = (if r = c then 1 else 0)" if "r < m" "c < Suc col" for r c
  proof (cases "c = col")
    case True
    then show ?thesis
      using that assms(3) ent' [of r c] nrm(2) [of r c] nrm(2) [of col col] e double by auto
  next
    case False
    then show ?thesis
      using that assms(3) ent' [of r c] nrm(2) [of r c] nrm(2) [of col c] unit left e by auto
  qed
  then show ?thesis
    using el sol ker by (simp add: unit_cols_def)
qed

lemma eliminate_col_None:
  assumes "eliminate_col m width col s = None" and "col < m" and "col \<le> r" and "r < m"
  shows "ent s r col = 0"
proof -
  obtain a syn where s: "s = (a, syn)" by (cases s)
  have "find_pivot a col m col = m"
    using assms(1) by (auto simp add: eliminate_col_def s Let_def split: if_splits)
  then show ?thesis
    using find_pivot_zero [of col r a col m] assms by (simp add: ent_def s gf_of_0)
qed

lemma gauss_append:
  "gauss m width (xs @ ys) s = (case gauss m width xs s of None \<Rightarrow> None | Some t \<Rightarrow> gauss m width ys t)"
  by (induction xs arbitrary: s) (auto split: option.splits)

lemma gauss_Some:
  assumes "wf_sys m width s" and "n \<le> m" and "gauss m width [0..<n] s = Some s'"
  shows "wf_sys m width s' \<and> unit_cols m n s'
    \<and> (\<forall>k<width. \<forall>x. solves m (ent s') (rhs k s') x \<longleftrightarrow> solves m (ent s) (rhs k s) x)
    \<and> (\<forall>x. solves m (ent s') (\<lambda>_. 0) x \<longleftrightarrow> solves m (ent s) (\<lambda>_. 0) x)"
  using assms(2,3)
proof (induction n arbitrary: s')
  case 0
  then show ?case using assms(1) by (simp add: unit_cols_def)
next
  case (Suc n)
  then obtain t where t: "gauss m width [0..<n] s = Some t" "eliminate_col m width n t = Some s'"
    by (auto simp add: gauss_append split: option.splits)
  then show ?case
    using Suc.IH [OF _ t(1)] Suc.prems(1) eliminate_col_Some [OF t(2)] by simp
qed

text \<open>A failed elimination exhibits a non-trivial kernel vector.\<close>

lemma gauss_None:
  assumes "wf_sys m width s" and "gauss m width [0..<n] s = None" and "n \<le> m"
  shows "\<exists>x. solves m (ent s) (\<lambda>_. 0) x \<and> (\<exists>c<m. x c \<noteq> 0)"
  using assms(2,3)
proof (induction n)
  case (Suc n)
  show ?case
  proof (cases "gauss m width [0..<n] s")
    case None
    then show ?thesis using Suc by simp
  next
    case (Some t)
    then have no: "eliminate_col m width n t = None" and n: "n < m"
      using Suc.prems by (auto simp add: gauss_append split: option.splits)
    have t: "unit_cols m n t"
      "solves m (ent t) (\<lambda>_. 0) x \<longleftrightarrow> solves m (ent s) (\<lambda>_. 0) x" for x
      using gauss_Some [OF assms(1) _ Some] n by auto
    define x where "x = (\<lambda>c. if c < n then - ent t c n else if c = n then 1 else (0 :: gf))"
    have "(\<Sum>c<m. ent t r c * x c) = 0" if r: "r < m" for r
    proof -
      have "(\<Sum>c<m. ent t r c * x c) = (\<Sum>c<Suc n. ent t r c * x c)"
        using n by (intro sum.mono_neutral_right) (auto simp add: x_def)
      also have "\<dots> = (\<Sum>c<n. (if r = c then 1 else 0) * x c) + ent t r n"
        using t(1) r n by (simp add: unit_cols_def x_def)
      also have "(\<Sum>c<n. (if r = c then 1 else 0) * x c) = (if r < n then x r else 0)"
        by (simp add: if_distrib [of "\<lambda>e. e * _"] cong: if_cong)
      also have "(if r < n then x r else 0) + ent t r n = 0"
        using eliminate_col_None [OF no n, of r] r by (auto simp add: x_def)
      finally show ?thesis .
    qed
    then have "solves m (ent t) (\<lambda>_. 0) x" by (simp add: solves_def)
    then have "solves m (ent s) (\<lambda>_. 0) x" using t(2) by blast
    moreover have "x n \<noteq> 0" by (simp add: x_def)
    ultimately show ?thesis using n by blast
  qed
qed simp

section \<open>Soundness of the decoder\<close>


lemma missing_set: "set (missing_of data) = {i. i < length data \<and> data ! i = None}"
  and missing_distinct: "distinct (missing_of data)"
  by (auto simp add: missing_of_def)

lemma missing_lt: "c < length (missing_of data) \<Longrightarrow> missing_of data ! c < length data"
  using nth_mem [of c "missing_of data"] by (simp add: missing_set)

lemma sum_missing:
  "(\<Sum>c<length (missing_of data). f (missing_of data ! c)) =
     (\<Sum>i | i < length data \<and> data ! i = None. f i)"
proof -
  have "bij_betw ((!) (missing_of data)) {..<length (missing_of data)} (set (missing_of data))"
    by (rule bij_betw_nth [OF missing_distinct]) auto
  from sum.reindex_bij_betw [OF this, of f] show ?thesis by (simp add: missing_set)
qed

lemma gf_double [simp]: "x + x = (0 :: gf)"
  by transfer simp

lemma syndrome_missing:
  assumes "length data = length D"
    and "\<And>i. i < length D \<Longrightarrow> data ! i = None \<or> data ! i = Some (D ! i)"
  shows "(\<Sum>i<length D. cf p i * at k (D ! i)) + (\<Sum>i<length data. term_of_frag k p i (data ! i))
    = (\<Sum>i | i < length data \<and> data ! i = None. cf p i * at k (D ! i))"
proof -
  have "(\<Sum>i<length D. cf p i * at k (D ! i)) + (\<Sum>i<length data. term_of_frag k p i (data ! i))
      = (\<Sum>i<length D. cf p i * at k (D ! i) + term_of_frag k p i (data ! i))"
    by (simp add: sum.distrib assms(1))
  also have "\<dots> = (\<Sum>i<length D. if data ! i = None then cf p i * at k (D ! i) else 0)"
    using assms(2) by (intro sum.cong) (auto, force)
  also have "\<dots> = (\<Sum>i | i < length data \<and> data ! i = None. cf p i * at k (D ! i))"
    by (simp add: sum.If_cases assms(1) lessThan_def Int_def)
  finally show ?thesis .
qed

lemma rs_system_wf: "wf_sys (length ms) width (rs_system data parity width ms)"
  by (simp add: wf_sys_def rs_system_def Let_def)

lemma rs_system_solution:
  assumes "received rs_encode D n width data parity" and "length (missing_of data) \<le> length parity"
    and "k < width"
  defines "s \<equiv> rs_system data parity width (missing_of data)"
  shows "solves (length (missing_of data)) (ent s) (rhs k s) (\<lambda>c. at k (D ! (missing_of data ! c)))"
  unfolding solves_def
proof (intro allI impI)
  fix r assume r: "r < length (missing_of data)"
  obtain p b where pb: "parity ! r = (p, b)" by (cases "parity ! r")
  have "(p, b) \<in> set parity" using r assms(2) pb nth_mem [of r parity] by simp
  then have p: "p < n" "b = rs_encode D n width ! p" using assms(1) by (auto simp add: received_def)
  have "(\<Sum>c<length (missing_of data). ent s r c * at k (D ! (missing_of data ! c)))
      = (\<Sum>c<length (missing_of data). cf p (missing_of data ! c) * at k (D ! (missing_of data ! c)))"
    using r pb by (intro sum.cong) (simp_all add: s_def rs_system_def Let_def ent_def cf_def)
  also have "\<dots> = (\<Sum>i | i < length data \<and> data ! i = None. cf p i * at k (D ! i))"
    by (rule sum_missing)
  also have "\<dots> = at k b + (\<Sum>i<length data. term_of_frag k p i (data ! i))"
    using syndrome_missing [of data D p k] assms(1,3) p
    by (auto simp add: received_def rs_encode_nth)
  also have "\<dots> = rhs k s r"
    using r pb assms(3) by (simp add: s_def rs_system_def Let_def rhs_def at_syndrome)
  finally show "(\<Sum>c<length (missing_of data). ent s r c * at k (D ! (missing_of data ! c))) = rhs k s r" .
qed

lemma unit_solution:
  assumes "unit_cols m m s" and "solves m (ent s) b x" and "r < m"
  shows "x r = b r"
proof -
  have "b r = (\<Sum>c<m. (if r = c then 1 else 0) * x c)"
    using assms by (simp add: solves_def unit_cols_def)
  also have "\<dots> = x r"
    using assms(3) by (simp add: if_distrib [of "\<lambda>e. e * _"] cong: if_cong)
  finally show ?thesis by simp
qed

lemma fill_missing:
  assumes "distinct ms" and "\<forall>i\<in>set ms. i < length data" and "n \<le> length ms"
  shows "length (foldl (\<lambda>d c. d[ms ! c := Some (syn ! c)]) data [0..<n]) = length data"
    and "c < n \<Longrightarrow> foldl (\<lambda>d c. d[ms ! c := Some (syn ! c)]) data [0..<n] ! (ms ! c) = Some (syn ! c)"
    and "i \<notin> set ms \<Longrightarrow> foldl (\<lambda>d c. d[ms ! c := Some (syn ! c)]) data [0..<n] ! i = data ! i"
proof -
  have "length (foldl (\<lambda>d c. d[ms ! c := Some (syn ! c)]) data [0..<n]) = length data \<and>
    (\<forall>c<n. foldl (\<lambda>d c. d[ms ! c := Some (syn ! c)]) data [0..<n] ! (ms ! c) = Some (syn ! c)) \<and>
    (\<forall>i. i \<notin> set ms \<longrightarrow> foldl (\<lambda>d c. d[ms ! c := Some (syn ! c)]) data [0..<n] ! i = data ! i)"
    using assms(3)
  proof (induction n)
    case (Suc n)
    have "ms ! n \<in> set ms" using Suc.prems by simp
    moreover have "ms ! n \<noteq> ms ! c" if "c < n" for c
      using that Suc.prems assms(1) by (simp add: nth_eq_iff_index_eq)
    ultimately show ?case
      using Suc assms(2) by (auto simp add: nth_list_update less_Suc_eq)
  qed simp
  then show "length (foldl (\<lambda>d c. d[ms ! c := Some (syn ! c)]) data [0..<n]) = length data"
    and "c < n \<Longrightarrow> foldl (\<lambda>d c. d[ms ! c := Some (syn ! c)]) data [0..<n] ! (ms ! c) = Some (syn ! c)"
    and "i \<notin> set ms \<Longrightarrow> foldl (\<lambda>d c. d[ms ! c := Some (syn ! c)]) data [0..<n] ! i = data ! i"
    by auto
qed

lemma rs_decode_failed: "rs_decode data parity width = (False, d) \<Longrightarrow> d = data"
  by (auto simp add: rs_decode_def Let_def split: if_splits option.splits)

lemma rs_decode_sound:
  assumes rec: "received rs_encode D n width data parity" and ok: "rs_decode data parity width = (True, d)"
  shows "d = restored D width data"
proof -
  define ms where "ms = missing_of data"
  define s where "s = rs_system data parity width ms"
  have len: "length data = length D" using rec by (simp add: received_def)
  show ?thesis
  proof (cases "ms = []")
    case True
    then have "data ! i \<noteq> None" if "i < length data" for i
      using that missing_set [of data] by (auto simp add: ms_def)
    moreover have "d = data" using ok True by (simp add: rs_decode_def flip: ms_def)
    ultimately show ?thesis
      using len unfolding restored_def by (intro nth_equalityI) auto
  next
    case False
    then obtain a syn where g: "gauss (length ms) width [0..<length ms] s = Some (a, syn)"
      and d: "d = foldl (\<lambda>d c. d[ms ! c := Some (syn ! c)]) data [0..<length ms]"
      and le: "length ms \<le> length parity"
      using ok by (auto simp add: rs_decode_def Let_def s_def simp flip: ms_def
          split: if_splits option.splits)
    note fin = gauss_Some [OF rs_system_wf [of ms width data parity, folded s_def] le_refl g]
    have val: "syn ! c = resize0 (D ! (ms ! c)) width" if c: "c < length ms" for c
    proof (rule at_eqI)
      show "length (syn ! c) = length (resize0 (D ! (ms ! c)) width)"
        using fin c by (simp add: wf_sys_def)
      fix k assume "k < length (resize0 (D ! (ms ! c)) width)"
      then have k: "k < width" by simp
      have "solves (length ms) (ent (a, syn)) (rhs k (a, syn)) (\<lambda>c. at k (D ! (ms ! c)))"
        using fin k rs_system_solution [OF rec le [unfolded ms_def] k] by (simp add: ms_def s_def)
      from unit_solution [OF _ this c] fin show "at k (syn ! c) = at k (resize0 (D ! (ms ! c)) width)"
        using k by (simp add: rhs_def)
    qed
    have dist: "distinct ms" "\<forall>i\<in>set ms. i < length data"
      by (auto simp add: ms_def missing_distinct missing_set)
    note fill = fill_missing [where syn = syn, OF dist le_refl, folded d]
    show ?thesis
      unfolding restored_def
    proof (rule nth_equalityI)
      show "length d = length (map (\<lambda>i. if data ! i = None then Some (resize0 (D ! i) width)
          else data ! i) [0..<length D])"
        using fill(1) len by simp
      fix i assume "i < length d"
      then have i: "i < length data" using fill(1) by simp
      show "d ! i = map (\<lambda>i. if data ! i = None then Some (resize0 (D ! i) width)
          else data ! i) [0..<length D] ! i"
      proof (cases "data ! i = None")
        case True
        then have "i \<in> set ms" using i by (simp add: ms_def missing_set)
        then obtain c where c: "c < length ms" "ms ! c = i" by (auto simp add: in_set_conv_nth)
        then show ?thesis using fill(2) [OF c(1)] val [OF c(1)] True i len by simp
      next
        case False
        then have "i \<notin> set ms" by (simp add: ms_def missing_set)
        then show ?thesis using fill(3) False i len by simp
      qed
    qed
  qed
qed

section \<open>When the decoder is bound to succeed\<close>

text \<open>The weights of a kernel vector vanish against every product of linear factors of degree
  below the number of rows, so a Vandermonde block of consecutive rows has a trivial kernel.\<close>

lemma vandermonde_products:
  fixes x v :: "nat \<Rightarrow> gf"
  assumes "\<And>r. r < m \<Longrightarrow> (\<Sum>c<m. x c ^ (s + r) * v c) = 0"
  shows "t + length ds < m \<Longrightarrow>
    (\<Sum>c<m. prod_list (map (\<lambda>d. x c - d) ds) * (x c ^ (s + t) * v c)) = 0"
proof (induction ds arbitrary: t)
  case Nil
  then show ?case using assms [of t] by simp
next
  case (Cons d ds)
  have "prod_list (map (\<lambda>d. x c - d) (d # ds)) * (x c ^ (s + t) * v c)
      = prod_list (map (\<lambda>d. x c - d) ds) * (x c ^ (s + Suc t) * v c)
        - d * (prod_list (map (\<lambda>d. x c - d) ds) * (x c ^ (s + t) * v c))" for c
    by (simp add: algebra_simps)
  then show ?case
    using Cons.IH [of "Suc t"] Cons.IH [of t] Cons.prems
    by (simp add: sum_subtractf flip: sum_distrib_left)
qed

lemma vandermonde_kernel:
  fixes x v :: "nat \<Rightarrow> gf"
  assumes "\<And>r. r < m \<Longrightarrow> (\<Sum>c<m. x c ^ (s + r) * v c) = 0"
    and "inj_on x {..<m}" and "\<And>c. c < m \<Longrightarrow> x c \<noteq> 0" and "e < m"
  shows "v e = 0"
proof -
  define ds where "ds = map x (filter (\<lambda>c. c \<noteq> e) [0..<m])"
  have "length ds = card {c. c < m \<and> c \<noteq> e}"
    by (simp add: ds_def distinct_length_filter Int_def conj_commute)
  also have "{c. c < m \<and> c \<noteq> e} = {..<m} - {e}" by auto
  finally have len: "0 + length ds < m" using assms(4) by (simp add: card_Diff_singleton)
  have zero: "prod_list (map (\<lambda>d. x c - d) ds) = 0" if "c < m" "c \<noteq> e" for c
    using that by (auto simp add: prod_list_zero_iff ds_def)
  have nz: "prod_list (map (\<lambda>d. x e - d) ds) \<noteq> 0"
    using assms(2,4) by (auto simp add: prod_list_zero_iff ds_def inj_on_def)
  have "0 = (\<Sum>c<m. prod_list (map (\<lambda>d. x c - d) ds) * (x c ^ (s + 0) * v c))"
    using vandermonde_products [OF assms(1) len] by simp
  also have "\<dots> = (\<Sum>c\<in>{e}. prod_list (map (\<lambda>d. x c - d) ds) * (x c ^ (s + 0) * v c))"
    using zero assms(4) by (intro sum.mono_neutral_right) auto
  finally show ?thesis using nz assms(3) [OF assms(4)] by simp
qed

lemma rs_decode_complete:
  assumes "length (missing_of data) \<le> length parity" and "length data \<le> 255"
    and "\<And>r. r < length (missing_of data) \<Longrightarrow> fst (parity ! r) = b + r"
  shows "fst (rs_decode data parity width)"
proof (cases "gauss (length (missing_of data)) width [0..<length (missing_of data)]
    (rs_system data parity width (missing_of data))")
  case (Some s)
  then show ?thesis using assms(1) by (cases s) (simp add: rs_decode_def Let_def)
next
  case None
  define ms where "ms = missing_of data"
  define m where "m = length ms"
  define x where "x = (\<lambda>c. gf_of (of_nat (Suc (ms ! c))))"
  obtain v e where v: "solves m (ent (rs_system data parity width ms)) (\<lambda>_. 0) v" "e < m" "v e \<noteq> 0"
    using gauss_None [OF rs_system_wf None le_refl] by (auto simp add: ms_def m_def)
  have lt: "ms ! c < 255" if "c < m" for c
    using missing_lt [of c data] that assms(2) by (simp add: ms_def m_def)
  have "(\<Sum>c<m. x c ^ (b + r) * v c) = 0" if "r < m" for r
  proof -
    have "(\<Sum>c<m. x c ^ (b + r) * v c) = (\<Sum>c<m. ent (rs_system data parity width ms) r c * v c)"
      using that assms(3) [of r]
      by (intro sum.cong) (simp_all add: ent_def rs_system_def Let_def x_def ms_def m_def
          coef_def gf_of_pow)
    then show ?thesis using v(1) that by (simp add: solves_def)
  qed
  moreover have inj: "(of_nat (Suc i) :: u8) = of_nat (Suc j) \<longleftrightarrow> i = j" if "i < 255" "j < 255" for i j
    using that by (simp add: word_of_nat_eq_iff take_bit_nat_eq_self del: of_nat_Suc)
  moreover have "inj_on x {..<m}"
    using inj lt by (auto simp add: inj_on_def x_def gf_of_eq_iff ms_def m_def nth_eq_iff_index_eq
        missing_distinct simp del: of_nat_Suc)
  moreover have "x c \<noteq> 0" if "c < m" for c
  proof -
    have "(of_nat (Suc (ms ! c)) :: u8) \<noteq> 0"
      using lt [OF that] by (auto simp add: word_of_nat_eq_0_iff simp del: of_nat_Suc dest: dvd_imp_le)
    then show ?thesis using gf_of_eq_iff [of "of_nat (Suc (ms ! c))" 0] by (simp only: x_def gf_of_0 not_False_eq_True)
  qed
  ultimately have "v e = 0" using vandermonde_kernel [of m x b v e] v(2) by blast
  then show ?thesis using v(3) by simp
qed

interpretation rs: erasure_code rs_encode rs_decode
  by unfold_locales
    (auto simp add: rs_encode_nth rs_decode_failed rs_decode_sound intro: rs_decode_complete)

text \<open>A matrix with a kernel vector is refused.\<close>

lemma singular_refused:
  assumes "length (missing_of data) = m" and "0 < m"
    and "solves m (ent (rs_system data parity width (missing_of data))) (\<lambda>_. 0) x"
    and "c < m" and "x c \<noteq> 0"
  shows "rs_decode data parity width = (False, data)"
proof -
  have "gauss m width [0..<m] (rs_system data parity width (missing_of data)) = None"
  proof (rule ccontr)
    assume "gauss m width [0..<m] (rs_system data parity width (missing_of data)) \<noteq> None"
    then obtain s where s: "gauss m width [0..<m] (rs_system data parity width (missing_of data)) = Some s"
      by blast
    have "unit_cols m m s" and "solves m (ent s) (\<lambda>_. 0) x"
      using gauss_Some [OF _ le_refl s] rs_system_wf [of "missing_of data" width data parity] assms
      by auto
    then have "x c = 0" using unit_solution assms(4) by blast
    then show False using assms(5) by simp
  qed
  then show ?thesis using assms(1,2) by (auto simp add: rs_decode_def Let_def)
qed

section \<open>Properties\<close>

text \<open>
  C6: the decoder never invents data.  Given any fragments and parities left of an encoded
  block, \<open>ReedSolomon::decode\<close> either gives up and leaves the fragments untouched, or fills
  every gap with the original fragment (padded with zeros to the common width).
\<close>

theorem decode_never_wrong:
  assumes "received rs_encode D n width data parity"
  shows "rs_decode data parity width \<in> {(False, data), (True, restored D width data)}"
  using assms by (rule rs.dec_never_wrong)

theorem decode_never_wrong_witness:
  "rs_decode [Some [1, 2], None, Some [5]] [(2, rs_encode [[1, 2], [3, 4], [5]] 4 2 ! 2)] 2 \<in>
    {(False, [Some [1, 2], None, Some [5]]), (True, [Some [1, 2], Some [3, 4], Some [5]])}"
proof -
  have "received rs_encode [[1, 2], [3, 4], [5]] 4 2 [Some [1, 2], None, Some [5]]
      [(2, rs_encode [[1, 2], [3, 4], [5]] 4 2 ! 2)]"
    by (auto simp add: received_def less_Suc_eq)
  from decode_never_wrong [OF this] show ?thesis
    by (simp add: restored_def resize0_def upt_rec)
qed



text \<open>
  Not every set of parities is enough.  The comment in the decoder says a square part of
  the coefficient matrix is never singular; but with fragments 6 and 23 lost and exactly the
  parities 0 and 3 received, decoding always fails, whatever the contents: two parities do not
  recover these two losses.
\<close>

theorem two_parities_not_enough:
  assumes "missing_of data = [6, 23]" and "map fst parity = [0, 3]"
  shows "rs_decode data parity width = (False, data)"
proof (rule singular_refused [where c = 0 and m = 2])
  have "gf_pow 7 3 = gf_pow 24 3"
    by (simp add: numeral_3_eq_3 gf_pow_Suc gf_mul_is_spec) code_simp
  then have "cf 3 6 = cf 3 23" and "cf 0 i = 1" for i
    by (simp_all add: cf_def coef_def gf_of_1)
  moreover have "fst (parity ! 0) = 0" and "fst (parity ! 1) = 3"
    using assms(2) by (auto simp add: map_eq_Cons_conv)
  ultimately show "solves 2 (ent (rs_system data parity width (missing_of data))) (\<lambda>_. 0) (\<lambda>_. 1)"
    by (auto simp add: solves_def assms(1) ent_def rs_system_def Let_def cf_def less_Suc_eq
        numeral_2_eq_2)
qed (use assms(1) in auto)

theorem two_parities_not_enough_witness:
  "rs_decode (map (\<lambda>i. if i \<in> {6, 23} then None else Some [1]) [0..<24]) [(0, [9]), (3, [7])] 1
   = (False, map (\<lambda>i. if i \<in> {6, 23} then None else Some [1]) [0..<24])"
  by (rule two_parities_not_enough) (simp_all add: missing_of_def upt_rec)

end
