(* ===== verification/Blocking_Queue.thy ===== *)
theory Blocking_Queue
  imports Prelude
begin

text \<open>
  The bounded queue of \<open>blocking_queue.hpp\<close> at the level of its nodes: a store of
  heap nodes, the head and tail pointers of the singly linked list, the free list that recycles
  up to 16 nodes, and the size, capacity and closed flag.  The mutex makes every operation one
  step; a wait on a condition variable is the guard of the step (\<open>None\<close> while it blocks).
  The interface \<open>bounded_queue\<close> is the list of queued items the clients reason with.
\<close>

section \<open>State and operations\<close>

record 'a node =
  item :: "'a option"
  nxt :: "nat option"

record 'a bqueue =
  m_capacity :: nat
  m_size :: nat
  m_head :: "nat option"
  m_tail :: "nat option"
  m_free_nodes :: "nat option"
  m_free_count :: nat
  m_closed :: bool
  m_store :: "nat \<Rightarrow> 'a node option"
  m_brk :: nat

definition bq_new :: "nat \<Rightarrow> 'a bqueue" where
  "bq_new capacity = \<lparr> m_capacity = capacity, m_size = 0, m_head = None, m_tail = None,
     m_free_nodes = None, m_free_count = 0, m_closed = False, m_store = (\<lambda>_. None), m_brk = 0 \<rparr>"

text \<open>Field access through a pointer.\<close>

definition node_at :: "'a bqueue \<Rightarrow> nat \<Rightarrow> 'a node" where
  "node_at q a = (case m_store q a of Some n \<Rightarrow> n | None \<Rightarrow> \<lparr> item = None, nxt = None \<rparr>)"

definition set_node :: "nat \<Rightarrow> 'a node \<Rightarrow> 'a bqueue \<Rightarrow> 'a bqueue" where
  "set_node a n q = q\<lparr>m_store := (m_store q)(a \<mapsto> n)\<rparr>"

text \<open>\<open>new\<close> returns an address that was never used before: the store grows upwards.\<close>

definition obtain_node :: "'a bqueue \<Rightarrow> nat \<times> 'a bqueue" where
  "obtain_node q =
    (case m_free_nodes q of
       Some a \<Rightarrow>
         let n = node_at q a;
             q = q\<lparr>m_free_nodes := nxt n\<rparr>;
             q = set_node a (n\<lparr>nxt := None\<rparr>) q
         in (a, q\<lparr>m_free_count := m_free_count q - 1\<rparr>)
     | None \<Rightarrow> (m_brk q, (set_node (m_brk q) \<lparr> item = None, nxt = None \<rparr> q)\<lparr>m_brk := m_brk q + 1\<rparr>))"

definition recycle_node :: "nat \<Rightarrow> 'a bqueue \<Rightarrow> 'a bqueue" where
  "recycle_node a q =
    (let q = set_node a ((node_at q a)\<lparr>item := None\<rparr>) q in
     if m_free_count q < 16
     then let q = set_node a ((node_at q a)\<lparr>nxt := m_free_nodes q\<rparr>) q
          in q\<lparr>m_free_nodes := Some a, m_free_count := m_free_count q + 1\<rparr>
     else q\<lparr>m_store := (m_store q)(a := None)\<rparr>)"

definition link_tail :: "nat \<Rightarrow> 'a bqueue \<Rightarrow> 'a bqueue" where
  "link_tail a q =
    (let q = (case m_tail q of
                Some t \<Rightarrow> (set_node t ((node_at q t)\<lparr>nxt := Some a\<rparr>) q)\<lparr>m_tail := Some a\<rparr>
              | None \<Rightarrow> q\<lparr>m_head := Some a, m_tail := Some a\<rparr>)
     in q\<lparr>m_size := m_size q + 1\<rparr>)"

definition unlink_head :: "'a bqueue \<Rightarrow> 'a option \<times> 'a bqueue" where
  "unlink_head q =
    (case m_head q of
       None \<Rightarrow> (None, q)
     | Some a \<Rightarrow>
         let n = node_at q a;
             q = q\<lparr>m_head := nxt n\<rparr>;
             q = (if m_head q = None then q\<lparr>m_tail := None\<rparr> else q);
             q = q\<lparr>m_size := m_size q - 1\<rparr>
         in (item n, recycle_node a q))"

definition enqueue_node :: "'a \<Rightarrow> 'a bqueue \<Rightarrow> 'a bqueue" where
  "enqueue_node x q =
    (let (a, q) = obtain_node q;
         q = set_node a ((node_at q a)\<lparr>item := Some x\<rparr>) q
     in link_tail a q)"

definition bq_full :: "'a bqueue \<Rightarrow> bool" where
  "bq_full q \<longleftrightarrow> m_capacity q > 0 \<and> m_size q \<ge> m_capacity q"

text \<open>\<open>push\<close> blocks (\<open>None\<close>) while the queue is open and full.\<close>

definition bq_push :: "'a \<Rightarrow> 'a bqueue \<Rightarrow> (bool \<times> 'a bqueue) option" where
  "bq_push x q =
    (if m_closed q then Some (False, q)
     else if bq_full q then None
     else Some (True, enqueue_node x q))"

definition bq_try_push :: "'a \<Rightarrow> 'a bqueue \<Rightarrow> bool \<times> 'a bqueue" where
  "bq_try_push x q =
    (if m_closed q \<or> bq_full q then (False, q) else (True, enqueue_node x q))"

text \<open>\<open>take\<close> blocks (\<open>None\<close>) while the queue is open and empty.\<close>

definition bq_take :: "'a bqueue \<Rightarrow> ('a option \<times> 'a bqueue) option" where
  "bq_take q =
    (if \<not> (m_size q > 0 \<or> m_closed q) then None
     else if m_closed q \<and> m_size q = 0 then Some (None, q)
     else Some (unlink_head q))"

text \<open>\<open>take_for\<close> whose wait ends with the predicate in its current state.\<close>

definition bq_take_for :: "'a bqueue \<Rightarrow> 'a option \<times> 'a bqueue" where
  "bq_take_for q =
    (let ok = m_size q > 0 \<or> m_closed q in
     if \<not> ok \<or> (m_closed q \<and> m_size q = 0) then (None, q) else unlink_head q)"

definition bq_poll :: "'a bqueue \<Rightarrow> 'a option \<times> 'a bqueue" where
  "bq_poll q = (if m_size q = 0 then (None, q) else unlink_head q)"

definition bq_close :: "'a bqueue \<Rightarrow> 'a bqueue" where
  "bq_close q = q\<lparr>m_closed := True\<rparr>"

section \<open>Chains of nodes\<close>

fun chain :: "(nat \<Rightarrow> 'a node option) \<Rightarrow> nat option \<Rightarrow> nat list \<Rightarrow> bool" where
  "chain s p [] = (p = None)"
| "chain s p (a # as) = (p = Some a \<and> (\<exists>n. s a = Some n \<and> chain s (nxt n) as))"

lemma chain_update: "a \<notin> set as \<Longrightarrow> chain (s(a := n)) p as = chain s p as"
  by (induction as arbitrary: p) auto

lemma chain_None: "chain s None as \<longleftrightarrow> as = []"
  by (cases as) auto

lemma chain_Some: "chain s (Some a) as \<longleftrightarrow> (\<exists>n bs. as = a # bs \<and> s a = Some n \<and> chain s (nxt n) bs)"
  by (cases as) auto

lemma chain_alloc: "chain s p as \<Longrightarrow> a \<in> set as \<Longrightarrow> s a \<noteq> None"
  by (induction as arbitrary: p) auto

text \<open>Appending a node to a non-empty chain by writing the link of its last node.\<close>

lemma chain_snoc:
  assumes "chain s p as" and "as \<noteq> []" and "distinct as" and "last as = t" and "s t = Some n"
    and "a \<notin> set as" and "s a = Some m" and "nxt m = None"
  shows "chain (s(t \<mapsto> n\<lparr>nxt := Some a\<rparr>)) p (as @ [a])"
  using assms
proof (induction as arbitrary: p)
  case (Cons b bs)
  show ?case
  proof (cases "bs = []")
    case True
    then show ?thesis using Cons.prems by auto
  next
    case False
    then have "t \<noteq> b" and "last bs = t" using Cons.prems by auto
    obtain k where k: "s b = Some k" "chain s (nxt k) bs" "p = Some b" using Cons.prems(1) by auto
    have "chain (s(t \<mapsto> n\<lparr>nxt := Some a\<rparr>)) (nxt k) (bs @ [a])"
      by (rule Cons.IH [OF k(2) False _ \<open>last bs = t\<close>]) (use Cons.prems in auto)
    then show ?thesis using k \<open>t \<noteq> b\<close> by (auto simp add: fun_upd_def)
  qed
qed simp

text \<open>The items of a chain of known length, and the abstract content of a queue.\<close>

fun walk :: "(nat \<Rightarrow> 'a node option) \<Rightarrow> nat option \<Rightarrow> nat \<Rightarrow> 'a option list" where
  "walk s p 0 = []"
| "walk s p (Suc n) =
    (case p of None \<Rightarrow> []
     | Some a \<Rightarrow> (case s a of None \<Rightarrow> [] | Some k \<Rightarrow> item k # walk s (nxt k) n))"

definition items :: "'a bqueue \<Rightarrow> 'a list" where
  "items q = List.map_filter id (walk (m_store q) (m_head q) (m_size q))"

definition item_of :: "(nat \<Rightarrow> 'a node option) \<Rightarrow> nat \<Rightarrow> 'a option" where
  "item_of s a = (case s a of None \<Rightarrow> None | Some n \<Rightarrow> item n)"

lemma map_item_of_other: "a \<notin> set as \<Longrightarrow> map (item_of (s(a := n))) as = map (item_of s) as"
  by (auto simp add: item_of_def)

lemma walk_chain: "chain s p as \<Longrightarrow> walk s p (length as) = map (item_of s) as"
  by (induction as arbitrary: p) (auto simp add: item_of_def)

text \<open>The invariant, with its ghost addresses and content.\<close>

definition bq_rep :: "'a bqueue \<Rightarrow> nat list \<Rightarrow> nat list \<Rightarrow> 'a list \<Rightarrow> bool" where
  "bq_rep q as fs xs \<longleftrightarrow>
     chain (m_store q) (m_head q) as \<and> chain (m_store q) (m_free_nodes q) fs \<and>
     distinct (as @ fs) \<and> (\<forall>a\<in>set (as @ fs). a < m_brk q) \<and>
     m_tail q = (if as = [] then None else Some (last as)) \<and>
     m_size q = length as \<and> m_free_count q = length fs \<and> length fs \<le> 16 \<and>
     map (item_of (m_store q)) as = map Some xs \<and>
     (m_capacity q > 0 \<longrightarrow> length as \<le> m_capacity q)"

definition bq_inv :: "'a bqueue \<Rightarrow> bool" where
  "bq_inv q \<longleftrightarrow> (\<exists>as fs xs. bq_rep q as fs xs)"

lemma map_filter_Some: "List.map_filter id (map Some xs) = xs"
  by (induction xs) (auto simp add: map_filter_simps)

lemma bq_rep_items: "bq_rep q as fs xs \<Longrightarrow> items q = xs"
  using walk_chain [of "m_store q" "m_head q" as]
  by (auto simp add: bq_rep_def items_def map_filter_Some)

lemma bq_rep_size: "bq_rep q as fs xs \<Longrightarrow> m_size q = length xs"
  by (auto simp add: bq_rep_def dest: arg_cong [where f = length])

lemma bq_new_rep: "bq_rep (bq_new c) [] [] []"
  by (simp add: bq_rep_def bq_new_def)

text \<open>The last node of a chain.\<close>

lemma chain_last: "chain s p as \<Longrightarrow> as \<noteq> [] \<Longrightarrow> \<exists>n. s (last as) = Some n"
  by (metis chain_alloc last_in_set not_None_eq)

lemma obtain_node_rep:
  assumes "bq_rep q as fs xs" and "obtain_node q = (a, q')"
  shows "\<exists>fs'. bq_rep q' as fs' xs \<and> a \<notin> set (as @ fs') \<and> a < m_brk q' \<and>
    (\<exists>n. m_store q' a = Some n \<and> nxt n = None) \<and>
    m_capacity q' = m_capacity q \<and> m_closed q' = m_closed q"
proof (cases "m_free_nodes q")
  case None
  then have fs: "fs = []" and a: "a = m_brk q"
    and q': "q' = (set_node (m_brk q) \<lparr> item = None, nxt = None \<rparr> q)\<lparr>m_brk := m_brk q + 1\<rparr>"
    using assms by (auto simp add: obtain_node_def bq_rep_def chain_None)
  have "m_brk q \<notin> set as" using assms(1) by (auto simp add: bq_rep_def)
  then have "bq_rep q' as [] xs"
    using assms(1) fs by (auto simp add: q' set_node_def bq_rep_def chain_update map_item_of_other
        intro: less_SucI)
  then show ?thesis
    using \<open>m_brk q \<notin> set as\<close> by (intro exI [of _ "[]"]) (auto simp add: a q' set_node_def)
next
  case (Some b)
  then obtain n gs where fs: "fs = b # gs" "m_store q b = Some n" "chain (m_store q) (nxt n) gs"
    using assms(1) by (auto simp add: bq_rep_def chain_Some)
  have a: "a = b" and q': "q' = (set_node b (n\<lparr>nxt := None\<rparr>) (q\<lparr>m_free_nodes := nxt n\<rparr>))
      \<lparr>m_free_count := m_free_count q - 1\<rparr>"
    using assms(2) Some fs(2) by (auto simp add: obtain_node_def Let_def node_at_def set_node_def)
  have nb: "b \<notin> set as" "b \<notin> set gs" using assms(1) fs(1) by (auto simp add: bq_rep_def)
  then have "bq_rep q' as gs xs"
    using assms(1) fs by (auto simp add: q' set_node_def bq_rep_def chain_update map_item_of_other)
  moreover have "b < m_brk q" using assms(1) fs(1) by (auto simp add: bq_rep_def)
  ultimately show ?thesis
    using nb by (intro exI [of _ gs]) (auto simp add: a q' set_node_def)
qed

lemma enqueue_node_rep:
  assumes rep: "bq_rep q as fs xs" and room: "\<not> bq_full q"
  shows "\<exists>as' fs'. bq_rep (enqueue_node x q) as' fs' (xs @ [x])"
    and "m_closed (enqueue_node x q) = m_closed q" and "m_capacity (enqueue_node x q) = m_capacity q"
proof -
  obtain a q1 where o: "obtain_node q = (a, q1)" by (cases "obtain_node q")
  obtain fs' n where q1: "bq_rep q1 as fs' xs" "a \<notin> set as" "a \<notin> set fs'" "a < m_brk q1"
    "m_store q1 a = Some n" "nxt n = None" "m_capacity q1 = m_capacity q" "m_closed q1 = m_closed q"
    using obtain_node_rep [OF rep o] by auto
  define q2 where "q2 = set_node a (n\<lparr>item := Some x\<rparr>) q1"
  have q2: "bq_rep q2 as fs' xs" "m_store q2 a = Some (n\<lparr>item := Some x\<rparr>)"
    using q1 by (auto simp add: q2_def set_node_def bq_rep_def chain_update map_item_of_other)
  have eq: "enqueue_node x q = link_tail a q2"
    using q1(5) by (simp add: enqueue_node_def o q2_def node_at_def)
  show "m_closed (enqueue_node x q) = m_closed q" and "m_capacity (enqueue_node x q) = m_capacity q"
    using q1 by (auto simp add: eq link_tail_def Let_def q2_def set_node_def split: option.splits)
  have cap: "m_capacity q2 > 0 \<longrightarrow> length as < m_capacity q2"
    using room rep q1(7) by (auto simp add: bq_full_def bq_rep_def q2_def set_node_def)
  show "\<exists>as' fs'. bq_rep (enqueue_node x q) as' fs' (xs @ [x])"
  proof (cases "as = []")
    case True
    then have "bq_rep (link_tail a q2) [a] fs' (xs @ [x])"
      using q2 q1 cap by (auto simp add: bq_rep_def link_tail_def item_of_def q2_def set_node_def)
    then show ?thesis unfolding eq by blast
  next
    case False
    then obtain k where k: "m_store q2 (last as) = Some k"
      using q2(1) chain_last [of "m_store q2" "m_head q2" as] by (auto simp add: bq_rep_def)
    have ne: "last as \<noteq> a" "last as \<in> set as" "last as \<notin> set fs'"
      using False q1(2) q2(1) by (auto simp add: bq_rep_def dest: last_in_set)
    let ?s = "(m_store q2)(last as \<mapsto> k\<lparr>nxt := Some a\<rparr>)"
    have "chain ?s (m_head q2) (as @ [a])"
      by (rule chain_snoc [OF _ False _ refl k q1(2) q2(2)])
        (use q2(1) q1(6) in \<open>auto simp add: bq_rep_def\<close>)
    moreover have "chain ?s (m_free_nodes q2) fs'"
      using q2(1) ne by (simp add: bq_rep_def chain_update)
    moreover have "item_of ?s = item_of (m_store q2)"
      by (rule ext) (use k in \<open>simp add: item_of_def\<close>)
    moreover have "item_of (m_store q2) a = Some x"
      using q2(2) by (simp add: item_of_def)
    moreover have "m_tail q2 = Some (last as)" "a < m_brk q2"
      using q2(1) False q1(4) by (auto simp add: bq_rep_def q2_def set_node_def)
    moreover from this(1) have "link_tail a q2 =
        q2\<lparr>m_store := ?s, m_tail := Some a, m_size := m_size q2 + 1\<rparr>"
      using k by (simp add: link_tail_def node_at_def set_node_def)
    ultimately have "bq_rep (link_tail a q2) (as @ [a]) fs' (xs @ [x])"
      using q2(1) q1(2,3) cap by (auto simp add: bq_rep_def)
    then show ?thesis unfolding eq by blast
  qed
qed

lemma unlink_head_rep:
  assumes rep: "bq_rep q as fs (x # xs)"
  shows "fst (unlink_head q) = Some x"
    and "\<exists>as' fs'. bq_rep (snd (unlink_head q)) as' fs' xs"
    and "m_closed (snd (unlink_head q)) = m_closed q"
    and "m_capacity (snd (unlink_head q)) = m_capacity q"
proof -
  obtain a bs where as: "as = a # bs" using rep by (cases as) (auto simp add: bq_rep_def)
  obtain n where n: "m_head q = Some a" "m_store q a = Some n" "chain (m_store q) (nxt n) bs"
    "item n = Some x"
    using rep as by (auto simp add: bq_rep_def item_of_def)
  have nb: "a \<notin> set bs" "a \<notin> set fs" using rep as by (auto simp add: bq_rep_def)
  define q1 where "q1 = q\<lparr>m_head := nxt n, m_tail := (if nxt n = None then None else m_tail q),
     m_size := m_size q - 1\<rparr>"
  have eq: "unlink_head q = (Some x, recycle_node a q1)"
    using n by (simp add: unlink_head_def node_at_def Let_def q1_def)
  have bs: "nxt n = None \<longleftrightarrow> bs = []" using n(3) by (cases bs) auto
  show "fst (unlink_head q) = Some x" by (simp add: eq)
  show "m_closed (snd (unlink_head q)) = m_closed q"
    and "m_capacity (snd (unlink_head q)) = m_capacity q"
    by (simp_all add: eq recycle_node_def Let_def set_node_def q1_def)
  show "\<exists>as' fs'. bq_rep (snd (unlink_head q)) as' fs' xs"
  proof (cases "m_free_count q < 16")
    case True
    have "bq_rep (recycle_node a q1) bs (a # fs) xs"
      using rep as n nb bs True
      by (auto simp add: bq_rep_def recycle_node_def Let_def set_node_def node_at_def q1_def
          chain_update map_item_of_other)
    then show ?thesis by (auto simp add: eq)
  next
    case False
    have "bq_rep (recycle_node a q1) bs fs xs"
      using rep as n nb bs False
      by (auto simp add: bq_rep_def recycle_node_def Let_def set_node_def node_at_def q1_def
          chain_update map_item_of_other)
    then show ?thesis by (auto simp add: eq)
  qed
qed

section \<open>The interface of a bounded FIFO queue\<close>

datatype 'a queue_op = TryPush 'a | Push 'a | Poll | Take | TakeFor | Close

text \<open>One call: the elements accepted and returned by it; a blocked call changes nothing and is
  tried again later.\<close>

fun queue_step ::
  "('a \<Rightarrow> 'q \<Rightarrow> bool \<times> 'q) \<Rightarrow> ('a \<Rightarrow> 'q \<Rightarrow> (bool \<times> 'q) option) \<Rightarrow> ('q \<Rightarrow> 'a option \<times> 'q) \<Rightarrow>
   ('q \<Rightarrow> ('a option \<times> 'q) option) \<Rightarrow> ('q \<Rightarrow> 'a option \<times> 'q) \<Rightarrow> ('q \<Rightarrow> 'q) \<Rightarrow>
   'a queue_op \<Rightarrow> 'q \<Rightarrow> 'a list \<times> 'a list \<times> 'q" where
  "queue_step tp p po ta tf cl (TryPush x) q =
     (case tp x q of (ok, q') \<Rightarrow> (if ok then [x] else [], [], q'))"
| "queue_step tp p po ta tf cl (Push x) q =
     (case p x q of None \<Rightarrow> ([], [], q) | Some (ok, q') \<Rightarrow> (if ok then [x] else [], [], q'))"
| "queue_step tp p po ta tf cl Poll q = (case po q of (r, q') \<Rightarrow> ([], case_option [] (\<lambda>x. [x]) r, q'))"
| "queue_step tp p po ta tf cl Take q =
     (case ta q of None \<Rightarrow> ([], [], q) | Some (r, q') \<Rightarrow> ([], case_option [] (\<lambda>x. [x]) r, q'))"
| "queue_step tp p po ta tf cl TakeFor q =
     (case tf q of (r, q') \<Rightarrow> ([], case_option [] (\<lambda>x. [x]) r, q'))"
| "queue_step tp p po ta tf cl Close q = ([], [], cl q)"

fun queue_run ::
  "('a queue_op \<Rightarrow> 'q \<Rightarrow> 'a list \<times> 'a list \<times> 'q) \<Rightarrow> 'a queue_op list \<Rightarrow> 'q \<Rightarrow>
   'a list \<times> 'a list \<times> 'q" where
  "queue_run st [] q = ([], [], q)"
| "queue_run st (x # xs) q =
     (case st x q of (i, r, q) \<Rightarrow> (case queue_run st xs q of (is, rs, q) \<Rightarrow> (i @ is, r @ rs, q)))"

locale bounded_queue =
  fixes inv :: "'q \<Rightarrow> bool" and content :: "'q \<Rightarrow> 'a list"
    and st :: "'a queue_op \<Rightarrow> 'q \<Rightarrow> 'a list \<times> 'a list \<times> 'q"
  assumes step_inv: "inv q \<Longrightarrow> st x q = (i, r, q') \<Longrightarrow> inv q'"
    and step_content: "inv q \<Longrightarrow> st x q = (i, r, q') \<Longrightarrow> content q @ i = r @ content q'"
begin

lemma run_fifo:
  "inv q \<Longrightarrow> queue_run st xs q = (is, rs, q') \<Longrightarrow> inv q' \<and> content q @ is = rs @ content q'"
proof (induction xs arbitrary: q "is" rs q')
  case (Cons x xs)
  obtain i r q1 where s: "st x q = (i, r, q1)" by (metis prod_cases3)
  obtain is1 rs1 q2 where ru: "queue_run st xs q1 = (is1, rs1, q2)" by (metis prod_cases3)
  have out: "is = i @ is1" "rs = r @ rs1" "q' = q2"
    using Cons.prems(2) by (simp_all add: s ru)
  have ih: "inv q2" "content q1 @ is1 = rs1 @ content q2"
    using Cons.IH [OF step_inv [OF Cons.prems(1) s] ru] by auto
  have "(content q @ i) @ is1 = r @ (content q1 @ is1)"
    using step_content [OF Cons.prems(1) s] by simp
  then show ?case using ih by (simp add: out)
qed simp

end

definition bq_step :: "'a queue_op \<Rightarrow> 'a bqueue \<Rightarrow> 'a list \<times> 'a list \<times> 'a bqueue" where
  "bq_step = queue_step bq_try_push bq_push bq_poll bq_take bq_take_for bq_close"

lemma bq_pop_cases:
  assumes "bq_inv q"
  shows "bq_inv (snd (unlink_head q)) \<or> m_size q = 0"
    and "m_size q \<noteq> 0 \<Longrightarrow> \<exists>x. fst (unlink_head q) = Some x \<and> items q = x # items (snd (unlink_head q))"
proof -
  obtain as fs xs where rep: "bq_rep q as fs xs" using assms by (auto simp add: bq_inv_def)
  note facts = bq_rep_items [OF rep] bq_rep_size [OF rep]
  show "bq_inv (snd (unlink_head q)) \<or> m_size q = 0"
  proof (cases xs)
    case (Cons y ys)
    with rep have "\<exists>as' fs'. bq_rep (snd (unlink_head q)) as' fs' ys"
      by (intro unlink_head_rep(2)) simp
    then show ?thesis by (auto simp add: bq_inv_def)
  qed (use facts in simp)
  show "\<exists>x. fst (unlink_head q) = Some x \<and> items q = x # items (snd (unlink_head q))"
    if "m_size q \<noteq> 0"
  proof (cases xs)
    case (Cons y ys)
    with rep have r: "bq_rep q as fs (y # ys)" by simp
    obtain as' fs' where "bq_rep (snd (unlink_head q)) as' fs' ys"
      using unlink_head_rep(2) [OF r] by blast
    then show ?thesis
      using unlink_head_rep(1) [OF r] bq_rep_items [OF r] by (simp add: bq_rep_items)
  qed (use facts that in simp)
qed

lemma bq_push_cases:
  assumes "bq_inv q" and "\<not> bq_full q"
  shows "bq_inv (enqueue_node x q)" and "items (enqueue_node x q) = items q @ [x]"
proof -
  obtain as fs xs where rep: "bq_rep q as fs xs" using assms by (auto simp add: bq_inv_def)
  obtain as' fs' where rep': "bq_rep (enqueue_node x q) as' fs' (xs @ [x])"
    using enqueue_node_rep(1) [OF rep assms(2)] by blast
  show "bq_inv (enqueue_node x q)" using rep' by (auto simp add: bq_inv_def)
  show "items (enqueue_node x q) = items q @ [x]"
    by (simp add: bq_rep_items [OF rep] bq_rep_items [OF rep'])
qed

lemma bq_close_cases: "bq_inv q \<Longrightarrow> bq_inv (bq_close q)" "items (bq_close q) = items q"
  by (simp_all add: bq_close_def bq_inv_def bq_rep_def items_def)

lemma bq_step_ok:
  assumes "bq_inv q" and "bq_step x q = (i, r, q')"
  shows "bq_inv q' \<and> items q @ i = r @ items q'"
proof (cases "m_size q = 0")
  case True
  then show ?thesis
    using assms bq_push_cases [OF assms(1)] bq_close_cases [of q]
    by (cases x) (auto simp add: bq_step_def bq_try_push_def bq_push_def bq_poll_def bq_take_def
        bq_take_for_def split: if_splits)
next
  case False
  obtain y where y: "fst (unlink_head q) = Some y" "items q = y # items (snd (unlink_head q))"
    using bq_pop_cases(2) [OF assms(1) False] by blast
  have inv: "bq_inv (snd (unlink_head q))" using bq_pop_cases(1) [OF assms(1)] False by simp
  obtain q1 where u: "unlink_head q = (Some y, q1)" using y by (cases "unlink_head q") auto
  show ?thesis
    using assms False y inv bq_push_cases [OF assms(1)] bq_close_cases [of q]
    by (cases x) (auto simp add: bq_step_def bq_try_push_def bq_push_def bq_poll_def bq_take_def
        bq_take_for_def u split: if_splits)
qed

interpretation bq: bounded_queue bq_inv items bq_step
  by unfold_locales (auto dest: bq_step_ok)

lemma bq_new_inv: "bq_inv (bq_new c)" "items (bq_new c) = []"
  using bq_new_rep [of c] bq_rep_items [OF bq_new_rep [of c]] by (auto simp add: bq_inv_def)

section \<open>Property\<close>

text \<open>
  C9: the recycling linked list is a FIFO queue.  Whatever calls are made, from whatever
  threads in whatever order, the accepted elements are exactly the returned ones followed by
  those still linked, in order: none is lost, duplicated or reordered by the node recycling,
  including after \<open>close\<close>.
\<close>

theorem queue_fifo:
  assumes "queue_run bq_step ops (bq_new capacity) = (accepted, returned, q)"
  shows "accepted = returned @ items q"
  using bq.run_fifo [OF bq_new_inv(1) assms] by (simp add: bq_new_inv(2))

theorem queue_fifo_witness:
  "fst (queue_run bq_step [Push 1, TryPush 2, Take, TryPush 3, TryPush 4, Close, Poll, Push 5]
     (bq_new 2 :: nat bqueue)) = [1, 2, 3]"
proof -
  have run: "queue_run bq_step [Push 1, TryPush 2, Take, TryPush 3, TryPush 4, Close, Poll, Push 5]
      (bq_new 2 :: nat bqueue) = ([1, 2, 3], [1, 2], snd (snd (queue_run bq_step
        [Push 1, TryPush 2, Take, TryPush 3, TryPush 4, Close, Poll, Push 5] (bq_new 2))))"
    by (simp add: bq_step_def bq_try_push_def bq_push_def bq_poll_def bq_take_def bq_close_def
        bq_new_def bq_full_def enqueue_node_def obtain_node_def link_tail_def unlink_head_def
        recycle_node_def set_node_def node_at_def Let_def)
  from queue_fifo [OF run] run show ?thesis by (metis fst_conv)
qed

end
