(* ===== verification/Ordered_Map.thy ===== *)
theory Ordered_Map
  imports Prelude
begin

text \<open>
  \<open>std::map\<close> as the sources use it: the entries in key order, with lookup, insertion that
  keeps or overwrites an existing entry, erasure and the first entry.  \<open>om_ok\<close> is the order
  invariant every operation keeps; the laws relate each operation to the map it denotes.
\<close>

type_synonym ('k, 'v) omap = "('k \<times> 'v) list"

definition om_ok :: "('k::linorder, 'v) omap \<Rightarrow> bool" where
  "om_ok m \<longleftrightarrow> sorted_wrt (<) (map fst m)"

abbreviation om_find :: "('k, 'v) omap \<Rightarrow> 'k \<Rightarrow> 'v option" where
  "om_find m k \<equiv> map_of m k"

text \<open>\<open>m[k] = v\<close>.\<close>

fun om_set :: "'k::linorder \<Rightarrow> 'v \<Rightarrow> ('k, 'v) omap \<Rightarrow> ('k, 'v) omap" where
  "om_set k v [] = [(k, v)]"
| "om_set k v ((a, b) # m) =
     (if k < a then (k, v) # (a, b) # m else if k = a then (k, v) # m else (a, b) # om_set k v m)"

text \<open>\<open>m.emplace(k, v)\<close>: an existing entry stays.\<close>

definition om_emplace :: "'k::linorder \<Rightarrow> 'v \<Rightarrow> ('k, 'v) omap \<Rightarrow> ('k, 'v) omap" where
  "om_emplace k v m = (if om_find m k = None then om_set k v m else m)"

definition om_erase :: "'k \<Rightarrow> ('k, 'v) omap \<Rightarrow> ('k, 'v) omap" where
  "om_erase k m = filter (\<lambda>e. fst e \<noteq> k) m"

text \<open>\<open>m.erase(m.begin(), m.lower_bound(k))\<close> and the like: drop the entries below a key.\<close>

definition om_drop_below :: "'k::linorder \<Rightarrow> ('k, 'v) omap \<Rightarrow> ('k, 'v) omap" where
  "om_drop_below k m = dropWhile (\<lambda>e. fst e < k) m"

lemma om_ok_Nil [simp]: "om_ok []"
  by (simp add: om_ok_def)

lemma om_ok_Cons: "om_ok ((a, b) # m) \<longleftrightarrow> (\<forall>e\<in>set m. a < fst e) \<and> om_ok m"
  by (auto simp add: om_ok_def)

lemma set_om_set: "set (om_set k v m) \<subseteq> insert (k, v) (set m)"
  by (induction k v m rule: om_set.induct) auto

lemma om_set_ok [simp, intro]: "om_ok m \<Longrightarrow> om_ok (om_set k v m)"
proof (induction k v m rule: om_set.induct)
  case (2 k v a b m)
  then show ?case using set_om_set [of k v m] by (fastforce simp add: om_ok_Cons)
qed (simp add: om_ok_Cons)

lemma om_emplace_ok [simp, intro]: "om_ok m \<Longrightarrow> om_ok (om_emplace k v m)"
  by (simp add: om_emplace_def)

lemma om_erase_ok [simp, intro]: "om_ok m \<Longrightarrow> om_ok (om_erase k m)"
  by (induction m) (auto simp add: om_erase_def om_ok_Cons)

lemma om_find_notin: "\<forall>e\<in>set m. k < fst e \<Longrightarrow> om_find m k = (None :: 'v option)"
  for k :: "'k::linorder"
  by (induction m) auto

lemma om_find_set: "om_ok m \<Longrightarrow> om_find (om_set k v m) x = (if x = k then Some v else om_find m x)"
proof (induction k v m rule: om_set.induct)
  case (2 k v a b m)
  then show ?case using om_find_notin [of m] by (auto simp add: om_ok_Cons)
qed auto

text \<open>A lookup after an insertion needs no order.\<close>

lemma om_find_set_any: "om_find (om_set k v m) x = (if x = k then Some v else om_find m x)"
  by (induction k v m rule: om_set.induct) auto

lemma om_find_emplace:
  "om_ok m \<Longrightarrow> om_find (om_emplace k v m) x =
     (if x = k \<and> om_find m k = None then Some v else om_find m x)"
  by (simp add: om_emplace_def om_find_set)

lemma om_find_erase [simp]: "om_find (om_erase k m) x = (if x = k then None else om_find m x)"
  by (induction m) (auto simp add: om_erase_def)

lemma length_om_erase: "om_find m k \<noteq> None \<Longrightarrow> length (om_erase k m) < length m"
proof (induction m)
  case (Cons e m)
  then show ?case
    by (auto simp add: om_erase_def less_Suc_eq_le split: if_splits)
qed simp

lemma om_first: "om_ok ((a, b) # m) \<Longrightarrow> om_find ((a, b) # m) k = Some v \<Longrightarrow> a \<le> k"
  by (auto simp add: om_ok_Cons dest!: map_of_SomeD split: if_splits)

lemma om_dom_finite: "finite (dom (om_find m))"
  by (rule finite_dom_map_of)

lemma om_ok_filter: "om_ok m \<Longrightarrow> om_ok (filter P m)"
  by (induction m) (auto simp add: om_ok_Cons)

lemma om_find_filter:
  "om_ok m \<Longrightarrow> om_find (filter P m) k =
     (case om_find m k of None \<Rightarrow> None | Some v \<Rightarrow> if P (k, v) then Some v else None)"
proof (induction m)
  case (Cons e m)
  obtain a v where e: "e = (a, v)" by (cases e)
  have ok: "om_ok m" and gt: "\<forall>e\<in>set m. a < fst e" using Cons.prems by (auto simp add: e om_ok_Cons)
  have "om_find m a = None" by (rule om_find_notin [OF gt])
  then show ?case using Cons.IH [OF ok] by (auto simp add: e)
qed simp

lemma om_find_mem: "om_ok m \<Longrightarrow> (k, v) \<in> set m \<longleftrightarrow> om_find m k = Some v"
proof (induction m)
  case (Cons e m)
  obtain a w where e: "e = (a, w)" by (cases e)
  have "\<forall>e\<in>set m. a < fst e" using Cons.prems by (simp add: e om_ok_Cons)
  then have "om_find m a = None" by (rule om_find_notin)
  then show ?case using Cons by (auto simp add: e om_ok_Cons)
qed simp

end
