(* ===== verification/Command.thy ===== *)
theory Command
  imports Wire Ordered_Map
begin

text \<open>
  The command channel of \<open>command.cpp\<close>: ordered delivery of single-datagram packets.  The
  record holds the fields \<open>m_cmd_*\<close> of \<open>Peer\<close>.  Each handler is one atomic step (the
  source holds \<open>m_mu\<close>) and returns the payloads it releases.
\<close>

section \<open>State and operations\<close>

record cmd_state =
  m_cmd_seq_out :: u32
  m_cmd_next_expected :: u32
  m_cmd_initialized :: bool
  m_cmd_held :: "(u32, bytes) omap"
  m_cmd_gap_since :: time

definition kMaxWaitRtt :: int where "kMaxWaitRtt = 3"

function drain_locked :: "cmd_state \<Rightarrow> cmd_state \<times> bytes list" where
  "drain_locked c =
    (case om_find (m_cmd_held c) (m_cmd_next_expected c) of
       None \<Rightarrow> (c, [])
     | Some payload \<Rightarrow>
         let (c', out) = drain_locked (c\<lparr>m_cmd_held := om_erase (m_cmd_next_expected c) (m_cmd_held c),
               m_cmd_next_expected := m_cmd_next_expected c + 1\<rparr>)
         in (c', payload # out))"
  by auto
termination
  by (relation "measure (\<lambda>c. length (m_cmd_held c))") (auto intro: length_om_erase)

declare drain_locked.simps [simp del]

definition expire_locked :: "u32 \<Rightarrow> time \<Rightarrow> cmd_state \<Rightarrow> cmd_state \<times> bytes list" where
  "expire_locked rtt_us now c =
    (case m_cmd_held c of
       [] \<Rightarrow> (c, [])
     | (k, _) # _ \<Rightarrow>
         let wait_us = kMaxWaitRtt * (if rtt_us > 0 then uint rtt_us else 10000)
         in if now - m_cmd_gap_since c < microseconds wait_us then (c, [])
            else let (c, out) = drain_locked (c\<lparr>m_cmd_next_expected := k\<rparr>)
                 in (if m_cmd_held c \<noteq> [] then c\<lparr>m_cmd_gap_since := now\<rparr> else c, out))"

definition cmd_handle ::
  "packet_header \<Rightarrow> bytes \<Rightarrow> u32 \<Rightarrow> time \<Rightarrow> cmd_state \<Rightarrow> cmd_state \<times> bytes list" where
  "cmd_handle header payload rtt_us now c =
    (let seq = h_sequence header in
     if seq = 0 then (c, [])
     else
       let c = (if \<not> m_cmd_initialized c
                then c\<lparr>m_cmd_next_expected := seq, m_cmd_initialized := True\<rparr> else c)
       in if seq < m_cmd_next_expected c then (c, [])
          else if seq = m_cmd_next_expected c
          then let (c, out) = drain_locked (c\<lparr>m_cmd_next_expected := m_cmd_next_expected c + 1\<rparr>)
               in (c, payload # out)
          else let c = (if m_cmd_held c = [] then c\<lparr>m_cmd_gap_since := now\<rparr> else c);
                   c = c\<lparr>m_cmd_held := om_emplace seq payload (m_cmd_held c)\<rparr>
               in expire_locked rtt_us now c)"

definition cmd_flush_expired :: "u32 \<Rightarrow> time \<Rightarrow> cmd_state \<Rightarrow> cmd_state \<times> bytes list" where
  "cmd_flush_expired rtt_us now c = expire_locked rtt_us now c"

definition cmd_reset :: "cmd_state \<Rightarrow> cmd_state" where
  "cmd_reset c = c\<lparr>m_cmd_seq_out := 1, m_cmd_next_expected := 0, m_cmd_initialized := False,
     m_cmd_held := [], m_cmd_gap_since := 0\<rparr>"

definition cmd_new :: cmd_state where
  "cmd_new = \<lparr> m_cmd_seq_out = 1, m_cmd_next_expected = 0, m_cmd_initialized = False,
     m_cmd_held = [], m_cmd_gap_since = 0 \<rparr>"

section \<open>The interface of an ordered channel\<close>

text \<open>
  \<open>P\<close> is what the sender put into each sequence number.  Every step releases the payloads of
  increasing sequence numbers between the cursor before and after it; the clients get that a
  whole run delivers each number at most once and in order.
\<close>

definition releases :: "('k::linorder \<Rightarrow> 'v) \<Rightarrow> 'k \<Rightarrow> 'k \<Rightarrow> 'v list \<Rightarrow> bool" where
  "releases P lo hi out \<longleftrightarrow>
     (\<exists>ss. out = map P ss \<and> sorted_wrt (<) ss \<and> (\<forall>s\<in>set ss. lo \<le> s \<and> s < hi))"

lemma releases_Nil: "releases P lo hi []"
  by (auto simp add: releases_def)

lemma releases_weaken:
  assumes "releases P lo hi out" and "lo' \<le> lo"
  shows "releases P lo' hi out"
proof -
  obtain ss where "out = map P ss" "sorted_wrt (<) ss" "\<forall>s\<in>set ss. lo \<le> s \<and> s < hi"
    using assms(1) by (auto simp add: releases_def)
  then show ?thesis
    using assms(2) unfolding releases_def by (intro exI [of _ ss]) (auto intro: order_trans)
qed

lemma releases_append:
  assumes "releases P lo mid xs" and "releases P mid hi ys" and "lo \<le> mid" and "mid \<le> hi"
  shows "releases P lo hi (xs @ ys)"
proof -
  obtain ss ts where *: "xs = map P ss" "sorted_wrt (<) ss" "\<forall>s\<in>set ss. lo \<le> s \<and> s < mid"
    "ys = map P ts" "sorted_wrt (<) ts" "\<forall>s\<in>set ts. mid \<le> s \<and> s < hi"
    using assms(1,2) by (auto simp add: releases_def)
  have "sorted_wrt (<) (ss @ ts)"
    using * by (auto simp add: sorted_wrt_append intro: order_less_le_trans)
  moreover have "\<forall>s\<in>set (ss @ ts). lo \<le> s \<and> s < hi"
    using * assms(3,4) by (auto intro: order_trans order_less_le_trans)
  moreover have "xs @ ys = map P (ss @ ts)" using * by simp
  ultimately show ?thesis unfolding releases_def by blast
qed

fun channel_run :: "('e \<Rightarrow> 's \<Rightarrow> 's \<times> 'v list) \<Rightarrow> 'e list \<Rightarrow> 's \<Rightarrow> 's \<times> 'v list" where
  "channel_run step [] s = (s, [])"
| "channel_run step (e # es) s =
     (let (s, out) = step e s; (s, outs) = channel_run step es s in (s, out @ outs))"

locale ordered_channel =
  fixes inv :: "'s \<Rightarrow> bool" and cursor :: "'s \<Rightarrow> 'k::linorder" and P :: "'k \<Rightarrow> 'v"
    and valid :: "'e \<Rightarrow> bool" and step :: "'e \<Rightarrow> 's \<Rightarrow> 's \<times> 'v list"
  assumes step_inv: "inv s \<Longrightarrow> valid e \<Longrightarrow> inv (fst (step e s))"
    and step_mono: "inv s \<Longrightarrow> valid e \<Longrightarrow> cursor s \<le> cursor (fst (step e s))"
    and step_releases: "inv s \<Longrightarrow> valid e \<Longrightarrow>
      releases P (cursor s) (cursor (fst (step e s))) (snd (step e s))"
begin

lemma run_releases:
  "inv s \<Longrightarrow> \<forall>e\<in>set es. valid e \<Longrightarrow>
     inv (fst (channel_run step es s)) \<and> cursor s \<le> cursor (fst (channel_run step es s)) \<and>
     releases P (cursor s) (cursor (fst (channel_run step es s))) (snd (channel_run step es s))"
proof (induction es arbitrary: s)
  case (Cons e es)
  obtain s1 out where s1: "step e s = (s1, out)" by (cases "step e s")
  obtain s2 outs where s2: "channel_run step es s1 = (s2, outs)" by (cases "channel_run step es s1")
  show ?case
    using Cons.IH [of s1] Cons.prems step_inv [of s e] step_mono [of s e] step_releases [of s e]
    by (auto simp add: s1 s2 intro: releases_append order_trans)
qed (simp add: releases_Nil)

end

section \<open>The handlers implement it\<close>

text \<open>Held packets are the sender's, lie after the cursor, and exist only once the channel is
  initialised.\<close>

definition cmd_inv :: "(u32 \<Rightarrow> bytes) \<Rightarrow> cmd_state \<Rightarrow> bool" where
  "cmd_inv P c \<longleftrightarrow> om_ok (m_cmd_held c) \<and>
     (\<not> m_cmd_initialized c \<longrightarrow> m_cmd_next_expected c = 0) \<and>
     (\<forall>k v. om_find (m_cmd_held c) k = Some v \<longrightarrow>
        m_cmd_initialized c \<and> m_cmd_next_expected c < k \<and> k < - 1 \<and> v = P k)"

lemma drain_releases:
  assumes "om_ok (m_cmd_held c)" and "m_cmd_initialized c"
    and "\<forall>k v. om_find (m_cmd_held c) k = Some v \<longrightarrow>
      m_cmd_next_expected c \<le> k \<and> k < - 1 \<and> v = P k"
  shows "cmd_inv P (fst (drain_locked c))
    \<and> m_cmd_next_expected c \<le> m_cmd_next_expected (fst (drain_locked c))
    \<and> m_cmd_initialized (fst (drain_locked c)) = m_cmd_initialized c
    \<and> releases P (m_cmd_next_expected c) (m_cmd_next_expected (fst (drain_locked c)))
        (snd (drain_locked c))"
  using assms
proof (induction c rule: drain_locked.induct)
  case (1 c)
  let ?n = "m_cmd_next_expected c"
  show ?case
  proof (cases "om_find (m_cmd_held c) ?n")
    case None
    then have "\<forall>k v. om_find (m_cmd_held c) k = Some v \<longrightarrow> ?n < k"
      using 1(4) by (metis option.distinct(1) order_less_le)
    then show ?thesis
      using None 1(2,3,4) by (simp add: drain_locked.simps [of c] cmd_inv_def releases_Nil)
  next
    case (Some v)
    define c1 where "c1 = c\<lparr>m_cmd_held := om_erase ?n (m_cmd_held c), m_cmd_next_expected := ?n + 1\<rparr>"
    obtain c2 out where d: "drain_locked c1 = (c2, out)" by (cases "drain_locked c1")
    have n: "?n < - 1" "v = P ?n" using 1(4) Some by auto
    then have up: "?n < ?n + 1" using word_next by blast
    have "\<forall>k w. om_find (m_cmd_held c1) k = Some w \<longrightarrow>
        m_cmd_next_expected c1 \<le> k \<and> k < - 1 \<and> w = P k"
      using 1(4) by (auto simp add: c1_def split: if_splits) (metis order_le_neq_trans word_next)
    then have ih: "cmd_inv P c2" "?n + 1 \<le> m_cmd_next_expected c2"
      "m_cmd_initialized c2 = m_cmd_initialized c"
      "releases P (?n + 1) (m_cmd_next_expected c2) out"
      using 1(1) [OF Some, folded c1_def] 1(2,3) by (auto simp add: d, auto simp add: c1_def)
    have "releases P ?n (?n + 1) [v]"
      unfolding releases_def using up n(2) by (intro exI [of _ "[?n]"]) auto
    from releases_append [OF this ih(4)] have "releases P ?n (m_cmd_next_expected c2) (v # out)"
      using up ih(2) by simp
    moreover have "drain_locked c = (c2, v # out)"
      using Some d by (simp add: drain_locked.simps [of c] c1_def)
    ultimately show ?thesis using ih up by auto
  qed
qed

lemma expire_releases:
  assumes "cmd_inv P c"
  shows "cmd_inv P (fst (expire_locked rtt now c))
    \<and> m_cmd_next_expected c \<le> m_cmd_next_expected (fst (expire_locked rtt now c))
    \<and> releases P (m_cmd_next_expected c) (m_cmd_next_expected (fst (expire_locked rtt now c)))
        (snd (expire_locked rtt now c))"
proof (cases "m_cmd_held c")
  case Nil
  then show ?thesis using assms by (simp add: expire_locked_def releases_Nil)
next
  case (Cons e held)
  obtain k v where e: "e = (k, v)" by (cases e)
  define wait where "wait = microseconds (kMaxWaitRtt * (if rtt > 0 then uint rtt else 10000))"
  show ?thesis
  proof (cases "now - m_cmd_gap_since c < wait")
    case True
    then show ?thesis
      using assms Cons e by (simp add: expire_locked_def releases_Nil Let_def wait_def)
  next
    case False
    define c1 where "c1 = c\<lparr>m_cmd_next_expected := k\<rparr>"
    obtain c2 out where d: "drain_locked c1 = (c2, out)" by (cases "drain_locked c1")
    have "om_find (m_cmd_held c) k = Some v" using Cons e by simp
    then have k: "m_cmd_next_expected c < k" "m_cmd_initialized c"
      using assms unfolding cmd_inv_def by blast+
    have "om_ok (m_cmd_held c1)" using assms by (simp add: cmd_inv_def c1_def)
    moreover have "m_cmd_initialized c1" using k by (simp add: c1_def)
    moreover have "\<forall>j w. om_find (m_cmd_held c1) j = Some w \<longrightarrow>
        m_cmd_next_expected c1 \<le> j \<and> j < - 1 \<and> w = P j"
    proof (intro allI impI)
      fix j w assume j: "om_find (m_cmd_held c1) j = Some w"
      then have "k \<le> j"
        using om_first [of k v held j w] assms Cons e by (simp add: cmd_inv_def c1_def)
      then show "m_cmd_next_expected c1 \<le> j \<and> j < - 1 \<and> w = P j"
        using assms j k by (auto simp add: cmd_inv_def c1_def)
    qed
    ultimately have dr: "cmd_inv P c2" "k \<le> m_cmd_next_expected c2"
      "releases P k (m_cmd_next_expected c2) out"
      using drain_releases [of c1 P, unfolded d fst_conv snd_conv] by (simp_all add: c1_def)
    have "releases P (m_cmd_next_expected c) (m_cmd_next_expected c2) out"
      by (rule releases_weaken [OF dr(3)]) (use k(1) in simp)
    moreover have "expire_locked rtt now c =
        (if m_cmd_held c2 \<noteq> [] then c2\<lparr>m_cmd_gap_since := now\<rparr> else c2, out)"
      using Cons e False d by (simp add: expire_locked_def Let_def c1_def wait_def)
    moreover have "cmd_inv P (if m_cmd_held c2 \<noteq> [] then c2\<lparr>m_cmd_gap_since := now\<rparr> else c2)"
      using dr(1) by (simp add: cmd_inv_def)
    moreover have "m_cmd_next_expected c \<le> m_cmd_next_expected c2"
      using dr(2) k(1) by simp
    ultimately show ?thesis by simp
  qed
qed

lemma handle_releases:
  assumes inv: "cmd_inv P c" and pl: "payload = P (h_sequence h)" and nm: "h_sequence h < - 1"
  shows "cmd_inv P (fst (cmd_handle h payload rtt now c))
    \<and> m_cmd_next_expected c \<le> m_cmd_next_expected (fst (cmd_handle h payload rtt now c))
    \<and> releases P (m_cmd_next_expected c)
        (m_cmd_next_expected (fst (cmd_handle h payload rtt now c)))
        (snd (cmd_handle h payload rtt now c))"
proof (cases "h_sequence h = 0")
  case True
  then show ?thesis using inv by (simp add: cmd_handle_def releases_Nil)
next
  case False
  let ?seq = "h_sequence h"
  define c1 where "c1 = (if \<not> m_cmd_initialized c
    then c\<lparr>m_cmd_next_expected := ?seq, m_cmd_initialized := True\<rparr> else c)"
  have c1: "cmd_inv P c1" "m_cmd_initialized c1" "m_cmd_next_expected c \<le> m_cmd_next_expected c1"
    using inv by (auto simp add: c1_def cmd_inv_def)
  have eq0: "cmd_handle h payload rtt now c =
    (if ?seq < m_cmd_next_expected c1 then (c1, [])
     else if ?seq = m_cmd_next_expected c1
     then (case drain_locked (c1\<lparr>m_cmd_next_expected := m_cmd_next_expected c1 + 1\<rparr>) of
             (c, out) \<Rightarrow> (c, payload # out))
     else expire_locked rtt now
       ((if m_cmd_held c1 = [] then c1\<lparr>m_cmd_gap_since := now\<rparr> else c1)
         \<lparr>m_cmd_held := om_emplace ?seq payload
            (m_cmd_held (if m_cmd_held c1 = [] then c1\<lparr>m_cmd_gap_since := now\<rparr> else c1))\<rparr>))"
    unfolding cmd_handle_def Let_def c1_def by (simp only: False if_False)
  consider "?seq < m_cmd_next_expected c1" | "?seq = m_cmd_next_expected c1"
    | "m_cmd_next_expected c1 < ?seq" by fastforce
  then show ?thesis
  proof cases
    case 1
    then have "cmd_handle h payload rtt now c = (c1, [])"
      by (simp add: eq0)
    then show ?thesis using c1 by (simp add: releases_Nil)
  next
    case 2
    define c2 where "c2 = c1\<lparr>m_cmd_next_expected := ?seq + 1\<rparr>"
    obtain c3 out where d: "drain_locked c2 = (c3, out)" by (cases "drain_locked c2")
    have eq: "cmd_handle h payload rtt now c = (c3, payload # out)"
      using 2 d by (simp add: eq0 c2_def)
    have up: "?seq < ?seq + 1" using nm word_next by blast
    have "\<forall>k w. om_find (m_cmd_held c2) k = Some w \<longrightarrow>
        m_cmd_next_expected c2 \<le> k \<and> k < - 1 \<and> w = P k"
      using c1(1) 2 by (auto simp add: cmd_inv_def c2_def intro: conjunct2 [OF word_next])
    then have dr: "cmd_inv P c3" "?seq + 1 \<le> m_cmd_next_expected c3"
      "releases P (?seq + 1) (m_cmd_next_expected c3) out"
      using drain_releases [of c2 P] c1 by (auto simp add: d, auto simp add: c2_def cmd_inv_def)
    have "releases P (m_cmd_next_expected c) (?seq + 1) [payload]"
      unfolding releases_def using up pl c1(3) 2 by (intro exI [of _ "[?seq]"]) auto
    from releases_append [OF this dr(3)] show ?thesis
      using dr up c1(3) 2 by (auto simp add: eq)
  next
    case 3
    define c2 where "c2 = (if m_cmd_held c1 = [] then c1\<lparr>m_cmd_gap_since := now\<rparr> else c1)"
    define c3 where "c3 = c2\<lparr>m_cmd_held := om_emplace ?seq payload (m_cmd_held c2)\<rparr>"
    have eq: "cmd_handle h payload rtt now c = expire_locked rtt now c3"
      using 3 by (simp only: eq0 c2_def c3_def) auto
    have "cmd_inv P c3"
      using c1 3 pl nm
      by (auto simp add: cmd_inv_def c3_def c2_def om_find_emplace split: if_splits)
    then show ?thesis
      using expire_releases [of P c3 rtt now] c1(3)
      by (auto simp add: eq c3_def c2_def releases_def split: if_splits intro: order_trans)
  qed
qed

text \<open>What can happen to the channel: a packet arrives, or the periodic expiry runs.\<close>

datatype cmd_event = Arrive packet_header bytes u32 time | Expire u32 time

fun cmd_step :: "cmd_event \<Rightarrow> cmd_state \<Rightarrow> cmd_state \<times> bytes list" where
  "cmd_step (Arrive h payload rtt now) c = cmd_handle h payload rtt now c"
| "cmd_step (Expire rtt now) c = cmd_flush_expired rtt now c"

text \<open>Every arriving packet carries what the sender put into its sequence number, and the
  counter of the sender has not run through all 32 bits.\<close>

fun cmd_valid :: "(u32 \<Rightarrow> bytes) \<Rightarrow> cmd_event \<Rightarrow> bool" where
  "cmd_valid P (Arrive h payload rtt now) \<longleftrightarrow> payload = P (h_sequence h) \<and> h_sequence h < - 1"
| "cmd_valid P (Expire rtt now) \<longleftrightarrow> True"

interpretation cmd: ordered_channel "cmd_inv P" m_cmd_next_expected P "cmd_valid P" cmd_step for P
proof unfold_locales
  fix s e
  assume "cmd_inv P s" and "cmd_valid P e"
  then show "cmd_inv P (fst (cmd_step e s))"
    and "m_cmd_next_expected s \<le> m_cmd_next_expected (fst (cmd_step e s))"
    and "releases P (m_cmd_next_expected s) (m_cmd_next_expected (fst (cmd_step e s)))
      (snd (cmd_step e s))"
    using handle_releases [of P s] expire_releases [of P s]
    by (cases e; simp add: cmd_flush_expired_def)+
qed

lemma cmd_reset_inv: "cmd_inv P (cmd_reset c)" "m_cmd_next_expected (cmd_reset c) = 0"
  by (simp_all add: cmd_inv_def cmd_reset_def)

section \<open>Property\<close>

text \<open>
  C10: commands are delivered in order and at most once.  From the reset state, whatever the
  arrival order, duplicates, losses, arrival times and expiry ticks, the payloads handed to the
  application are those of strictly increasing sequence numbers of the sender.
\<close>

theorem commands_in_order:
  assumes "\<forall>e\<in>set es. cmd_valid P e"
  shows "\<exists>ss. snd (channel_run cmd_step es (cmd_reset c)) = map P ss \<and> sorted_wrt (<) ss"
  using cmd.run_releases [OF cmd_reset_inv(1) assms] unfolding releases_def by blast

theorem commands_in_order_witness:
  "\<exists>ss. snd (channel_run cmd_step
     [Arrive (header0\<lparr>h_sequence := 5\<rparr>) [5] 0 0, Arrive (header0\<lparr>h_sequence := 7\<rparr>) [7] 0 10,
      Arrive (header0\<lparr>h_sequence := 6\<rparr>) [6] 0 20, Arrive (header0\<lparr>h_sequence := 6\<rparr>) [6] 0 30]
     (cmd_reset cmd_new)) = map (\<lambda>k :: u32. [ucast k]) ss \<and> sorted_wrt (<) ss"
  by (rule commands_in_order [where P = "\<lambda>k :: u32. [ucast k]"]) simp

end
