(* ===== verification/Float64.thy ===== *)
theory Float64
  imports Prelude Complex_Main
begin

text \<open>
  The arithmetic of \<open>double\<close>: a value is the rational it denotes, and every operation of the
  sources is the exact operation followed by \<open>rnd\<close>, rounding to the nearest 53-bit
  significand with ties to even.  Overflow, subnormal numbers, infinities and NaN are outside
  the model: the sources keep their doubles in ranges where none of them occurs (rates, ratios,
  byte counts and times), and the divisions are guarded.
\<close>

type_synonym f64 = rat

section \<open>Rounding\<close>

definition rne :: "rat \<Rightarrow> int" where
  "rne x = (let f = floor x; d = x - of_int f in
     if d < 1 / 2 then f else if d > 1 / 2 then f + 1 else if even f then f else f + 1)"

fun ilog2 :: "nat \<Rightarrow> nat" where
  "ilog2 n = (if n < 2 then 0 else Suc (ilog2 (n div 2)))"

declare ilog2.simps [simp del]

definition pow2 :: "int \<Rightarrow> rat" where
  "pow2 e = (if 0 \<le> e then 2 ^ nat e else 1 / 2 ^ nat (- e))"

text \<open>The binary exponent: \<open>2^e \<le> x < 2^(e+1)\<close>.\<close>

definition expo :: "rat \<Rightarrow> int" where
  "expo x = (let (a, b) = quotient_of x;
                 k = int (ilog2 (nat a)) - int (ilog2 (nat b))
             in if x < pow2 k then k - 1 else k)"

definition rnd_pos :: "rat \<Rightarrow> rat" where
  "rnd_pos x = (let e = expo x - 52 in of_int (rne (x / pow2 e)) * pow2 e)"

definition rnd :: "rat \<Rightarrow> f64" where
  "rnd x = (if x = 0 then 0 else if 0 < x then rnd_pos x else - rnd_pos (- x))"

text \<open>Conversions and operations.\<close>

definition f64_of_u64 :: "u64 \<Rightarrow> f64" where "f64_of_u64 n = rnd (of_int (uint n))"
definition f64_of_nat :: "nat \<Rightarrow> f64" where "f64_of_nat n = rnd (of_nat n)"
definition f64_of_int :: "int \<Rightarrow> f64" where "f64_of_int n = rnd (of_int n)"
definition fadd :: "f64 \<Rightarrow> f64 \<Rightarrow> f64" where "fadd x y = rnd (x + y)"
definition fsub :: "f64 \<Rightarrow> f64 \<Rightarrow> f64" where "fsub x y = rnd (x - y)"
definition fmul :: "f64 \<Rightarrow> f64 \<Rightarrow> f64" where "fmul x y = rnd (x * y)"
definition fdiv :: "f64 \<Rightarrow> f64 \<Rightarrow> f64" where "fdiv x y = rnd (x / y)"

text \<open>\<open>static_cast<std::uint64_t>(d)\<close> of a value in range: truncation of a number that is not
  negative.\<close>

definition u64_of_f64 :: "f64 \<Rightarrow> u64" where "u64_of_f64 x = of_int (floor x)"

section \<open>Powers of two and exponents\<close>

lemma pow2_pos [simp]: "0 < pow2 e"
  by (simp add: pow2_def)

lemma pow2_add: "pow2 (a + b) = pow2 a * pow2 b"
proof -
  have pw: "pow2 e = 2 powi e" for e
    by (simp add: pow2_def power_int_def inverse_eq_divide power_one_over)
  show ?thesis by (simp add: pw power_int_add)
qed

lemma pow2_nonzero [simp]: "pow2 e \<noteq> 0"
  by (simp add: pow2_def)

lemma pow2_simps [simp]: "pow2 0 = 1" "pow2 1 = 2" "0 \<le> e \<Longrightarrow> pow2 e = 2 ^ nat e"
  by (simp_all add: pow2_def)

lemma pow2_Suc: "pow2 (e + 1) = 2 * pow2 e"
  by (simp add: pow2_add)

lemma pow2_mono: "a \<le> b \<Longrightarrow> pow2 a \<le> pow2 b"
proof -
  assume "a \<le> b"
  then have "pow2 b = pow2 a * pow2 (b - a)" using pow2_add [of a "b - a"] by simp
  moreover have "1 \<le> pow2 (b - a)" using \<open>a \<le> b\<close> by simp
  ultimately show ?thesis using pow2_pos [of a] by simp
qed

lemma ilog2_bounds: "0 < n \<Longrightarrow> 2 ^ ilog2 n \<le> n \<and> n < 2 ^ Suc (ilog2 n)"
proof (induction n rule: ilog2.induct)
  case (1 n)
  show ?case
  proof (cases "n < 2")
    case True
    then show ?thesis using 1 by (simp add: ilog2.simps [of n])
  next
    case False
    then have "2 ^ ilog2 (n div 2) \<le> n div 2 \<and> n div 2 < 2 ^ Suc (ilog2 (n div 2))"
      using 1 by simp
    then show ?thesis using False by (simp add: ilog2.simps [of n]) linarith
  qed
qed

lemma expo_bounds:
  assumes "0 < x"
  shows "pow2 (expo x) \<le> x \<and> x < pow2 (expo x + 1)"
proof -
  obtain a b where q: "quotient_of x = (a, b)" by (cases "quotient_of x")
  have b: "0 < b" and x: "x = of_int a / of_int b"
    using quotient_of_denom_pos [OF q] quotient_of_div [OF q] by auto
  have a: "0 < a" using assms b by (simp add: x zero_less_divide_iff)
  define i where "i = ilog2 (nat a)"
  define j where "j = ilog2 (nat b)"
  have ib: "2 ^ i \<le> a" "a < 2 ^ Suc i" and jb: "2 ^ j \<le> b" "b < 2 ^ Suc j"
    using ilog2_bounds [of "nat a"] ilog2_bounds [of "nat b"] a b
    by (auto simp add: i_def j_def zless_nat_eq_int_zless le_nat_iff nat_less_iff)
  define A where "A = (of_int a :: rat)"
  define B where "B = (of_int b :: rat)"
  have emb: "of_int ((2 :: int) ^ n) = (2 :: rat) ^ n" for n by simp
  have "2 ^ i \<le> A" "A < 2 ^ Suc i" "2 ^ j \<le> B" "B < 2 ^ Suc j"
    unfolding A_def B_def emb [symmetric] of_int_le_iff of_int_less_iff
    using ib jb by blast+
  then have AB: "2 ^ i \<le> A" "A < 2 * 2 ^ i" "2 ^ j \<le> B" "B < 2 * 2 ^ j" by simp_all
  have AB': "0 < B" "x = A / B" using b x by (simp_all add: A_def B_def)
  define k where "k = int i - int j"
  have pk: "pow2 k * 2 ^ j = 2 ^ i"
    using pow2_add [of k "int j"] by (simp add: k_def)
  have hi: "x < 2 * pow2 k"
  proof -
    have "A < 2 * (pow2 k * 2 ^ j)" using AB(2) pk by simp
    also have "\<dots> \<le> 2 * (pow2 k * B)" using AB(3) by (simp add: mult_left_mono)
    finally show ?thesis using AB' by (simp add: divide_less_eq mult.assoc)
  qed
  have lo: "pow2 k / 2 < x"
  proof -
    have "pow2 k * B < pow2 k * (2 * 2 ^ j)" using AB(4) by simp
    also have "\<dots> = 2 * 2 ^ i" using pk by simp
    also have "\<dots> \<le> 2 * A" using AB(1) by simp
    finally show ?thesis using AB' by (simp add: less_divide_eq)
  qed
  have e: "expo x = (if x < pow2 k then k - 1 else k)"
    by (simp add: expo_def q k_def i_def j_def)
  have "pow2 (k - 1) = pow2 k / 2" using pow2_Suc [of "k - 1"] by simp
  then show ?thesis using hi lo by (auto simp add: e pow2_Suc)
qed

section \<open>Rounding is monotone and exact on representable numbers\<close>

lemma rne_mono: "x \<le> y \<Longrightarrow> rne x \<le> rne y"
proof -
  assume "x \<le> y"
  then have f: "floor x \<le> floor y" by (rule floor_mono)
  show ?thesis
  proof (cases "floor x = floor y")
    case True
    then show ?thesis using \<open>x \<le> y\<close> by (auto simp add: rne_def Let_def)
  next
    case False
    then show ?thesis using f by (auto simp add: rne_def Let_def)
  qed
qed

lemma rne_int [simp]: "rne (of_int n) = n"
  by (simp add: rne_def)

lemma rne_numeral [simp]: "rne (numeral n) = numeral n"
  using rne_int [of "numeral n"] by simp

lemma pow2_minus: "pow2 (- e) * pow2 e = 1"
  using pow2_add [of "- e" e] by simp

lemma expo_unique: "0 < x \<Longrightarrow> pow2 e \<le> x \<Longrightarrow> x < pow2 (e + 1) \<Longrightarrow> expo x = e"
proof -
  assume *: "0 < x" "pow2 e \<le> x" "x < pow2 (e + 1)"
  have "\<not> expo x + 1 \<le> e" "\<not> e + 1 \<le> expo x"
    using * expo_bounds [of x] pow2_mono [of "expo x + 1" e] pow2_mono [of "e + 1" "expo x"]
    by (auto simp add: not_le intro: leI)
  then show ?thesis by simp
qed

lemma expo_mono: "0 < x \<Longrightarrow> x \<le> y \<Longrightarrow> expo x \<le> expo y"
  using expo_bounds [of x] expo_bounds [of y] pow2_mono [of "expo y + 1" "expo x"]
  by (meson dual_order.trans leD le_less_trans linorder_not_less order_less_le_trans zless_imp_add1_zle)

text \<open>The rounded value stays between the powers of two around its argument.\<close>

lemma rnd_pos_bounds:
  assumes "0 < x"
  shows "pow2 (expo x) \<le> rnd_pos x \<and> rnd_pos x \<le> pow2 (expo x + 1)"
proof -
  define e where "e = expo x - 52"
  have p52: "pow2 (expo x) = of_int (2 ^ 52) * pow2 e" "pow2 (expo x + 1) = of_int (2 ^ 53) * pow2 e"
    using pow2_add [of 52 e] pow2_add [of 53 e] by (simp_all add: e_def add.commute)
  have "of_int (2 ^ 52) \<le> x / pow2 e" "x / pow2 e \<le> of_int (2 ^ 53)"
    using expo_bounds [OF assms] unfolding p52 by (simp_all add: le_divide_eq divide_le_eq)
  then have "rne (of_int (2 ^ 52)) \<le> rne (x / pow2 e)" "rne (x / pow2 e) \<le> rne (of_int (2 ^ 53))"
    by (simp_all only: rne_mono)
  then have "of_int (2 ^ 52) \<le> (of_int (rne (x / pow2 e)) :: rat)"
    "of_int (rne (x / pow2 e)) \<le> (of_int (2 ^ 53) :: rat)"
    unfolding rne_int of_int_le_iff by blast+
  then show ?thesis
    unfolding p52 rnd_pos_def Let_def e_def [symmetric] using pow2_pos [of e] by (simp add: mult_right_mono)
qed

lemma rnd_pos_mono: "0 < x \<Longrightarrow> x \<le> y \<Longrightarrow> rnd_pos x \<le> rnd_pos y"
proof -
  assume *: "0 < x" "x \<le> y"
  show ?thesis
  proof (cases "expo x = expo y")
    case True
    have "x / pow2 (expo y - 52) \<le> y / pow2 (expo y - 52)"
      using * pow2_pos by (simp add: divide_right_mono less_imp_le)
    then show ?thesis
      using True rne_mono pow2_pos [of "expo y - 52"]
      by (simp add: rnd_pos_def Let_def mult_right_mono)
  next
    case False
    then have "expo x + 1 \<le> expo y" using expo_mono * by fastforce
    then have "pow2 (expo x + 1) \<le> pow2 (expo y)" by (rule pow2_mono)
    then show ?thesis using rnd_pos_bounds [of x] rnd_pos_bounds [of y] * by linarith
  qed
qed

lemma rnd_mono: "x \<le> y \<Longrightarrow> rnd x \<le> rnd y"
proof -
  assume *: "x \<le> y"
  have pos: "0 < z \<Longrightarrow> 0 < rnd_pos z" for z
    using rnd_pos_bounds [of z] pow2_pos [of "expo z"] by linarith
  consider "0 < x" | "x \<le> 0" "0 \<le> y" | "y < 0" using * by linarith
  then show ?thesis
  proof cases
    case 1
    then show ?thesis using * rnd_pos_mono [of x y] by (simp add: rnd_def)
  next
    case 2
    then show ?thesis using pos [of "- x"] pos [of y] by (auto simp add: rnd_def)
  next
    case 3
    then show ?thesis using * rnd_pos_mono [of "- y" "- x"] by (simp add: rnd_def)
  qed
qed

lemma rnd_0 [simp]: "rnd 0 = 0"
  by (simp add: rnd_def)

lemma rnd_nonneg: "0 \<le> x \<Longrightarrow> 0 \<le> rnd x"
  using rnd_mono [of 0 x] by simp

text \<open>Numbers with a significand of at most 53 bits are exact.\<close>

definition representable :: "rat \<Rightarrow> bool" where
  "representable x \<longleftrightarrow> rnd x = x"

lemma rnd_of_int_exact:
  assumes "\<bar>n\<bar> \<le> 2 ^ 53"
  shows "rnd (of_int n) = of_int n"
proof -
  have pos: "rnd_pos (of_int n) = of_int n" if n: "0 < n" "n \<le> 2 ^ 53" for n :: int
  proof -
    define e where "e = expo (of_int n) - 52"
    have nb: "pow2 (expo (of_int n)) \<le> of_int n" using expo_bounds [of "of_int n"] n by simp
    have "expo (of_int n) \<le> 53"
    proof (rule ccontr)
      assume "\<not> expo (of_int n) \<le> 53"
      then have "pow2 54 \<le> pow2 (expo (of_int n))" by (intro pow2_mono) simp
      then have "(of_int (2 ^ 54) :: rat) \<le> of_int n" using nb by simp
      then have "2 ^ 54 \<le> n" unfolding of_int_le_iff .
      then show False using n by simp
    qed
    show ?thesis
    proof (cases "expo (of_int n) = 53")
      case True
      then have "(of_int (2 ^ 53) :: rat) \<le> of_int n" using nb by simp
      then have "n = 2 ^ 53" using n unfolding of_int_le_iff by simp
      then have "(of_int n :: rat) / pow2 e = of_int (2 ^ 52)" using True by (simp add: e_def)
      then show ?thesis using \<open>n = 2 ^ 53\<close> True
        by (simp only: rnd_pos_def Let_def e_def [symmetric] rne_int) (simp add: e_def)
    next
      case False
      then have e: "e \<le> 0" using \<open>expo (of_int n) \<le> 53\<close> by (simp add: e_def)
      have "(of_int n :: rat) / pow2 e = of_int n * pow2 (- e)"
        using pow2_minus [of e] pow2_pos [of e] by (simp add: divide_eq_eq mult.assoc)
      also have "\<dots> = of_int (n * 2 ^ nat (- e))" using e by simp
      finally have "rne (of_int n / pow2 e) = n * 2 ^ nat (- e)" by (simp only: rne_int)
      then show ?thesis
        using e pow2_minus [of e] by (simp add: rnd_pos_def flip: e_def)
    qed
  qed
  show ?thesis
  proof (cases "n < 0")
    case True
    then show ?thesis using pos [of "- n"] assms by (simp add: rnd_def)
  next
    case False
    then show ?thesis using pos [of n] assms by (auto simp add: rnd_def)
  qed
qed

lemma rat_word_nonneg [simp]: "0 \<le> (unsigned (w :: 'a::len word) :: rat)"
  by (metis of_nat_0_le_iff of_nat_unat)

lemma f64_of_u64_exact: "uint n \<le> 2 ^ 53 \<Longrightarrow> f64_of_u64 n = of_int (uint n)"
  unfolding f64_of_u64_def by (rule rnd_of_int_exact) simp

lemma uint_u64_of_f64: "0 \<le> x \<Longrightarrow> x < 2 ^ 64 \<Longrightarrow> uint (u64_of_f64 x) = floor x"
proof -
  assume "0 \<le> x" "x < 2 ^ 64"
  moreover have "floor x < 2 ^ 64" if "x < 2 ^ 64"
    using that by (simp add: floor_less_iff)
  ultimately show ?thesis
    by (simp add: u64_of_f64_def unsigned_of_int take_bit_int_eq_self)
qed

end
