(* ===== verification/Bandwidth.thy ===== *)
theory Bandwidth
  imports Float64
begin

text \<open>
  The congestion estimator \<open>BandwidthEstimator\<close> of \<open>bandwidth.cpp\<close>: the quantised decrease,
  the two-step recovery, the stall reaction and the start-up clamp, with the doubles rounded as
  in \<open>Float64\<close>.  A missing receive-rate cap (\<open>numeric_limits<double>::max()\<close>) is \<open>None\<close>.
\<close>

section \<open>Constants and state\<close>

definition kMinBtlBps :: u64 where "kMinBtlBps = 12500"
definition kCongestFactor :: f64 where "kCongestFactor = rnd (5 / 10)"
definition kCongestTier1Factor :: f64 where "kCongestTier1Factor = rnd (90 / 100)"
definition kCongestTier2Factor :: f64 where "kCongestTier2Factor = rnd (75 / 100)"
definition kCongestTier3Factor :: f64 where "kCongestTier3Factor = rnd (65 / 100)"
definition kCongestTier4Factor :: f64 where "kCongestTier4Factor = rnd (50 / 100)"
definition kEvacTriggerMaxFactor :: f64 where "kEvacTriggerMaxFactor = rnd (80 / 100)"
definition kCongestTier2Threshold :: f64 where "kCongestTier2Threshold = rnd (5 / 100)"
definition kCongestTier3Threshold :: f64 where "kCongestTier3Threshold = rnd (20 / 100)"
definition kCongestTier4Threshold :: f64 where "kCongestTier4Threshold = rnd (50 / 100)"
definition kRecoverFactor :: f64 where "kRecoverFactor = rnd (15 / 10)"
definition kDelayThresholdMs :: nat where "kDelayThresholdMs = 20"
definition kLateThreshold :: f64 where "kLateThreshold = rnd (2 / 100)"
definition kCeThreshold :: f64 where "kCeThreshold = rnd (1 / 100)"
definition kRecoverDelayMs :: nat where "kRecoverDelayMs = 10"
definition kRecoverLateThreshold :: f64 where "kRecoverLateThreshold = rnd (5 / 1000)"
definition kProbeExtraParity :: u32 where "kProbeExtraParity = 2"

record bandwidth =
  m_btl_bw :: u64
  m_btl_seed :: u64
  m_floor :: u64
  m_rt_prop_us :: u64
  m_delay_ewma :: f64
  m_recover_step :: int
  m_fec_probe_extra :: u32
  m_congested :: bool
  m_rtt :: int
  m_rt_prop :: int
  m_app_limited :: bool
  m_last_congest_at :: time
  m_last_congest_factor :: f64
  m_seed_calibrated :: bool
  m_report_stall :: bool

definition bw_new :: "u64 \<Rightarrow> bandwidth" where
  "bw_new initial =
    (let btl = max (if initial = 0 then 1 else initial) kMinBtlBps in
     \<lparr> m_btl_bw = btl, m_btl_seed = btl, m_floor = 1024, m_rt_prop_us = 0, m_delay_ewma = 0,
       m_recover_step = 0, m_fec_probe_extra = 0, m_congested = False, m_rtt = 0, m_rt_prop = 0,
       m_app_limited = False, m_last_congest_at = 0, m_last_congest_factor = 1,
       m_seed_calibrated = False, m_report_stall = False \<rparr>)"

section \<open>Operations\<close>

definition on_ack :: "int \<Rightarrow> bandwidth \<Rightarrow> bandwidth" where
  "on_ack rtt b =
    (if rtt \<le> 0 then b
     else let b = (if m_rt_prop b = 0 \<or> rtt < m_rt_prop b then b\<lparr>m_rt_prop := rtt\<rparr> else b)
          in if m_rtt b = 0 then b\<lparr>m_rtt := rtt\<rparr>
             else b\<lparr>m_rtt := (m_rtt b * 7 + rtt) div 8\<rparr>)"

text \<open>The inputs of one report.\<close>

record bw_report =
  r_p50_ms :: u32
  r_late :: f64
  r_loss :: f64
  r_ce :: f64
  r_pacer_limited :: bool
  r_overload :: bool
  r_in_evac :: bool
  r_recv_rate :: f64

definition delay_update :: "u32 \<Rightarrow> bandwidth \<Rightarrow> bandwidth" where
  "delay_update p50_ms b =
    (let p50_us = ucast p50_ms * 1000;
         b = (if m_rt_prop_us b = 0 \<or> p50_us < m_rt_prop_us b then b\<lparr>m_rt_prop_us := p50_us\<rparr> else b);
         q_ms = (if p50_us > m_rt_prop_us b
                 then fdiv (f64_of_u64 (p50_us - m_rt_prop_us b)) 1000 else 0)
     in b\<lparr>m_delay_ewma := fadd (fmul (rnd (7 / 10)) (m_delay_ewma b)) (fmul (rnd (3 / 10)) q_ms)\<rparr>)"

definition is_congested :: "bw_report \<Rightarrow> bandwidth \<Rightarrow> bool" where
  "is_congested r b \<longleftrightarrow>
     (m_delay_ewma b > f64_of_nat kDelayThresholdMs \<and> \<not> r_pacer_limited r) \<or>
     (\<not> r_pacer_limited r \<and> (r_late r > kLateThreshold \<or> r_loss r > kLateThreshold)) \<or>
     r_ce r > kCeThreshold"

definition is_recovered :: "bw_report \<Rightarrow> bandwidth \<Rightarrow> bool" where
  "is_recovered r b \<longleftrightarrow>
     m_delay_ewma b < f64_of_nat kRecoverDelayMs \<and>
     (if r_pacer_limited r then r_ce r < kCeThreshold
      else r_late r < kRecoverLateThreshold \<and> r_loss r < kRecoverLateThreshold) \<and>
     \<not> r_pacer_limited r"

definition congest_factor :: "bw_report \<Rightarrow> f64" where
  "congest_factor r =
    (let strength = (if r_pacer_limited r then r_ce r
                     else max (max (r_late r) (r_loss r)) (r_ce r))
     in if strength \<ge> kCongestTier4Threshold then kCongestTier4Factor
        else if strength \<ge> kCongestTier3Threshold then kCongestTier3Factor
        else if strength \<ge> kCongestTier2Threshold then kCongestTier2Factor
        else if strength \<ge> kCeThreshold then kCongestTier1Factor
        else kCongestTier1Factor)"

definition scale_down :: "f64 \<Rightarrow> u64 \<Rightarrow> u64" where
  "scale_down factor btl = max (u64_of_f64 (fmul (f64_of_u64 btl) factor)) kMinBtlBps"

definition decrease :: "time \<Rightarrow> bw_report \<Rightarrow> bandwidth \<Rightarrow> bandwidth" where
  "decrease now r b =
    (let factor = congest_factor r;
         b = b\<lparr>m_btl_bw := scale_down factor (m_btl_bw b)\<rparr>;
         b = (if factor \<le> kEvacTriggerMaxFactor
              then b\<lparr>m_last_congest_at := now, m_last_congest_factor := factor\<rparr> else b)
     in b\<lparr>m_recover_step := 0, m_fec_probe_extra := 0\<rparr>)"

definition recv_cap :: "bw_report \<Rightarrow> bandwidth \<Rightarrow> f64 option" where
  "recv_cap r b =
    (if r_recv_rate r > 0 \<and> \<not> r_pacer_limited r
     then Some (max (f64_of_u64 (m_btl_bw b)) (fmul (r_recv_rate r) (rnd (12 / 10)))) else None)"

definition raise_btl :: "f64 option \<Rightarrow> bandwidth \<Rightarrow> bandwidth" where
  "raise_btl cap b =
    (let seed = f64_of_u64 (m_btl_seed b);
         limit = (case cap of None \<Rightarrow> seed | Some c \<Rightarrow> min seed c);
         btl = u64_of_f64 (min (fmul (f64_of_u64 (m_btl_bw b)) kRecoverFactor) limit)
     in b\<lparr>m_btl_bw := if btl < kMinBtlBps then kMinBtlBps else btl\<rparr>)"

definition recover :: "bw_report \<Rightarrow> bandwidth \<Rightarrow> bandwidth" where
  "recover r b =
    (let cap = recv_cap r b in
     if m_recover_step b = 0
     then let b = raise_btl cap b
          in b\<lparr>m_fec_probe_extra := if r_ce r < kCeThreshold then kProbeExtraParity else 0,
               m_recover_step := 1\<rparr>
     else if m_recover_step b = 1
     then let b = raise_btl cap b in b\<lparr>m_fec_probe_extra := 0, m_recover_step := 2\<rparr>
     else b\<lparr>m_recover_step := 0\<rparr>)"

definition on_report :: "time \<Rightarrow> bw_report \<Rightarrow> bandwidth \<Rightarrow> bandwidth" where
  "on_report now r b =
    (let b = b\<lparr>m_report_stall := False\<rparr>;
         b = delay_update (r_p50_ms r) b;
         congested = is_congested r b;
         recovered = is_recovered r b;
         b = b\<lparr>m_congested := congested\<rparr>
     in if congested
        then if r_in_evac r then b
             else if r_overload r then decrease now r b
             else b
        else if \<not> r_in_evac r \<and> (r_pacer_limited r \<or> recovered) then recover r b
        else b)"

definition on_report_timeout :: "bandwidth \<Rightarrow> bandwidth" where
  "on_report_timeout b =
    (if m_report_stall b then b
     else let b = b\<lparr>m_report_stall := True\<rparr>;
              b = b\<lparr>m_btl_bw := scale_down kCongestFactor (m_btl_bw b)\<rparr>
          in b\<lparr>m_recover_step := 0, m_fec_probe_extra := 0\<rparr>)"

definition delay_congested :: "bandwidth \<Rightarrow> bool" where
  "delay_congested b \<longleftrightarrow> m_delay_ewma b > f64_of_nat kDelayThresholdMs"

definition bytes_per_second :: "bandwidth \<Rightarrow> u64" where
  "bytes_per_second b = max (m_floor b) (m_btl_bw b)"

definition set_seed_and_clamp :: "u64 \<Rightarrow> bandwidth \<Rightarrow> bandwidth" where
  "set_seed_and_clamp probe_bps b =
    (if m_seed_calibrated b \<or> probe_bps = 0 then b
     else let b = b\<lparr>m_seed_calibrated := True\<rparr>;
              cap_b = probe_bps div 8;
              cap_b = (if cap_b = 0 then 1 else cap_b)
          in if m_btl_bw b > cap_b then b\<lparr>m_btl_bw := cap_b\<rparr> else b)"

section \<open>Bounds of the estimate\<close>

text \<open>\<open>bw_ok b\<close>: the seed is a plausible rate that a \<open>double\<close> holds exactly, the estimate lies
  between 1 and the seed, and the smoothed delay is not negative.\<close>

definition bw_ok :: "bandwidth \<Rightarrow> bool" where
  "bw_ok b \<longleftrightarrow> kMinBtlBps \<le> m_btl_seed b \<and> uint (m_btl_seed b) \<le> 2 ^ 53 \<and>
     0 < m_btl_bw b \<and> m_btl_bw b \<le> m_btl_seed b \<and> 0 \<le> m_delay_ewma b"

lemma uint_kMin: "uint kMinBtlBps = 12500"
  by (simp add: kMinBtlBps_def)

lemma uint_max: "uint (max a b) = max (uint a) (uint b)"
  by (simp add: max_def word_le_def)

lemma fmul_below:
  assumes "uint btl \<le> 2 ^ 53" and "0 \<le> f" and "f \<le> 1"
  shows "0 \<le> fmul (f64_of_u64 btl) f" and "fmul (f64_of_u64 btl) f \<le> of_int (uint btl)"
proof -
  have e: "f64_of_u64 btl = of_int (uint btl)" using assms(1) by (rule f64_of_u64_exact)
  show "0 \<le> fmul (f64_of_u64 btl) f"
    unfolding fmul_def e by (rule rnd_nonneg) (use assms in simp)
  have "rnd (of_int (uint btl) * f) \<le> rnd (of_int (uint btl))"
    by (rule rnd_mono) (use assms in \<open>simp add: mult_left_le\<close>)
  then show "fmul (f64_of_u64 btl) f \<le> of_int (uint btl)"
    unfolding fmul_def e using rnd_of_int_exact [of "uint btl"] assms(1) by simp
qed

lemma uint_scale_down:
  assumes "uint btl \<le> 2 ^ 53" and "0 \<le> f" and "f \<le> 1"
  shows "uint (scale_down f btl) = max (floor (fmul (f64_of_u64 btl) f)) 12500"
    and "floor (fmul (f64_of_u64 btl) f) \<le> uint btl"
proof -
  note b = fmul_below [OF assms]
  have "fmul (f64_of_u64 btl) f < 2 ^ 64"
  proof -
    have "of_int (uint btl) \<le> (of_int (2 ^ 53) :: rat)" using assms(1) unfolding of_int_le_iff .
    then show ?thesis using b(2) by simp
  qed
  then show "uint (scale_down f btl) = max (floor (fmul (f64_of_u64 btl) f)) 12500"
    unfolding scale_down_def uint_max uint_kMin using b(1) by (simp add: uint_u64_of_f64)
  show "floor (fmul (f64_of_u64 btl) f) \<le> uint btl"
    using b(2) by (simp add: floor_le_iff)
qed

lemma factor_range: "0 \<le> congest_factor r \<and> congest_factor r \<le> 1"
proof -
  have "rnd 0 \<le> rnd (n / 100)" "rnd (n / 100) \<le> rnd (of_int 1)" if "0 \<le> n" "n \<le> 100" for n
    by (rule rnd_mono; use that in simp)+
  then have *: "0 \<le> rnd (n / 100)" "rnd (n / 100) \<le> 1" if "0 \<le> n" "n \<le> 100" for n
    using that rnd_of_int_exact [of 1] by simp_all
  show ?thesis
    using * [of 90] * [of 75] * [of 65] * [of 50]
    by (simp add: congest_factor_def Let_def kCongestTier1Factor_def kCongestTier2Factor_def
        kCongestTier3Factor_def kCongestTier4Factor_def)
qed

lemma bw_ok_uint:
  "bw_ok b \<longleftrightarrow> 12500 \<le> uint (m_btl_seed b) \<and> uint (m_btl_seed b) \<le> 2 ^ 53 \<and>
     0 < uint (m_btl_bw b) \<and> uint (m_btl_bw b) \<le> uint (m_btl_seed b) \<and> 0 \<le> m_delay_ewma b"
  by (simp add: bw_ok_def word_le_def word_less_def uint_kMin)

lemma bw_new_ok:
  assumes "uint initial \<le> 2 ^ 53"
  shows "bw_ok (bw_new initial)"
  using assms by (auto simp add: bw_ok_uint bw_new_def Let_def uint_kMin max_def word_le_def)

lemma delay_update_ok:
  assumes "bw_ok b"
  shows "bw_ok (delay_update p b)"
    and "m_btl_bw (delay_update p b) = m_btl_bw b" and "m_btl_seed (delay_update p b) = m_btl_seed b"
    and "m_recover_step (delay_update p b) = m_recover_step b"
proof -
  have "0 \<le> rnd (7 / 10)" "0 \<le> rnd (3 / 10)" by (rule rnd_nonneg, simp)+
  moreover have "0 \<le> fdiv (f64_of_u64 x) 1000" for x
    unfolding fdiv_def f64_of_u64_def by (intro rnd_nonneg divide_nonneg_nonneg) simp_all
  ultimately show "bw_ok (delay_update p b)"
    using assms unfolding bw_ok_def delay_update_def Let_def fadd_def fmul_def
    by (auto intro!: rnd_nonneg add_nonneg_nonneg mult_nonneg_nonneg)
  show "m_btl_bw (delay_update p b) = m_btl_bw b" "m_btl_seed (delay_update p b) = m_btl_seed b"
    "m_recover_step (delay_update p b) = m_recover_step b"
    by (simp_all add: delay_update_def Let_def)
qed

lemma decrease_btl:
  "m_btl_bw (decrease now r b) = scale_down (congest_factor r) (m_btl_bw b)"
  "m_btl_seed (decrease now r b) = m_btl_seed b" "m_delay_ewma (decrease now r b) = m_delay_ewma b"
  by (simp_all add: decrease_def Let_def)

lemma scale_down_ok:
  assumes "bw_ok b" and "0 \<le> f" and "f \<le> 1"
  shows "12500 \<le> uint (scale_down f (m_btl_bw b))"
    and "uint (scale_down f (m_btl_bw b)) \<le> uint (m_btl_seed b)"
    and "12500 \<le> uint (m_btl_bw b) \<Longrightarrow> uint (scale_down f (m_btl_bw b)) \<le> uint (m_btl_bw b)"
proof -
  have le: "uint (m_btl_bw b) \<le> 2 ^ 53" using assms(1) by (simp add: bw_ok_uint)
  show "12500 \<le> uint (scale_down f (m_btl_bw b))"
    and "uint (scale_down f (m_btl_bw b)) \<le> uint (m_btl_seed b)"
    and "12500 \<le> uint (m_btl_bw b) \<Longrightarrow> uint (scale_down f (m_btl_bw b)) \<le> uint (m_btl_bw b)"
    using uint_scale_down [OF le assms(2,3)] assms(1) by (auto simp add: bw_ok_uint)
qed

lemma kRecoverFactor_val: "kRecoverFactor = 3 / 2"
  by (simp add: kRecoverFactor_def) code_simp

text \<open>The recovery step: it neither leaves the range nor lowers an estimate that is below the
  seed, and without a cap it gains at least one.\<close>

lemma raise_btl_facts:
  assumes ok: "bw_ok b"
    and cap: "\<And>c. cap = Some c \<Longrightarrow> f64_of_u64 (m_btl_bw b) \<le> c"
  shows "12500 \<le> uint (m_btl_bw (raise_btl cap b))"
    and "uint (m_btl_bw (raise_btl cap b)) \<le> uint (m_btl_seed b)"
    and "uint (m_btl_bw b) \<le> uint (m_btl_bw (raise_btl cap b))"
    and "cap = None \<Longrightarrow> uint (m_btl_bw b) < uint (m_btl_seed b) \<Longrightarrow>
      uint (m_btl_bw b) < uint (m_btl_bw (raise_btl cap b))"
proof -
  let ?s = "of_int (uint (m_btl_seed b)) :: rat" and ?x = "of_int (uint (m_btl_bw b)) :: rat"
  define limit where "limit = (case cap of None \<Rightarrow> ?s | Some c \<Rightarrow> min ?s c)"
  define y where "y = min (rnd (?x * (3 / 2))) limit"
  have r: "12500 \<le> uint (m_btl_seed b)" "uint (m_btl_seed b) \<le> 2 ^ 53" "0 < uint (m_btl_bw b)"
    "uint (m_btl_bw b) \<le> uint (m_btl_seed b)"
    using ok by (auto simp add: bw_ok_uint)
  have fs: "f64_of_u64 (m_btl_seed b) = ?s" "f64_of_u64 (m_btl_bw b) = ?x"
    using r by (intro f64_of_u64_exact, linarith)+
  have xs: "?x \<le> ?s" using r(4) by (simp only: of_int_le_iff)
  have xl: "?x \<le> limit" "limit \<le> ?s"
    using xs cap fs by (auto simp add: limit_def split: option.splits)
  have x1: "1 \<le> ?x" using r(3) by (simp only: of_int_1_le_iff)
  have "rnd ?x \<le> rnd (?x * (3 / 2))" by (rule rnd_mono) (use x1 in linarith)
  then have xy: "?x \<le> y" using xl rnd_of_int_exact [of "uint (m_btl_bw b)"] r by (simp add: y_def)
  have ys: "y \<le> ?s" using xl by (simp add: y_def)
  have y64: "0 \<le> y" "y < 2 ^ 64"
  proof -
    have "?s \<le> of_int (2 ^ 53)" using r(2) unfolding of_int_le_iff .
    then show "y < 2 ^ 64" using ys by simp
    show "0 \<le> y" using xy x1 by linarith
  qed
  have btl: "m_btl_bw (raise_btl cap b) =
      (if u64_of_f64 y < kMinBtlBps then kMinBtlBps else u64_of_f64 y)"
    unfolding raise_btl_def Let_def fmul_def kRecoverFactor_val fs y_def limit_def by simp
  then have u: "uint (m_btl_bw (raise_btl cap b)) = max 12500 (floor y)"
    using uint_u64_of_f64 [OF y64] by (simp add: word_less_def uint_kMin max_def)
  have fl: "uint (m_btl_bw b) \<le> floor y" "floor y \<le> uint (m_btl_seed b)"
    using xy ys by (simp_all only: le_floor_iff floor_le_iff)
  show "12500 \<le> uint (m_btl_bw (raise_btl cap b))"
    and "uint (m_btl_bw (raise_btl cap b)) \<le> uint (m_btl_seed b)"
    and "uint (m_btl_bw b) \<le> uint (m_btl_bw (raise_btl cap b))"
    using u fl r by auto
  show "uint (m_btl_bw b) < uint (m_btl_bw (raise_btl cap b))"
    if "cap = None" "uint (m_btl_bw b) < uint (m_btl_seed b)"
  proof (cases "uint (m_btl_bw b) < 12500")
    case False
    have "rnd (of_int (uint (m_btl_bw b) + 1)) \<le> rnd (?x * (3 / 2))"
      by (rule rnd_mono) (use False in \<open>simp flip: of_int_less_iff [where 'a = rat]\<close>)
    moreover have "rnd (of_int (uint (m_btl_bw b) + 1)) = of_int (uint (m_btl_bw b) + 1)"
      by (rule rnd_of_int_exact) (use that r in auto)
    moreover have "of_int (uint (m_btl_bw b) + 1) \<le> ?s" using that(2) unfolding of_int_le_iff by simp
    ultimately have "of_int (uint (m_btl_bw b) + 1) \<le> y" by (simp add: y_def limit_def that(1))
    then have "uint (m_btl_bw b) + 1 \<le> floor y" by (simp only: le_floor_iff)
    then show ?thesis using u by simp
  qed (use u in simp)
qed

section \<open>Preservation\<close>

lemma bw_ok_fields:
  "m_btl_bw c = m_btl_bw b \<Longrightarrow> m_btl_seed c = m_btl_seed b \<Longrightarrow> m_delay_ewma c = m_delay_ewma b \<Longrightarrow>
     bw_ok c = bw_ok b"
  by (simp add: bw_ok_def)

lemma raise_btl_seed [simp]:
  "m_btl_seed (raise_btl cap b) = m_btl_seed b" "m_delay_ewma (raise_btl cap b) = m_delay_ewma b"
  by (simp_all add: raise_btl_def Let_def)

lemma recover_btl:
  "m_btl_bw (recover r b) =
     (if m_recover_step b = 0 \<or> m_recover_step b = 1 then m_btl_bw (raise_btl (recv_cap r b) b)
      else m_btl_bw b)"
  "m_btl_seed (recover r b) = m_btl_seed b" "m_delay_ewma (recover r b) = m_delay_ewma b"
  "m_recover_step (recover r b) =
     (if m_recover_step b = 0 then 1 else if m_recover_step b = 1 then 2 else 0)"
  by (simp_all add: recover_def Let_def)

lemma recv_cap_above: "recv_cap r b = Some c \<Longrightarrow> f64_of_u64 (m_btl_bw b) \<le> c"
  by (auto simp add: recv_cap_def split: if_splits)

lemma recover_ok:
  assumes "bw_ok b"
  shows "bw_ok (recover r b)"
proof -
  have "12500 \<le> uint (m_btl_bw (raise_btl (recv_cap r b) b))"
    and "uint (m_btl_bw (raise_btl (recv_cap r b) b)) \<le> uint (m_btl_seed b)"
    by (rule raise_btl_facts [OF assms]; erule recv_cap_above)+
  then show ?thesis using assms unfolding bw_ok_uint recover_btl by auto
qed

lemma decrease_ok:
  assumes "bw_ok b"
  shows "bw_ok (decrease now r b)"
proof -
  have "12500 \<le> uint (scale_down (congest_factor r) (m_btl_bw b))"
    and "uint (scale_down (congest_factor r) (m_btl_bw b)) \<le> uint (m_btl_seed b)"
    using scale_down_ok(1,2) [OF assms] factor_range [of r] by blast+
  then show ?thesis using assms unfolding bw_ok_uint decrease_btl by auto
qed

lemma on_report_cases:
  obtains
    (hold) c where "on_report now r b = c" "m_btl_bw c = m_btl_bw b" "m_btl_seed c = m_btl_seed b"
      "m_delay_ewma c = m_delay_ewma (delay_update (r_p50_ms r) b)"
  | (down) c where "on_report now r b = decrease now r c" "r_overload r" "\<not> r_in_evac r"
      "m_btl_bw c = m_btl_bw b" "m_btl_seed c = m_btl_seed b"
      "m_delay_ewma c = m_delay_ewma (delay_update (r_p50_ms r) b)"
  | (up) c where "on_report now r b = recover r c" "\<not> r_in_evac r"
      "m_btl_bw c = m_btl_bw b" "m_btl_seed c = m_btl_seed b"
      "m_delay_ewma c = m_delay_ewma (delay_update (r_p50_ms r) b)"
      "m_recover_step c = m_recover_step b"
proof -
  define d where "d = delay_update (r_p50_ms r) (b\<lparr>m_report_stall := False\<rparr>)"
  define c where "c = d\<lparr>m_congested := is_congested r d\<rparr>"
  have f: "m_btl_bw c = m_btl_bw b" "m_btl_seed c = m_btl_seed b" "m_recover_step c = m_recover_step b"
    "m_delay_ewma c = m_delay_ewma (delay_update (r_p50_ms r) b)"
    by (simp_all add: c_def d_def delay_update_def Let_def)
  have "on_report now r b =
      (if is_congested r d
       then if r_in_evac r then c else if r_overload r then decrease now r c else c
       else if \<not> r_in_evac r \<and> (r_pacer_limited r \<or> is_recovered r d) then recover r c else c)"
    by (simp only: on_report_def Let_def c_def d_def)
  then show ?thesis using that f by (auto split: if_splits)
qed

lemma on_report_ok:
  assumes "bw_ok b"
  shows "bw_ok (on_report now r b)" and "m_btl_seed (on_report now r b) = m_btl_seed b"
proof -
  have c: "bw_ok c" if "m_btl_bw c = m_btl_bw b" "m_btl_seed c = m_btl_seed b"
    "m_delay_ewma c = m_delay_ewma (delay_update (r_p50_ms r) b)" for c
    using that delay_update_ok [OF assms, of "r_p50_ms r"] by (simp add: bw_ok_def)
  show "bw_ok (on_report now r b)"
    by (cases now r b rule: on_report_cases) (auto simp add: c decrease_ok recover_ok)
  show "m_btl_seed (on_report now r b) = m_btl_seed b"
    by (cases now r b rule: on_report_cases) (auto simp add: decrease_btl recover_btl)
qed

lemma on_report_timeout_ok:
  assumes "bw_ok b"
  shows "bw_ok (on_report_timeout b)" and "m_btl_seed (on_report_timeout b) = m_btl_seed b"
proof -
  have "0 \<le> kCongestFactor" "kCongestFactor \<le> 1"
    using rnd_mono [of "5 / 10" 1] rnd_of_int_exact [of 1]
    by (auto simp add: kCongestFactor_def intro: rnd_nonneg)
  then show "bw_ok (on_report_timeout b)"
    using scale_down_ok(1,2) [OF assms, of kCongestFactor] assms
    by (simp add: bw_ok_uint on_report_timeout_def Let_def)
qed (simp add: on_report_timeout_def Let_def)

lemma on_ack_ok: "bw_ok b \<Longrightarrow> bw_ok (on_ack rtt b)" "m_btl_seed (on_ack rtt b) = m_btl_seed b"
  by (simp_all add: on_ack_def Let_def bw_ok_def)

lemma set_seed_ok:
  assumes "bw_ok b"
  shows "bw_ok (set_seed_and_clamp p b)" and "m_btl_seed (set_seed_and_clamp p b) = m_btl_seed b"
  using assms by (auto simp add: set_seed_and_clamp_def Let_def bw_ok_def word_gt_0)

datatype bw_event = BwReport time bw_report | BwTimeout | BwAck int | BwProbe u64

fun bw_step :: "bw_event \<Rightarrow> bandwidth \<Rightarrow> bandwidth" where
  "bw_step (BwReport now r) b = on_report now r b"
| "bw_step BwTimeout b = on_report_timeout b"
| "bw_step (BwAck rtt) b = on_ack rtt b"
| "bw_step (BwProbe bps) b = set_seed_and_clamp bps b"

interpretation bw: stepwise "\<lambda>b. bw_ok b \<and> m_btl_seed b = seed" bw_step for seed
proof unfold_locales
  fix b e
  assume "bw_ok b \<and> m_btl_seed b = seed"
  then show "bw_ok (bw_step e b) \<and> m_btl_seed (bw_step e b) = seed"
    by (cases e) (auto simp add: on_report_ok on_report_timeout_ok on_ack_ok set_seed_ok)
qed

section \<open>Clean reports lead back to the seed\<close>

text \<open>A report of an idle, undisturbed link: no late, lost or marked packets, no local limit, and a
  median delay that does not exceed the smallest one seen.\<close>

definition clean_report :: "bw_report \<Rightarrow> bandwidth \<Rightarrow> bool" where
  "clean_report r b \<longleftrightarrow> r_late r = 0 \<and> r_loss r = 0 \<and> r_ce r = 0 \<and> \<not> r_pacer_limited r \<and>
     \<not> r_in_evac r \<and> r_recv_rate r \<le> 0 \<and>
     (m_rt_prop_us b = 0 \<or> ucast (r_p50_ms r) * 1000 \<le> m_rt_prop_us b) \<and>
     m_delay_ewma b < 10"

lemma f64_small [simp]: "f64_of_nat kRecoverDelayMs = 10" "f64_of_nat kDelayThresholdMs = 20"
  using rnd_of_int_exact [of 10] rnd_of_int_exact [of 20]
  by (simp_all add: f64_of_nat_def kRecoverDelayMs_def kDelayThresholdMs_def)

lemma clean_delay:
  assumes "clean_report r b" and "0 \<le> m_delay_ewma b"
  shows "m_delay_ewma (delay_update (r_p50_ms r) b) < 10"
    and "m_rt_prop_us (delay_update (r_p50_ms r) b) = 0 \<or>
      ucast (r_p50_ms r) * 1000 \<le> m_rt_prop_us (delay_update (r_p50_ms r) b)"
proof -
  define p where "p = (ucast (r_p50_ms r) * 1000 :: u64)"
  have q: "\<not> p > m_rt_prop_us (if m_rt_prop_us b = 0 \<or> p < m_rt_prop_us b
      then b\<lparr>m_rt_prop_us := p\<rparr> else b)"
    using assms(1) by (auto simp add: clean_report_def p_def)
  then have e: "m_delay_ewma (delay_update (r_p50_ms r) b) =
      rnd (rnd (rnd (7 / 10) * m_delay_ewma b))"
    by (simp add: delay_update_def Let_def fadd_def fmul_def flip: p_def)
  have r7: "rnd (7 / 10) \<le> 8 / 10" by code_simp
  have r9: "rnd 9 = 9" using rnd_of_int_exact [of 9] by simp
  have "rnd (7 / 10) * m_delay_ewma b \<le> 8 / 10 * 10"
    by (rule mult_mono) (use r7 assms in \<open>auto simp add: clean_report_def\<close>)
  then have "rnd (rnd (7 / 10) * m_delay_ewma b) \<le> rnd 9" by (intro rnd_mono) simp
  then have "rnd (rnd (rnd (7 / 10) * m_delay_ewma b)) \<le> rnd 9" using r9 by (intro rnd_mono) simp
  then show "m_delay_ewma (delay_update (r_p50_ms r) b) < 10" using e r9 by simp
  show "m_rt_prop_us (delay_update (r_p50_ms r) b) = 0 \<or>
      ucast (r_p50_ms r) * 1000 \<le> m_rt_prop_us (delay_update (r_p50_ms r) b)"
    using assms(1) by (auto simp add: delay_update_def Let_def clean_report_def)
qed

lemma clean_report_recovers:
  fixes now :: time
  assumes ok: "bw_ok b" and clean: "clean_report r b"
  defines "c \<equiv> on_report now r b"
  shows "bw_ok c" and "clean_report r c" and "m_btl_seed c = m_btl_seed b"
    and "m_recover_step b = 0 \<or> m_recover_step b = 1 \<Longrightarrow>
      uint (m_btl_bw b) < uint (m_btl_seed b) \<Longrightarrow> uint (m_btl_bw b) < uint (m_btl_bw c)"
    and "uint (m_btl_bw b) \<le> uint (m_btl_bw c)"
    and "m_recover_step b \<noteq> 0 \<Longrightarrow> m_recover_step b \<noteq> 1 \<Longrightarrow> m_recover_step c = 0"
proof -
  define d where "d = (delay_update (r_p50_ms r) (b\<lparr>m_report_stall := False\<rparr>))\<lparr>m_congested := False\<rparr>"
  have upd: "delay_update p (b\<lparr>m_report_stall := False\<rparr>) = (delay_update p b)\<lparr>m_report_stall := False\<rparr>" for p
    by (simp add: delay_update_def Let_def)
  have cl: "m_delay_ewma d < 10" "m_rt_prop_us d = 0 \<or> ucast (r_p50_ms r) * 1000 \<le> m_rt_prop_us d"
    using clean_delay [OF clean] ok by (simp_all add: d_def upd bw_ok_def)
  have th: "0 < kLateThreshold" "0 < kCeThreshold" "0 < kRecoverLateThreshold"
    by (simp_all add: kLateThreshold_def kCeThreshold_def kRecoverLateThreshold_def) code_simp+
  have c: "c = recover r d"
    using cl(1) clean th
    by (simp add: c_def on_report_def Let_def is_congested_def is_recovered_def clean_report_def
        d_def)
  have d: "m_btl_bw d = m_btl_bw b" "m_btl_seed d = m_btl_seed b"
    "m_recover_step d = m_recover_step b"
    by (simp_all add: d_def delay_update_def Let_def)
  have okd: "bw_ok d"
    using delay_update_ok(1) [OF ok, of "r_p50_ms r"] by (simp add: d_def upd bw_ok_def)
  have cap: "recv_cap r d = None" using clean by (simp add: recv_cap_def clean_report_def)
  show "bw_ok c" "m_btl_seed c = m_btl_seed b"
    using recover_ok [OF okd] by (simp_all add: c recover_btl d)
  have rt: "m_rt_prop_us c = m_rt_prop_us d"
    by (simp add: c recover_def Let_def raise_btl_def)
  show "clean_report r c"
    using clean cl rt by (auto simp add: clean_report_def c recover_btl)
  note up = raise_btl_facts [OF okd, of None, simplified]
  show "uint (m_btl_bw b) < uint (m_btl_bw c)"
    if "m_recover_step b = 0 \<or> m_recover_step b = 1" "uint (m_btl_bw b) < uint (m_btl_seed b)"
    using that up(4) by (simp add: c recover_btl d cap)
  show "uint (m_btl_bw b) \<le> uint (m_btl_bw c)"
    using up(3) by (simp add: c recover_btl d cap)
  show "m_recover_step c = 0" if "m_recover_step b \<noteq> 0" "m_recover_step b \<noteq> 1"
    using that by (simp add: c recover_btl d)
qed

lemma clean_reports_reach:
  assumes "bw_ok b" and "clean_report r b"
  shows "\<exists>n\<le>2 * (unat (m_btl_seed b) - unat (m_btl_bw b)).
    m_btl_bw ((on_report now r ^^ n) b) = m_btl_seed b"
  using assms
proof (induction "unat (m_btl_seed b) - unat (m_btl_bw b)" arbitrary: b rule: less_induct)
  case less
  show ?case
  proof (cases "m_btl_bw b = m_btl_seed b")
    case True
    then show ?thesis by (intro exI [of _ 0]) simp
  next
    case False
    then have lt: "uint (m_btl_bw b) < uint (m_btl_seed b)"
      using less.prems(1) unfolding word_less_def [symmetric] by (simp add: bw_ok_def order_less_le)
    define k where "k = (if m_recover_step b = 0 \<or> m_recover_step b = 1 then 1 else 2 :: nat)"
    define c where "c = (on_report now r ^^ k) b"
    note one = clean_report_recovers [where now = now, OF less.prems]
    note two = clean_report_recovers [where now = now, OF one(1,2)]
    have c: "bw_ok c" "clean_report r c" "m_btl_seed c = m_btl_seed b"
      "uint (m_btl_bw b) < uint (m_btl_bw c)"
    proof -
      show "bw_ok c" "clean_report r c" "m_btl_seed c = m_btl_seed b"
        using one two by (auto simp add: c_def k_def numeral_2_eq_2)
      show "uint (m_btl_bw b) < uint (m_btl_bw c)"
      proof (cases "k = 1")
        case True
        then show ?thesis using one(4) lt by (auto simp add: c_def k_def split: if_splits)
      next
        case False
        then have s: "m_recover_step b \<noteq> 0" "m_recover_step b \<noteq> 1" "k = 2"
          by (auto simp add: k_def split: if_splits)
        have "uint (m_btl_bw b) < uint (m_btl_bw (on_report now r (on_report now r b)))"
          using one(3,5) one(6) [OF s(1,2)] two(4,5) lt
          by (cases "uint (m_btl_bw (on_report now r b)) < uint (m_btl_seed b)") auto
        then show ?thesis by (simp add: c_def s(3) numeral_2_eq_2)
      qed
    qed
    have le: "unat (m_btl_bw b) < unat (m_btl_bw c)" "unat (m_btl_bw b) < unat (m_btl_seed b)"
      using c(4) lt by (simp_all flip: word_less_def word_less_nat_alt)
    then have dec: "unat (m_btl_seed c) - unat (m_btl_bw c) < unat (m_btl_seed b) - unat (m_btl_bw b)"
      using c(3) by simp
    obtain n where n: "n \<le> 2 * (unat (m_btl_seed c) - unat (m_btl_bw c))"
      "m_btl_bw ((on_report now r ^^ n) c) = m_btl_seed c"
      using less.hyps [OF dec c(1,2)] by blast
    have "m_btl_bw ((on_report now r ^^ (n + k)) b) = m_btl_seed b"
      using n(2) c(3) by (simp add: funpow_add c_def)
    moreover have "n + k \<le> 2 * (unat (m_btl_seed b) - unat (m_btl_bw b))"
      using n(1) dec by (simp add: k_def split: if_splits)
    ultimately show ?thesis by blast
  qed
qed

section \<open>Properties\<close>

text \<open>
  C11: the send rate stays within its bounds.  Starting from the configured rate, whatever
  reports, stalls, round-trip samples and probe results arrive, the estimate is at least one
  byte per second and never exceeds the seed, the larger of the configured rate and the
  100 kbit/s floor, which itself never changes.
\<close>

theorem bandwidth_bounds:
  assumes "uint initial \<le> 2 ^ 53"
  shows "0 < m_btl_bw (run_events bw_step es (bw_new initial))
    \<and> m_btl_bw (run_events bw_step es (bw_new initial)) \<le> max initial kMinBtlBps
    \<and> m_btl_seed (run_events bw_step es (bw_new initial)) = max initial kMinBtlBps"
proof -
  have "bw_ok (bw_new initial)" using assms by (rule bw_new_ok)
  moreover have "m_btl_seed (bw_new initial) = max initial kMinBtlBps"
    by (auto simp add: bw_new_def Let_def kMinBtlBps_def max_def)
  ultimately have "bw_ok (run_events bw_step es (bw_new initial)) \<and>
      m_btl_seed (run_events bw_step es (bw_new initial)) = max initial kMinBtlBps"
    by (intro bw.run_keeps) blast
  then show ?thesis by (metis bw_ok_def)
qed

definition sample_report :: bw_report where
  "sample_report = \<lparr> r_p50_ms = 40, r_late = 0, r_loss = 0, r_ce = 0, r_pacer_limited = False,
     r_overload = True, r_in_evac = False, r_recv_rate = 0 \<rparr>"

theorem bandwidth_bounds_witness:
  "m_btl_bw (run_events bw_step [BwReport 0 sample_report, BwTimeout, BwProbe 80000] (bw_new 3750000))
     \<le> max 3750000 kMinBtlBps"
  by (rule conjunct1 [OF conjunct2 [OF bandwidth_bounds]]) simp



text \<open>
  A stall lowers the rate once.  While no report arrives, every further timeout leaves the
  estimator exactly as the first one left it, and one timeout never takes it below the floor.
\<close>

theorem stall_lowers_once:
  "on_report_timeout (on_report_timeout b) = on_report_timeout b \<and>
   (m_report_stall b \<or> kMinBtlBps \<le> m_btl_bw (on_report_timeout b))"
  by (simp add: on_report_timeout_def Let_def scale_down_def)

text \<open>
  A congested report lowers the rate by its tier, and only outside the evacuation window.
  During sustained overload the estimate becomes the tier's fraction of it, truncated and
  bounded below by the floor, so an estimate above the floor never grows; inside the window, or
  without sustained overload, the estimate is frozen.
\<close>

theorem congested_report:
  assumes "bw_ok b" and "is_congested r (delay_update (r_p50_ms r) (b\<lparr>m_report_stall := False\<rparr>))"
    and "kMinBtlBps \<le> m_btl_bw b"
  shows "m_btl_bw (on_report now r b) =
      (if r_in_evac r \<or> \<not> r_overload r then m_btl_bw b
       else scale_down (congest_factor r) (m_btl_bw b))
    \<and> m_btl_bw (on_report now r b) \<le> m_btl_bw b"
proof -
  have "m_btl_bw (on_report now r b) =
      (if r_in_evac r \<or> \<not> r_overload r then m_btl_bw b
       else scale_down (congest_factor r) (m_btl_bw b))"
    using assms(2) by (simp add: on_report_def Let_def decrease_btl) (simp add: delay_update_def Let_def)
  moreover have "scale_down (congest_factor r) (m_btl_bw b) \<le> m_btl_bw b"
    using scale_down_ok(3) [OF assms(1)] factor_range [of r] assms(3)
    by (simp add: word_le_def uint_kMin)
  ultimately show ?thesis by simp
qed

theorem congested_report_witness:
  "m_btl_bw (on_report 0 (sample_report\<lparr>r_ce := 1 / 2\<rparr>) (bw_new 1000000)) = 500000"
proof -
  let ?r = "sample_report\<lparr>r_ce := 1 / 2\<rparr>"
  have t: "kCeThreshold < 1 / 2" "kCongestTier4Threshold = 1 / 2" "kCongestTier4Factor = 1 / 2"
    by (simp add: kCeThreshold_def, code_simp)
      (simp add: kCongestTier4Threshold_def, code_simp,
       simp add: kCongestTier4Factor_def, code_simp)
  have n: "m_btl_bw (bw_new 1000000) = 1000000"
    by (simp add: bw_new_def Let_def kMinBtlBps_def max_def)
  have "bw_ok (bw_new 1000000)" by (rule bw_new_ok) simp
  then have "m_btl_bw (on_report 0 ?r (bw_new 1000000)) = scale_down (congest_factor ?r) 1000000"
    using congested_report [of "bw_new 1000000" ?r 0] t(1) n
    by (simp add: is_congested_def sample_report_def kMinBtlBps_def)
  moreover have "congest_factor ?r = 1 / 2"
    using t(2,3) by (simp add: congest_factor_def sample_report_def Let_def)
  moreover have "scale_down (1 / 2) 1000000 = 500000"
    using rnd_of_int_exact [of 1000000] rnd_of_int_exact [of 500000]
    by (simp add: scale_down_def kMinBtlBps_def f64_of_u64_def fmul_def u64_of_f64_def max_def)
  ultimately show ?thesis by simp
qed

end
