(* ===== verification/Peer.thy ===== *)
theory Peer
  imports Ordered_Map Float64 Wire "HOL-Library.Signed_Division"
begin

text \<open>
  The per-peer state of \<open>peer.hpp\<close>.  The fields of \<open>struct Peer\<close> are kept in one record per
  group of fields that an operation of the sources touches together; \<open>peer\<close> puts the groups
  together.  Clock readings are arguments of the operations: \<open>now\<close> for the monotonic clock (one
  reading per handler call), \<open>unix_ms\<close> for \<open>unix_millis()\<close>.
\<close>

section \<open>Records\<close>

record pending_send =
  ps_header :: packet_header
  ps_payload :: bytes
  ps_last_send :: time
  ps_bytes :: nat
  ps_retries :: u32

record incoming =
  in_message_id :: u32
  in_total_count :: u16
  in_data_count :: u16
  in_channel :: u8
  in_fragments :: "bytes option list"
  in_sizes :: "u16 list"
  in_first_seen :: time
  in_first_tick_ms :: u32

definition incoming0 :: incoming where
  "incoming0 = \<lparr> in_message_id = 0, in_total_count = 0, in_data_count = 0, in_channel = 0,
     in_fragments = [], in_sizes = [], in_first_seen = 0, in_first_tick_ms = 0 \<rparr>"

text \<open>Reception of data sequence numbers.\<close>

record seq_track =
  m_missing_seqs :: "(u32, time) omap"
  m_missing_channel :: "(u32, u8) omap"
  m_recv_seqs :: "u32 list"
  m_next_expected_seq :: u32
  m_seq_initialized :: bool

definition seq_track0 :: seq_track where
  "seq_track0 = \<lparr> m_missing_seqs = [], m_missing_channel = [], m_recv_seqs = [],
     m_next_expected_seq = 0, m_seq_initialized = False \<rparr>"

text \<open>Transit times of packets, and of whole frames.\<close>

record late_stats =
  m_transit_samples :: u64
  m_late_samples :: u64
  m_latency_hist :: "u32 list"
  m_hist_samples :: u64
  m_late_line_us :: u64

definition late_stats0 :: late_stats where
  "late_stats0 = \<lparr> m_transit_samples = 0, m_late_samples = 0, m_latency_hist = replicate 256 0,
     m_hist_samples = 0, m_late_line_us = 0 \<rparr>"

record frame_stats =
  m_frame_latency_hist :: "u32 list"
  m_frame_hist_samples :: u64
  m_frame_max_bytes :: u32
  m_frame_pairs :: "(u16 \<times> u16) list"

definition frame_stats0 :: frame_stats where
  "frame_stats0 = \<lparr> m_frame_latency_hist = replicate 64 0, m_frame_hist_samples = 0,
     m_frame_max_bytes = 0, m_frame_pairs = [] \<rparr>"

text \<open>Clock synchronisation; the offset is a signed 64-bit number of microseconds that stays far
  from its bounds.\<close>

record clock =
  m_clock_offset_us :: int
  m_clock_synced :: bool
  m_clock_pending :: bool
  m_hs_tick :: u32
  m_hs_arrival_ms :: u64

definition clock0 :: clock where
  "clock0 = \<lparr> m_clock_offset_us = 0, m_clock_synced = False, m_clock_pending = False,
     m_hs_tick = 0, m_hs_arrival_ms = 0 \<rparr>"

text \<open>The inbound speed-test train.\<close>

record probe_train =
  m_probe_first :: time
  m_probe_last :: time
  m_probe_bytes :: u64
  m_probe_count :: u32
  m_probe_bw_bps :: u64

definition probe_train0 :: probe_train where
  "probe_train0 = \<lparr> m_probe_first = 0, m_probe_last = 0, m_probe_bytes = 0, m_probe_count = 0,
     m_probe_bw_bps = 0 \<rparr>"

text \<open>The sender's side of forward error correction.\<close>

record fec_tx =
  m_msg_id_out :: u32
  m_fec_stage :: u8
  m_fec_disable :: bool
  m_lite_mode :: bool
  m_fec_data_pkts :: u64
  m_fec_parity_pkts :: u64
  m_fec_stat_ts :: u64
  m_peer_late_ratio :: f64
  m_have_late_report :: bool
  m_peer_p50_ms :: u16

definition fec_tx0 :: fec_tx where
  "fec_tx0 = \<lparr> m_msg_id_out = 1, m_fec_stage = 0, m_fec_disable = False, m_lite_mode = False,
     m_fec_data_pkts = 0, m_fec_parity_pkts = 0, m_fec_stat_ts = 0, m_peer_late_ratio = 0,
     m_have_late_report = False, m_peer_p50_ms = 0 \<rparr>"

text \<open>Message reassembly, with the throttle of its warnings.\<close>

record inbox =
  m_incoming :: "(u32, incoming) omap"
  m_completed :: "(u32, time) omap"
  m_oversize_log_ts :: time

definition inbox0 :: inbox where
  "inbox0 = \<lparr> m_incoming = [], m_completed = [], m_oversize_log_ts = 0 \<rparr>"

text \<open>Inbound traffic of the report interval.\<close>

record rx_count =
  m_recv_bytes :: u64
  m_ce_marks :: u64
  m_data_pkts :: u64

text \<open>The settings copied into the peer.\<close>

record peer_conf =
  m_channel_reliable :: "bool list"
  m_drop_log :: bool
  m_retransmit :: bool
  m_peer_retransmit :: bool

record peer =
  p_seq :: seq_track
  p_late :: late_stats
  p_frames :: frame_stats
  p_clock :: clock
  p_probe :: probe_train
  p_fec :: fec_tx
  p_inbox :: inbox
  p_rx :: rx_count
  p_conf :: peer_conf
  p_pending :: "(u32, pending_send) omap"
  p_sender_rtt_us :: u32

definition peer0 :: peer where
  "peer0 = \<lparr> p_seq = seq_track0, p_late = late_stats0, p_frames = frame_stats0, p_clock = clock0,
     p_probe = probe_train0, p_fec = fec_tx0, p_inbox = inbox0,
     p_rx = \<lparr> m_recv_bytes = 0, m_ce_marks = 0, m_data_pkts = 0 \<rparr>,
     p_conf = \<lparr> m_channel_reliable = replicate 8 False, m_drop_log = True, m_retransmit = True,
                m_peer_retransmit = True \<rparr>,
     p_pending = [], p_sender_rtt_us = 0 \<rparr>"

section \<open>Operations\<close>

definition kProbeTrainGap :: time where "kProbeTrainGap = milliseconds 20"

text \<open>Bandwidth of a train is its bytes over the span of its arrivals; \<open>duration_cast\<close> truncates
  the span to microseconds.\<close>

definition finalize_probe_train :: "time \<Rightarrow> probe_train \<Rightarrow> probe_train" where
  "finalize_probe_train now p =
    (if m_probe_count p = 0 then p
     else if now - m_probe_last p \<le> kProbeTrainGap then p
     else
       let span_us = (m_probe_last p - m_probe_first p) sdiv 1000;
           p = (if m_probe_count p \<ge> 2 \<and> span_us > 0
                then p\<lparr>m_probe_bw_bps := u64_of_f64
                       (fdiv (fmul (f64_of_u64 (m_probe_bytes p)) 1000000) (f64_of_int span_us))\<rparr>
                else p)
       in p\<lparr>m_probe_count := 0, m_probe_bytes := 0\<rparr>)"

text \<open>One-way transit time of a packet sent at \<open>tick\<close>; \<open>-1\<close> without a synchronised clock.\<close>

definition transit_time_us :: "clock \<Rightarrow> u32 \<Rightarrow> u64 \<Rightarrow> int" where
  "transit_time_us c tick arrival_ms =
    (if \<not> m_clock_synced c \<or> tick = 0 then - 1
     else let arrival_low = ucast (arrival_ms AND 0xFFFFFFFF) :: u32;
              t = sint (arrival_low - tick) * 1000 + m_clock_offset_us c
          in if 0 \<le> t then t else 0)"

lemma transit_time_range: "transit_time_us c tick ms = - 1 \<or> 0 \<le> transit_time_us c tick ms"
  by (simp add: transit_time_us_def Let_def)

text \<open>The key of the address table: hosts are compared first, then ports.  \<open>std::map\<close> needs a
  strict order that is total, which makes the type an instance of \<open>linorder\<close>.\<close>

datatype addr_key = AddrKey (ak_addr: u32) (ak_port: u16)

instantiation addr_key :: linorder
begin

definition less_addr_key :: "addr_key \<Rightarrow> addr_key \<Rightarrow> bool" where
  "less_addr_key a b \<longleftrightarrow>
     (if ak_addr a \<noteq> ak_addr b then ak_addr a < ak_addr b else ak_port a < ak_port b)"

definition less_eq_addr_key :: "addr_key \<Rightarrow> addr_key \<Rightarrow> bool" where
  "less_eq_addr_key a b \<longleftrightarrow> a < b \<or> a = b"

instance
proof
  fix x y :: addr_key
  show "x \<le> y \<or> y \<le> x"
    by (cases x; cases y) (auto simp add: less_addr_key_def less_eq_addr_key_def)
qed (auto simp add: less_addr_key_def less_eq_addr_key_def split: if_splits)

end

end
