(* ===== verification/Fragmenter.thy ===== *)
theory Fragmenter
  imports Peer Fec
begin

text \<open>
  The outbound data path of \<open>fragmenter.cpp\<close>: a message gets a 4-byte length prefix, is cut
  into fragments of the payload size of a datagram, and parities are computed over the
  fragments; their number follows the late-packet ratio the peer reports, through a state
  machine with hysteresis.  \<open>std::log2\<close>, whose rounding the C++ standard leaves open, is the
  argument \<open>log2\<close>.
\<close>

section \<open>Redundancy\<close>

definition kFecSafetyCoefficient :: f64 where "kFecSafetyCoefficient = rnd (12 / 10)"

definition compute_parity_count_for :: "(f64 \<Rightarrow> f64) \<Rightarrow> f64 \<Rightarrow> nat \<Rightarrow> u8 \<Rightarrow> u16" where
  "compute_parity_count_for log2 late_ratio data_count stage =
    (if stage = 0 then 0
     else if stage = 1 then 1
     else if late_ratio \<le> rnd (1 / 10000) \<or> late_ratio \<ge> rnd (9999 / 10000) then 1
     else
       let h = fsub (fmul (- late_ratio) (log2 late_ratio))
                    (fmul (fsub 1 late_ratio) (log2 (fsub 1 late_ratio)));
           redundancy = max (fmul h kFecSafetyCoefficient) late_ratio;
           p = of_int \<lceil>fmul (f64_of_nat data_count) redundancy\<rceil> :: u16;
           p = (if p < 1 then 1 else p);
           cap = of_nat (max 1 (nat \<lceil>fmul (f64_of_nat data_count) (rnd (20 / 100))\<rceil>)) :: u16;
           p = (if p > cap then cap else p)
       in if p > 100 then 100 else p)"

text \<open>The stage switches up at a higher ratio than it switches down.\<close>

definition fec_next_stage :: "f64 \<Rightarrow> u8 \<Rightarrow> u8" where
  "fec_next_stage late_ratio stage =
    (if stage = 0 then (if late_ratio > rnd (3 / 1000) then 1 else stage)
     else if stage = 1
     then (if late_ratio > rnd (12 / 1000) then 2 else if late_ratio \<le> 0 then 0 else stage)
     else (if late_ratio < rnd (8 / 1000) then 1 else stage))"

text \<open>The parity count of one message before the fixed extras, with the stage it leaves.\<close>

definition fec_base_parity :: "(f64 \<Rightarrow> f64) \<Rightarrow> nat \<Rightarrow> fec_tx \<Rightarrow> fec_tx \<times> u16" where
  "fec_base_parity log2 data_count p =
    (if m_fec_disable p then (p, 0)
     else if \<not> m_have_late_report p then (p, 2)
     else let stage = fec_next_stage (m_peer_late_ratio p) (m_fec_stage p)
          in (p\<lparr>m_fec_stage := stage\<rparr>,
              compute_parity_count_for log2 (m_peer_late_ratio p) data_count stage))"

section \<open>Cutting a message\<close>

definition frag_payload_size :: "nat \<Rightarrow> nat" where
  "frag_payload_size mtu =
    (let frag_payload = (if mtu > kHeaderSize then mtu - kHeaderSize else 64)
     in if frag_payload \<le> 4 then 64 else frag_payload)"

text \<open>The loop that skips the identifier 0.\<close>

function next_msg_id :: "u32 \<Rightarrow> u32 \<times> u32" where
  "next_msg_id out =
    (let msg_id = out AND 0x7FFFFFFF
     in if msg_id = 0 then next_msg_id (out + 1) else (msg_id, out + 1))"
  by auto

lemma mask31: "(0x7FFFFFFF :: u32) = mask 31"
  by (simp add: mask_eq_exp_minus_1)

lemma next_msg_id_ends: "(out :: u32) AND 0x7FFFFFFF = 0 \<Longrightarrow> (out + 1) AND 0x7FFFFFFF \<noteq> 0"
proof
  assume *: "out AND 0x7FFFFFFF = 0" "(out + 1) AND 0x7FFFFFFF = 0"
  have v: "uint (x AND 0x7FFFFFFF) = uint x mod 2147483648" for x :: u32
    by (simp add: mask31 take_bit_eq_mod unsigned_take_bit_eq uint_mod flip: take_bit_eq_mask)
  have "uint (out + 1) = (uint out + 1) mod 4294967296"
    by (simp add: uint_word_ariths)
  then have "uint (out + 1) mod 2147483648 = (uint out + 1) mod 2147483648"
    by (simp add: mod_mod_cancel)
  moreover have "uint out mod 2147483648 = uint (0 :: u32)"
    by (simp only: v [symmetric] *(1))
  moreover have "uint (out + 1) mod 2147483648 = uint (0 :: u32)"
    by (simp only: v [symmetric] *(2))
  moreover have "(uint out + 1) mod 2147483648 = (uint out mod 2147483648 + 1) mod 2147483648"
    by (simp only: mod_add_left_eq)
  ultimately show False by simp
qed

termination next_msg_id
  by (relation "measure (\<lambda>out. if out AND 0x7FFFFFFF = 0 then 1 else 0)")
    (auto simp add: next_msg_id_ends)

declare next_msg_id.simps [simp del]

text \<open>The stream that is cut: the big-endian length, then the payload.  In lite mode the prefix
  is inserted in place, otherwise a second buffer is filled.\<close>

definition full_stream :: "bool \<Rightarrow> bytes \<Rightarrow> bytes" where
  "full_stream lite payload =
    (let total_be = le_bytes 4 (to_be32 (of_nat (length payload) :: u32))
     in if lite then put_at (replicate 4 0 @ payload) 0 total_be
        else put_at (put_at (replicate (4 + length payload) 0) 0 total_be) 4 payload)"

definition span_of :: "bytes \<Rightarrow> nat \<Rightarrow> nat \<Rightarrow> bytes" where
  "span_of full frag_payload i =
    (let off = i * frag_payload in take (min frag_payload (length full - off)) (drop off full))"

text \<open>One call of the send callback.\<close>

record frag_call =
  fc_msg_id :: u32
  fc_idx :: u16
  fc_cnt :: u16
  fc_data_cnt :: u16
  fc_real_size :: u16
  fc_data :: bytes
  fc_width :: nat

text \<open>The one-second window of the redundancy statistics.\<close>

definition fec_stats :: "u64 \<Rightarrow> nat \<Rightarrow> u16 \<Rightarrow> fec_tx \<Rightarrow> fec_tx" where
  "fec_stats now_ms data_count parity_count p =
    (let ts = m_fec_stat_ts p;
         p = (if ts = 0 \<or> now_ms - ts > 1000
              then p\<lparr>m_fec_stat_ts := now_ms, m_fec_data_pkts := 0, m_fec_parity_pkts := 0\<rparr> else p);
         p = p\<lparr>m_fec_data_pkts := m_fec_data_pkts p + of_nat data_count\<rparr>
     in if parity_count > 0
        then p\<lparr>m_fec_parity_pkts := m_fec_parity_pkts p + ucast parity_count\<rparr> else p)"

text \<open>\<open>parities\<close> is the thread-local buffer the previous message left behind.\<close>

definition fragment_and_send ::
  "(f64 \<Rightarrow> f64) \<Rightarrow> bytes \<Rightarrow> nat \<Rightarrow> u16 \<Rightarrow> u16 \<Rightarrow> u64 \<Rightarrow> bytes list \<Rightarrow> fec_tx \<Rightarrow>
   fec_tx \<times> bytes list \<times> frag_call list" where
  "fragment_and_send log2 payload mtu channel_fec_extra probe_extra_parity now_ms parities p =
    (let frag_payload = frag_payload_size mtu;
         (msg_id, out) = next_msg_id (m_msg_id_out p);
         p = p\<lparr>m_msg_id_out := out\<rparr>;
         full = full_stream (m_lite_mode p) payload;
         real_total = length full;
         data_count = (real_total + frag_payload - 1) div frag_payload;
         data_count = (if data_count = 0 then 1 else data_count);
         width = frag_payload;
         (p, parity_count) = fec_base_parity log2 data_count p;
         parity_count = parity_count + channel_fec_extra + probe_extra_parity;
         parity_count = (if unat parity_count > data_count then of_nat data_count else parity_count);
         spans = map (span_of full frag_payload) [0..<data_count];
         parities = encode_into spans (unat parity_count) width parities;
         p = fec_stats now_ms data_count parity_count p;
         cnt = of_nat (data_count + unat parity_count) :: u16;
         d_cnt = of_nat data_count :: u16
     in (p, parities,
         map (\<lambda>i. \<lparr> fc_msg_id = msg_id, fc_idx = of_nat i, fc_cnt = cnt, fc_data_cnt = d_cnt,
                    fc_real_size = of_nat (length (spans ! i)), fc_data = spans ! i,
                    fc_width = width \<rparr>) [0..<data_count] @
         map (\<lambda>j. \<lparr> fc_msg_id = msg_id, fc_idx = of_nat (data_count + j), fc_cnt = cnt,
                    fc_data_cnt = d_cnt, fc_real_size = of_nat width,
                    fc_data = take width (parities ! j), fc_width = width \<rparr>)
           [0..<unat parity_count]))"

section \<open>Lemmas\<close>

lemma frag_payload_pos: "4 < frag_payload_size mtu"
  by (simp add: frag_payload_size_def kHeaderSize_def Let_def)

lemma next_msg_id_range:
  "next_msg_id out = (i, out') \<Longrightarrow> i \<noteq> 0 \<and> i AND 0x7FFFFFFF = i"
  by (induction out rule: next_msg_id.induct)
    (auto simp add: next_msg_id.simps Let_def and.assoc split: if_splits)

lemma full_stream_eq:
  "full_stream lite payload = le_bytes 4 (to_be32 (of_nat (length payload) :: u32)) @ payload"
  by (simp add: full_stream_def put_at_def Let_def)

lemma length_full_stream [simp]: "length (full_stream lite payload) = 4 + length payload"
  by (simp add: full_stream_eq)

text \<open>The fragments are the stream, cut into pieces of the payload size.\<close>

lemma span_of_eq: "span_of full fp i = take fp (drop (i * fp) full)"
  by (simp add: span_of_def Let_def min_def)

lemma concat_spans: "concat (map (span_of full fp) [0..<n]) = take (n * fp) full"
proof (induction n)
  case (Suc n)
  have "take (Suc n * fp) full = take (n * fp) full @ take fp (drop (n * fp) full)"
    by (simp add: add.commute [of fp] take_add)
  then show ?case using Suc by (simp add: span_of_eq)
qed simp

definition frag_count :: "nat \<Rightarrow> nat \<Rightarrow> nat" where
  "frag_count len fp = (len + fp - 1) div fp"

lemma frag_count_bounds:
  assumes "0 < fp" and "0 < len"
  shows "0 < frag_count len fp" "len \<le> frag_count len fp * fp" "(frag_count len fp - 1) * fp < len"
proof -
  define q where "q = (len - 1) div fp"
  have c: "frag_count len fp = Suc q"
    using assms by (simp add: frag_count_def q_def div_add_self2 flip: add_diff_assoc2)
  have "q * fp \<le> len - 1" and "len - 1 < Suc q * fp"
    using assms(1) by (simp_all add: q_def dividend_less_times_div mult.commute)
  then show "0 < frag_count len fp" "len \<le> frag_count len fp * fp" "(frag_count len fp - 1) * fp < len"
    using assms by (simp_all add: c)
qed

lemma spans_full:
  "0 < fp \<Longrightarrow> 0 < length full \<Longrightarrow> concat (map (span_of full fp) [0..<frag_count (length full) fp]) = full"
  by (simp add: concat_spans frag_count_bounds)

lemma length_span_le: "length (span_of full fp i) \<le> fp"
  by (simp add: span_of_eq)

lemma length_span_inner:
  assumes "0 < fp" and "0 < length full" and "Suc i < frag_count (length full) fp"
  shows "length (span_of full fp i) = fp"
proof -
  have "Suc i * fp \<le> (frag_count (length full) fp - 1) * fp"
    using assms(3) by (intro mult_right_mono) auto
  also have "\<dots> < length full" by (rule frag_count_bounds(3) [OF assms(1,2)])
  finally show ?thesis by (simp add: span_of_eq)
qed

lemma span_nonempty:
  assumes "0 < fp" and "0 < length full" and "i < frag_count (length full) fp"
  shows "span_of full fp i \<noteq> []"
proof -
  have "i * fp \<le> (frag_count (length full) fp - 1) * fp"
    using assms(3) by (intro mult_right_mono) auto
  also have "\<dots> < length full" by (rule frag_count_bounds(3) [OF assms(1,2)])
  finally show ?thesis using assms(1) by (simp add: span_of_eq)
qed

text \<open>What an earlier message left in the parity buffers does not show in the parities sent.\<close>

lemma gf_mul_add_tail:
  "length a = w \<Longrightarrow> gf_mul_add (a @ t) src c w = gf_mul_add a src c w @ t"
  by (simp add: gf_mul_add_def Let_def)

lemma encode_fold_tail:
  "length a = w \<Longrightarrow> encode_fold (a @ t) p j fs w = encode_fold a p j fs w @ t"
  by (induction fs arbitrary: a j) (simp_all add: gf_mul_add_tail)

lemma parity_clean:
  assumes "j < n"
  shows "take width (encode_into spans n width old ! j) = rs_encode spans n width ! j"
proof -
  have "take width (encode_row spans j width buf) = encode_fold (replicate width 0) j 0 spans width" for buf
    by (simp add: encode_row_def encode_fold_tail)
  moreover have "encode_row spans j width [] = encode_fold (replicate width 0) j 0 spans width"
    by (simp add: encode_row_def)
  ultimately show ?thesis
    using assms by (simp add: rs_encode_def encode_into_def Let_def nth_append)
qed

end
