(* ===== verification/Reassembler.thy ===== *)
theory Reassembler
  imports Peer Fec
begin

text \<open>
  The inbound data path of \<open>reassembler.cpp\<close>: late-packet accounting, tracking of the data
  sequence numbers, collection of fragments and assembly of messages with erasure recovery.
  Events for the application are returned as a list; an access outside a vector, which is
  undefined behaviour in C++, is \<open>None\<close>.
\<close>

datatype rx_event = Deliver bytes | Loss u8 | Warn_drop u32 nat nat

section \<open>Accounting of transit times\<close>

definition bump :: "u32 list \<Rightarrow> nat \<Rightarrow> u32 list" where
  "bump hist bin = hist[bin := hist ! bin + 1]"

definition account_late :: "int \<Rightarrow> u32 \<Rightarrow> f64 \<Rightarrow> u32 \<Rightarrow> late_stats \<Rightarrow> late_stats" where
  "account_late transit_us rtt_us late_multiplier late_buffer_ms s =
    (if transit_us < 0 then s
     else
       let s = s\<lparr>m_transit_samples := m_transit_samples s + 1\<rparr>;
           t = of_int transit_us :: u64;
           bin = unat t div 8000;
           bin = (if bin \<ge> length (m_latency_hist s) then length (m_latency_hist s) - 1 else bin);
           s = s\<lparr>m_latency_hist := bump (m_latency_hist s) bin, m_hist_samples := m_hist_samples s + 1\<rparr>
       in if late_buffer_ms > 0
          then (if m_late_line_us s > 0 \<and> t > m_late_line_us s
                then s\<lparr>m_late_samples := m_late_samples s + 1\<rparr> else s)
          else let threshold_us = u64_of_f64 (fmul late_multiplier
                     (f64_of_int (if rtt_us > 0 then uint rtt_us else 10000)))
               in (if t > threshold_us then s\<lparr>m_late_samples := m_late_samples s + 1\<rparr> else s))"

section \<open>Sequence tracking\<close>

text \<open>The loop that consumes received numbers at the cursor.\<close>

function advance_cursor :: "seq_track \<Rightarrow> seq_track" where
  "advance_cursor s =
    (if m_next_expected_seq s \<in> set (m_recv_seqs s)
     then advance_cursor (s\<lparr>m_recv_seqs := filter (\<lambda>x. x \<noteq> m_next_expected_seq s) (m_recv_seqs s),
                            m_next_expected_seq := m_next_expected_seq s + 1\<rparr>)
     else s)"
  by auto

lemma length_filter_neq: "x \<in> set xs \<Longrightarrow> length (filter (\<lambda>y. y \<noteq> x) xs) < length xs"
  by (induction xs) (auto simp add: less_Suc_eq_le)

termination advance_cursor
  by (relation "measure (\<lambda>s. length (m_recv_seqs s))") (simp_all add: length_filter_neq)

declare advance_cursor.simps [simp del]

definition mark_gap :: "u8 \<Rightarrow> time \<Rightarrow> seq_track \<Rightarrow> u32 \<Rightarrow> seq_track" where
  "mark_gap channel now s g =
    (if g \<notin> set (m_recv_seqs s)
     then s\<lparr>m_missing_seqs := om_emplace g now (m_missing_seqs s),
            m_missing_channel := om_set g channel (m_missing_channel s)\<rparr>
     else s)"

text \<open>The numbers from \<open>lo\<close> up to but not including \<open>hi\<close>.\<close>

definition seq_range :: "u32 \<Rightarrow> u32 \<Rightarrow> u32 list" where
  "seq_range lo hi = map of_nat [unat lo..<unat hi]"

definition track_seq :: "u32 \<Rightarrow> u8 \<Rightarrow> time \<Rightarrow> seq_track \<Rightarrow> seq_track" where
  "track_seq seq channel now s =
    (if seq = 0 then s
     else if \<not> m_seq_initialized s
     then s\<lparr>m_next_expected_seq := seq + 1, m_seq_initialized := True\<rparr>
     else if seq \<ge> m_next_expected_seq s
     then let s = foldl (mark_gap channel now) s (seq_range (m_next_expected_seq s) seq);
              s = s\<lparr>m_recv_seqs := List.insert seq (m_recv_seqs s)\<rparr>
          in advance_cursor s
     else let s = (if om_find (m_missing_seqs s) seq \<noteq> None
                   then s\<lparr>m_missing_seqs := om_erase seq (m_missing_seqs s),
                          m_missing_channel := om_erase seq (m_missing_channel s)\<rparr>
                   else s);
              s = s\<lparr>m_recv_seqs := List.insert seq (m_recv_seqs s)\<rparr>
          in advance_cursor s)"

section \<open>Assembly\<close>

text \<open>\<open>log_oversize_drop\<close>: at most one warning per second.\<close>

definition log_oversize_drop :: "time \<Rightarrow> u32 \<Rightarrow> nat \<Rightarrow> nat \<Rightarrow> time \<Rightarrow> time \<times> rx_event list" where
  "log_oversize_drop now msg_id v limit ts =
    (if now - ts < seconds 1 then (ts, []) else (now, [Warn_drop msg_id v limit]))"

text \<open>The usable part of each data fragment: as many bytes as its recorded size and its buffer
  both have.\<close>

definition segments :: "incoming \<Rightarrow> nat \<Rightarrow> bytes list" where
  "segments m data_count =
    map (\<lambda>i. take (min (unat (in_sizes m ! i)) (length (the (in_fragments m ! i))))
               (the (in_fragments m ! i))) [0..<data_count]"

text \<open>The loops of \<open>build_msg\<close>: the length prefix may span fragments, the copy skips it.\<close>

fun read_prefix :: "bytes list \<Rightarrow> nat \<Rightarrow> bytes" where
  "read_prefix [] need = replicate need 0"
| "read_prefix (s # ss) need =
     (if need = 0 then []
      else let n = min (length s) need in take n s @ read_prefix ss (need - n))"

fun copy_out :: "bytes list \<Rightarrow> nat \<Rightarrow> nat \<Rightarrow> nat \<Rightarrow> bytes" where
  "copy_out [] skip tot out_off = replicate (tot - out_off) 0"
| "copy_out (s # ss) skip tot out_off =
     (if out_off < tot
      then if skip \<ge> length s then copy_out ss (skip - length s) tot out_off
           else let src = drop skip s;
                    n = (if out_off + length src > tot then tot - out_off else length src)
                in take n src @ copy_out ss 0 tot (out_off + n)
      else [])"

definition build_msg ::
  "peer_conf \<Rightarrow> nat \<Rightarrow> time \<Rightarrow> incoming \<Rightarrow> nat \<Rightarrow> time \<Rightarrow> bytes \<times> time \<times> rx_event list" where
  "build_msg conf max_message_bytes now m data_count log_ts =
    (let segs = segments m data_count;
         stream_len = sum_list (map length segs)
     in if stream_len < 4 then ([], log_ts, [])
        else let tot = to_be32 (of_le_bytes (read_prefix segs 4)) :: u32 in
          if unat tot > max_message_bytes
          then (if m_drop_log conf
                then let (ts, ev) = log_oversize_drop now (in_message_id m) (unat tot)
                                      max_message_bytes log_ts
                     in ([], ts, ev)
                else ([], log_ts, []))
          else let tot = (if unat tot > stream_len - 4 then of_nat (stream_len - 4) else tot) :: u32
               in (copy_out segs 4 (unat tot) 0, log_ts, []))"

text \<open>Statistics of a complete frame.\<close>

definition account_frame :: "int \<Rightarrow> nat \<Rightarrow> frame_stats \<Rightarrow> frame_stats" where
  "account_frame transit_us fb s =
    (if transit_us < 0 then s
     else
       let t = of_int transit_us :: u64;
           fbin = unat t div 8000;
           fbin = (if fbin \<ge> length (m_frame_latency_hist s)
                   then length (m_frame_latency_hist s) - 1 else fbin);
           s = s\<lparr>m_frame_latency_hist := bump (m_frame_latency_hist s) fbin,
                 m_frame_hist_samples := m_frame_hist_samples s + 1\<rparr>;
           s = (if fb > unat (m_frame_max_bytes s) then s\<lparr>m_frame_max_bytes := of_nat fb\<rparr> else s)
       in if length (m_frame_pairs s) < 48
          then s\<lparr>m_frame_pairs := m_frame_pairs s @
                   [(of_nat (min fb 65535), of_nat (min (unat t div 1000) 65535))]\<rparr>
          else s)"

text \<open>The state \<open>try_assemble\<close> works on: the entry, the frame statistics and the warning throttle.
  \<open>asm_done\<close> is its return value.\<close>

record assembly =
  asm_done :: bool
  asm_entry :: incoming
  asm_frames :: frame_stats
  asm_log_ts :: time
  asm_events :: "rx_event list"

definition data_count_of :: "incoming \<Rightarrow> nat" where
  "data_count_of m =
    (if in_data_count m > 0 then unat (in_data_count m) else unat (in_total_count m) - 1)"

definition fill_sizes :: "nat \<Rightarrow> bytes option list \<Rightarrow> incoming \<Rightarrow> incoming" where
  "fill_sizes width data_frags m =
    foldl (\<lambda>m i. if in_fragments m ! i = None \<and> data_frags ! i \<noteq> None
                 then m\<lparr>in_fragments := (in_fragments m)[i := data_frags ! i],
                        in_sizes := (in_sizes m)[i := of_nat width]\<rparr>
                 else m) m [0..<length data_frags]"

definition try_assemble ::
  "peer_conf \<Rightarrow> clock \<Rightarrow> nat \<Rightarrow> time \<Rightarrow> time \<Rightarrow> u64 \<Rightarrow> assembly \<Rightarrow> assembly option" where
  "try_assemble conf clk max_message_bytes loss_wait now unix_ms a =
    (let m = asm_entry a in
     if in_total_count m < 1 then Some (a\<lparr>asm_done := False\<rparr>)
     else
       let data_count = data_count_of m;
           parity_count = unat (in_total_count m) - data_count
       in if data_count > length (in_fragments m) then None
       else
         let have = length (filter (\<lambda>i. in_fragments m ! i \<noteq> None) [0..<data_count]) in
         if have = data_count
         then
           let (msg, ts, ev) = build_msg conf max_message_bytes now m data_count (asm_log_ts a);
               fs = (if msg \<noteq> []
                     then account_frame (transit_time_us clk (in_first_tick_ms m) unix_ms) (length msg)
                            (asm_frames a)
                     else asm_frames a)
           in Some (a\<lparr>asm_done := True, asm_frames := fs, asm_log_ts := ts,
                      asm_events := asm_events a @ ev @ [Deliver msg]\<rparr>)
         else
           let multi = length (filter (\<lambda>i. in_fragments m ! i = None) [0..<data_count]) in
           if multi > parity_count
           then (if now - in_first_seen m < loss_wait then Some (a\<lparr>asm_done := False\<rparr>)
                 else Some (a\<lparr>asm_done := True, asm_events := asm_events a @ [Loss (in_channel m)]\<rparr>))
           else if multi = 0 then Some (a\<lparr>asm_done := False\<rparr>)
           else
             let width = foldl (\<lambda>w f. case f of None \<Rightarrow> w | Some b \<Rightarrow> max w (length b)) 0
                           (in_fragments m) in
             if width = 0 then Some (a\<lparr>asm_done := False\<rparr>)
             else
               let data_frags = map (\<lambda>i. in_fragments m ! i) [0..<data_count];
                   parities = concat (map (\<lambda>p. if data_count + p < length (in_fragments m)
                                then (case in_fragments m ! (data_count + p) of
                                        None \<Rightarrow> [] | Some b \<Rightarrow> [(p, b)])
                                else []) [0..<parity_count])
               in if multi > length parities then Some (a\<lparr>asm_done := False\<rparr>)
                  else
                    let (ok, data_frags) = rs_decode data_frags parities width in
                    if \<not> ok then Some (a\<lparr>asm_done := False\<rparr>)
                    else
                      let m = fill_sizes width data_frags m;
                          (msg, ts, ev) = build_msg conf max_message_bytes now m data_count (asm_log_ts a)
                      in Some (a\<lparr>asm_done := True, asm_entry := m, asm_log_ts := ts,
                                 asm_events := asm_events a @ ev @ [Deliver msg]\<rparr>))"

section \<open>The handler\<close>

text \<open>How long missing fragments are waited for.\<close>

definition loss_wait_of :: "peer_conf \<Rightarrow> u8 \<Rightarrow> u32 \<Rightarrow> time \<Rightarrow> time" where
  "loss_wait_of conf ch rtt_us report_interval =
    (if ch < 8 \<and> m_channel_reliable conf ! unat ch \<and> m_peer_retransmit conf
     then 12 * report_interval
     else max (milliseconds 250) (milliseconds (uint (2 * (rtt_us div 1000)))))"

text \<open>What the packet does to the entry of its message.\<close>

definition open_entry :: "packet_header \<Rightarrow> time \<Rightarrow> incoming \<Rightarrow> incoming" where
  "open_entry h now m =
    (if in_message_id m = 0
     then m\<lparr>in_message_id := h_message_id h, in_total_count := h_fragment_count h,
            in_data_count := h_flags h, in_channel := channel_of (h_reserved h),
            in_fragments := replicate (unat (h_fragment_count h)) None,
            in_sizes := replicate (unat (h_fragment_count h)) 0,
            in_first_seen := now, in_first_tick_ms := h_tick h\<rparr>
     else m)"

definition put_fragment :: "packet_header \<Rightarrow> bytes \<Rightarrow> incoming \<Rightarrow> incoming" where
  "put_fragment h payload m =
    (let idx = unat (h_fragment_index h) in
     if in_fragments m ! idx = None
     then m\<lparr>in_fragments := (in_fragments m)[idx := Some payload],
            in_sizes := (in_sizes m)[idx := h_reserved h AND kRealSizeMask]\<rparr>
     else m)"

record rx_params =
  rx_rtt_us :: u32
  rx_late_multiplier :: f64
  rx_late_buffer_ms :: u32
  rx_max_message_bytes :: nat
  rx_report_interval :: time

definition handle_data ::
  "rx_params \<Rightarrow> time \<Rightarrow> u64 \<Rightarrow> packet_header \<Rightarrow> bytes \<Rightarrow> peer \<Rightarrow> (peer \<times> rx_event list) option" where
  "handle_data par now unix_ms h payload peer =
    (let transit_us = transit_time_us (p_clock peer) (h_tick h) unix_ms;
         ch = channel_of (h_reserved h);
         peer = peer\<lparr>p_late := account_late transit_us (rx_rtt_us par) (rx_late_multiplier par)
                                 (rx_late_buffer_ms par) (p_late peer),
                     p_seq := track_seq (h_sequence h) ch now (p_seq peer)\<rparr>;
         box = p_inbox peer; id = h_message_id h; cnt = h_fragment_count h
     in if cnt = 0 then Some (peer, [])
        else if om_find (m_completed box) id \<noteq> None then Some (peer, [])
        else if h_fragment_index h \<ge> cnt then Some (peer, [])
        else let max_fragments = rx_max_message_bytes par div 64 + 8 in
          if unat cnt > max_fragments
          then (if m_drop_log (p_conf peer)
                then let (ts, ev) = log_oversize_drop now id (unat cnt) max_fragments (m_oversize_log_ts box)
                     in Some (peer\<lparr>p_inbox := box\<lparr>m_oversize_log_ts := ts\<rparr>\<rparr>, ev)
                else Some (peer, []))
          else
            let m = (case om_find (m_incoming box) id of None \<Rightarrow> incoming0 | Some m \<Rightarrow> m);
                m = open_entry h now m
            in if in_total_count m \<noteq> cnt \<or> unat (h_fragment_index h) \<ge> length (in_fragments m)
               then Some (peer\<lparr>p_inbox := box\<lparr>m_incoming := om_set id m (m_incoming box)\<rparr>\<rparr>, [])
               else
                 let m = put_fragment h payload m;
                     loss_wait = loss_wait_of (p_conf peer) ch (rx_rtt_us par) (rx_report_interval par)
                 in case try_assemble (p_conf peer) (p_clock peer) (rx_max_message_bytes par) loss_wait
                           now unix_ms
                           \<lparr> asm_done = False, asm_entry = m, asm_frames = p_frames peer,
                             asm_log_ts = m_oversize_log_ts box, asm_events = [] \<rparr> of
                      None \<Rightarrow> None
                    | Some a \<Rightarrow>
                        let box = box\<lparr>m_incoming := om_set id (asm_entry a) (m_incoming box),
                                      m_oversize_log_ts := asm_log_ts a\<rparr>;
                            box = (if asm_done a
                                   then box\<lparr>m_completed := om_set id now (m_completed box),
                                            m_incoming := om_erase id (m_incoming box)\<rparr>
                                   else box)
                        in Some (peer\<lparr>p_inbox := box, p_frames := asm_frames a\<rparr>, asm_events a))"

end
