(* ===== verification/Seq_Tracking.thy ===== *)
theory Seq_Tracking
  imports Reassembler
begin

text \<open>
  What \<open>Reassembler::handle_data\<close> knows about the data sequence numbers: the cursor is the least
  number not received yet, and no number skipped by the sender's stream is forgotten.  The
  converse fails: a number that was missing once and then arrives in time keeps its entry.
\<close>

type_synonym arrival = "u32 \<times> u8 \<times> time"

definition track_all :: "arrival list \<Rightarrow> seq_track \<Rightarrow> seq_track" where
  "track_all = run_events (\<lambda>(seq, ch, now). track_seq seq ch now)"

section \<open>The steps of the handler\<close>

lemma less_next: "(x :: 'a::len word) < y \<Longrightarrow> g < x + 1 \<longleftrightarrow> g \<le> x"
  using word_next [of x y] word_next [of x g] by (auto simp add: not_less [symmetric])

lemma advance_cursor_same [simp]:
  "m_missing_seqs (advance_cursor s) = m_missing_seqs s"
  "m_missing_channel (advance_cursor s) = m_missing_channel s"
  "m_seq_initialized (advance_cursor s) = m_seq_initialized s"
  by (induction s rule: advance_cursor.induct; subst advance_cursor.simps; simp)+

lemma advance_cursor_spec:
  assumes "\<forall>x\<in>set (m_recv_seqs s). x < - 1"
  shows "m_next_expected_seq s \<le> m_next_expected_seq (advance_cursor s)
    \<and> m_next_expected_seq (advance_cursor s) \<notin> set (m_recv_seqs s)
    \<and> (\<forall>g. m_next_expected_seq s \<le> g \<and> g < m_next_expected_seq (advance_cursor s) \<longrightarrow> g \<in> set (m_recv_seqs s))
    \<and> (\<forall>g. g \<in> set (m_recv_seqs (advance_cursor s)) \<longleftrightarrow>
          g \<in> set (m_recv_seqs s) \<and> (g < m_next_expected_seq s \<or> m_next_expected_seq (advance_cursor s) \<le> g))"
  using assms
proof (induction s rule: advance_cursor.induct)
  case (1 s)
  let ?n = "m_next_expected_seq s"
  show ?case
  proof (cases "?n \<in> set (m_recv_seqs s)")
    case False
    then show ?thesis by (auto simp add: advance_cursor.simps [of s])
  next
    case True
    define s1 where "s1 = s\<lparr>m_recv_seqs := filter (\<lambda>x. x \<noteq> ?n) (m_recv_seqs s), m_next_expected_seq := ?n + 1\<rparr>"
    have eq: "advance_cursor s = advance_cursor s1"
      using True by (simp add: advance_cursor.simps [of s] s1_def)
    have up: "?n < ?n + 1" using 1(2) True word_next by blast
    have up': "g < ?n + 1 \<longleftrightarrow> g \<le> ?n" for g
      using 1(2) True by (intro less_next) blast
    have "\<forall>x\<in>set (m_recv_seqs s1). x < - 1" using 1(2) by (simp add: s1_def)
    note * = 1(1) [OF True, folded s1_def, OF this]
    have s1: "m_next_expected_seq s1 = ?n + 1" "set (m_recv_seqs s1) = set (m_recv_seqs s) - {?n}"
      by (auto simp add: s1_def)
    have ih: "?n + 1 \<le> m_next_expected_seq (advance_cursor s1)"
      "m_next_expected_seq (advance_cursor s1) \<notin> set (m_recv_seqs s) - {?n}"
      "\<And>g. ?n + 1 \<le> g \<Longrightarrow> g < m_next_expected_seq (advance_cursor s1) \<Longrightarrow> g \<in> set (m_recv_seqs s)"
      "\<And>g. g \<in> set (m_recv_seqs (advance_cursor s1)) \<longleftrightarrow> g \<in> set (m_recv_seqs s) - {?n} \<and>
          (g < ?n + 1 \<or> m_next_expected_seq (advance_cursor s1) \<le> g)"
      using * unfolding s1 by blast+
    show ?thesis
      unfolding eq
    proof (intro conjI allI impI)
      show "?n \<le> m_next_expected_seq (advance_cursor s1)" using ih(1) up by simp
      show "m_next_expected_seq (advance_cursor s1) \<notin> set (m_recv_seqs s)"
        using ih(1,2) up by auto
      fix g
      show "g \<in> set (m_recv_seqs s)" if "?n \<le> g \<and> g < m_next_expected_seq (advance_cursor s1)"
      proof (cases "g = ?n")
        case False
        then have "?n + 1 \<le> g" using that up' [of g] by (metis not_le order_antisym)
        then show ?thesis using ih(3) [of g] that by simp
      qed (use True in simp)
      show "g \<in> set (m_recv_seqs (advance_cursor s1)) \<longleftrightarrow> g \<in> set (m_recv_seqs s) \<and>
          (g < ?n \<or> m_next_expected_seq (advance_cursor s1) \<le> g)"
      proof (cases "g = ?n")
        case True
        then have "\<not> m_next_expected_seq (advance_cursor s1) \<le> g"
          using ih(1) up by (meson not_le order_less_le_trans)
        then show ?thesis unfolding ih(4) using True by simp
      next
        case False
        then have "g < ?n + 1 \<longleftrightarrow> g < ?n" unfolding up' by (simp add: order_less_le)
        then show ?thesis unfolding ih(4) using False by simp
      qed
    qed
  qed
qed

lemma set_seq_range: "set (seq_range lo hi) = {g. lo \<le> g \<and> g < hi}"
proof -
  have "g \<in> of_nat ` {unat lo..<unat hi}" if "lo \<le> g" and "g < hi" for g :: u32
    using that by (intro image_eqI [of _ _ "unat g"]) (auto simp add: word_le_nat_alt word_less_nat_alt)
  moreover have "lo \<le> of_nat n \<and> of_nat n < hi" if "unat lo \<le> n" and "n < unat hi" for n
  proof -
    have "unat (of_nat n :: u32) = n"
    proof -
      have "unat hi < 2 ^ LENGTH(32)" by (rule unsigned_less)
      then show ?thesis using that(2) by (simp add: unat_of_nat)
    qed
    then show ?thesis using that by (simp add: word_le_nat_alt word_less_nat_alt)
  qed
  ultimately show ?thesis by (auto simp add: seq_range_def)
qed

lemma mark_gaps:
  "m_recv_seqs (foldl (mark_gap ch now) s gs) = m_recv_seqs s
   \<and> m_next_expected_seq (foldl (mark_gap ch now) s gs) = m_next_expected_seq s
   \<and> m_seq_initialized (foldl (mark_gap ch now) s gs) = m_seq_initialized s
   \<and> (om_ok (m_missing_seqs s) \<longrightarrow> om_ok (m_missing_seqs (foldl (mark_gap ch now) s gs)) \<and>
      (\<forall>g. om_find (m_missing_seqs (foldl (mark_gap ch now) s gs)) g =
         (if om_find (m_missing_seqs s) g = None \<and> g \<in> set gs \<and> g \<notin> set (m_recv_seqs s)
          then Some now else om_find (m_missing_seqs s) g)))"
proof (induction gs arbitrary: s)
  case (Cons a gs)
  show ?case
    using Cons.IH [of "mark_gap ch now s a"]
    by (auto simp add: mark_gap_def om_find_emplace)
qed simp

section \<open>Invariant\<close>

definition tracked :: "u32 \<Rightarrow> u32 set \<Rightarrow> seq_track \<Rightarrow> bool" where
  "tracked first R s \<longleftrightarrow>
     m_seq_initialized s \<and> om_ok (m_missing_seqs s) \<and> (\<forall>r\<in>R. r < - 1) \<and>
     set (m_recv_seqs s) \<subseteq> R \<and> first < m_next_expected_seq s \<and> m_next_expected_seq s \<notin> R \<and>
     (\<forall>g. first \<le> g \<and> g < m_next_expected_seq s \<longrightarrow> g \<in> R) \<and>
     (\<forall>g\<in>R. m_next_expected_seq s \<le> g \<longrightarrow> g \<in> set (m_recv_seqs s)) \<and>
     (\<forall>g. first \<le> g \<and> g \<notin> R \<and> (\<exists>r\<in>R. g < r) \<longrightarrow> om_find (m_missing_seqs s) g \<noteq> None)"

lemma tracked_init:
  assumes "seq \<noteq> 0" and "seq < - 1"
  shows "tracked seq {seq} (track_seq seq ch now seq_track0)"
proof -
  have "seq < seq + 1" using word_next [OF assms(2)] by simp
  moreover have "g = seq" if "seq \<le> g" and "g < seq + 1" for g
    using that less_next [OF assms(2), of g] by simp
  ultimately show ?thesis
    using assms by (auto simp add: tracked_def track_seq_def seq_track0_def)
qed

lemma tracked_advance:
  assumes "tracked first R s" and "seq < - 1"
    and "m_next_expected_seq s1 = m_next_expected_seq s" and "m_seq_initialized s1"
    and "set (m_recv_seqs s1) = insert seq (set (m_recv_seqs s))"
    and "om_ok (m_missing_seqs s1)"
    and "\<And>g. first \<le> g \<Longrightarrow> g \<notin> R \<Longrightarrow> g \<noteq> seq \<Longrightarrow> (\<exists>r\<in>insert seq R. g < r) \<Longrightarrow>
      om_find (m_missing_seqs s1) g \<noteq> None"
  shows "tracked first (insert seq R) (advance_cursor s1)"
proof -
  let ?n = "m_next_expected_seq s" and ?n' = "m_next_expected_seq (advance_cursor s1)"
  note t = assms(1) [unfolded tracked_def]
  have "\<forall>x\<in>set (m_recv_seqs s1). x < - 1"
    using t assms(2,5) by auto
  from advance_cursor_spec [OF this] have a: "?n \<le> ?n'" "?n' \<notin> insert seq (set (m_recv_seqs s))"
    "\<And>g. ?n \<le> g \<Longrightarrow> g < ?n' \<Longrightarrow> g \<in> insert seq (set (m_recv_seqs s))"
    "\<And>g. g \<in> set (m_recv_seqs (advance_cursor s1)) \<longleftrightarrow>
      g \<in> insert seq (set (m_recv_seqs s)) \<and> (g < ?n \<or> ?n' \<le> g)"
    by (auto simp add: assms(3,5))
  have "?n' \<notin> insert seq R" using a(1,2) t by auto
  moreover have "g \<in> insert seq R" if "first \<le> g" and "g < ?n'" for g
    using that a(3) [of g] t by (cases "g < ?n") (auto simp add: not_less)
  moreover have "g \<in> set (m_recv_seqs (advance_cursor s1))" if "g \<in> insert seq R" and "?n' \<le> g" for g
    using that a(1) t by (auto simp add: a(4))
  moreover have "first < ?n'" using a(1) t by auto
  moreover have "set (m_recv_seqs (advance_cursor s1)) \<subseteq> insert seq R" using a(4) t by auto
  ultimately show ?thesis
    using t assms(2,4,6,7) by (auto simp add: tracked_def)
qed

lemma tracked_step:
  assumes t: "tracked first R s" and "seq \<noteq> 0" and "seq < - 1"
  shows "tracked first (insert seq R) (track_seq seq ch now s)"
proof (cases "m_next_expected_seq s \<le> seq")
  case True
  define s1 where "s1 = foldl (mark_gap ch now) s (seq_range (m_next_expected_seq s) seq)"
  define s2 where "s2 = s1\<lparr>m_recv_seqs := List.insert seq (m_recv_seqs s1)\<rparr>"
  note mg = mark_gaps [of ch now s "seq_range (m_next_expected_seq s) seq", folded s1_def]
  have "track_seq seq ch now s = advance_cursor s2"
    using True assms(2) t by (simp add: track_seq_def tracked_def Let_def s1_def s2_def)
  moreover have "tracked first (insert seq R) (advance_cursor s2)"
  proof (rule tracked_advance [OF t assms(3)])
    fix g assume g: "first \<le> g" "g \<notin> R" "g \<noteq> seq" "\<exists>r\<in>insert seq R. g < r"
    have "m_next_expected_seq s \<le> g"
      using t g(1,2) unfolding tracked_def by (meson not_le)
    then show "om_find (m_missing_seqs s2) g \<noteq> None"
      using mg t g by (auto simp add: s2_def tracked_def set_seq_range)
  qed (use mg t in \<open>auto simp add: s2_def tracked_def\<close>)
  ultimately show ?thesis by simp
next
  case False
  define s1 where "s1 = (if om_find (m_missing_seqs s) seq \<noteq> None
    then s\<lparr>m_missing_seqs := om_erase seq (m_missing_seqs s),
           m_missing_channel := om_erase seq (m_missing_channel s)\<rparr> else s)"
  define s2 where "s2 = s1\<lparr>m_recv_seqs := List.insert seq (m_recv_seqs s1)\<rparr>"
  have "track_seq seq ch now s = advance_cursor s2"
    using False assms(2) t unfolding track_seq_def s2_def s1_def Let_def
    by (simp only: tracked_def if_False simp_thms)
  moreover have "tracked first (insert seq R) (advance_cursor s2)"
  proof (rule tracked_advance [OF t assms(3)])
    fix g assume g: "first \<le> g" "g \<notin> R" "g \<noteq> seq" "\<exists>r\<in>insert seq R. g < r"
    have "m_next_expected_seq s \<le> g"
      using t g(1,2) unfolding tracked_def by (meson not_le)
    then have "\<exists>r\<in>R. g < r" using g(4) False by auto
    then have "om_find (m_missing_seqs s) g \<noteq> None"
      using t g(1,2) unfolding tracked_def by blast
    then show "om_find (m_missing_seqs s2) g \<noteq> None"
      using g(3) by (auto simp add: s2_def s1_def)
  qed (use t in \<open>auto simp add: s2_def s1_def tracked_def\<close>)
  ultimately show ?thesis by simp
qed

lemma tracked_run:
  assumes "tracked first R s" and "\<forall>(q, c, t)\<in>set as. q \<noteq> 0 \<and> q < - 1"
  shows "tracked first (R \<union> fst ` set as) (track_all as s)"
  using assms
proof (induction as arbitrary: R s)
  case (Cons a as)
  obtain q c t where a: "a = (q, c, t)" by (cases a) auto
  from Cons.IH [OF tracked_step [OF Cons.prems(1), of q c t]] Cons.prems(2) show ?case
    by (simp add: a track_all_def)
qed (simp add: track_all_def)

text \<open>A received number below the cursor is never consumed.\<close>

lemma advance_keeps_below:
  assumes "tracked first R s" and "seq < - 1" and "x < m_next_expected_seq s"
    and "m_next_expected_seq s1 = m_next_expected_seq s"
    and "set (m_recv_seqs s1) = insert seq (set (m_recv_seqs s))"
    and "x \<in> insert seq (set (m_recv_seqs s))"
  shows "x \<in> set (m_recv_seqs (advance_cursor s1)) \<and> x < m_next_expected_seq (advance_cursor s1)"
proof -
  have "\<forall>y\<in>set (m_recv_seqs s1). y < - 1"
    using assms(1,2,5) by (auto simp add: tracked_def)
  from advance_cursor_spec [OF this] show ?thesis
    using assms(3,4,5,6) by auto
qed

lemma track_seq_keeps_below:
  assumes "tracked first R s" and "seq \<noteq> 0" and "seq < - 1" and "x < m_next_expected_seq s"
    and "x \<in> insert seq (set (m_recv_seqs s))"
  shows "x \<in> set (m_recv_seqs (track_seq seq ch now s)) \<and> x < m_next_expected_seq (track_seq seq ch now s)"
  using assms mark_gaps [of ch now s "seq_range (m_next_expected_seq s) seq"]
    advance_keeps_below [OF assms(1,3,4) _ _ assms(5)]
  by (auto simp add: track_seq_def tracked_def Let_def)

lemma below_stays:
  assumes "tracked first R s" and "x < m_next_expected_seq s" and "x \<in> set (m_recv_seqs s)"
    and "\<forall>(q, c, t)\<in>set as. q \<noteq> 0 \<and> q < - 1"
  shows "x \<in> set (m_recv_seqs (track_all as s))"
  using assms
proof (induction as arbitrary: R s)
  case (Cons a as)
  obtain q c t where a: "a = (q, c, t)" by (cases a) auto
  then have q: "q \<noteq> 0" "q < - 1" using Cons.prems(4) by auto
  show ?case
    using Cons.IH [OF tracked_step [OF Cons.prems(1) q, of c t]] Cons.prems(3,4)
      track_seq_keeps_below [OF Cons.prems(1) q Cons.prems(2)]
    by (simp add: a track_all_def)
qed (simp add: track_all_def)

section \<open>Properties\<close>

text \<open>
  No loss is forgotten.  Whatever numbers arrive, in whatever order and with duplicates, the
  cursor is the least number after the first arrival that was not received, and every number
  skipped so far is in the table of missing numbers.
\<close>

theorem losses_recorded:
  assumes "\<forall>(q, c, t)\<in>set ((first, ch, now) # as). q \<noteq> 0 \<and> q < - 1"
  shows "let s = track_all ((first, ch, now) # as) seq_track0; R = insert first (fst ` set as)
         in m_next_expected_seq s \<notin> R
          \<and> (\<forall>g. first \<le> g \<and> g < m_next_expected_seq s \<longrightarrow> g \<in> R)
          \<and> (\<forall>g. first \<le> g \<and> g \<notin> R \<and> (\<exists>r\<in>R. g < r) \<longrightarrow> om_find (m_missing_seqs s) g \<noteq> None)"
  using tracked_run [OF tracked_init [of first ch now], of as] assms
  by (auto simp add: tracked_def Let_def track_all_def)

theorem losses_recorded_witness:
  "let s = track_all [(10, 0, 0), (13, 0, 5), (11, 0, 6)] seq_track0; R = {10, 13, 11}
   in m_next_expected_seq s \<notin> R
    \<and> (\<forall>g. 10 \<le> g \<and> g < m_next_expected_seq s \<longrightarrow> g \<in> R)
    \<and> (\<forall>g. 10 \<le> g \<and> g \<notin> R \<and> (\<exists>r\<in>R. g < r) \<longrightarrow> om_find (m_missing_seqs s) g \<noteq> None)"
  using losses_recorded [of 10 0 0 "[(13, 0, 5), (11, 0, 6)]"] by simp

text \<open>
  A number that arrives late, but not before the cursor, stays in the table of missing
  numbers although it was received; it is only removed when it arrives once more after the
  cursor passed it.
\<close>

theorem reordered_stays_missing:
  assumes "tracked first R s" and "seq \<noteq> 0" and "seq < - 1"
    and "om_find (m_missing_seqs s) seq \<noteq> None" and "m_next_expected_seq s \<le> seq"
  shows "om_find (m_missing_seqs (track_seq seq ch now s)) seq \<noteq> None"
  using assms mark_gaps [of ch now s "seq_range (m_next_expected_seq s) seq"]
  by (auto simp add: track_seq_def tracked_def Let_def)

theorem reordered_stays_missing_witness:
  "om_find (m_missing_seqs (track_all [(10, 0, 0), (12, 0, 5), (11, 0, 6)] seq_track0)) 11 \<noteq> None"
proof -
  have "tracked 10 {10, 12} (track_all [(10, 0, 0), (12, 0, 5)] seq_track0)"
    using tracked_run [OF tracked_init [of 10 0 0], of "[(12, 0, 5)]"]
    by (simp add: track_all_def insert_commute)
  moreover have "om_find (m_missing_seqs (track_all [(10, 0, 0), (12, 0, 5)] seq_track0)) 11 \<noteq> None"
    and "m_next_expected_seq (track_all [(10, 0, 0), (12, 0, 5)] seq_track0) \<le> 11"
    by code_simp+
  ultimately have "om_find (m_missing_seqs (track_seq 11 0 6
      (track_all [(10, 0, 0), (12, 0, 5)] seq_track0))) 11 \<noteq> None"
    by (intro reordered_stays_missing) auto
  then show ?thesis by (simp add: track_all_def)
qed

text \<open>
  The set of received numbers grows without bound.  A duplicate or retransmission of a
  number below the cursor is put into the set and no later arrival ever removes it.
\<close>

theorem late_duplicates_pile_up:
  assumes "tracked first R s" and "\<forall>(q, c, t)\<in>set ((seq, ch, now) # as). q \<noteq> 0 \<and> q < - 1"
    and "seq < m_next_expected_seq s"
  shows "seq \<in> set (m_recv_seqs (track_all ((seq, ch, now) # as) s))"
proof -
  have q: "seq \<noteq> 0" "seq < - 1" using assms(2) by auto
  show ?thesis
    using below_stays [OF tracked_step [OF assms(1) q, of ch now], of seq as] assms
      track_seq_keeps_below [OF assms(1) q assms(3)]
    by (simp add: track_all_def)
qed

theorem late_duplicates_pile_up_witness:
  "10 \<in> set (m_recv_seqs (track_all [(10, 0, 9), (11, 0, 10), (12, 0, 11)]
     (track_all [(10, 0, 0), (11, 0, 5)] seq_track0)))"
proof -
  have "tracked 10 {10, 11} (track_all [(10, 0, 0), (11, 0, 5)] seq_track0)"
    using tracked_run [OF tracked_init [of 10 0 0], of "[(11, 0, 5)]"]
    by (simp add: track_all_def insert_commute)
  moreover have "10 < m_next_expected_seq (track_all [(10, 0, 0), (11, 0, 5)] seq_track0)"
    by code_simp
  ultimately show ?thesis by (intro late_duplicates_pile_up) auto
qed

end
