(* ===== verification/Reassembly.thy ===== *)
theory Reassembly
  imports Reassembler Fragmenter
begin

text \<open>
  What the receiver delivers: a message split by the sender and received in any order, with
  duplicates, losses and traffic of other messages in between, is delivered unchanged or not at
  all, at most once, and it is delivered when enough of it arrives in time.
\<close>

section \<open>Reading a message off its segments\<close>

lemma take_replicate_0: "n \<le> m \<Longrightarrow> take n (xs @ replicate m (0 :: u8)) = take n (xs @ replicate n 0)"
proof -
  assume "n \<le> m"
  then have "min (n - length xs) m = min (n - length xs) n" by linarith
  then show ?thesis by simp
qed

lemma read_prefix_eq: "read_prefix segs n = take n (concat segs @ replicate n 0)"
proof (induction segs arbitrary: n)
  case (Cons s ss)
  show ?case
  proof (cases "n \<le> length s")
    case False
    then have "take (n - length s) (concat ss @ replicate n 0) =
        take (n - length s) (concat ss @ replicate (n - length s) (0 :: u8))"
      by (intro take_replicate_0) simp
    then show ?thesis using False Cons.IH [of "n - length s"] by (simp add: Let_def min_def)
  qed (simp add: Let_def min_def Cons.IH)
qed simp

lemma copy_out_eq:
  "off \<le> tot \<Longrightarrow> copy_out segs skip tot off =
     take (tot - off) (drop skip (concat segs) @ replicate (tot - off) 0)"
proof (induction segs skip tot off rule: copy_out.induct)
  case (2 s ss skip tot off)
  consider "off = tot" | "off < tot" "length s \<le> skip" | "off < tot" "skip < length s"
    "tot < off + length (drop skip s)" | "off < tot" "skip < length s" "off + length (drop skip s) \<le> tot"
    using 2(3) by linarith
  then show ?case
  proof cases
    case 4
    define d where "d = drop skip s"
    have "take (tot - (off + length d)) (concat ss @ replicate (tot - off) 0) =
        take (tot - (off + length d)) (concat ss @ replicate (tot - (off + length d)) (0 :: u8))"
      by (intro take_replicate_0) simp
    then show ?thesis
      using 4 2(2) [OF _ _ refl refl] by (simp add: Let_def d_def [symmetric] del: take_append)
        (simp add: d_def)
  qed (use 2 in \<open>auto simp add: Let_def\<close>)
qed simp

lemma build_msg_reads:
  assumes segs: "concat (segments e dc) = le_bytes 4 (to_be32 (of_nat (length payload) :: u32)) @ payload @ pad"
    and limit: "length payload \<le> limit" and len: "length payload < 2 ^ 32"
  shows "build_msg conf limit now e dc ts = (payload, ts, [])"
proof -
  define c where "c = concat (segments e dc)"
  have pre: "to_be32 (of_le_bytes (read_prefix (segments e dc) 4)) = (of_nat (length payload) :: u32)"
    by (simp add: read_prefix_eq segs of_le_bytes_le_bytes)
  have n: "unat (of_nat (length payload) :: u32) = length payload"
    using len by (simp add: unat_of_nat)
  have sl: "sum_list (map length (segments e dc)) = 4 + length payload + length pad"
    unfolding length_concat [symmetric] segs by simp
  show ?thesis
    unfolding build_msg_def Let_def pre n sl
    using limit by (simp add: n copy_out_eq segs)
qed

section \<open>A message on its way\<close>

text \<open>What the sender makes of a message: its parts, the number of parities, the width the parts
  are padded to on the wire.  \<open>wire_part\<close> is the payload of the datagram of index \<open>k\<close>,
  \<open>part_size\<close> the size its header announces.\<close>

record sent_msg =
  sm_id :: u32
  sm_channel :: u8
  sm_parts :: "bytes list"
  sm_parity :: nat
  sm_width :: nat
  sm_payload :: bytes

definition wire_part :: "sent_msg \<Rightarrow> nat \<Rightarrow> bytes" where
  "wire_part m k =
    (if k < length (sm_parts m) then resize0 (sm_parts m ! k) (sm_width m)
     else rs_encode (sm_parts m) (sm_parity m) (sm_width m) ! (k - length (sm_parts m)))"

definition part_size :: "sent_msg \<Rightarrow> nat \<Rightarrow> u16" where
  "part_size m k =
    of_nat (if k < length (sm_parts m) then length (sm_parts m ! k) else sm_width m)"

definition sm_total :: "sent_msg \<Rightarrow> nat" where
  "sm_total m = length (sm_parts m) + sm_parity m"

text \<open>A message a receiver with the limit \<open>limit\<close> accepts.\<close>

definition sendable :: "nat \<Rightarrow> sent_msg \<Rightarrow> bool" where
  "sendable limit m \<longleftrightarrow>
     sm_id m \<noteq> 0 \<and> sm_parts m \<noteq> [] \<and> 0 < sm_width m \<and> sm_width m \<le> 4095 \<and>
     concat (sm_parts m) = le_bytes 4 (to_be32 (of_nat (length (sm_payload m)) :: u32)) @ sm_payload m \<and>
     length (sm_payload m) \<le> limit \<and> length (sm_payload m) < 2 ^ 32 \<and>
     (\<forall>i. Suc i < length (sm_parts m) \<longrightarrow> length (sm_parts m ! i) = sm_width m) \<and>
     (\<forall>i<length (sm_parts m). length (sm_parts m ! i) \<le> sm_width m) \<and>
     sm_total m < 2 ^ 16 \<and> sm_total m \<le> limit div 64 + 8"

text \<open>Datagram \<open>k\<close> of the message.\<close>

definition packet_of :: "sent_msg \<Rightarrow> nat \<Rightarrow> packet_header \<Rightarrow> bytes \<Rightarrow> bool" where
  "packet_of m k h payload \<longleftrightarrow>
     k < sm_total m \<and> h_message_id h = sm_id m \<and> h_fragment_index h = of_nat k \<and>
     h_fragment_count h = of_nat (sm_total m) \<and> h_flags h = of_nat (length (sm_parts m)) \<and>
     h_reserved h AND kRealSizeMask = part_size m k \<and> channel_of (h_reserved h) = sm_channel m \<and>
     payload = wire_part m k"

lemma length_wire_part: "k < sm_total m \<Longrightarrow> length (wire_part m k) = sm_width m"
  by (auto simp add: wire_part_def sm_total_def rs_encode_nth)

lemma rs_encode_padded:
  "rs_encode (map (\<lambda>d. resize0 d w) D) n w = rs_encode D n w"
proof (rule nth_equalityI)
  fix p assume "p < length (rs_encode (map (\<lambda>d. resize0 d w) D) n w)"
  then have p: "p < n" by simp
  show "rs_encode (map (\<lambda>d. resize0 d w) D) n w ! p = rs_encode D n w ! p"
    by (rule at_eqI) (use p in \<open>auto simp add: rs_encode_nth intro!: sum.cong\<close>)
qed simp

lemma resize0_twice [simp]: "resize0 (resize0 d w) w = resize0 d w"
  by (auto simp add: resize0_def)

lemma resize0_exact: "length d = w \<Longrightarrow> resize0 d w = d"
  by (simp add: resize0_def)

lemma resize0_pad: "length d \<le> w \<Longrightarrow> resize0 d w = d @ replicate (w - length d) 0"
  by (auto simp add: resize0_def)

section \<open>The entry of the message\<close>

text \<open>\<open>holds_parts m S e\<close>: the entry has received exactly the datagrams in \<open>S\<close>.\<close>

definition holds_parts :: "sent_msg \<Rightarrow> nat set \<Rightarrow> time \<Rightarrow> incoming \<Rightarrow> bool" where
  "holds_parts m S t0 e \<longleftrightarrow>
     in_message_id e = sm_id m \<and> in_total_count e = of_nat (sm_total m) \<and>
     in_data_count e = of_nat (length (sm_parts m)) \<and> in_channel e = sm_channel m \<and>
     in_first_seen e = t0 \<and> length (in_fragments e) = sm_total m \<and>
     length (in_sizes e) = sm_total m \<and> S \<subseteq> {..<sm_total m} \<and>
     (\<forall>k < sm_total m. in_fragments e ! k = (if k \<in> S then Some (wire_part m k) else None)) \<and>
     (\<forall>k\<in>S. in_sizes e ! k = part_size m k)"

definition lost_parts :: "sent_msg \<Rightarrow> nat set \<Rightarrow> nat list" where
  "lost_parts m S = filter (\<lambda>i. i \<notin> S) [0..<length (sm_parts m)]"

text \<open>Enough has arrived: as many leading parities as parts are missing.\<close>

definition recoverable :: "sent_msg \<Rightarrow> nat set \<Rightarrow> bool" where
  "recoverable m S \<longleftrightarrow>
     lost_parts m S = [] \<or>
     length (sm_parts m) \<le> 255 \<and> length (lost_parts m S) \<le> sm_parity m \<and>
     (\<forall>r<length (lost_parts m S). length (sm_parts m) + r \<in> S)"

lemma sendable_unat:
  assumes "sendable limit m"
  shows "unat (of_nat (sm_total m) :: u16) = sm_total m"
    and "unat (of_nat (length (sm_parts m)) :: u16) = length (sm_parts m)"
    and "of_nat (length (sm_parts m)) \<noteq> (0 :: u16)"
    and "of_nat (sm_total m) \<noteq> (0 :: u16)"
    and "unat (of_nat (sm_width m) :: u16) = sm_width m"
    and "k < length (sm_parts m) \<Longrightarrow> unat (part_size m k) = length (sm_parts m ! k)"
proof -
  have u: "unat (of_nat n :: u16) = n" if "n < 2 ^ 16" for n
    using that by (simp add: unat_of_nat)
  have z: "of_nat n \<noteq> (0 :: u16)" if "n < 2 ^ 16" and "0 < n" for n
    using u [OF that(1)] that(2) by (metis less_irrefl unat_0)
  have s: "sm_total m < 2 ^ 16" "0 < length (sm_parts m)" "length (sm_parts m) \<le> sm_total m"
    "sm_width m < 2 ^ 16"
    using assms by (auto simp add: sendable_def sm_total_def)
  show "unat (of_nat (sm_total m) :: u16) = sm_total m"
    and "unat (of_nat (length (sm_parts m)) :: u16) = length (sm_parts m)"
    and "unat (of_nat (sm_width m) :: u16) = sm_width m"
    by (rule u, use s in linarith)+
  show "of_nat (length (sm_parts m)) \<noteq> (0 :: u16)" and "of_nat (sm_total m) \<noteq> (0 :: u16)"
    by (rule z; use s in linarith)+
  show "unat (part_size m k) = length (sm_parts m ! k)" if "k < length (sm_parts m)"
  proof -
    have "length (sm_parts m ! k) < 2 ^ 16"
      using assms that by (force simp add: sendable_def)
    then show ?thesis using that u by (simp add: part_size_def)
  qed
qed

text \<open>The segments of an entry whose data fragments are all there, received or restored.\<close>

lemma segments_complete:
  assumes s: "sendable limit m"
    and frag: "\<And>i. i < length (sm_parts m) \<Longrightarrow> in_fragments e ! i = Some (wire_part m i)"
    and sz: "\<And>i. i < length (sm_parts m) \<Longrightarrow>
      in_sizes e ! i = part_size m i \<or> in_sizes e ! i = of_nat (sm_width m)"
  shows "\<exists>pad. concat (segments e (length (sm_parts m))) = concat (sm_parts m) @ pad"
proof -
  let ?D = "sm_parts m" and ?w = "sm_width m"
  define seg where "seg i = take (unat (in_sizes e ! i)) (resize0 (?D ! i) ?w)" for i
  have le: "length (?D ! i) \<le> ?w" if "i < length ?D" for i
    using s that by (simp add: sendable_def)
  have seg: "seg i = ?D ! i \<or> seg i = resize0 (?D ! i) ?w" if "i < length ?D" for i
    using sz [OF that] sendable_unat(5) [OF s] sendable_unat(6) [OF s that] le [OF that]
    by (auto simp add: seg_def resize0_pad)
  have "segments e (length ?D) = map seg [0..<length ?D]"
    unfolding segments_def by (rule map_cong) (auto simp add: frag wire_part_def seg_def take_all_iff min_def)
  moreover obtain d where d: "length ?D = Suc d"
    using s by (cases "length ?D") (auto simp add: sendable_def)
  moreover have "map seg [0..<d] = butlast ?D"
  proof (rule nth_equalityI)
    fix i assume "i < length (map seg [0..<d])"
    then show "map seg [0..<d] ! i = butlast ?D ! i"
      using seg [of i] s d by (auto simp add: nth_butlast sendable_def resize0_exact)
  qed (simp add: d)
  moreover have "\<exists>pad. seg d = last ?D @ pad"
  proof -
    have "sm_parts m \<noteq> []" using d by auto
    then have "last ?D = ?D ! d" using d by (simp add: last_conv_nth)
    then show ?thesis using seg [of d] le [of d] d by (auto simp add: resize0_pad)
  qed
  moreover have "concat ?D = concat (butlast ?D) @ last ?D"
    using d by (subst append_butlast_last_id [symmetric]) (auto simp del: append_butlast_last_id)
  ultimately show ?thesis by auto
qed

section \<open>Assembly of the message\<close>

lemma filter_length_all: "length (filter P [0..<n]) = n \<longleftrightarrow> (\<forall>i<n. P i)"
  using length_filter_less [of _ "[0..<n]" P]
  by (auto simp add: filter_id_conv) (metis atLeast0LessThan diff_zero length_upt less_irrefl lessThan_iff set_upt)

lemma concat_option:
  "concat (map (\<lambda>p. if P p then [f p] else []) xs) = map f (filter P xs)"
  by (induction xs) auto

lemma max_width:
  "(\<And>b. Some b \<in> set fs \<Longrightarrow> length b = w) \<Longrightarrow> acc = 0 \<or> acc = w \<Longrightarrow>
     foldl (\<lambda>w f. case f of None \<Rightarrow> w | Some b \<Rightarrow> max w (length b)) acc fs =
     (if (\<exists>b. Some b \<in> set fs) then w else acc)"
proof (induction fs arbitrary: acc)
  case (Cons f fs)
  show ?case
    using Cons.IH [of acc] Cons.IH [of w] Cons.prems by (cases f) auto
qed simp

text \<open>Filling in what was restored.\<close>

lemma fill_sizes_fields:
  fixes df :: "bytes option list"
  assumes "length df \<le> length (in_fragments e)" and "length (in_sizes e) = length (in_fragments e)"
  shows "i < length df \<Longrightarrow> in_fragments (fill_sizes w df e) ! i =
      (if in_fragments e ! i = None then df ! i else in_fragments e ! i)"
    and "i < length df \<Longrightarrow> in_sizes (fill_sizes w df e) ! i =
      (if in_fragments e ! i = None \<and> df ! i \<noteq> None then of_nat w else in_sizes e ! i)"
proof -
  define step where "step m i = (if in_fragments m ! i = None \<and> df ! i \<noteq> None
    then m\<lparr>in_fragments := (in_fragments m)[i := df ! i], in_sizes := (in_sizes m)[i := of_nat w]\<rparr> else m)"
    for m :: incoming and i
  have *: "length (in_fragments (foldl step e [0..<n])) = length (in_fragments e) \<and>
      length (in_sizes (foldl step e [0..<n])) = length (in_fragments e) \<and>
      (\<forall>i<length (in_fragments e). in_fragments (foldl step e [0..<n]) ! i =
         (if i < n \<and> in_fragments e ! i = None then df ! i else in_fragments e ! i) \<and>
       in_sizes (foldl step e [0..<n]) ! i =
         (if i < n \<and> in_fragments e ! i = None \<and> df ! i \<noteq> None then of_nat w else in_sizes e ! i))"
    if "n \<le> length df" for n
    using that
  proof (induction n)
    case (Suc n)
    then show ?case
      using assms by (auto simp add: step_def nth_list_update less_Suc_eq)
  qed (use assms in simp)
  have eq: "fill_sizes w df e = foldl step e [0..<length df]"
    by (simp only: fill_sizes_def step_def [abs_def])
  show "in_fragments (fill_sizes w df e) ! i =
      (if in_fragments e ! i = None then df ! i else in_fragments e ! i)" if "i < length df"
    using * [of "length df"] that assms by (simp add: eq)
  show "in_sizes (fill_sizes w df e) ! i =
      (if in_fragments e ! i = None \<and> df ! i \<noteq> None then of_nat w else in_sizes e ! i)" if "i < length df"
    using * [of "length df"] that assms by (simp add: eq)
qed

text \<open>The decoder's input is what the sender's code left.\<close>

definition arrived_parities :: "sent_msg \<Rightarrow> nat set \<Rightarrow> (nat \<times> bytes) list" where
  "arrived_parities m S =
    map (\<lambda>p. (p, wire_part m (length (sm_parts m) + p)))
      (filter (\<lambda>p. length (sm_parts m) + p \<in> S) [0..<sm_parity m])"

definition arrived_data :: "sent_msg \<Rightarrow> nat set \<Rightarrow> bytes option list" where
  "arrived_data m S =
    map (\<lambda>i. if i \<in> S then Some (wire_part m i) else None) [0..<length (sm_parts m)]"

lemma missing_arrived: "missing_of (arrived_data m S) = lost_parts m S"
  by (auto simp add: missing_of_def lost_parts_def arrived_data_def intro!: filter_cong)

lemma decode_arrived:
  shows "rs_decode (arrived_data m S) (arrived_parities m S) (sm_width m) \<in>
      {(False, arrived_data m S), (True, map (\<lambda>i. Some (wire_part m i)) [0..<length (sm_parts m)])}"
    and "recoverable m S \<Longrightarrow> fst (rs_decode (arrived_data m S) (arrived_parities m S) (sm_width m))"
proof -
  let ?D = "sm_parts m" and ?w = "sm_width m" and ?n = "sm_parity m"
  define D where "D = map (\<lambda>d. resize0 d ?w) ?D"
  have rec: "received rs_encode D ?n ?w (arrived_data m S) (arrived_parities m S)"
    by (auto simp add: received_def arrived_data_def arrived_parities_def D_def wire_part_def
        rs_encode_padded)
  have "restored D ?w (arrived_data m S) = map (\<lambda>i. Some (wire_part m i)) [0..<length ?D]"
    by (auto simp add: restored_def arrived_data_def D_def wire_part_def)
  then show "rs_decode (arrived_data m S) (arrived_parities m S) ?w \<in>
      {(False, arrived_data m S), (True, map (\<lambda>i. Some (wire_part m i)) [0..<length ?D])}"
    using rs.dec_never_wrong [OF rec] by simp
  assume ok: "recoverable m S"
  define k where "k = length (missing_of (arrived_data m S))"
  note lost = missing_arrived [of m S]
  show "fst (rs_decode (arrived_data m S) (arrived_parities m S) ?w)"
  proof (cases "lost_parts m S = []")
    case True
    then show ?thesis using lost by (simp add: rs_decode_def)
  next
    case False
    then have r: "length ?D \<le> 255" "k \<le> ?n" "\<forall>r<k. length ?D + r \<in> S"
      using ok by (auto simp add: recoverable_def k_def lost)
    then have "[0..<?n] = [0..<k] @ [k..<?n]" by (metis le_add_diff_inverse upt_add_eq_append zero_le)
    then have "filter (\<lambda>p. length ?D + p \<in> S) [0..<?n] = [0..<k] @ filter (\<lambda>p. length ?D + p \<in> S) [k..<?n]"
      using r(3) by (simp add: filter_id_conv)
    then have par: "arrived_parities m S = map (\<lambda>p. (p, wire_part m (length ?D + p))) [0..<k] @
        map (\<lambda>p. (p, wire_part m (length ?D + p))) (filter (\<lambda>p. length ?D + p \<in> S) [k..<?n])"
      by (simp add: arrived_parities_def)
    have "rs_decode (arrived_data m S) (arrived_parities m S) ?w = (True, restored D ?w (arrived_data m S))"
      by (rule rs.dec_recovers [OF rec, where b = 0])
        (use r in \<open>auto simp add: D_def par nth_append simp flip: k_def\<close>)
    then show ?thesis by simp
  qed
qed

lemma holds_parts_data:
  assumes "holds_parts m S t0 e"
  shows "map (\<lambda>i. in_fragments e ! i) [0..<length (sm_parts m)] = arrived_data m S"
  using assms by (auto simp add: arrived_data_def holds_parts_def sm_total_def)

lemma holds_parts_parities:
  assumes "holds_parts m S t0 e"
  shows "concat (map (\<lambda>p. if length (sm_parts m) + p < length (in_fragments e)
            then (case in_fragments e ! (length (sm_parts m) + p) of None \<Rightarrow> [] | Some b \<Rightarrow> [(p, b)])
            else []) [0..<sm_parity m]) = arrived_parities m S"
proof -
  have "concat (map (\<lambda>p. if length (sm_parts m) + p < length (in_fragments e)
            then (case in_fragments e ! (length (sm_parts m) + p) of None \<Rightarrow> [] | Some b \<Rightarrow> [(p, b)])
            else []) [0..<sm_parity m]) =
      concat (map (\<lambda>p. if length (sm_parts m) + p \<in> S
                then [(p, wire_part m (length (sm_parts m) + p))] else []) [0..<sm_parity m])"
    using assms by (intro arg_cong [of _ _ concat] map_cong) (auto simp add: holds_parts_def sm_total_def)
  then show ?thesis unfolding concat_option arrived_parities_def .
qed

lemma holds_parts_width:
  assumes "holds_parts m S t0 e" and "S \<noteq> {}"
  shows "foldl (\<lambda>w f. case f of None \<Rightarrow> w | Some b \<Rightarrow> max w (length b)) 0 (in_fragments e) = sm_width m"
proof -
  have frag: "in_fragments e ! k = (if k \<in> S then Some (wire_part m k) else None)"
    if "k < sm_total m" for k
    using assms(1) that by (simp add: holds_parts_def)
  have len: "length (in_fragments e) = sm_total m" and sub: "S \<subseteq> {..<sm_total m}"
    using assms(1) by (simp_all add: holds_parts_def)
  obtain k where k: "k \<in> S" using assms(2) by auto
  then have "k < sm_total m" using sub by auto
  then have "Some (wire_part m k) \<in> set (in_fragments e)"
    using frag [of k] len k by (metis nth_mem)
  moreover have "length b = sm_width m" if b: "Some b \<in> set (in_fragments e)" for b
  proof -
    obtain i where "i < sm_total m" "in_fragments e ! i = Some b"
      using b len by (auto simp add: in_set_conv_nth)
    then show ?thesis using frag [of i] length_wire_part [of i m] by (auto split: if_splits)
  qed
  ultimately show ?thesis by (subst max_width [of _ "sm_width m"]) auto
qed

text \<open>The message is read once its data fragments are there.\<close>

lemma build_msg_complete:
  assumes "sendable limit m"
    and "\<And>i. i < length (sm_parts m) \<Longrightarrow> in_fragments e ! i = Some (wire_part m i)"
    and "\<And>i. i < length (sm_parts m) \<Longrightarrow>
      in_sizes e ! i = part_size m i \<or> in_sizes e ! i = of_nat (sm_width m)"
  shows "build_msg conf limit now e (length (sm_parts m)) ts = (sm_payload m, ts, [])"
proof -
  obtain pad where "concat (segments e (length (sm_parts m))) = concat (sm_parts m) @ pad"
    using segments_complete [OF assms] by blast
  then show ?thesis
    using assms(1) by (intro build_msg_reads [where pad = pad]) (auto simp add: sendable_def)
qed

definition assembly_start :: "incoming \<Rightarrow> frame_stats \<Rightarrow> time \<Rightarrow> assembly" where
  "assembly_start e fs ts = \<lparr> asm_done = False, asm_entry = e, asm_frames = fs, asm_log_ts = ts,
     asm_events = [] \<rparr>"

text \<open>The three outcomes of an attempt.\<close>

lemma try_assemble_parts:
  assumes s: "sendable limit m" and e: "holds_parts m S t0 e" and ne: "S \<noteq> {}"
  shows "\<exists>a. try_assemble conf clk limit loss_wait now ms (assembly_start e fs ts) = Some a \<and>
    asm_log_ts a = ts \<and>
    (asm_done a \<and> asm_events a = [Deliver (sm_payload m)] \<or>
     \<not> asm_done a \<and> asm_events a = [] \<and> asm_entry a = e \<and> \<not> recoverable m S \<or>
     asm_done a \<and> asm_events a = [Loss (sm_channel m)] \<and> loss_wait \<le> now - t0 \<and> \<not> recoverable m S)"
proof -
  let ?D = "sm_parts m"
  note u = sendable_unat [OF s]
  have tc: "in_total_count e \<noteq> 0" "unat (in_total_count e) - length ?D = sm_parity m"
    "\<not> length (in_fragments e) < length ?D"
    using e u by (auto simp add: holds_parts_def sm_total_def)
  have dc: "data_count_of e = length ?D"
    using e u by (auto simp add: data_count_of_def holds_parts_def word_gt_0)
  have frag: "in_fragments e ! i = (if i \<in> S then Some (wire_part m i) else None)" if "i < length ?D" for i
    using e that by (simp add: holds_parts_def sm_total_def)
  have lost: "filter (\<lambda>i. in_fragments e ! i = None) [0..<length ?D] = lost_parts m S"
    unfolding lost_parts_def by (rule filter_cong) (auto simp add: frag)
  have have_all: "length (filter (\<lambda>i. in_fragments e ! i \<noteq> None) [0..<length ?D]) = length ?D \<longleftrightarrow>
      (\<forall>i<length ?D. i \<in> S)"
    unfolding filter_length_all by (auto simp add: frag)
  have lost_nil: "lost_parts m S = [] \<longleftrightarrow> (\<forall>i<length ?D. i \<in> S)"
    by (auto simp add: lost_parts_def filter_empty_conv)
  show ?thesis
  proof (cases "\<forall>i<length ?D. i \<in> S")
    case True
    have "build_msg conf limit now e (length ?D) ts = (sm_payload m, ts, [])"
      by (rule build_msg_complete [OF s])
        (use True e in \<open>auto simp add: frag holds_parts_def\<close>)
    then show ?thesis
      using True unfolding try_assemble_def assembly_start_def Let_def assembly.simps dc
      by (simp add: tc have_all [simplified])
  next
    case False
    then have nl: "lost_parts m S \<noteq> []" by (simp add: lost_nil)
    have hv: "\<not> length (filter (\<lambda>i. in_fragments e ! i \<noteq> None) [0..<length ?D]) = length ?D"
      using False have_all by simp
    show ?thesis
    proof (cases "sm_parity m < length (lost_parts m S)")
      case True
      then have "\<not> recoverable m S" using nl by (simp add: recoverable_def)
      moreover have "in_first_seen e = t0" "in_channel e = sm_channel m"
        using e by (simp_all add: holds_parts_def)
      ultimately show ?thesis
        using True nl unfolding try_assemble_def assembly_start_def Let_def assembly.simps dc lost
        by (simp add: tc hv [simplified])
    next
      case few: False
      have w: "sm_width m \<noteq> 0" using s by (simp add: sendable_def)
      define df where "df = map (\<lambda>i. Some (wire_part m i)) [0..<length ?D]"
      define e' where "e' = fill_sizes (sm_width m) df e"
      have ff: "in_fragments e' ! i = Some (wire_part m i)"
        "in_sizes e' ! i = part_size m i \<or> in_sizes e' ! i = of_nat (sm_width m)"
        if "i < length ?D" for i
        using fill_sizes_fields [of df e i "sm_width m"] that e
        by (auto simp add: e'_def df_def frag holds_parts_def sm_total_def)
      have "build_msg conf limit now e' (length ?D) ts = (sm_payload m, ts, [])"
        by (rule build_msg_complete [OF s ff])
      moreover obtain ok d where rd: "rs_decode (arrived_data m S) (arrived_parities m S) (sm_width m) = (ok, d)"
        by fastforce
      moreover have "ok \<Longrightarrow> d = df" and "recoverable m S \<Longrightarrow> ok"
        using decode_arrived [of m S] by (auto simp add: rd df_def)
      moreover have "recoverable m S \<Longrightarrow> \<not> length (arrived_parities m S) < length (lost_parts m S)"
        using decode_arrived(2) [of m S] nl
        by (auto simp add: rs_decode_def Let_def missing_arrived)
      ultimately show ?thesis
        using few nl w
        unfolding try_assemble_def assembly_start_def Let_def assembly.simps dc lost tc(2)
          holds_parts_width [OF e ne] holds_parts_data [OF e] holds_parts_parities [OF e]
        by (simp add: tc hv [simplified] rd flip: e'_def) (auto simp flip: e'_def)
    qed
  qed
qed

end
