(* ===== verification/Delivery.thy ===== *)
theory Delivery
  imports Reassembly
begin

text \<open>
  Runs of the receiver: any interleaving of the datagrams of one message with other traffic.
  A datagram whose header announces more data fragments than fragments makes the source read
  outside the fragment vector; all other traffic is handled without undefined behaviour.
\<close>

section \<open>Runs\<close>

type_synonym rx_packet = "time \<times> u64 \<times> packet_header \<times> bytes"

fun rx_run :: "rx_params \<Rightarrow> rx_packet list \<Rightarrow> peer \<Rightarrow> (peer \<times> (u32 \<times> rx_event) list) option" where
  "rx_run par [] p = Some (p, [])"
| "rx_run par ((now, ms, h, b) # ps) p =
     (case handle_data par now ms h b p of
        None \<Rightarrow> None
      | Some (p, ev) \<Rightarrow>
          (case rx_run par ps p of
             None \<Rightarrow> None
           | Some (p, evs) \<Rightarrow> Some (p, map (Pair (h_message_id h)) ev @ evs)))"

definition events_of :: "u32 \<Rightarrow> (u32 \<times> rx_event) list \<Rightarrow> rx_event list" where
  "events_of mid evs = map snd (filter (\<lambda>e. fst e = mid) evs)"

lemma events_of_append [simp]:
  "events_of mid (map (Pair i) ev @ evs) = (if i = mid then ev else []) @ events_of mid evs"
  by (auto simp add: events_of_def filter_empty_conv intro: map_idI)

lemma events_of_Cons [simp]:
  "events_of mid ((i, e) # evs) = (if i = mid then [e] else []) @ events_of mid evs"
  by (simp add: events_of_def)

text \<open>No entry refers past its fragments.\<close>

definition inbox_ok :: "inbox \<Rightarrow> bool" where
  "inbox_ok box \<longleftrightarrow> om_ok (m_incoming box) \<and> om_ok (m_completed box) \<and>
     (\<forall>id e. om_find (m_incoming box) id = Some e \<longrightarrow> data_count_of e \<le> length (in_fragments e))"

section \<open>One packet\<close>

lemma try_assemble_defined:
  assumes "data_count_of (asm_entry a) \<le> length (in_fragments (asm_entry a))"
  shows "\<exists>a'. try_assemble conf clk limit lw now ms a = Some a' \<and>
    (\<not> asm_done a' \<longrightarrow> asm_entry a' = asm_entry a)"
  using assms
  by (auto simp add: try_assemble_def Let_def split: prod.splits)

lemma open_entry_ok:
  assumes "h_flags h \<le> h_fragment_count h" and "h_fragment_count h \<noteq> 0"
    and "in_message_id e \<noteq> 0 \<longrightarrow> data_count_of e \<le> length (in_fragments e)"
  shows "data_count_of (open_entry h now e) \<le> length (in_fragments (open_entry h now e))"
  using assms by (auto simp add: open_entry_def data_count_of_def word_le_nat_alt)

lemma put_fragment_count:
  "data_count_of (put_fragment h b e) = data_count_of e"
  "length (in_fragments (put_fragment h b e)) = length (in_fragments e)"
  by (simp_all add: put_fragment_def data_count_of_def Let_def)

text \<open>A packet is handled without an access outside a vector and changes nothing of the other
  messages.\<close>

lemma handle_data_frame:
  assumes box: "inbox_ok (p_inbox p)" and fl: "h_flags h \<le> h_fragment_count h"
  shows "\<exists>p' ev. handle_data par now ms h b p = Some (p', ev) \<and> inbox_ok (p_inbox p') \<and>
    p_conf p' = p_conf p \<and>
    (\<forall>id. id \<noteq> h_message_id h \<longrightarrow>
       om_find (m_incoming (p_inbox p')) id = om_find (m_incoming (p_inbox p)) id \<and>
       om_find (m_completed (p_inbox p')) id = om_find (m_completed (p_inbox p)) id)"
proof -
  let ?id = "h_message_id h" and ?box = "p_inbox p"
  define e0 where "e0 = (case om_find (m_incoming ?box) ?id of None \<Rightarrow> incoming0 | Some m \<Rightarrow> m)"
  define e1 where "e1 = open_entry h now e0"
  define e2 where "e2 = put_fragment h b e1"
  have ok0: "in_message_id e0 \<noteq> 0 \<longrightarrow> data_count_of e0 \<le> length (in_fragments e0)"
    using box by (auto simp add: e0_def inbox_ok_def incoming0_def split: option.split)
  show ?thesis
  proof (cases "h_fragment_count h = 0")
    case True
    then show ?thesis using box by (simp add: handle_data_def Let_def)
  next
    case nz: False
    have ok1: "data_count_of e1 \<le> length (in_fragments e1)"
      unfolding e1_def by (rule open_entry_ok [OF fl nz ok0])
    then have ok2: "data_count_of e2 \<le> length (in_fragments e2)"
      by (simp add: e2_def put_fragment_count)
    define lw where "lw = loss_wait_of (p_conf p) (channel_of (h_reserved h)) (rx_rtt_us par)
      (rx_report_interval par)"
    obtain a where a: "try_assemble (p_conf p) (p_clock p) (rx_max_message_bytes par) lw now ms
        (assembly_start e2 (p_frames p) (m_oversize_log_ts ?box)) = Some a"
      and same: "\<not> asm_done a \<longrightarrow> asm_entry a = e2"
      using try_assemble_defined [of "assembly_start e2 (p_frames p) (m_oversize_log_ts ?box)"
          "p_conf p" "p_clock p" "rx_max_message_bytes par" lw now ms] ok2
      unfolding assembly_start_def by auto
    define q where "q = p\<lparr>p_late := account_late (transit_time_us (p_clock p) (h_tick h) ms) (rx_rtt_us par)
        (rx_late_multiplier par) (rx_late_buffer_ms par) (p_late p),
      p_seq := track_seq (h_sequence h) (channel_of (h_reserved h)) now (p_seq p)\<rparr>"
    have q: "p_inbox q = ?box" "p_conf q = p_conf p" "p_clock q = p_clock p" "p_frames q = p_frames p"
      by (simp_all add: q_def)
    define box' where "box' = ?box\<lparr>m_incoming := om_set ?id (asm_entry a) (m_incoming ?box),
      m_oversize_log_ts := asm_log_ts a\<rparr>"
    have "handle_data par now ms h b p = Some (q, [])
      \<or> (\<exists>ts ev. handle_data par now ms h b p = Some (q\<lparr>p_inbox := ?box\<lparr>m_oversize_log_ts := ts\<rparr>\<rparr>, ev))
      \<or> handle_data par now ms h b p =
          Some (q\<lparr>p_inbox := ?box\<lparr>m_incoming := om_set ?id e1 (m_incoming ?box)\<rparr>\<rparr>, [])
      \<or> handle_data par now ms h b p = Some (q\<lparr>p_inbox := (if asm_done a
          then box'\<lparr>m_completed := om_set ?id now (m_completed box'),
                    m_incoming := om_erase ?id (m_incoming box')\<rparr> else box'),
          p_frames := asm_frames a\<rparr>, asm_events a)"
      unfolding handle_data_def Let_def q_def [symmetric] q e0_def [symmetric] e1_def [symmetric]
        e2_def [symmetric] lw_def [symmetric] assembly_start_def [symmetric]
      by (auto simp add: a box'_def split: prod.split)
    then show ?thesis
      using box ok1 ok2 same
      by (elim disjE exE) (auto simp add: q box'_def inbox_ok_def om_find_set)
  qed
qed

section \<open>A packet of the message\<close>

definition is_completed :: "sent_msg \<Rightarrow> peer \<Rightarrow> bool" where
  "is_completed m p \<longleftrightarrow> om_find (m_completed (p_inbox p)) (sm_id m) \<noteq> None"

text \<open>\<open>has_parts m S t0 p\<close>: the receiver has the datagrams in \<open>S\<close>, the first one since \<open>t0\<close>,
  and has not finished the message.\<close>

definition has_parts :: "sent_msg \<Rightarrow> nat set \<Rightarrow> time \<Rightarrow> peer \<Rightarrow> bool" where
  "has_parts m S t0 p \<longleftrightarrow> \<not> is_completed m p \<and>
     (if S = {} then om_find (m_incoming (p_inbox p)) (sm_id m) = None
      else \<exists>e. om_find (m_incoming (p_inbox p)) (sm_id m) = Some e \<and> holds_parts m S t0 e)"

lemma packet_of_words:
  assumes "sendable limit m" and "packet_of m k h b"
  shows "unat (h_fragment_index h) = k" and "unat (h_fragment_count h) = sm_total m"
    and "h_flags h \<le> h_fragment_count h" and "h_fragment_index h < h_fragment_count h"
    and "h_fragment_count h \<noteq> 0"
proof -
  note u = sendable_unat [OF assms(1)]
  have k: "k < sm_total m" "sm_total m < 2 ^ 16"
    using assms by (simp_all add: packet_of_def sendable_def)
  show i: "unat (h_fragment_index h) = k" using assms(2) k by (simp add: packet_of_def unat_of_nat)
  show c: "unat (h_fragment_count h) = sm_total m" using assms(2) u(1) by (simp add: packet_of_def)
  show "h_flags h \<le> h_fragment_count h"
    using assms(2) u(2) c by (simp add: packet_of_def word_le_nat_alt) (simp add: sm_total_def)
  show "h_fragment_index h < h_fragment_count h" using i c k by (simp add: word_less_nat_alt)
  show "h_fragment_count h \<noteq> 0" using assms(2) u(4) by (simp add: packet_of_def)
qed

text \<open>The entry after the packet.\<close>

lemma entry_step:
  assumes s: "sendable limit m" and pk: "packet_of m k h b"
    and e: "if S = {} then e = incoming0 else holds_parts m S t0 e"
  shows "holds_parts m (insert k S) (if S = {} then now else t0) (put_fragment h b (open_entry h now e))"
proof -
  note u = sendable_unat [OF s] and w = packet_of_words [OF s pk]
  have k: "k < sm_total m" and nz: "sm_id m \<noteq> 0" using s pk by (simp_all add: packet_of_def sendable_def)
  have pk': "h_message_id h = sm_id m" "h_fragment_count h = of_nat (sm_total m)"
    "h_flags h = of_nat (length (sm_parts m))" "h_reserved h AND kRealSizeMask = part_size m k"
    "channel_of (h_reserved h) = sm_channel m" "b = wire_part m k"
    using pk by (simp_all add: packet_of_def)
  define e1 where "e1 = open_entry h now e"
  have "holds_parts m S (if S = {} then now else t0) e1"
  proof (cases "S = {}")
    case True
    then show ?thesis
      using e w(2) u(1) by (simp add: e1_def open_entry_def holds_parts_def incoming0_def pk' nz)
  next
    case False
    then show ?thesis using e nz by (auto simp add: e1_def open_entry_def holds_parts_def)
  qed
  then show ?thesis
    using k unfolding e1_def [symmetric] put_fragment_def w(1) Let_def
    by (auto simp add: holds_parts_def nth_list_update pk'(4,6))
qed

definition window_of :: "rx_params \<Rightarrow> peer_conf \<Rightarrow> u8 \<Rightarrow> time" where
  "window_of par conf ch = loss_wait_of conf ch (rx_rtt_us par) (rx_report_interval par)"

lemma handle_data_part:
  assumes s: "sendable (rx_max_message_bytes par) m" and pk: "packet_of m k h b"
    and box: "inbox_ok (p_inbox p)" and st: "has_parts m S t0 p"
    and h: "handle_data par now ms h b p = Some (p', ev)"
  shows "(is_completed m p' \<and> ev = [Deliver (sm_payload m)]) \<or>
    (has_parts m (insert k S) (if S = {} then now else t0) p' \<and> ev = [] \<and> \<not> recoverable m (insert k S)) \<or>
    (is_completed m p' \<and> ev = [Loss (sm_channel m)] \<and> \<not> recoverable m (insert k S) \<and>
     window_of par (p_conf p) (sm_channel m) \<le> now - (if S = {} then now else t0))"
proof -
  let ?box = "p_inbox p"
  note u = sendable_unat [OF s] and w = packet_of_words [OF s pk]
  have pk': "h_message_id h = sm_id m" "channel_of (h_reserved h) = sm_channel m"
    using pk by (simp_all add: packet_of_def)
  define e where "e = (case om_find (m_incoming ?box) (sm_id m) of None \<Rightarrow> incoming0 | Some m \<Rightarrow> m)"
  define e1 where "e1 = open_entry h now e"
  define e2 where "e2 = put_fragment h b e1"
  define t1 where "t1 = (if S = {} then now else t0)"
  have "if S = {} then e = incoming0 else holds_parts m S t0 e"
    using st by (cases "S = {}") (auto simp add: has_parts_def e_def)
  from entry_step [OF s pk this, of now] have e2: "holds_parts m (insert k S) t1 e2"
    by (simp add: e2_def e1_def t1_def)
  then have e1: "in_total_count e1 = h_fragment_count h" "length (in_fragments e1) = sm_total m"
    using pk by (simp_all add: holds_parts_def e2_def put_fragment_def Let_def packet_of_def split: if_splits)
  have k: "\<not> sm_total m \<le> unat (h_fragment_index h)" using pk w(1) by (simp add: packet_of_def)
  have cnt: "\<not> rx_max_message_bytes par div 64 + 8 < unat (h_fragment_count h)"
    using s w(2) by (simp add: sendable_def)
  have nc: "om_find (m_completed ?box) (sm_id m) = None"
    using st by (simp add: has_parts_def is_completed_def)
  obtain a where a: "try_assemble (p_conf p) (p_clock p) (rx_max_message_bytes par)
        (window_of par (p_conf p) (sm_channel m)) now ms
        (assembly_start e2 (p_frames p) (m_oversize_log_ts ?box)) = Some a"
      and out: "asm_done a \<and> asm_events a = [Deliver (sm_payload m)] \<or>
        \<not> asm_done a \<and> asm_events a = [] \<and> asm_entry a = e2 \<and> \<not> recoverable m (insert k S) \<or>
        asm_done a \<and> asm_events a = [Loss (sm_channel m)] \<and>
          window_of par (p_conf p) (sm_channel m) \<le> now - t1 \<and> \<not> recoverable m (insert k S)"
    using try_assemble_parts [OF s e2 insert_not_empty, of "p_conf p" "p_clock p"
        "window_of par (p_conf p) (sm_channel m)" now ms "p_frames p" "m_oversize_log_ts ?box"] by blast
  define q where "q = p\<lparr>p_late := account_late (transit_time_us (p_clock p) (h_tick h) ms) (rx_rtt_us par)
      (rx_late_multiplier par) (rx_late_buffer_ms par) (p_late p),
    p_seq := track_seq (h_sequence h) (sm_channel m) now (p_seq p)\<rparr>"
  have q: "p_inbox q = ?box" "p_conf q = p_conf p" "p_clock q = p_clock p" "p_frames q = p_frames p"
    by (simp_all add: q_def)
  define box' where "box' = ?box\<lparr>m_incoming := om_set (sm_id m) (asm_entry a) (m_incoming ?box),
    m_oversize_log_ts := asm_log_ts a\<rparr>"
  have "handle_data par now ms h b p = Some (q\<lparr>p_inbox := (if asm_done a
      then box'\<lparr>m_completed := om_set (sm_id m) now (m_completed box'),
                m_incoming := om_erase (sm_id m) (m_incoming box')\<rparr> else box'),
      p_frames := asm_frames a\<rparr>, asm_events a)"
    using w(4) [unfolded not_le [symmetric]] w(5) k cnt e1 nc
    unfolding handle_data_def Let_def pk' q_def [symmetric] q e_def [symmetric] e1_def [symmetric]
      e2_def [symmetric] window_of_def [symmetric] assembly_start_def [symmetric]
    by (simp add: a box'_def cong: if_cong)
  then have p': "p' = q\<lparr>p_inbox := (if asm_done a
      then box'\<lparr>m_completed := om_set (sm_id m) now (m_completed box'),
                m_incoming := om_erase (sm_id m) (m_incoming box')\<rparr> else box'),
      p_frames := asm_frames a\<rparr>" and ev: "ev = asm_events a"
    using h by simp_all
  have "is_completed m p'" if "asm_done a"
    using that box by (simp add: is_completed_def p' box'_def om_find_set inbox_ok_def)
  moreover have "has_parts m (insert k S) t1 p'" if "\<not> asm_done a" and "asm_entry a = e2"
    using that box e2 nc by (simp add: has_parts_def is_completed_def p' box'_def om_find_set inbox_ok_def)
  ultimately show ?thesis using out unfolding ev t1_def [symmetric] by blast
qed

lemma handle_data_completed:
  assumes "is_completed m p" and "h_message_id h = sm_id m"
    and "handle_data par now ms h b p = Some (p', ev)"
  shows "ev = [] \<and> is_completed m p'"
  using assms by (auto simp add: handle_data_def is_completed_def Let_def split: if_splits)

section \<open>A run\<close>

text \<open>Traffic: every datagram carrying the number of the message is one of its datagrams, the
  other datagrams are anything well-formed.\<close>

definition traffic :: "sent_msg \<Rightarrow> rx_packet list \<Rightarrow> bool" where
  "traffic m ps \<longleftrightarrow> (\<forall>(now, ms, h, b)\<in>set ps.
     if h_message_id h = sm_id m then \<exists>k. packet_of m k h b else h_flags h \<le> h_fragment_count h)"

definition arrived :: "sent_msg \<Rightarrow> rx_packet list \<Rightarrow> nat set" where
  "arrived m ps = {k. \<exists>(now, ms, h, b)\<in>set ps. packet_of m k h b}"

definition arrival_times :: "sent_msg \<Rightarrow> rx_packet list \<Rightarrow> time set" where
  "arrival_times m ps = {now. \<exists>ms h b. (now, ms, h, b) \<in> set ps \<and> h_message_id h = sm_id m}"

lemma packet_of_unique:
  "sendable limit m \<Longrightarrow> packet_of m k h b \<Longrightarrow> packet_of m j h b \<Longrightarrow> j = k"
  using packet_of_words(1) by metis

lemma run_completed:
  assumes "is_completed m p" and "sendable (rx_max_message_bytes par) m" and "traffic m ps"
    and "inbox_ok (p_inbox p)"
  shows "\<exists>p' evs. rx_run par ps p = Some (p', evs) \<and> events_of (sm_id m) evs = []"
  using assms
proof (induction ps arbitrary: p)
  case Nil
  then show ?case by (simp add: events_of_def)
next
  case (Cons x ps)
  obtain now ms h b where x: "x = (now, ms, h, b)" by (cases x)
  have fl: "h_flags h \<le> h_fragment_count h" and t: "traffic m ps"
    using Cons.prems packet_of_words(3) [OF Cons.prems(2)]
    by (auto simp add: traffic_def x split: if_splits)
  obtain p1 ev where h1: "handle_data par now ms h b p = Some (p1, ev)" "inbox_ok (p_inbox p1)"
    "h_message_id h \<noteq> sm_id m \<Longrightarrow> is_completed m p1"
    using handle_data_frame [OF Cons.prems(4) fl, of par now ms b] Cons.prems(1)
    by (fastforce simp add: is_completed_def)
  have "is_completed m p1" and "h_message_id h = sm_id m \<Longrightarrow> ev = []"
    using handle_data_completed [OF Cons.prems(1) _ h1(1)] h1(3) by blast+
  then show ?case
    using Cons.IH [OF _ Cons.prems(2) t h1(2)] h1(1) by (fastforce simp add: x)
qed

lemma run_open:
  assumes "has_parts m S t0 p" and "sendable (rx_max_message_bytes par) m" and "traffic m ps"
    and "inbox_ok (p_inbox p)" and "S \<noteq> {} \<Longrightarrow> \<not> recoverable m S"
    and "\<And>t. t \<in> T \<longleftrightarrow> t \<in> arrival_times m ps \<or> S \<noteq> {} \<and> t = t0"
  shows "\<exists>p' evs. rx_run par ps p = Some (p', evs) \<and>
    (events_of (sm_id m) evs = [Deliver (sm_payload m)] \<or>
     events_of (sm_id m) evs = [] \<and> (S \<union> arrived m ps \<noteq> {} \<longrightarrow> \<not> recoverable m (S \<union> arrived m ps)) \<or>
     events_of (sm_id m) evs = [Loss (sm_channel m)] \<and>
       (\<exists>t\<in>T. \<exists>u\<in>T. window_of par (p_conf p) (sm_channel m) \<le> t - u))"
  using assms
proof (induction ps arbitrary: p S t0 T)
  case Nil
  then show ?case by (simp add: events_of_def arrived_def)
next
  case (Cons x ps)
  obtain now ms h b where x: "x = (now, ms, h, b)" by (cases x)
  note s = Cons.prems(2)
  have fl: "h_flags h \<le> h_fragment_count h" and t: "traffic m ps"
    using Cons.prems packet_of_words(3) [OF s] by (auto simp add: traffic_def x split: if_splits)
  obtain p1 ev where h1: "handle_data par now ms h b p = Some (p1, ev)" "inbox_ok (p_inbox p1)"
    "p_conf p1 = p_conf p"
    "\<And>i. i \<noteq> h_message_id h \<Longrightarrow> om_find (m_incoming (p_inbox p1)) i = om_find (m_incoming (p_inbox p)) i"
    "\<And>i. i \<noteq> h_message_id h \<Longrightarrow> om_find (m_completed (p_inbox p1)) i = om_find (m_completed (p_inbox p)) i"
    using handle_data_frame [OF Cons.prems(4) fl, of par now ms b] by blast
  show ?case
  proof (cases "h_message_id h = sm_id m")
    case False
    then have "has_parts m S t0 p1"
      using Cons.prems(1) h1(4,5) [of "sm_id m"] by (auto simp add: has_parts_def is_completed_def)
    moreover have arr: "arrived m (x # ps) = arrived m ps"
      and "arrival_times m (x # ps) = arrival_times m ps"
      using False by (auto simp add: arrived_def arrival_times_def x packet_of_def)
    ultimately obtain p' evs where "rx_run par ps p1 = Some (p', evs)"
      "events_of (sm_id m) evs = [Deliver (sm_payload m)] \<or>
       events_of (sm_id m) evs = [] \<and> (S \<union> arrived m ps \<noteq> {} \<longrightarrow> \<not> recoverable m (S \<union> arrived m ps)) \<or>
       events_of (sm_id m) evs = [Loss (sm_channel m)] \<and>
         (\<exists>t\<in>T. \<exists>u\<in>T. window_of par (p_conf p1) (sm_channel m) \<le> t - u)"
      using Cons.IH [OF _ s t h1(2) Cons.prems(5), of t0 T] Cons.prems(6) by auto
    then show ?thesis
      using False by (simp add: x h1(1,3) arr [unfolded x])
  next
    case True
    then obtain k where pk: "packet_of m k h b" using Cons.prems(3) by (auto simp add: traffic_def x)
    define t1 where "t1 = (if S = {} then now else t0)"
    have "{j. packet_of m j h b} = {k}" using pk packet_of_unique [OF s pk] by blast
    moreover have "arrived m (x # ps) = {j. packet_of m j h b} \<union> arrived m ps"
      by (auto simp add: arrived_def x)
    ultimately have arr: "S \<union> arrived m (x # ps) = insert k S \<union> arrived m ps" by simp
    have times: "arrival_times m (x # ps) = insert now (arrival_times m ps)"
      using True by (auto simp add: arrival_times_def x)
    have T: "now \<in> T" "t1 \<in> T" using Cons.prems(6) by (auto simp add: times t1_def)
    consider "is_completed m p1" "ev = [Deliver (sm_payload m)]"
      | "has_parts m (insert k S) t1 p1" "ev = []" "\<not> recoverable m (insert k S)"
      | "is_completed m p1" "ev = [Loss (sm_channel m)]"
        "window_of par (p_conf p) (sm_channel m) \<le> now - t1"
      using handle_data_part [OF s pk Cons.prems(4,1) h1(1)] unfolding t1_def by blast
    then show ?thesis
    proof cases
      case 1
      then show ?thesis
        using run_completed [OF 1(1) s t h1(2)] h1(1) True by (auto simp add: x)
    next
      case 2
      define T' where "T' = insert t1 (arrival_times m ps)"
      have "T' \<subseteq> T" using T Cons.prems(6) by (auto simp add: T'_def times)
      moreover have "\<exists>p' evs. rx_run par ps p1 = Some (p', evs) \<and>
        (events_of (sm_id m) evs = [Deliver (sm_payload m)] \<or>
         events_of (sm_id m) evs = [] \<and> \<not> recoverable m (insert k S \<union> arrived m ps) \<or>
         events_of (sm_id m) evs = [Loss (sm_channel m)] \<and>
         (\<exists>t\<in>T'. \<exists>u\<in>T'. window_of par (p_conf p1) (sm_channel m) \<le> t - u))"
        using Cons.IH [of "insert k S" t1 p1 T'] 2 s t h1(2) by (simp add: T'_def) blast
      ultimately show ?thesis
        using h1(1,3) 2(2) unfolding arr by (fastforce simp add: x)
    next
      case 3
      then have "\<exists>t\<in>T. \<exists>u\<in>T. window_of par (p_conf p) (sm_channel m) \<le> t - u"
        using T by blast
      then show ?thesis
        using run_completed [OF 3(1) s t h1(2)] h1(1) True
        by (auto simp add: x 3(2))
    qed
  qed
qed

section \<open>An example run\<close>

text \<open>Three bytes on channel 3 as two parts and one parity; the second part is lost and another
  message's datagram comes in between.\<close>

definition ex_msg :: sent_msg where
  "ex_msg = \<lparr> sm_id = 7, sm_channel = 3, sm_parts = [[0, 0, 0, 3], [65, 66, 67]], sm_parity = 1,
     sm_width = 4, sm_payload = [65, 66, 67] \<rparr>"

definition ex_header :: "u32 \<Rightarrow> nat \<Rightarrow> packet_header" where
  "ex_header mid k = header0\<lparr> h_type := Data, h_flags := 2, h_sequence := of_nat k, h_message_id := mid,
     h_fragment_index := of_nat k, h_fragment_count := 3, h_payload_size := 4, h_reserved := 0x3004 \<rparr>"

definition ex_run :: "rx_packet list" where
  "ex_run = [(0, 0, ex_header 7 2, wire_part ex_msg 2), (1, 0, ex_header 9 0, [1, 2, 3, 4]),
     (2, 0, ex_header 7 0, wire_part ex_msg 0)]"

definition ex_params :: rx_params where
  "ex_params = \<lparr> rx_rtt_us = 0, rx_late_multiplier = 0, rx_late_buffer_ms = 0,
     rx_max_message_bytes = 65536, rx_report_interval = 0 \<rparr>"

lemma ex_sendable: "sendable (rx_max_message_bytes ex_params) ex_msg"
proof -
  have "le_bytes 4 (to_be32 (of_nat 3 :: u32)) = [0, 0, 0, 3]" by code_simp
  then show ?thesis
    by (auto simp add: sendable_def ex_msg_def ex_params_def sm_total_def less_Suc_eq)
qed

lemma ex_packet: "k = 0 \<or> k = 2 \<Longrightarrow> packet_of ex_msg k (ex_header 7 k) (wire_part ex_msg k)"
proof -
  have "channel_of 0x3004 = 3" and "(0x3004 :: u16) AND kRealSizeMask = 4" by code_simp+
  then show ?thesis if "k = 0 \<or> k = 2"
    using that by (auto simp add: packet_of_def ex_msg_def ex_header_def sm_total_def part_size_def)
qed

lemma ex_traffic: "traffic ex_msg ex_run"
proof -
  have "h_message_id (ex_header i k) = i" and "h_flags (ex_header i k) \<le> h_fragment_count (ex_header i k)"
    and "sm_id ex_msg = 7" for i k
    by (simp_all add: ex_header_def ex_msg_def)
  then show ?thesis
    using ex_packet [of 0] ex_packet [of 2] by (fastforce simp add: traffic_def ex_run_def)
qed

lemma ex_inbox: "inbox_ok (p_inbox peer0)" "has_parts ex_msg {} 0 peer0"
  by (simp_all add: inbox_ok_def has_parts_def is_completed_def peer0_def inbox0_def)

lemma ex_recoverable: "recoverable ex_msg (arrived ex_msg ex_run)"
proof -
  have arr: "0 \<in> arrived ex_msg ex_run" "2 \<in> arrived ex_msg ex_run"
    using ex_packet [of 0] ex_packet [of 2] by (fastforce simp add: arrived_def ex_run_def)+
  have "lost_parts ex_msg S = filter (\<lambda>i. i \<notin> S) [0, 1]" for S
    by (simp add: lost_parts_def ex_msg_def upt_rec)
  then have "lost_parts ex_msg (arrived ex_msg ex_run) \<in> {[], [1]}"
    using arr by simp
  moreover have "length (sm_parts ex_msg) = 2" "sm_parity ex_msg = 1" by (simp_all add: ex_msg_def)
  ultimately show ?thesis
    using arr by (auto simp add: recoverable_def numeral_2_eq_2)
qed

section \<open>Properties\<close>

text \<open>
  C3: what is delivered is what was sent, at most once.  Take a message the sender split, and
  any run of well-formed datagrams in which those carrying the message's number are its own,
  in any order, with any losses and duplicates, at any times, and mixed with other messages.
  The receiver handles the run without undefined behaviour, and the application sees of the
  message nothing, or its payload once, or one loss notification.
\<close>

theorem delivered_once_or_lost:
  assumes "sendable (rx_max_message_bytes par) m" and "traffic m ps" and "inbox_ok (p_inbox p)"
    and "has_parts m {} t0 p"
  shows "\<exists>p' evs. rx_run par ps p = Some (p', evs) \<and>
    events_of (sm_id m) evs \<in> {[], [Deliver (sm_payload m)], [Loss (sm_channel m)]}"
  using run_open [OF assms(4,1,2,3), of "arrival_times m ps"] by auto

theorem delivered_once_or_lost_witness:
  "\<exists>p' evs. rx_run ex_params ex_run peer0 = Some (p', evs) \<and>
    events_of 7 evs \<in> {[], [Deliver [65, 66, 67]], [Loss 3]}"
  using delivered_once_or_lost [OF ex_sendable ex_traffic ex_inbox] by (simp add: ex_msg_def)

text \<open>
  C2: enough datagrams in time deliver the message.  If all data fragments arrive, or as many
  leading parities as fragments are lost (of at most 255), and they arrive within the loss
  window of their channel, then in any such run the payload is delivered exactly once.
\<close>

theorem recoverable_delivered:
  assumes "sendable (rx_max_message_bytes par) m" and "traffic m ps" and "inbox_ok (p_inbox p)"
    and "has_parts m {} t0 p" and "recoverable m (arrived m ps)"
    and "\<And>t u. t \<in> arrival_times m ps \<Longrightarrow> u \<in> arrival_times m ps \<Longrightarrow>
      t - u < window_of par (p_conf p) (sm_channel m)"
  shows "\<exists>p' evs. rx_run par ps p = Some (p', evs) \<and> events_of (sm_id m) evs = [Deliver (sm_payload m)]"
proof -
  have "arrived m ps \<noteq> {}"
  proof
    assume "arrived m ps = {}"
    then have "lost_parts m {} = [] \<or> (\<forall>r<length (lost_parts m {}). False)"
      using assms(5) by (auto simp add: recoverable_def)
    moreover have "lost_parts m {} = [0..<length (sm_parts m)]"
      by (simp add: lost_parts_def)
    ultimately show False using assms(1) by (auto simp add: sendable_def)
  qed
  then show ?thesis
    using run_open [OF assms(4,1,2,3), of "arrival_times m ps"] assms(5,6)
    by (fastforce simp add: not_le [symmetric])
qed

theorem recoverable_delivered_witness:
  "\<exists>p' evs. rx_run ex_params ex_run peer0 = Some (p', evs) \<and> events_of 7 evs = [Deliver [65, 66, 67]]"
proof -
  have w: "milliseconds 250 \<le> window_of ex_params (p_conf peer0) (sm_channel ex_msg)"
    by (simp add: window_of_def loss_wait_of_def peer0_def ex_msg_def)
  have "arrival_times ex_msg ex_run \<subseteq> {0, 1, 2}"
    by (auto simp add: arrival_times_def ex_run_def)
  then have "t - u < window_of ex_params (p_conf peer0) (sm_channel ex_msg)"
    if "t \<in> arrival_times ex_msg ex_run" and "u \<in> arrival_times ex_msg ex_run" for t u
  proof -
    have "t \<in> {0, 1, 2}" and "u \<in> {0, 1, 2}" using that \<open>_ \<subseteq> {0, 1, 2}\<close> by blast+
    then have "t - u \<le> 2" by auto
    then show ?thesis using w by (simp add: milliseconds_def)
  qed
  from recoverable_delivered [OF ex_sendable ex_traffic ex_inbox ex_recoverable this]
  show ?thesis by (simp add: ex_msg_def)
qed

end
