(* ===== verification/Sha256.thy ===== *)
theory Sha256
  imports Wire
begin

text \<open>
  SHA-256, HMAC and HKDF of \<open>crypto.cpp\<close>: the streaming context with its 64-byte buffer, and
  the proof that feeding it in any pieces computes the digest of the padded message.
\<close>

section \<open>The compression function\<close>

text \<open>The constants, row by row.\<close>

definition kSha256K :: "u32 list" where
  "kSha256K =
     concat
      [[0x428a2f98, 0x71374491, 0xb5c0fbcf, 0xe9b5dba5, 0x3956c25b, 0x59f111f1],
       [0x923f82a4, 0xab1c5ed5, 0xd807aa98, 0x12835b01, 0x243185be, 0x550c7dc3],
       [0x72be5d74, 0x80deb1fe, 0x9bdc06a7, 0xc19bf174, 0xe49b69c1, 0xefbe4786],
       [0x0fc19dc6, 0x240ca1cc, 0x2de92c6f, 0x4a7484aa, 0x5cb0a9dc, 0x76f988da],
       [0x983e5152, 0xa831c66d, 0xb00327c8, 0xbf597fc7, 0xc6e00bf3, 0xd5a79147],
       [0x06ca6351, 0x14292967, 0x27b70a85, 0x2e1b2138, 0x4d2c6dfc, 0x53380d13],
       [0x650a7354, 0x766a0abb, 0x81c2c92e, 0x92722c85, 0xa2bfe8a1, 0xa81a664b],
       [0xc24b8b70, 0xc76c51a3, 0xd192e819, 0xd6990624, 0xf40e3585, 0x106aa070],
       [0x19a4c116, 0x1e376c08, 0x2748774c, 0x34b0bcb5, 0x391c0cb3, 0x4ed8aa4a],
       [0x5b9cca4f, 0x682e6ff3, 0x748f82ee, 0x78a5636f, 0x84c87814, 0x8cc70208],
       [0x90befffa, 0xa4506ceb, 0xbef9a3f7, 0xc67178f2]]"

definition rotr32 :: "u32 \<Rightarrow> nat \<Rightarrow> u32" where
  "rotr32 x n = drop_bit n x OR push_bit (32 - n) x"

text \<open>A big-endian 32-bit word of four bytes.\<close>

definition be32_of :: "bytes \<Rightarrow> nat \<Rightarrow> u32" where
  "be32_of b i = push_bit 24 (ucast (b ! i)) OR push_bit 16 (ucast (b ! (i + 1)))
     OR push_bit 8 (ucast (b ! (i + 2))) OR ucast (b ! (i + 3))"

definition be32_bytes :: "u32 \<Rightarrow> bytes" where
  "be32_bytes w = [ucast (drop_bit 24 w AND 0xFF), ucast (drop_bit 16 w AND 0xFF),
     ucast (drop_bit 8 w AND 0xFF), ucast (w AND 0xFF)]"

text \<open>The loop over \<open>i = 16..63\<close> that extends the message schedule.\<close>

definition schedule_step :: "u32 list \<Rightarrow> nat \<Rightarrow> u32 list" where
  "schedule_step w i =
    (let s0 = rotr32 (w ! (i - 15)) 7 XOR rotr32 (w ! (i - 15)) 18 XOR drop_bit 3 (w ! (i - 15));
         s1 = rotr32 (w ! (i - 2)) 17 XOR rotr32 (w ! (i - 2)) 19 XOR drop_bit 10 (w ! (i - 2))
     in w @ [w ! (i - 16) + s0 + w ! (i - 7) + s1])"

definition schedule :: "bytes \<Rightarrow> u32 list" where
  "schedule block = foldl schedule_step (map (\<lambda>i. be32_of block (4 * i)) [0..<16]) [16..<64]"

text \<open>The working variables \<open>a .. hh\<close>.\<close>

type_synonym sha_regs = "u32 \<times> u32 \<times> u32 \<times> u32 \<times> u32 \<times> u32 \<times> u32 \<times> u32"

definition sha_round :: "u32 list \<Rightarrow> sha_regs \<Rightarrow> nat \<Rightarrow> sha_regs" where
  "sha_round w r i =
    (let (a, b, c, d, e, f, g, hh) = r;
         s1 = rotr32 e 6 XOR rotr32 e 11 XOR rotr32 e 25;
         ch = (e AND f) XOR (NOT e AND g);
         t1 = hh + s1 + ch + kSha256K ! i + w ! i;
         s0 = rotr32 a 2 XOR rotr32 a 13 XOR rotr32 a 22;
         maj = (a AND b) XOR (a AND c) XOR (b AND c);
         t2 = s0 + maj
     in (t1 + t2, a, b, c, d + t1, e, f, g))"

definition compress :: "sha_regs \<Rightarrow> bytes \<Rightarrow> sha_regs" where
  "compress h block =
    (let (a, b, c, d, e, f, g, hh) = foldl (sha_round (schedule block)) h [0..<64];
         (h0, h1, h2, h3, h4, h5, h6, h7) = h
     in (h0 + a, h1 + b, h2 + c, h3 + d, h4 + e, h5 + f, h6 + g, h7 + hh))"

section \<open>The streaming context\<close>

record sha_ctx =
  sha_h :: sha_regs
  sha_buf :: bytes
  sha_buf_len :: nat
  sha_total_len :: u64

definition sha_ctx0 :: sha_ctx where
  "sha_ctx0 = \<lparr> sha_h = (0x6a09e667, 0xbb67ae85, 0x3c6ef372, 0xa54ff53a,
                        0x510e527f, 0x9b05688c, 0x1f83d9ab, 0x5be0cd19),
     sha_buf = replicate 64 0, sha_buf_len = 0, sha_total_len = 0 \<rparr>"

text \<open>The copy loop of \<open>update\<close>.  With a full buffer the source would loop for ever; that state
  is never reached (\<open>sha_ok\<close> below) and left alone here.\<close>

function sha_absorb :: "bytes \<Rightarrow> sha_ctx \<Rightarrow> sha_ctx" where
  "sha_absorb data s =
    (if data = [] \<or> 64 \<le> sha_buf_len s then s
     else let n = min (64 - sha_buf_len s) (length data);
              s = s\<lparr>sha_buf := put_at (sha_buf s) (sha_buf_len s) (take n data),
                    sha_buf_len := sha_buf_len s + n\<rparr>;
              s = (if sha_buf_len s = 64
                   then s\<lparr>sha_h := compress (sha_h s) (sha_buf s), sha_buf_len := 0\<rparr> else s)
          in sha_absorb (drop n data) s)"
  by auto
termination by (relation "measure (\<lambda>(data, s). length data)") auto

declare sha_absorb.simps [simp del]

definition sha_update :: "bytes \<Rightarrow> sha_ctx \<Rightarrow> sha_ctx" where
  "sha_update data s = sha_absorb data (s\<lparr>sha_total_len := sha_total_len s + of_nat (length data)\<rparr>)"

text \<open>One byte at a time: what \<open>sha_absorb\<close> amounts to.\<close>

definition sha_byte :: "sha_ctx \<Rightarrow> u8 \<Rightarrow> sha_ctx" where
  "sha_byte s b =
    (let s = s\<lparr>sha_buf := (sha_buf s)[sha_buf_len s := b], sha_buf_len := sha_buf_len s + 1\<rparr>
     in if sha_buf_len s = 64
        then s\<lparr>sha_h := compress (sha_h s) (sha_buf s), sha_buf_len := 0\<rparr> else s)"

definition sha_ok :: "sha_ctx \<Rightarrow> bool" where
  "sha_ok s \<longleftrightarrow> length (sha_buf s) = 64 \<and> sha_buf_len s < 64"

lemma sha_byte_ok: "sha_ok s \<Longrightarrow> sha_ok (sha_byte s b)"
  by (auto simp add: sha_ok_def sha_byte_def Let_def)

lemma sha_bytes_ok: "sha_ok s \<Longrightarrow> sha_ok (foldl sha_byte s bs)"
  by (induction bs arbitrary: s) (simp_all add: sha_byte_ok)

lemma sha_byte_total: "sha_total_len (foldl sha_byte s bs) = sha_total_len s"
  by (induction bs arbitrary: s) (simp_all add: sha_byte_def Let_def)

lemma put_at_Cons:
  "off < length buf \<Longrightarrow> put_at buf off (b # bs) = put_at (buf[off := b]) (Suc off) bs"
  by (simp add: put_at_def take_Suc_conv_app_nth)

lemma put_at_Nil: "put_at buf off [] = buf"
  by (simp add: put_at_def)

text \<open>Bytes that fit without filling the buffer, and bytes that fill it.\<close>

lemma sha_bytes_partial:
  "sha_ok s \<Longrightarrow> sha_buf_len s + length bs < 64 \<Longrightarrow>
     foldl sha_byte s bs = s\<lparr>sha_buf := put_at (sha_buf s) (sha_buf_len s) bs,
                             sha_buf_len := sha_buf_len s + length bs\<rparr>"
proof (induction bs arbitrary: s)
  case (Cons b bs)
  then have "sha_byte s b = s\<lparr>sha_buf := (sha_buf s)[sha_buf_len s := b], sha_buf_len := Suc (sha_buf_len s)\<rparr>"
    by (simp add: sha_byte_def Let_def)
  then show ?case
    using Cons.IH [of "sha_byte s b"] Cons.prems sha_byte_ok [of s b]
    by (simp add: put_at_Cons sha_ok_def)
qed (simp add: put_at_Nil)

lemma sha_bytes_full:
  assumes "sha_ok s" and "sha_buf_len s + length bs = 64"
  shows "foldl sha_byte s bs =
    s\<lparr>sha_h := compress (sha_h s) (put_at (sha_buf s) (sha_buf_len s) bs),
      sha_buf := put_at (sha_buf s) (sha_buf_len s) bs, sha_buf_len := 0\<rparr>"
proof -
  obtain cs b where bs: "bs = cs @ [b]"
    using assms by (cases bs rule: rev_cases) (auto simp add: sha_ok_def)
  have "(put_at (sha_buf s) (sha_buf_len s) cs)[63 := b] = put_at (sha_buf s) (sha_buf_len s) bs"
  proof -
    define pre where "pre = take (sha_buf_len s) (sha_buf s) @ cs"
    have "length pre = 63" using assms by (simp add: pre_def bs sha_ok_def)
    moreover have "put_at (sha_buf s) (sha_buf_len s) cs = pre @ drop 63 (sha_buf s)"
      and "put_at (sha_buf s) (sha_buf_len s) bs = pre @ [b]"
      using assms by (simp_all add: put_at_def pre_def bs sha_ok_def)
    moreover have "drop 63 (sha_buf s) = [sha_buf s ! 63]"
      using assms by (intro nth_equalityI) (auto simp add: sha_ok_def)
    ultimately show ?thesis by (simp add: list_update_append)
  qed
  moreover have "sha_buf_len s + length cs = 63" using assms(2) by (simp add: bs)
  ultimately show ?thesis
    using sha_bytes_partial [OF assms(1), of cs] by (simp add: bs sha_byte_def Let_def)
qed

lemma sha_absorb_bytes: "sha_ok s \<Longrightarrow> sha_absorb data s = foldl sha_byte s data"
proof (induction data s rule: sha_absorb.induct)
  case (1 data s)
  show ?case
  proof (cases "data = []")
    case False
    define n where "n = min (64 - sha_buf_len s) (length data)"
    define s1 where "s1 = s\<lparr>sha_buf := put_at (sha_buf s) (sha_buf_len s) (take n data),
                            sha_buf_len := sha_buf_len s + n\<rparr>"
    define s2 where "s2 = (if sha_buf_len s1 = 64
      then s1\<lparr>sha_h := compress (sha_h s1) (sha_buf s1), sha_buf_len := 0\<rparr> else s1)"
    have bl: "\<not> 64 \<le> sha_buf_len s" using 1(2) by (simp add: sha_ok_def)
    have eq: "s2 = foldl sha_byte s (take n data)"
    proof (cases "sha_buf_len s + n = 64")
      case True
      then show ?thesis
        using sha_bytes_full [OF 1(2), of "take n data"]
        by (simp add: s2_def s1_def n_def)
    next
      case False
      moreover have "sha_buf_len s + n \<le> 64" using bl by (simp add: n_def)
      ultimately show ?thesis
        using sha_bytes_partial [OF 1(2), of "take n data"] by (simp add: s2_def s1_def n_def)
    qed
    then have "sha_ok s2" using sha_bytes_ok [OF 1(2)] by simp
    then have "sha_absorb (drop n data) s2 = foldl sha_byte s2 (drop n data)"
      using 1(1) [OF _ n_def s1_def s2_def] False bl by simp
    moreover have "sha_absorb data s = sha_absorb (drop n data) s2"
      using False bl by (subst sha_absorb.simps) (simp only: Let_def n_def s1_def s2_def if_False simp_thms)
    ultimately show ?thesis
      unfolding eq by (simp add: append_take_drop_id flip: foldl_append)
  qed (simp add: sha_absorb.simps)
qed

section \<open>Finishing a digest\<close>

text \<open>The number of zeros up to the next position 56.\<close>

definition zero_gap :: "nat \<Rightarrow> nat" where
  "zero_gap r = (if r \<le> 56 then 56 - r else 120 - r)"

lemma zero_gap_step: "r < 64 \<Longrightarrow> r \<noteq> 56 \<Longrightarrow> zero_gap r = Suc (zero_gap ((r + 1) mod 64))"
  by (cases "r = 63") (auto simp add: zero_gap_def)

lemma sha_update_one:
  "sha_buf_len s < 64 \<Longrightarrow> sha_buf_len (sha_update [b] s) = (sha_buf_len s + 1) mod 64"
  by (auto simp add: sha_update_def sha_absorb.simps Let_def)

text \<open>The loop \<open>while (buf_len != 56) update(&zero, 1)\<close>.\<close>

function sha_pad_zeros :: "sha_ctx \<Rightarrow> sha_ctx" where
  "sha_pad_zeros s =
    (if sha_buf_len s = 56 \<or> 64 \<le> sha_buf_len s then s else sha_pad_zeros (sha_update [0] s))"
  by auto
termination
proof (relation "measure (\<lambda>s. zero_gap (sha_buf_len s))")
  fix s :: sha_ctx assume "\<not> (sha_buf_len s = 56 \<or> 64 \<le> sha_buf_len s)"
  then show "(sha_update [0] s, s) \<in> measure (\<lambda>s. zero_gap (sha_buf_len s))"
    using zero_gap_step [of "sha_buf_len s"] sha_update_one [of s 0] by simp
qed simp

declare sha_pad_zeros.simps [simp del]

definition be64_bytes :: "u64 \<Rightarrow> bytes" where
  "be64_bytes v = map (\<lambda>i. ucast (drop_bit (56 - i * 8) v AND 0xFF)) [0..<8]"

definition digest_bytes :: "sha_regs \<Rightarrow> bytes" where
  "digest_bytes h = (let (a, b, c, d, e, f, g, hh) = h
     in concat (map be32_bytes [a, b, c, d, e, f, g, hh]))"

definition sha_finish :: "sha_ctx \<Rightarrow> bytes" where
  "sha_finish s =
    (let bit_len = sha_total_len s * 8;
         s = sha_update [0x80] s;
         s = sha_pad_zeros s;
         s = sha_update (be64_bytes bit_len) s
     in digest_bytes (sha_h s))"

definition sha256 :: "bytes \<Rightarrow> bytes" where
  "sha256 data = sha_finish (sha_update data sha_ctx0)"

definition hmac_sha256 :: "bytes \<Rightarrow> bytes \<Rightarrow> bytes" where
  "hmac_sha256 key msg =
    (let k0 = put_at (replicate 64 0) 0 (if length key > 64 then sha256 key else key);
         ipad = map (\<lambda>b. b XOR 0x36) k0;
         opad = map (\<lambda>b. b XOR 0x5C) k0;
         inner_out = sha_finish (sha_update msg (sha_update ipad sha_ctx0))
     in sha_finish (sha_update inner_out (sha_update opad sha_ctx0)))"

text \<open>An absent salt is 32 zero bytes; one output block.\<close>

definition hkdf_sha256 :: "bytes \<Rightarrow> bytes option \<Rightarrow> bytes \<Rightarrow> bytes" where
  "hkdf_sha256 ikm salt info =
    (let salt = (case salt of None \<Rightarrow> replicate 32 0 | Some s \<Rightarrow> if s = [] then replicate 32 0 else s);
         prk = hmac_sha256 salt ikm;
         msg = info @ [1]
     in hmac_sha256 prk msg)"

section \<open>The digest of a whole message\<close>

text \<open>FIPS 180-4: the message is padded to a multiple of 64 bytes and compressed block by
  block.\<close>

definition sha_blocks :: "bytes \<Rightarrow> bytes list" where
  "sha_blocks ds = map (\<lambda>i. take 64 (drop (64 * i) ds)) [0..<length ds div 64]"

definition sha_padded :: "bytes \<Rightarrow> bytes" where
  "sha_padded m = m @ [0x80] @ replicate ((119 - length m mod 64) mod 64) 0
     @ be64_bytes (of_nat (length m) * 8)"

definition sha256_spec :: "bytes \<Rightarrow> bytes" where
  "sha256_spec m = digest_bytes (foldl compress (sha_h sha_ctx0) (sha_blocks (sha_padded m)))"

definition hmac_spec :: "bytes \<Rightarrow> bytes \<Rightarrow> bytes" where
  "hmac_spec key msg =
    (let k = (if length key > 64 then sha256_spec key else key); k = k @ replicate (64 - length k) 0
     in sha256_spec (map (\<lambda>b. b XOR 0x5C) k @ sha256_spec (map (\<lambda>b. b XOR 0x36) k @ msg)))"

section \<open>Streaming computes the digest\<close>

text \<open>The context after the bytes \<open>ds\<close>.\<close>

definition sha_at :: "bytes \<Rightarrow> sha_ctx \<Rightarrow> bool" where
  "sha_at ds s \<longleftrightarrow> sha_ok s \<and> sha_h s = foldl compress (sha_h sha_ctx0) (sha_blocks ds) \<and>
     sha_buf_len s = length ds mod 64 \<and>
     take (length ds mod 64) (sha_buf s) = drop (64 * (length ds div 64)) ds \<and>
     sha_total_len s = of_nat (length ds)"

lemma sha_blocks_snoc:
  "sha_blocks (ds @ [b]) =
    (if (length ds + 1) mod 64 = 0 then sha_blocks ds @ [drop (64 * (length ds div 64)) ds @ [b]]
     else sha_blocks ds)"
proof -
  define q where "q = length ds div 64"
  have q: "64 * q \<le> length ds" "length ds < 64 * q + 64" by (simp_all add: q_def)
  have old: "take 64 (drop (64 * i) (ds @ [b])) = take 64 (drop (64 * i) ds)" if "i < q" for i
  proof -
    have "64 * i + 64 \<le> length ds" using that q by linarith
    then show ?thesis by simp
  qed
  show ?thesis
  proof (cases "(length ds + 1) mod 64 = 0")
    case True
    have len: "length ds + 1 = 64 * q + 64"
    proof (rule ccontr)
      assume "length ds + 1 \<noteq> 64 * q + 64"
      then have "(length ds + 1) div 64 = q" using q by (intro div_nat_eqI) simp_all
      then show False using True q mult_div_mod_eq [of 64 "length ds + 1"] by simp
    qed
    then have "length (ds @ [b]) div 64 = Suc q" by simp
    moreover have "take 64 (drop (64 * q) (ds @ [b])) = drop (64 * q) ds @ [b]"
      using len by simp
    moreover have "map (\<lambda>i. take 64 (drop (64 * i) (ds @ [b]))) [0..<q] = sha_blocks ds"
      using old by (simp add: sha_blocks_def q_def)
    ultimately show ?thesis using True by (simp add: sha_blocks_def flip: q_def)
  next
    case False
    have "length ds + 1 \<noteq> (q + 1) * 64" using False by auto
    then have "length ds + 1 < 64 * q + 64" using q by simp
    then have "length (ds @ [b]) div 64 = q" using q by (intro div_nat_eqI) simp_all
    then have "sha_blocks (ds @ [b]) = map (\<lambda>i. take 64 (drop (64 * i) (ds @ [b]))) [0..<q]"
      by (simp add: sha_blocks_def)
    also have "\<dots> = sha_blocks ds" unfolding sha_blocks_def q_def [symmetric] using old by simp
    finally show ?thesis using False by simp
  qed
qed

lemma sha_at_byte:
  assumes "sha_at ds s"
  shows "sha_at (ds @ [b]) ((sha_byte s b)\<lparr>sha_total_len := sha_total_len s + 1\<rparr>)"
proof -
  define q where "q = length ds div 64"
  define r where "r = length ds mod 64"
  have len: "length ds = 64 * q + r" "r < 64" by (simp_all add: q_def r_def)
  note a = assms [unfolded sha_at_def, folded q_def r_def]
  have buf: "take (Suc r) ((sha_buf s)[r := b]) = drop (64 * q) ds @ [b]"
    using a len by (simp add: take_Suc_conv_app_nth sha_ok_def)
  show ?thesis
  proof (cases "r = 63")
    case True
    have "(length ds + 1) mod 64 = 0" and "(length ds + 1) div 64 = q + 1"
      using len True by simp_all
    moreover have "(sha_buf s)[r := b] = drop (64 * q) ds @ [b]"
      using buf a True by (simp add: sha_ok_def)
    ultimately show ?thesis
      using a True len by (simp add: sha_at_def sha_byte_def Let_def sha_blocks_snoc sha_ok_def flip: q_def)
  next
    case False
    have "(length ds + 1) mod 64 = r + 1" and "(length ds + 1) div 64 = q"
      using len False by (simp_all add: mod_Suc div_Suc)
    then show ?thesis
      using a False len buf
      by (simp add: sha_at_def sha_byte_def Let_def sha_blocks_snoc sha_ok_def flip: q_def)
  qed
qed

lemma sha_byte_update:
  "sha_byte (s\<lparr>sha_total_len := n\<rparr>) x = (sha_byte s x)\<lparr>sha_total_len := n\<rparr>"
  by (simp add: sha_byte_def Let_def)

lemma sha_at_update:
  assumes "sha_at ds s"
  shows "sha_at (ds @ xs) (sha_update xs s)"
proof -
  have "sha_at (ds @ xs) ((foldl sha_byte s xs)\<lparr>sha_total_len := sha_total_len s + of_nat (length xs)\<rparr>)"
  proof (induction xs rule: rev_induct)
    case (snoc x xs)
    then show ?case using sha_at_byte [OF snoc, of x] by (simp add: sha_byte_update ac_simps)
  qed (use assms in simp)
  moreover have "sha_ok s" using assms by (simp add: sha_at_def)
  moreover have "foldl sha_byte (s\<lparr>sha_total_len := n\<rparr>) xs = (foldl sha_byte s xs)\<lparr>sha_total_len := n\<rparr>" for n
    by (induction xs arbitrary: s) (simp_all add: sha_byte_update)
  ultimately show ?thesis
    by (simp add: sha_update_def sha_absorb_bytes sha_ok_def)
qed

lemma sha_at_start: "sha_at [] sha_ctx0"
  by (simp add: sha_at_def sha_ok_def sha_ctx0_def sha_blocks_def)

lemma sha_at_pad:
  "sha_at ds s \<Longrightarrow> sha_at (ds @ replicate (zero_gap (length ds mod 64)) 0) (sha_pad_zeros s)"
proof (induction s arbitrary: ds rule: sha_pad_zeros.induct)
  case (1 s)
  define r where "r = length ds mod 64"
  have bl: "sha_buf_len s = r" "r < 64" using 1(2) by (auto simp add: sha_at_def r_def)
  show ?case
  proof (cases "r = 56")
    case True
    then show ?thesis
      using 1(2) bl by (simp add: sha_pad_zeros.simps [of s] zero_gap_def flip: r_def)
  next
    case False
    have r': "length (ds @ [0]) mod 64 = (r + 1) mod 64" by (simp add: r_def mod_simps)
    have "sha_at ((ds @ [0]) @ replicate (zero_gap ((r + 1) mod 64)) 0) (sha_pad_zeros (sha_update [0] s))"
      using 1(1) [OF _ sha_at_update [OF 1(2), of "[0]"]] bl False unfolding r' by simp
    moreover have "(ds @ [0]) @ replicate n 0 = ds @ replicate (Suc n) 0" for n by simp
    ultimately show ?thesis
      using bl False zero_gap_step [of r] by (simp add: sha_pad_zeros.simps [of s] flip: r_def)
  qed
qed

lemma sha_finish_at:
  assumes "sha_at m s"
  shows "sha_finish s = sha256_spec m"
proof -
  define z where "z = (119 - length m mod 64) mod 64"
  have z: "zero_gap (length (m @ [0x80]) mod 64) = z"
  proof -
    define r where "r = length m mod 64"
    have "r < 64" by (simp add: r_def)
    moreover have "length (m @ [0x80]) mod 64 = (if r = 63 then 0 else Suc r)"
      by (simp add: mod_Suc r_def)
    moreover have "(119 - r) mod 64 = (if r \<le> 55 then 55 - r else 119 - r)" if "r < 64" for r :: nat
    proof (cases "r \<le> 55")
      case True
      then have "119 - r = (55 - r) + 64" by simp
      then show ?thesis using True by (simp only: mod_add_self2) simp
    qed (use that in simp)
    ultimately show ?thesis
      unfolding z_def zero_gap_def r_def [symmetric] by (cases "r = 63"; cases "r \<le> 55"; simp)
  qed
  have "sha_at ((m @ [0x80]) @ replicate z 0) (sha_pad_zeros (sha_update [0x80] s))"
    using sha_at_pad [OF sha_at_update [OF assms, of "[0x80]"]] unfolding z .
  from sha_at_update [OF this] have
    "sha_at (sha_padded m) (sha_update (be64_bytes (of_nat (length m) * 8)) (sha_pad_zeros (sha_update [0x80] s)))"
    by (simp add: sha_padded_def z_def)
  moreover have "sha_total_len s = of_nat (length m)" using assms by (simp add: sha_at_def)
  ultimately show ?thesis
    by (simp add: sha_finish_def Let_def sha256_spec_def sha_at_def)
qed

lemma sha256_is_spec: "sha256 m = sha256_spec m"
  unfolding sha256_def using sha_finish_at [OF sha_at_update [OF sha_at_start]] by simp

lemma sha_two_updates: "sha_finish (sha_update ys (sha_update xs sha_ctx0)) = sha256_spec (xs @ ys)"
  using sha_finish_at [OF sha_at_update [OF sha_at_update [OF sha_at_start]]] by simp

lemma length_sha256 [simp]: "length (sha256_spec m) = 32"
  by (simp add: sha256_spec_def digest_bytes_def be32_bytes_def split: prod.split)

section \<open>Properties\<close>

text \<open>
  C14: the digest does not depend on how the message is fed.  Whatever pieces \<open>update\<close> is called
  with, \<open>finish\<close> returns the FIPS 180-4 digest of their concatenation: the message padded with
  \<open>0x80\<close>, zeros and its 64-bit length, compressed block by block.
\<close>

theorem sha256_streaming:
  "sha_finish (foldl (\<lambda>s piece. sha_update piece s) sha_ctx0 pieces) = sha256_spec (concat pieces)"
proof -
  have "sha_at (ds @ concat pieces) (foldl (\<lambda>s piece. sha_update piece s) s pieces)"
    if "sha_at ds s" for ds s
    using that
  proof (induction pieces arbitrary: ds s)
    case (Cons p ps)
    from Cons.IH [OF sha_at_update [OF Cons.prems, of p]] show ?case by simp
  qed simp
  from sha_finish_at [OF this [OF sha_at_start]] show ?thesis by simp
qed

text \<open>
  HMAC and HKDF.  \<open>hmac_sha256\<close> is the RFC 2104 construction over the digest, and
  \<open>hkdf_sha256\<close> is extract followed by one expand block, with a missing or empty salt replaced
  by 32 zero bytes.
\<close>

theorem hkdf_is_rfc5869:
  "hkdf_sha256 ikm salt info =
     hmac_spec (hmac_spec (if salt = None \<or> salt = Some [] then replicate 32 0 else the salt) ikm)
       (info @ [1])"
proof -
  have k0: "put_at (replicate 64 0) 0 k = k @ replicate (64 - length k) 0" for k
    by (simp add: put_at_def)
  have h: "hmac_sha256 key msg = hmac_spec key msg" for key msg
    unfolding hmac_sha256_def hmac_spec_def Let_def sha_two_updates sha256_is_spec k0 by simp
  show ?thesis by (auto simp add: hkdf_sha256_def h Let_def split: option.split)
qed

end
