(* ===== verification/Aes_Gcm.thy ===== *)
theory Aes_Gcm
  imports Wire
begin

text \<open>
  AES-256 and GCM of \<open>crypto.cpp\<close>: field multiplication by shift and add, the S-box computed
  from inverses, key expansion, the block cipher, GHASH on 16-byte arrays, counter mode and the
  authenticated encryption built from them.
\<close>

section \<open>AES-256\<close>

function aes_mul_loop :: "u8 \<Rightarrow> u8 \<Rightarrow> u8 \<Rightarrow> u8" where
  "aes_mul_loop a b r =
    (if b = 0 then r
     else aes_mul_loop (push_bit 1 a XOR (if a AND 0x80 \<noteq> 0 then 0x1B else 0)) (drop_bit 1 b)
            (if b AND 1 \<noteq> 0 then r XOR a else r))"
  by auto
termination
proof (relation "measure (\<lambda>(a, b, r). unat b)", goal_cases)
  case (2 a b r)
  then have "unat b \<noteq> 0" by (simp add: unat_eq_0)
  then show ?case by (simp add: drop_bit_eq_div unat_div)
qed simp

declare aes_mul_loop.simps [simp del]

definition aes_mul :: "u8 \<Rightarrow> u8 \<Rightarrow> u8" where
  "aes_mul a b = aes_mul_loop a b 0"

text \<open>\<open>a^254\<close> by squaring.\<close>

function aes_pow_loop :: "nat \<Rightarrow> u8 \<Rightarrow> u8 \<Rightarrow> u8" where
  "aes_pow_loop e base result =
    (if e = 0 then result
     else aes_pow_loop (e div 2) (aes_mul base base) (if odd e then aes_mul result base else result))"
  by auto
termination by (relation "measure (\<lambda>(e, base, result). e)") auto

declare aes_pow_loop.simps [simp del]

definition aes_inv :: "u8 \<Rightarrow> u8" where
  "aes_inv a = (if a = 0 then 0 else aes_pow_loop 254 a 1)"

definition aes_sbox_entry :: "u8 \<Rightarrow> u8" where
  "aes_sbox_entry x =
    (let y = aes_inv x; rotl = (\<lambda>n. push_bit n y OR drop_bit (8 - n) y)
     in 0x63 XOR y XOR rotl 1 XOR rotl 2 XOR rotl 3 XOR rotl 4)"

definition aes_sbox :: "u8 list" where
  "aes_sbox = map (\<lambda>x. aes_sbox_entry (of_nat x)) [0..<256]"

text \<open>\<open>sbox[(t >> n) & 0xFF]\<close>.\<close>

definition sbox_at :: "u32 \<Rightarrow> nat \<Rightarrow> u32" where
  "sbox_at t n = ucast (aes_sbox ! unat (drop_bit n t AND 0xFF))"

definition key_word :: "bytes \<Rightarrow> nat \<Rightarrow> u32" where
  "key_word key i = push_bit 24 (ucast (key ! (4 * i))) OR push_bit 16 (ucast (key ! (4 * i + 1)))
     OR push_bit 8 (ucast (key ! (4 * i + 2))) OR ucast (key ! (4 * i + 3))"

text \<open>One step of the key expansion; the state is the words so far and \<open>rcon\<close>.\<close>

definition expand_step :: "u32 list \<times> u32 \<Rightarrow> nat \<Rightarrow> u32 list \<times> u32" where
  "expand_step s i =
    (let (w, rcon) = s; t = w ! (i - 1) in
     if i mod 8 = 0
     then let t = push_bit 24 (sbox_at t 16) OR push_bit 16 (sbox_at t 8) OR push_bit 8 (sbox_at t 0)
                  OR sbox_at t 24
          in (w @ [w ! (i - 8) XOR (t XOR rcon)],
              push_bit 24 (ucast (aes_mul (ucast (drop_bit 24 rcon)) 2)))
     else if i mod 8 = 4
     then let t = push_bit 24 (sbox_at t 24) OR push_bit 16 (sbox_at t 16) OR push_bit 8 (sbox_at t 8)
                  OR sbox_at t 0
          in (w @ [w ! (i - 8) XOR t], rcon)
     else (w @ [w ! (i - 8) XOR t], rcon))"

definition word_bytes :: "u32 \<Rightarrow> bytes" where
  "word_bytes w = [ucast (drop_bit 24 w AND 0xFF), ucast (drop_bit 16 w AND 0xFF),
     ucast (drop_bit 8 w AND 0xFF), ucast (w AND 0xFF)]"

text \<open>The 15 round keys of 16 bytes.\<close>

definition aes_expand :: "bytes \<Rightarrow> bytes list" where
  "aes_expand key =
    (let (w, rcon) = foldl expand_step (map (key_word key) [0..<8], 0x01000000) [8..<60]
     in map (\<lambda>r. concat (map (\<lambda>c. word_bytes (w ! (r * 4 + c))) [0..<4])) [0..<15])"

definition add_key :: "bytes \<Rightarrow> bytes \<Rightarrow> bytes" where
  "add_key s k = map (\<lambda>i. s ! i XOR k ! i) [0..<16]"

text \<open>SubBytes and ShiftRows on the column-major state.\<close>

definition sub_shift :: "bytes \<Rightarrow> bytes" where
  "sub_shift s = map (\<lambda>j. aes_sbox ! unat (s ! j)) [0, 5, 10, 15, 4, 9, 14, 3, 8, 13, 2, 7, 12, 1, 6, 11]"

definition mix_column :: "bytes \<Rightarrow> nat \<Rightarrow> bytes" where
  "mix_column s c =
    (let a0 = s ! (4 * c); a1 = s ! (4 * c + 1); a2 = s ! (4 * c + 2); a3 = s ! (4 * c + 3)
     in [aes_mul a0 2 XOR aes_mul a1 3 XOR a2 XOR a3,
         a0 XOR aes_mul a1 2 XOR aes_mul a2 3 XOR a3,
         a0 XOR a1 XOR aes_mul a2 2 XOR aes_mul a3 3,
         aes_mul a0 3 XOR a1 XOR a2 XOR aes_mul a3 2])"

definition mix_columns :: "bytes \<Rightarrow> bytes" where
  "mix_columns s = concat (map (mix_column s) [0..<4])"

definition aes_round :: "bytes list \<Rightarrow> bytes \<Rightarrow> nat \<Rightarrow> bytes" where
  "aes_round rk s round = add_key (mix_columns (sub_shift s)) (rk ! round)"

definition encrypt_block :: "bytes list \<Rightarrow> bytes \<Rightarrow> bytes" where
  "encrypt_block rk inp =
    (let s = foldl (aes_round rk) (add_key inp (rk ! 0)) [1..<14]
     in add_key (sub_shift s) (rk ! 14))"

section \<open>GCM\<close>

definition xor_block :: "bytes \<Rightarrow> bytes \<Rightarrow> bytes" where
  "xor_block x y = map (\<lambda>i. x ! i XOR y ! i) [0..<16]"

text \<open>One step of the shift loop of \<open>ghash_mul\<close>: a right shift of the 16-byte array with the
  reduction constant.\<close>

definition ghash_shift :: "bytes \<Rightarrow> bytes" where
  "ghash_shift v =
    (let w = map (\<lambda>j. if j = 0 then drop_bit 1 (v ! 0)
                      else drop_bit 1 (v ! j) OR push_bit 7 (v ! (j - 1))) [0..<16]
     in if v ! 15 AND 1 \<noteq> 0 then w[0 := w ! 0 XOR 0xE1] else w)"

definition ghash_step :: "bytes \<Rightarrow> bytes \<times> bytes \<Rightarrow> nat \<Rightarrow> bytes \<times> bytes" where
  "ghash_step x s i =
    (let (z, v) = s
     in (if drop_bit (7 - i mod 8) (x ! (i div 8)) AND 1 \<noteq> 0 then xor_block z v else z,
         ghash_shift v))"

definition ghash_mul :: "bytes \<Rightarrow> bytes \<Rightarrow> bytes" where
  "ghash_mul x y = fst (foldl (ghash_step x) (replicate 16 0, y) [0..<128])"

function ghash_update :: "bytes \<Rightarrow> bytes \<Rightarrow> bytes \<Rightarrow> bytes" where
  "ghash_update x h data =
    (if data = [] then x
     else let n = min (length data) 16;
              block = put_at (replicate 16 0) 0 (take n data)
          in ghash_update (ghash_mul (xor_block x block) h) h (drop n data))"
  by auto
termination by (relation "measure (\<lambda>(x, h, data). length data)") auto

declare ghash_update.simps [simp del]

definition be64_at :: "u64 \<Rightarrow> bytes" where
  "be64_at v = map (\<lambda>i. ucast (drop_bit (56 - i * 8) v AND 0xFF)) [0..<8]"

definition gcm_compute_tag :: "bytes list \<Rightarrow> bytes \<Rightarrow> bytes \<Rightarrow> bytes \<Rightarrow> bytes" where
  "gcm_compute_tag rk j0 aad ct =
    (let h = encrypt_block rk (replicate 16 0);
         x = ghash_update (replicate 16 0) h aad;
         x = ghash_update x h ct;
         len_block = be64_at (of_nat (length aad) * 8) @ be64_at (of_nat (length ct) * 8);
         x = ghash_update x h len_block
     in xor_block x (encrypt_block rk j0))"

text \<open>\<open>for (i = 15; i >= 12; --i) if (++ctr[i] != 0) break;\<close>\<close>

definition ctr_inc :: "bytes \<Rightarrow> bytes" where
  "ctr_inc ctr =
    (let c = ctr[15 := ctr ! 15 + 1] in
     if c ! 15 \<noteq> 0 then c
     else let c = c[14 := c ! 14 + 1] in
     if c ! 14 \<noteq> 0 then c
     else let c = c[13 := c ! 13 + 1] in
     if c ! 13 \<noteq> 0 then c
     else c[12 := c ! 12 + 1])"

function gcm_crypt :: "bytes list \<Rightarrow> bytes \<Rightarrow> bytes \<Rightarrow> bytes" where
  "gcm_crypt rk ctr inp =
    (if inp = [] then []
     else let ctr = ctr_inc ctr;
              ks = encrypt_block rk ctr;
              n = min (length inp) 16
          in map2 (XOR) (take n inp) (take n ks) @ gcm_crypt rk ctr (drop n inp))"
  by auto
termination by (relation "measure (\<lambda>(rk, ctr, inp). length inp)") auto

declare gcm_crypt.simps [simp del]

definition kGcmNonceSize :: nat where "kGcmNonceSize = 12"
definition kGcmTagSize :: nat where "kGcmTagSize = 16"

definition gcm_j0 :: "bytes \<Rightarrow> bytes" where
  "gcm_j0 nonce = (put_at (replicate 16 0) 0 (take kGcmNonceSize nonce))[15 := 1]"

definition aes256_gcm_encrypt :: "bytes \<Rightarrow> bytes \<Rightarrow> bytes \<Rightarrow> bytes \<Rightarrow> bytes \<times> bytes" where
  "aes256_gcm_encrypt key nonce aad plaintext =
    (let rk = aes_expand key; j0 = gcm_j0 nonce; ct = gcm_crypt rk j0 plaintext
     in (ct, gcm_compute_tag rk j0 aad ct))"

text \<open>\<open>None\<close> is the result \<open>false\<close>; the comparison accumulates the differences of all 16
  bytes.\<close>

definition aes256_gcm_decrypt :: "bytes \<Rightarrow> bytes \<Rightarrow> bytes \<Rightarrow> bytes \<Rightarrow> bytes \<Rightarrow> bytes option" where
  "aes256_gcm_decrypt key nonce aad ciphertext tag =
    (let rk = aes_expand key; j0 = gcm_j0 nonce;
         expect = gcm_compute_tag rk j0 aad ciphertext;
         diff = foldl (\<lambda>d i. d OR (expect ! i XOR tag ! i)) 0 [0..<16]
     in if diff \<noteq> 0 then None else Some (gcm_crypt rk j0 ciphertext))"

section \<open>Lengths\<close>

lemma length_add_key [simp]: "length (add_key s k) = 16"
  by (simp add: add_key_def)

lemma length_encrypt_block [simp]: "length (encrypt_block rk b) = 16"
  by (simp add: encrypt_block_def Let_def)

lemma length_xor_block [simp]: "length (xor_block x y) = 16"
  by (simp add: xor_block_def)

lemma length_gcm_tag [simp]: "length (gcm_compute_tag rk j0 aad ct) = 16"
  by (simp add: gcm_compute_tag_def Let_def)

lemma length_gcm_crypt [simp]: "length (gcm_crypt rk ctr inp) = length inp"
  by (induction rk ctr inp rule: gcm_crypt.induct)
    (subst gcm_crypt.simps, auto simp add: Let_def)

section \<open>Counter mode is an involution\<close>

text \<open>The keystream: block \<open>i\<close> encrypts the counter after \<open>i + 1\<close> increments.\<close>

definition keystream :: "bytes list \<Rightarrow> bytes \<Rightarrow> nat \<Rightarrow> bytes" where
  "keystream rk ctr n = concat (map (\<lambda>i. encrypt_block rk ((ctr_inc ^^ Suc i) ctr)) [0..<n])"

lemma length_keystream [simp]: "length (keystream rk ctr n) = 16 * n"
  by (simp add: keystream_def length_concat o_def sum_list_triv)

lemma keystream_Suc: "keystream rk ctr (Suc n) = encrypt_block rk (ctr_inc ctr) @ keystream rk (ctr_inc ctr) n"
proof -
  have "[0..<Suc n] = 0 # map Suc [0..<n]" by (simp add: upt_conv_Cons map_Suc_upt del: upt_Suc)
  then show ?thesis by (simp add: keystream_def o_def funpow_swap1 del: upt_Suc)
qed

lemma zip_prefix: "length xs \<le> length ys \<Longrightarrow> zip xs (ys @ zs) = zip xs (take (length xs) ys)"
  by (rule nth_equalityI) (auto simp add: nth_append)

lemma gcm_crypt_xor:
  "length inp \<le> 16 * n \<Longrightarrow> gcm_crypt rk ctr inp = map2 (XOR) inp (keystream rk ctr n)"
proof (induction rk ctr inp arbitrary: n rule: gcm_crypt.induct)
  case (1 rk ctr inp)
  show ?case
  proof (cases "inp = []")
    case False
    then obtain m where n: "n = Suc m" using 1(2) by (cases n) auto
    define k where "k = min (length inp) 16"
    have ih: "gcm_crypt rk (ctr_inc ctr) (drop k inp) = map2 (XOR) (drop k inp) (keystream rk (ctr_inc ctr) m)"
      using 1(1) [OF False refl refl k_def, of m] 1(2) by (simp add: k_def n)
    have "map2 (XOR) inp (keystream rk ctr n) =
        map2 (XOR) (take k inp @ drop k inp) (encrypt_block rk (ctr_inc ctr) @ keystream rk (ctr_inc ctr) m)"
      by (simp add: n keystream_Suc)
    then have "map2 (XOR) inp (keystream rk ctr n) =
        map2 (XOR) inp (encrypt_block rk (ctr_inc ctr) @ keystream rk (ctr_inc ctr) m)"
      by simp
    also have "\<dots> = map2 (XOR) (take k inp) (take k (encrypt_block rk (ctr_inc ctr))) @
        map2 (XOR) (drop k inp) (keystream rk (ctr_inc ctr) m)"
    proof (cases "length inp < 16")
      case True
      then have "k = length inp" by (simp add: k_def)
      then show ?thesis using True by (simp add: zip_prefix)
    next
      case False
      then have "k = 16" by (simp add: k_def)
      then show ?thesis by (simp add: zip_append2 del: append_take_drop_id)
    qed
    finally show ?thesis
      using False ih by (subst gcm_crypt.simps) (simp add: Let_def flip: k_def)
  qed (simp add: gcm_crypt.simps)
qed

lemma map2_xor_twice:
  "length xs \<le> length ks \<Longrightarrow> map2 (XOR) (map2 (XOR) xs ks) ks = (xs :: bytes)"
  by (rule nth_equalityI) (auto simp add: xor.assoc)

lemma gcm_crypt_twice: "gcm_crypt rk ctr (gcm_crypt rk ctr inp) = inp"
proof -
  define n where "n = length inp div 16 + 1"
  have n: "length inp \<le> 16 * n" by (simp add: n_def)
  show ?thesis
    using n by (simp add: gcm_crypt_xor [of _ n] map2_xor_twice)
qed

section \<open>The comparison of tags\<close>

lemma fold_or_0:
  "foldl (\<lambda>d i. d OR f i) (d :: u8) xs = 0 \<longleftrightarrow> d = 0 \<and> (\<forall>i\<in>set xs. f i = 0)"
  by (induction xs arbitrary: d) (auto simp add: or_eq_0_iff)

lemma xor_eq_0: "a XOR b = 0 \<longleftrightarrow> a = (b :: 'a::len word)"
  by (metis xor.right_neutral xor_self_eq xor.assoc xor.left_neutral)

lemma tag_compare:
  assumes "length a = 16" and "length b = 16"
  shows "foldl (\<lambda>d i. d OR (a ! i XOR b ! i)) (0 :: u8) [0..<16] \<noteq> 0 \<longleftrightarrow> a \<noteq> b"
  using assms by (auto simp add: fold_or_0 xor_eq_0 list_eq_iff_nth_eq)

section \<open>GHASH is multiplication of polynomials\<close>

text \<open>The 16 bytes as a 128-bit word, first byte on top; the coefficient of \<open>x^i\<close> is bit
  \<open>127 - i\<close>.\<close>

definition be128 :: "bytes \<Rightarrow> 128 word" where
  "be128 v = of_le_bytes (rev v)"

definition mulx :: "128 word \<Rightarrow> 128 word" where
  "mulx v = drop_bit 1 v XOR (if bit v 0 then push_bit 120 0xE1 else 0)"

fun xsum :: "(nat \<Rightarrow> 'a::len word) \<Rightarrow> nat \<Rightarrow> 'a word" where
  "xsum f 0 = 0"
| "xsum f (Suc n) = xsum f n XOR f n"

definition gf128_mul :: "128 word \<Rightarrow> 128 word \<Rightarrow> 128 word" where
  "gf128_mul x y = xsum (\<lambda>i. if bit x (127 - i) then (mulx ^^ i) y else 0) 128"

lemma bit_be128:
  assumes "length v = 16"
  shows "bit (be128 v) k \<longleftrightarrow> k < 128 \<and> bit (v ! (15 - k div 8)) (k mod 8)"
proof -
  have "rev v ! (k div 8) = v ! (15 - k div 8)" if "k < 128"
  proof -
    have "k div 8 < 16" using that by (simp add: less_mult_imp_div_less)
    then show ?thesis using assms by (simp add: rev_nth)
  qed
  then show ?thesis using assms by (auto simp add: be128_def bit_of_le_bytes)
qed

lemma byte_bit_split:
  fixes k :: nat
  assumes "k < 128"
  obtains q r where "k = 8 * q + r" and "r < 8" and "q < 16" and "k div 8 = q" and "k mod 8 = r"
proof
  show "k = 8 * (k div 8) + k mod 8" and "k mod 8 < 8" by simp_all
  show "k div 8 < 16" using assms by (simp add: less_mult_imp_div_less)
qed simp_all

lemma be128_xor: "be128 (xor_block x y) = be128 x XOR be128 y"
  if "length x = 16" and "length y = 16"
proof (rule bit_word_eqI)
  fix k assume "k < LENGTH(128)"
  then show "bit (be128 (xor_block x y)) k = bit (be128 x XOR be128 y) k"
    using that by (auto simp add: bit_be128 bit_simps xor_block_def)
qed

lemma length_ghash_shift [simp]: "length (ghash_shift v) = 16"
  by (simp add: ghash_shift_def Let_def)

lemma lsb_test: "(w :: u8) AND 1 \<noteq> 0 \<longleftrightarrow> bit w 0"
  by (simp add: and_one_eq odd_iff_mod_2_eq_one bit_0)

lemma shift_byte_bit:
  assumes "j < 16" and "r < 8"
  shows "bit (ghash_shift v ! j) r \<longleftrightarrow>
    ((if r < 7 then bit (v ! j) (Suc r) else j \<noteq> 0 \<and> bit (v ! (j - 1)) 0)
     \<noteq> (j = 0 \<and> bit (v ! 15) 0 \<and> bit (0xE1 :: u8) r))"
  using assms
  by (auto simp add: ghash_shift_def Let_def lsb_test nth_list_update bit_simps
      dest: bit_imp_le_length)

lemma be128_shift:
  assumes "length v = 16"
  shows "be128 (ghash_shift v) = mulx (be128 v)"
proof (rule bit_word_eqI)
  fix k assume "k < LENGTH(128)"
  then have "k < 128" by simp
  then obtain q r where k: "k = 8 * q + r" "r < 8" "q < 16" "k div 8 = q" "k mod 8 = r"
    by (rule byte_bit_split)
  have lsb: "bit (be128 v) 0 \<longleftrightarrow> bit (v ! 15) 0" using assms by (simp add: bit_be128)
  have e1: "bit (push_bit 120 0xE1 :: 128 word) k \<longleftrightarrow> q = 15 \<and> bit (0xE1 :: u8) r"
  proof -
    have "bit (push_bit 120 (ucast b) :: 128 word) k \<longleftrightarrow> 120 \<le> k \<and> bit b (k - 120)" for b :: u8
      using \<open>k < 128\<close> by (auto simp add: bit_simps)
    from this [of "0xE1"]
    have "bit (push_bit 120 0xE1 :: 128 word) k \<longleftrightarrow> 120 \<le> k \<and> bit (0xE1 :: u8) (k - 120)"
      by simp
    moreover have "120 \<le> k \<longleftrightarrow> q = 15" using k(1-3) by auto
    ultimately show ?thesis using k(1) by auto
  qed
  have up: "bit (drop_bit 1 (be128 v)) k \<longleftrightarrow>
      (if r < 7 then bit (v ! (15 - q)) (Suc r) else q < 15 \<and> bit (v ! (14 - q)) 0)"
  proof (cases "r < 7")
    case True
    then have "Suc k div 8 = q" "Suc k mod 8 = Suc r" "Suc k < 128" using k(1-3) by auto
    then show ?thesis using True assms by (simp add: bit_simps bit_be128)
  next
    case False
    then have "Suc k = 8 * Suc q" using k by simp
    then have "Suc k div 8 = Suc q" "Suc k mod 8 = 0" "Suc k < 128 \<longleftrightarrow> q < 15" by auto
    then show ?thesis using False assms by (auto simp add: bit_simps bit_be128)
  qed
  have "bit (mulx (be128 v)) k \<longleftrightarrow>
      (bit (drop_bit 1 (be128 v)) k \<noteq> (bit (v ! 15) 0 \<and> bit (push_bit 120 0xE1 :: 128 word) k))"
    by (auto simp add: mulx_def lsb bit_simps)
  also have "\<dots> \<longleftrightarrow> bit (ghash_shift v ! (15 - q)) r"
    using k(2,3) unfolding up e1 by (subst shift_byte_bit) auto
  finally show "bit (be128 (ghash_shift v)) k = bit (mulx (be128 v)) k"
    using \<open>k < 128\<close> by (simp add: bit_be128 k(4,5))
qed

lemma ghash_step_pair:
  "ghash_step x (z, v) i = (if drop_bit (7 - i mod 8) (x ! (i div 8)) AND 1 \<noteq> 0 then xor_block z v else z,
     ghash_shift v)"
  by (simp add: ghash_step_def)

lemma ghash_fold:
  assumes x: "length x = 16" and y: "length y = 16" and n: "n \<le> 128"
  shows "let s = foldl (ghash_step x) (replicate 16 0, y) [0..<n] in
    length (fst s) = 16 \<and> length (snd s) = 16 \<and> be128 (snd s) = (mulx ^^ n) (be128 y) \<and>
    be128 (fst s) = xsum (\<lambda>i. if bit (be128 x) (127 - i) then (mulx ^^ i) (be128 y) else 0) n"
  using n
proof (induction n)
  case 0
  have "be128 (replicate 16 0) = 0" by (rule bit_word_eqI) (auto simp add: bit_be128)
  then show ?case using y by simp
next
  case (Suc n)
  obtain z v where s: "foldl (ghash_step x) (replicate 16 0, y) [0..<n] = (z, v)" by fastforce
  have ih: "length z = 16" "length v = 16" "be128 v = (mulx ^^ n) (be128 y)"
    "be128 z = xsum (\<lambda>i. if bit (be128 x) (127 - i) then (mulx ^^ i) (be128 y) else 0) n"
    using Suc by (simp_all add: s)
  have "n < 128" using Suc.prems by simp
  then obtain q r where k: "n = 8 * q + r" "r < 8" "q < 16" "n div 8 = q" "n mod 8 = r"
    by (rule byte_bit_split)
  have "127 - n = 8 * (15 - q) + (7 - r)" using k(1-3) by simp
  then have "(127 - n) div 8 = 15 - q" "(127 - n) mod 8 = 7 - r" by auto
  moreover have "127 - n < 128" "15 - (15 - q) = q" using k(3) by simp_all
  ultimately have "bit (be128 x) (127 - n) \<longleftrightarrow> drop_bit (7 - n mod 8) (x ! (n div 8)) AND 1 \<noteq> 0"
    using x unfolding lsb_test k(4,5) by (simp only: bit_be128) (simp add: bit_simps)
  then show ?case
    using ih by (simp add: s ghash_step_pair Let_def be128_xor be128_shift)
qed

lemma be128_ghash_mul:
  "length x = 16 \<Longrightarrow> length y = 16 \<Longrightarrow> be128 (ghash_mul x y) = gf128_mul (be128 x) (be128 y)"
  using ghash_fold [of x y 128] by (simp add: ghash_mul_def gf128_mul_def Let_def)

text \<open>Multiplication by \<open>x\<close> is linear, the powers of \<open>x\<close> are the single bits, and so the
  product is symmetric.\<close>

lemma xsum_bit: "bit (xsum f n) k \<longleftrightarrow> odd (card {i. i < n \<and> bit (f i) k})"
proof (induction n)
  case (Suc n)
  show ?case
  proof (cases "bit (f n) k")
    case True
    then have "{i. i < Suc n \<and> bit (f i) k} = insert n {i. i < n \<and> bit (f i) k}" by auto
    then show ?thesis using Suc True by (simp add: bit_simps)
  next
    case False
    then have "{i. i < Suc n \<and> bit (f i) k} = {i. i < n \<and> bit (f i) k}" by (auto simp add: less_Suc_eq)
    then show ?thesis using Suc False by (simp add: bit_simps)
  qed
qed simp

lemma xsum_cong: "(\<And>i. i < n \<Longrightarrow> f i = g i) \<Longrightarrow> xsum f n = xsum g n"
  by (induction n) auto

lemma xsum_zero [simp]: "xsum (\<lambda>i. 0) n = 0"
  by (induction n) auto

lemma xsum_xor: "xsum (\<lambda>i. f i XOR g i) n = xsum f n XOR xsum g n"
  by (induction n) (simp_all add: xor.assoc xor.left_commute)

lemma xsum_swap: "xsum (\<lambda>i. xsum (f i) m) n = xsum (\<lambda>j. xsum (\<lambda>i. f i j) n) m"
  by (induction n) (simp_all add: xsum_xor)

lemma mulx_xor: "mulx (a XOR b) = mulx a XOR mulx b"
  by (rule bit_word_eqI) (auto simp add: mulx_def bit_xor_iff bit_drop_bit_eq)

lemma mulx_0: "mulx 0 = 0"
  by (simp add: mulx_def)

lemma mulx_xsum: "(mulx ^^ k) (xsum f n) = xsum (\<lambda>i. (mulx ^^ k) (f i)) n"
proof -
  have pow: "(mulx ^^ k) (a XOR b) = (mulx ^^ k) a XOR (mulx ^^ k) b" for a b
    by (induction k) (simp_all add: mulx_xor)
  have "(mulx ^^ k) 0 = 0" by (induction k) (simp_all add: mulx_0)
  then show ?thesis by (induction n) (simp_all add: pow)
qed

definition gf128_one :: "128 word" where
  "gf128_one = push_bit 127 1"

lemma mulx_pow_one: "j \<le> 127 \<Longrightarrow> (mulx ^^ j) gf128_one = push_bit (127 - j) 1"
proof (induction j)
  case (Suc j)
  have ih: "(mulx ^^ j) gf128_one = push_bit (127 - j) 1" using Suc by simp
  have "\<not> bit (push_bit (127 - j) 1 :: 128 word) 0"
    using Suc.prems by (simp add: bit_exp_iff)
  then have "mulx (push_bit (127 - j) 1) = drop_bit 1 (push_bit (127 - j) 1)"
    by (simp add: mulx_def)
  also have "\<dots> = push_bit (127 - Suc j) 1"
  proof (rule bit_word_eqI)
    fix k assume "k < LENGTH(128)"
    then show "bit (drop_bit 1 (push_bit (127 - j) 1) :: 128 word) k = bit (push_bit (127 - Suc j) 1 :: 128 word) k"
      using Suc.prems by (auto simp add: bit_drop_bit_eq bit_exp_iff)
  qed
  finally show ?case using ih by simp
qed (simp add: gf128_one_def)

lemma gf128_expand: "y = xsum (\<lambda>j. if bit y (127 - j) then (mulx ^^ j) gf128_one else 0) 128"
proof (rule bit_word_eqI)
  fix k assume "k < LENGTH(128)"
  then have k: "k < 128" by simp
  have b: "bit (if bit y (127 - j) then (mulx ^^ j) gf128_one else 0) k \<longleftrightarrow> bit y k \<and> j = 127 - k"
    if "j < 128" for j
    using that k by (auto simp add: mulx_pow_one bit_exp_iff)
  have "{j. j < 128 \<and> bit (if bit y (127 - j) then (mulx ^^ j) gf128_one else 0) k} =
      {j. j < 128 \<and> bit y k \<and> j = 127 - k}"
    using b by blast
  also have "\<dots> = (if bit y k then {127 - k} else {})" by auto
  finally have "{j. j < 128 \<and> bit (if bit y (127 - j) then (mulx ^^ j) gf128_one else 0) k} =
      (if bit y k then {127 - k} else {})" .
  then show "bit y k = bit (xsum (\<lambda>j. if bit y (127 - j) then (mulx ^^ j) gf128_one else 0) 128) k"
    unfolding xsum_bit by simp
qed

lemma gf128_mul_double:
  "gf128_mul x y = xsum (\<lambda>i. xsum (\<lambda>j. if bit x (127 - i) \<and> bit y (127 - j)
     then (mulx ^^ (i + j)) gf128_one else 0) 128) 128"
  unfolding gf128_mul_def
proof (rule xsum_cong)
  fix i
  have "(mulx ^^ i) y = (mulx ^^ i) (xsum (\<lambda>j. if bit y (127 - j) then (mulx ^^ j) gf128_one else 0) 128)"
    using gf128_expand [of y] by (rule arg_cong)
  also have "\<dots> = xsum (\<lambda>j. (mulx ^^ i) (if bit y (127 - j) then (mulx ^^ j) gf128_one else 0)) 128"
    by (rule mulx_xsum)
  also have "\<dots> = xsum (\<lambda>j. if bit y (127 - j) then (mulx ^^ (i + j)) gf128_one else 0) 128"
  proof (rule xsum_cong)
    fix j
    have "(mulx ^^ i) 0 = 0" by (induction i) (simp_all add: mulx_0)
    then show "(mulx ^^ i) (if bit y (127 - j) then (mulx ^^ j) gf128_one else 0) =
        (if bit y (127 - j) then (mulx ^^ (i + j)) gf128_one else 0)"
      by (simp add: funpow_add)
  qed
  finally show "(if bit x (127 - i) then (mulx ^^ i) y else 0) =
    xsum (\<lambda>j. if bit x (127 - i) \<and> bit y (127 - j) then (mulx ^^ (i + j)) gf128_one else 0) 128"
    by simp
qed

lemma gf128_mul_commute: "gf128_mul x y = gf128_mul y x"
  unfolding gf128_mul_double by (subst xsum_swap) (simp only: add.commute conj_commute)

section \<open>Properties\<close>

text \<open>
  C13: GHASH multiplies in the field of GCM.  On 16-byte blocks read as polynomials with the
  first bit as constant coefficient, the shift-and-add loop of \<open>ghash_mul\<close> is the product
  modulo \<open>x^128 + x^7 + x^2 + x + 1\<close>: the sum of \<open>x^i\<close> times the second factor over the
  coefficients of the first, which is symmetric.
\<close>

theorem ghash_mul_is_product:
  assumes "length x = 16" and "length y = 16"
  shows "be128 (ghash_mul x y) = gf128_mul (be128 x) (be128 y) \<and>
    be128 (ghash_mul x y) = be128 (ghash_mul y x)"
  using assms by (simp add: be128_ghash_mul gf128_mul_commute)

theorem ghash_mul_is_product_witness:
  "be128 (ghash_mul (replicate 16 3) (replicate 16 5)) = gf128_mul (be128 (replicate 16 3)) (be128 (replicate 16 5))"
  using ghash_mul_is_product [of "replicate 16 3" "replicate 16 5"] by simp

lemma gcm_decrypt_iff:
  assumes "length tag = 16"
  shows "aes256_gcm_decrypt key nonce aad ct tag = Some pt \<longleftrightarrow>
    aes256_gcm_encrypt key nonce aad pt = (ct, tag)"
  unfolding aes256_gcm_decrypt_def aes256_gcm_encrypt_def Let_def tag_compare [OF length_gcm_tag assms]
  by (auto simp add: gcm_crypt_twice)

text \<open>
  C7: decryption accepts exactly what encryption produces.  For a 16-byte tag,
  \<open>aes256_gcm_decrypt\<close> returns a plaintext exactly when \<open>aes256_gcm_encrypt\<close> under the same
  key, nonce and associated data maps it to that ciphertext and tag; in particular every
  encrypted payload decrypts to itself and a changed tag is refused.
\<close>

theorem gcm_accepts_exactly:
  assumes "length tag = 16"
  shows "aes256_gcm_decrypt key nonce aad ct tag = Some pt \<longleftrightarrow>
    aes256_gcm_encrypt key nonce aad pt = (ct, tag)"
  using assms by (rule gcm_decrypt_iff)

theorem gcm_accepts_exactly_witness:
  "\<exists>ct tag. aes256_gcm_decrypt (replicate 32 7) (replicate 12 1) [9] ct tag = Some [1, 2, 3] \<and>
    aes256_gcm_encrypt (replicate 32 7) (replicate 12 1) [9] [1, 2, 3] = (ct, tag)"
proof -
  obtain ct tag where e: "aes256_gcm_encrypt (replicate 32 7) (replicate 12 1) [9] [1, 2, 3] = (ct, tag)"
    by fastforce
  then have "length tag = 16" by (auto simp add: aes256_gcm_encrypt_def Let_def)
  from gcm_accepts_exactly [OF this] e show ?thesis by blast
qed

end
