(* ===== verification/Curve25519.thy ===== *)
theory Curve25519
  imports Wire
begin

text \<open>
  X25519 of \<open>crypto.cpp\<close>: the field of \<open>2^255 - 19\<close> in five 51-bit limbs with 128-bit products,
  and the Montgomery ladder with conditional swaps.
\<close>

section \<open>Field elements\<close>

type_synonym u128 = "128 word"

text \<open>\<open>std::array<std::uint64_t, 5>\<close>.\<close>

datatype fe = Fe u64 u64 u64 u64 u64

definition kMask51 :: u64 where
  "kMask51 = push_bit 51 1 - 1"

definition load_le64 :: "bytes \<Rightarrow> nat \<Rightarrow> u64" where
  "load_le64 b off = foldl (\<lambda>v i. v OR push_bit (i * 8) (ucast (b ! (off + i)))) 0 [0..<8]"

definition fe_frombytes :: "bytes \<Rightarrow> fe" where
  "fe_frombytes s =
    Fe (load_le64 s 0 AND kMask51)
       (drop_bit 3 (load_le64 s 6) AND kMask51)
       (drop_bit 6 (load_le64 s 12) AND kMask51)
       (drop_bit 1 (load_le64 s 19) AND kMask51)
       (drop_bit 12 (load_le64 s 24) AND kMask51)"

text \<open>One of the three carry passes of \<open>fe_tobytes\<close>.\<close>

definition carry_pass :: "fe \<Rightarrow> fe" where
  "carry_pass h =
    (case h of Fe h0 h1 h2 h3 h4 \<Rightarrow>
      let c = drop_bit 51 h0; h0 = h0 AND kMask51; h1 = h1 + c;
          c = drop_bit 51 h1; h1 = h1 AND kMask51; h2 = h2 + c;
          c = drop_bit 51 h2; h2 = h2 AND kMask51; h3 = h3 + c;
          c = drop_bit 51 h3; h3 = h3 AND kMask51; h4 = h4 + c;
          c = drop_bit 51 h4; h4 = h4 AND kMask51; h0 = h0 + 19 * c
      in Fe h0 h1 h2 h3 h4)"

text \<open>One limb of the trial subtraction: the difference and the borrow it leaves.\<close>

definition sub_limb :: "u64 \<Rightarrow> u64 \<Rightarrow> u64 \<Rightarrow> u64 \<times> u64" where
  "sub_limb h p borrow =
    (let t = h - p - borrow in (t AND kMask51, if sint t < 0 then 1 else 0))"

definition sub_p :: "fe \<Rightarrow> fe \<times> u64" where
  "sub_p h =
    (case h of Fe h0 h1 h2 h3 h4 \<Rightarrow>
      let (m0, b) = sub_limb h0 (kMask51 - 18) 0;
          (m1, b) = sub_limb h1 kMask51 b;
          (m2, b) = sub_limb h2 kMask51 b;
          (m3, b) = sub_limb h3 kMask51 b;
          (m4, b) = sub_limb h4 kMask51 b
      in (Fe m0 m1 m2 m3 m4, b))"

definition select_limb :: "u64 \<Rightarrow> u64 \<Rightarrow> u64 \<Rightarrow> u64" where
  "select_limb keep h m = (keep AND h) OR (NOT keep AND m)"

definition reduce_p :: "fe \<Rightarrow> fe" where
  "reduce_p h =
    (let (m, borrow) = sub_p h; keep = - borrow
     in case h of Fe h0 h1 h2 h3 h4 \<Rightarrow> case m of Fe m0 m1 m2 m3 m4 \<Rightarrow>
       Fe (select_limb keep h0 m0) (select_limb keep h1 m1) (select_limb keep h2 m2)
          (select_limb keep h3 m3) (select_limb keep h4 m4))"

text \<open>Packing of 51-bit limbs into 32 bytes.\<close>

definition pack_limbs :: "fe \<Rightarrow> bytes" where
  "pack_limbs h =
    (case h of Fe o0 o1 o2 o3 o4 \<Rightarrow>
      [ucast o0, ucast (drop_bit 8 o0), ucast (drop_bit 16 o0), ucast (drop_bit 24 o0),
       ucast (drop_bit 32 o0), ucast (drop_bit 40 o0), ucast (drop_bit 48 o0 OR push_bit 3 o1),
       ucast (drop_bit 5 o1), ucast (drop_bit 13 o1), ucast (drop_bit 21 o1),
       ucast (drop_bit 29 o1), ucast (drop_bit 37 o1), ucast (drop_bit 45 o1 OR push_bit 6 o2),
       ucast (drop_bit 2 o2), ucast (drop_bit 10 o2), ucast (drop_bit 18 o2),
       ucast (drop_bit 26 o2), ucast (drop_bit 34 o2), ucast (drop_bit 42 o2),
       ucast (drop_bit 50 o2 OR push_bit 1 o3),
       ucast (drop_bit 7 o3), ucast (drop_bit 15 o3), ucast (drop_bit 23 o3),
       ucast (drop_bit 31 o3), ucast (drop_bit 39 o3), ucast (drop_bit 47 o3 OR push_bit 4 o4),
       ucast (drop_bit 4 o4), ucast (drop_bit 12 o4), ucast (drop_bit 20 o4),
       ucast (drop_bit 28 o4), ucast (drop_bit 36 o4), ucast (drop_bit 44 o4)])"

definition fe_tobytes :: "fe \<Rightarrow> bytes" where
  "fe_tobytes h = pack_limbs (reduce_p ((carry_pass ^^ 3) h))"

definition fe_add :: "fe \<Rightarrow> fe \<Rightarrow> fe" where
  "fe_add f g =
    (case f of Fe f0 f1 f2 f3 f4 \<Rightarrow> case g of Fe g0 g1 g2 g3 g4 \<Rightarrow>
      Fe (f0 + g0) (f1 + g1) (f2 + g2) (f3 + g3) (f4 + g4))"

text \<open>\<open>2p\<close> is added before the subtraction.\<close>

definition fe_sub :: "fe \<Rightarrow> fe \<Rightarrow> fe" where
  "fe_sub f g =
    (case f of Fe f0 f1 f2 f3 f4 \<Rightarrow> case g of Fe g0 g1 g2 g3 g4 \<Rightarrow>
      Fe (f0 + 0xFFFFFFFFFFFDA - g0) (f1 + 0xFFFFFFFFFFFFE - g1) (f2 + 0xFFFFFFFFFFFFE - g2)
         (f3 + 0xFFFFFFFFFFFFE - g3) (f4 + 0xFFFFFFFFFFFFE - g4))"

text \<open>The carry chain shared by the two multiplications: 128-bit columns in, limbs out.\<close>

definition carry128 :: "u128 \<Rightarrow> u128 \<Rightarrow> u128 \<Rightarrow> u128 \<Rightarrow> u128 \<Rightarrow> fe" where
  "carry128 r0 r1 r2 r3 r4 =
    (let c = ucast (drop_bit 51 r0) :: u64; r0 = r0 AND ucast kMask51; r1 = r1 + ucast c;
         c = ucast (drop_bit 51 r1) :: u64; r1 = r1 AND ucast kMask51; r2 = r2 + ucast c;
         c = ucast (drop_bit 51 r2) :: u64; r2 = r2 AND ucast kMask51; r3 = r3 + ucast c;
         c = ucast (drop_bit 51 r3) :: u64; r3 = r3 AND ucast kMask51; r4 = r4 + ucast c;
         c = ucast (drop_bit 51 r4) :: u64; r4 = r4 AND ucast kMask51; r0 = r0 + ucast (19 * c);
         c = ucast (drop_bit 51 r0) :: u64; r0 = r0 AND ucast kMask51; r1 = r1 + ucast c
     in Fe (ucast r0) (ucast r1) (ucast r2) (ucast r3) (ucast r4))"

definition fe_mul :: "fe \<Rightarrow> fe \<Rightarrow> fe" where
  "fe_mul f g =
    (case f of Fe f0 f1 f2 f3 f4 \<Rightarrow> case g of Fe g0 g1 g2 g3 g4 \<Rightarrow>
      let m = (\<lambda>x y. (ucast x :: u128) * (ucast y :: u128));
          r0 = m f0 g0 + 19 * (m f1 g4 + m f2 g3 + m f3 g2 + m f4 g1);
          r1 = m f0 g1 + m f1 g0 + 19 * (m f2 g4 + m f3 g3 + m f4 g2);
          r2 = m f0 g2 + m f1 g1 + m f2 g0 + 19 * (m f3 g4 + m f4 g3);
          r3 = m f0 g3 + m f1 g2 + m f2 g1 + m f3 g0 + 19 * m f4 g4;
          r4 = m f0 g4 + m f1 g3 + m f2 g2 + m f3 g1 + m f4 g0
      in carry128 r0 r1 r2 r3 r4)"

definition fe_sq :: "fe \<Rightarrow> fe" where
  "fe_sq f = fe_mul f f"

definition fe_mul_scalar :: "fe \<Rightarrow> u64 \<Rightarrow> fe" where
  "fe_mul_scalar f s =
    (case f of Fe f0 f1 f2 f3 f4 \<Rightarrow>
      let m = (\<lambda>x. (ucast x :: u128) * ucast s)
      in carry128 (m f0) (m f1) (m f2) (m f3) (m f4))"

definition fe_sq_n :: "fe \<Rightarrow> nat \<Rightarrow> fe" where
  "fe_sq_n f n = (fe_sq ^^ n) f"

definition fe_inv :: "fe \<Rightarrow> fe" where
  "fe_inv z =
    (let z2 = fe_sq z;
         z8 = fe_sq_n z2 2;
         z9 = fe_mul z z8;
         z11 = fe_mul z2 z9;
         z22 = fe_sq z11;
         z_5_0 = fe_mul z9 z22;
         z_10_0 = fe_mul (fe_sq_n z_5_0 5) z_5_0;
         z_20_0 = fe_mul (fe_sq_n z_10_0 10) z_10_0;
         z_40_0 = fe_mul (fe_sq_n z_20_0 20) z_20_0;
         z_50_0 = fe_mul (fe_sq_n z_40_0 10) z_10_0;
         z_100_0 = fe_mul (fe_sq_n z_50_0 50) z_50_0;
         z_200_0 = fe_mul (fe_sq_n z_100_0 100) z_100_0;
         z_250_0 = fe_mul (fe_sq_n z_200_0 50) z_50_0
     in fe_mul (fe_sq_n z_250_0 5) z11)"

definition swap_limb :: "u64 \<Rightarrow> u64 \<Rightarrow> u64 \<Rightarrow> u64 \<times> u64" where
  "swap_limb msk f g = (let t = msk AND (f XOR g) in (f XOR t, g XOR t))"

definition fe_cswap :: "fe \<Rightarrow> fe \<Rightarrow> u64 \<Rightarrow> fe \<times> fe" where
  "fe_cswap f g swap =
    (case f of Fe f0 f1 f2 f3 f4 \<Rightarrow> case g of Fe g0 g1 g2 g3 g4 \<Rightarrow>
      let msk = 0 - swap;
          (f0, g0) = swap_limb msk f0 g0; (f1, g1) = swap_limb msk f1 g1;
          (f2, g2) = swap_limb msk f2 g2; (f3, g3) = swap_limb msk f3 g3;
          (f4, g4) = swap_limb msk f4 g4
      in (Fe f0 f1 f2 f3 f4, Fe g0 g1 g2 g3 g4))"

section \<open>The ladder\<close>

definition clamp :: "bytes \<Rightarrow> bytes" where
  "clamp private_key =
    (let e = private_key; e = e[0 := e ! 0 AND 248]; e = e[31 := e ! 31 AND 127]
     in e[31 := e ! 31 OR 64])"

text \<open>The state \<open>x2, z2, x3, z3, swap\<close> of the loop.\<close>

type_synonym ladder_state = "fe \<times> fe \<times> fe \<times> fe \<times> u64"

definition ladder_arith :: "fe \<Rightarrow> fe \<Rightarrow> fe \<Rightarrow> fe \<Rightarrow> fe \<Rightarrow> fe \<times> fe \<times> fe \<times> fe" where
  "ladder_arith x1 x2 z2 x3 z3 =
    (let a = fe_add x2 z2; aa = fe_sq a; b = fe_sub x2 z2; bb = fe_sq b; e2 = fe_sub aa bb;
         c = fe_add x3 z3; d = fe_sub x3 z3; da = fe_mul d a; cb = fe_mul c b;
         da_cb = fe_add da cb; da_cb2 = fe_sub da cb;
         x3 = fe_sq da_cb; z3 = fe_mul x1 (fe_sq da_cb2);
         x2 = fe_mul aa bb;
         z2 = fe_mul e2 (fe_add aa (fe_mul_scalar e2 121665))
     in (x2, z2, x3, z3))"

definition ladder_step :: "bytes \<Rightarrow> fe \<Rightarrow> ladder_state \<Rightarrow> nat \<Rightarrow> ladder_state" where
  "ladder_step e x1 s t =
    (let (x2, z2, x3, z3, swap) = s;
         kt = ucast (drop_bit (t mod 8) (e ! (t div 8)) AND 1) :: u64;
         swap = swap XOR kt;
         (x2, x3) = fe_cswap x2 x3 swap;
         (z2, z3) = fe_cswap z2 z3 swap;
         swap = kt;
         (x2, z2, x3, z3) = ladder_arith x1 x2 z2 x3 z3
     in (x2, z2, x3, z3, swap))"

text \<open>The result is the flag and the output array.\<close>

definition x25519 :: "bytes \<Rightarrow> bytes \<Rightarrow> bool \<times> bytes" where
  "x25519 private_key peer_public_key =
    (let e = clamp private_key;
         x1 = fe_frombytes peer_public_key;
         s = foldl (ladder_step e x1) (Fe 1 0 0 0 0, Fe 0 0 0 0 0, x1, Fe 1 0 0 0 0, 0) (rev [0..<255]);
         (x2, z2, x3, z3, swap) = s;
         (x2, x3) = fe_cswap x2 x3 swap;
         (z2, z3) = fe_cswap z2 z3 swap;
         result = fe_mul x2 (fe_inv z2);
         out = fe_tobytes result;
         acc = foldl (OR) 0 out
     in (acc \<noteq> 0, out))"

text \<open>\<open>x25519_generate\<close> with the random private key as argument.\<close>

definition x25519_public :: "bytes \<Rightarrow> bytes" where
  "x25519_public private_key = snd (x25519 private_key ((replicate 32 0)[0 := 9]))"

section \<open>Values\<close>

text \<open>A field element stands for the integer of its limbs.\<close>

definition fe_p :: int where "fe_p = 2 ^ 255 - 19"

fun fe_val :: "fe \<Rightarrow> int" where
  "fe_val (Fe a b c d e) =
     uint a + 2 ^ 51 * uint b + 2 ^ 102 * uint c + 2 ^ 153 * uint d + 2 ^ 204 * uint e"

text \<open>All limbs below a bound.\<close>

fun fe_below :: "int \<Rightarrow> fe \<Rightarrow> bool" where
  "fe_below n (Fe a b c d e) \<longleftrightarrow> uint a < n \<and> uint b < n \<and> uint c < n \<and> uint d < n \<and> uint e < n"

definition cong_p :: "int \<Rightarrow> int \<Rightarrow> bool" where
  "cong_p a b \<longleftrightarrow> a mod fe_p = b mod fe_p"

lemma cong_p_refl [simp]: "cong_p a a"
  by (simp add: cong_p_def)

lemma cong_p_sym: "cong_p a b \<Longrightarrow> cong_p b a"
  by (simp add: cong_p_def)

lemma cong_p_trans: "cong_p a b \<Longrightarrow> cong_p b c \<Longrightarrow> cong_p a c"
  by (simp add: cong_p_def)

lemma cong_p_add: "cong_p a b \<Longrightarrow> cong_p c d \<Longrightarrow> cong_p (a + c) (b + d)"
  unfolding cong_p_def by (metis mod_add_eq)

lemma cong_p_diff: "cong_p a b \<Longrightarrow> cong_p c d \<Longrightarrow> cong_p (a - c) (b - d)"
  unfolding cong_p_def by (metis mod_diff_eq)

lemma cong_p_mult: "cong_p a b \<Longrightarrow> cong_p c d \<Longrightarrow> cong_p (a * c) (b * d)"
  unfolding cong_p_def by (metis mod_mult_eq)

lemma cong_p_power: "cong_p a b \<Longrightarrow> cong_p (a ^ n) (b ^ n)"
  by (induction n) (auto intro: cong_p_mult)

lemma cong_pI: "a = b + fe_p * k \<Longrightarrow> cong_p a b"
  by (simp add: cong_p_def)

section \<open>Word arithmetic without overflow\<close>

lemma uint_add_exact:
  fixes a b :: "'a::len word"
  assumes "uint a + uint b < 2 ^ LENGTH('a)"
  shows "uint (a + b) = uint a + uint b"
  using assms by (simp add: uint_word_ariths)

lemma uint_mult_exact:
  fixes a b :: "'a::len word"
  assumes "uint a * uint b < 2 ^ LENGTH('a)"
  shows "uint (a * b) = uint a * uint b"
  using assms by (simp add: uint_word_ariths)

lemma uint_sub_exact:
  fixes a b :: "'a::len word"
  assumes "uint b \<le> uint a"
  shows "uint (a - b) = uint a - uint b"
proof -
  have "uint a < 2 ^ LENGTH('a)" by (rule unsigned_less)
  then show ?thesis using assms by (simp add: uint_word_ariths)
qed

lemma uint_drop51: "uint (drop_bit 51 w) = uint w div 2 ^ 51"
  unfolding drop_bit_eq_div [symmetric]
  by (rule bit_eqI) (auto simp add: bit_simps dest: bit_imp_le_length)

lemma kMask51_mask: "kMask51 = mask 51"
  by (simp add: kMask51_def mask_eq_exp_minus_1)

lemma kMask51_ucast: "ucast kMask51 = (mask 51 :: u128)"
  by (simp add: kMask51_def mask_eq_exp_minus_1)

lemma uint_and51: "uint (w AND kMask51) = uint w mod 2 ^ 51"
  unfolding kMask51_mask take_bit_eq_mask [symmetric] take_bit_eq_mod [symmetric]
  by (rule bit_eqI) (auto simp add: bit_simps)

lemma uint_and51_128: "uint (w AND ucast kMask51 :: u128) = uint w mod 2 ^ 51"
  unfolding kMask51_ucast take_bit_eq_mask [symmetric] take_bit_eq_mod [symmetric]
  by (rule bit_eqI) (auto simp add: bit_simps)

lemma uint_u64: "uint (a :: u64) < 2 ^ 64"
  using unsigned_less [of a, where 'a = int] by simp

lemma uint_ucast_up: "uint (ucast (a :: u64) :: u128) = uint a"
  using uint_u64 [of a] by (simp add: unsigned_ucast_eq take_bit_int_eq_self_iff)

lemma uint_ucast_down: "uint (a :: u128) < 2 ^ 64 \<Longrightarrow> uint (ucast a :: u64) = uint a"
  by (simp add: unsigned_ucast_eq take_bit_int_eq_self_iff)

section \<open>The carry chains\<close>

lemma carry_column:
  fixes r s :: u128
  assumes "uint r < 2 ^ 115" and "uint s < 2 ^ 116"
  shows "uint (s + ucast (ucast (drop_bit 51 r) :: u64)) = uint s + uint r div 2 ^ 51"
    and "uint (ucast (drop_bit 51 r) :: u64) = uint r div 2 ^ 51"
proof -
  have lt: "uint r div 2 ^ 51 < 2 ^ 64" using assms(1) by (simp add: div_less_iff_less_mult)
  then show c: "uint (ucast (drop_bit 51 r) :: u64) = uint r div 2 ^ 51"
    by (subst uint_ucast_down) (simp_all add: uint_drop51)
  show "uint (s + ucast (ucast (drop_bit 51 r) :: u64)) = uint s + uint r div 2 ^ 51"
    using assms(2) lt by (subst uint_add_exact) (simp_all add: uint_ucast_up c)
qed

lemma split51: "(x :: int) = 2 ^ 51 * (x div 2 ^ 51) + x mod 2 ^ 51"
  by simp

lemma carry128_spec:
  assumes "uint r0 < 2 ^ 114" and "uint r1 < 2 ^ 114" and "uint r2 < 2 ^ 114" and "uint r3 < 2 ^ 114"
    and "uint r4 \<le> 5 * 2 ^ 108"
  shows "cong_p (fe_val (carry128 r0 r1 r2 r3 r4))
      (uint r0 + 2 ^ 51 * uint r1 + 2 ^ 102 * uint r2 + 2 ^ 153 * uint r3 + 2 ^ 204 * uint r4)"
    and "fe_below (2 ^ 51 + 2 ^ 13) (carry128 r0 r1 r2 r3 r4)"
proof -
  define q :: "int \<Rightarrow> int" where "q x = x div 2 ^ 51" for x
  define m :: "int \<Rightarrow> int" where "m x = x mod 2 ^ 51" for x
  have qm: "x = 2 ^ 51 * q x + m x" for x unfolding q_def m_def by (rule split51)
  have m: "0 \<le> m x" "m x < 2 ^ 51" for x by (simp_all add: m_def)
  have q: "0 \<le> x \<Longrightarrow> 0 \<le> q x" for x by (simp add: q_def)
  have qlt: "x < 2 ^ (51 + n) \<Longrightarrow> q x < 2 ^ n" for x n
    by (simp add: q_def power_add div_less_iff_less_mult mult.commute)
  define a where "a = r1 + ucast (ucast (drop_bit 51 r0) :: u64)"
  define b where "b = r2 + ucast (ucast (drop_bit 51 a) :: u64)"
  define c where "c = r3 + ucast (ucast (drop_bit 51 b) :: u64)"
  define d where "d = r4 + ucast (ucast (drop_bit 51 c) :: u64)"
  define e where "e = (r0 AND ucast kMask51) + ucast (19 * ucast (drop_bit 51 d) :: u64)"
  define f where "f = (a AND ucast kMask51) + ucast (ucast (drop_bit 51 e) :: u64)"
  have a: "uint a = uint r1 + q (uint r0)"
    using assms(1,2) unfolding a_def q_def by (intro carry_column(1)) simp_all
  have alt: "uint a < 2 ^ 115" using a qlt [of "uint r0" 64] assms(1,2) by simp
  have b: "uint b = uint r2 + q (uint a)"
    using assms(3) alt unfolding b_def q_def by (intro carry_column(1)) simp_all
  have blt: "uint b < 2 ^ 115" using b qlt [of "uint a" 64] assms(3) alt by simp
  have c: "uint c = uint r3 + q (uint b)"
    using assms(4) blt unfolding c_def q_def by (intro carry_column(1)) simp_all
  have clt: "uint c < 2 ^ 115" using c qlt [of "uint b" 64] assms(4) blt by simp
  have d: "uint d = uint r4 + q (uint c)"
    using assms(5) clt unfolding d_def q_def by (intro carry_column(1)) simp_all
  have dlt: "uint d \<le> 5 * 2 ^ 108 + 2 ^ 64" using d qlt [of "uint c" 64] assms(5) clt by simp
  have qd: "q (uint d) \<le> 5 * 2 ^ 57 + 2 ^ 13"
  proof -
    have "uint d div 2 ^ 51 \<le> (5 * 2 ^ 108 + 2 ^ 64) div 2 ^ 51" using dlt by (rule zdiv_mono1) simp
    then show ?thesis by (simp add: q_def)
  qed
  have cd: "uint (ucast (drop_bit 51 d) :: u64) = q (uint d)"
    using dlt unfolding q_def by (intro carry_column(2) [of _ 0]) simp_all
  have c19: "uint (19 * ucast (drop_bit 51 d) :: u64) = 19 * q (uint d)"
    using qd cd by (subst uint_mult_exact) simp_all
  have m0: "uint (r0 AND ucast kMask51) = m (uint r0)" and ma: "uint (a AND ucast kMask51) = m (uint a)"
    by (simp_all only: uint_and51_128 m_def)
  have e: "uint e = m (uint r0) + 19 * q (uint d)"
    unfolding e_def using m [of "uint r0"] qd m0
    by (subst uint_add_exact) (simp_all add: uint_ucast_up c19)
  have elt: "uint e < 2 ^ 64" using e m(2) [of "uint r0"] qd by simp
  have f: "uint f = m (uint a) + q (uint e)"
    using elt m(2) [of "uint a"] unfolding f_def q_def ma [symmetric] by (intro carry_column(1)) simp_all
  have qe: "q (uint e) < 2 ^ 13" using qlt [of "uint e" 13] elt by simp
  have res: "carry128 r0 r1 r2 r3 r4 =
      Fe (ucast (e AND ucast kMask51)) (ucast f) (ucast (b AND ucast kMask51))
         (ucast (c AND ucast kMask51)) (ucast (d AND ucast kMask51))"
    unfolding carry128_def Let_def a_def b_def c_def d_def e_def f_def by (rule refl)
  have low: "uint (ucast (w AND ucast kMask51 :: u128) :: u64) = m (uint w)" for w
    using m(2) [of "uint w"] by (subst uint_ucast_down) (simp_all add: uint_and51_128 m_def)
  have uf: "uint (ucast f :: u64) = uint f"
    using f qe m(2) [of "uint a"] by (intro uint_ucast_down) simp
  show "fe_below (2 ^ 51 + 2 ^ 13) (carry128 r0 r1 r2 r3 r4)"
    unfolding res fe_below.simps low uf f
    using qe m(2) [of "uint e"] m(2) [of "uint a"] m(2) [of "uint b"] m(2) [of "uint c"] m(2) [of "uint d"]
    by simp
  have val: "fe_val (carry128 r0 r1 r2 r3 r4) = m (uint e) + 2 ^ 51 * (m (uint a) + q (uint e)) +
      2 ^ 102 * m (uint b) + 2 ^ 153 * m (uint c) + 2 ^ 204 * m (uint d)"
    unfolding res fe_val.simps low uf f by (rule refl)
  have "fe_val (carry128 r0 r1 r2 r3 r4) = uint r0 + 2 ^ 51 * uint r1 + 2 ^ 102 * uint r2 +
      2 ^ 153 * uint r3 + 2 ^ 204 * uint r4 + fe_p * (- q (uint d))"
    using qm [of "uint e"] qm [of "uint a"] qm [of "uint b"] qm [of "uint c"] qm [of "uint d"]
      qm [of "uint r0"] a b c d e
    unfolding val fe_p_def by (simp add: algebra_simps)
  then show "cong_p (fe_val (carry128 r0 r1 r2 r3 r4))
      (uint r0 + 2 ^ 51 * uint r1 + 2 ^ 102 * uint r2 + 2 ^ 153 * uint r3 + 2 ^ 204 * uint r4)"
    by (rule cong_pI)
qed

section \<open>Field operations\<close>

text \<open>What the multiplications return, and what they accept.\<close>

abbreviation tight :: "fe \<Rightarrow> bool" where "tight \<equiv> fe_below (2 ^ 51 + 2 ^ 13)"
abbreviation loose :: "fe \<Rightarrow> bool" where "loose \<equiv> fe_below (2 ^ 53)"

lemma tight_loose [intro]: "tight f \<Longrightarrow> loose f"
  by (cases f) simp

definition mul128 :: "u64 \<Rightarrow> u64 \<Rightarrow> u128" where
  "mul128 x y = ucast x * ucast y"

lemma mul128:
  assumes "uint x < 2 ^ 53" and "uint y < 2 ^ 53"
  shows "uint (mul128 x y) = uint x * uint y" and "uint x * uint y \<le> 2 ^ 106"
proof -
  have "uint x * uint y \<le> 2 ^ 53 * 2 ^ 53"
    using assms by (intro mult_mono) simp_all
  also have "\<dots> = (2 ^ 106 :: int)" by simp
  finally show b: "uint x * uint y \<le> 2 ^ 106" .
  then show "uint (mul128 x y) = uint x * uint y"
    unfolding mul128_def by (subst uint_mult_exact) (simp_all add: uint_ucast_up)
qed

lemma fe_mul_spec:
  assumes "loose f" and "loose g"
  shows "cong_p (fe_val (fe_mul f g)) (fe_val f * fe_val g)" and "tight (fe_mul f g)"
proof -
  obtain f0 f1 f2 f3 f4 where f: "f = Fe f0 f1 f2 f3 f4" by (cases f)
  obtain g0 g1 g2 g3 g4 where g: "g = Fe g0 g1 g2 g3 g4" by (cases g)
  have fl: "uint f0 < 2 ^ 53" "uint f1 < 2 ^ 53" "uint f2 < 2 ^ 53" "uint f3 < 2 ^ 53" "uint f4 < 2 ^ 53"
    and gl: "uint g0 < 2 ^ 53" "uint g1 < 2 ^ 53" "uint g2 < 2 ^ 53" "uint g3 < 2 ^ 53" "uint g4 < 2 ^ 53"
    using assms by (simp_all add: f g)
  define r0 where "r0 = mul128 f0 g0 + 19 * (mul128 f1 g4 + mul128 f2 g3 + mul128 f3 g2 + mul128 f4 g1)"
  define r1 where "r1 = mul128 f0 g1 + mul128 f1 g0 + 19 * (mul128 f2 g4 + mul128 f3 g3 + mul128 f4 g2)"
  define r2 where "r2 = mul128 f0 g2 + mul128 f1 g1 + mul128 f2 g0 + 19 * (mul128 f3 g4 + mul128 f4 g3)"
  define r3 where "r3 = mul128 f0 g3 + mul128 f1 g2 + mul128 f2 g1 + mul128 f3 g0 + 19 * mul128 f4 g4"
  define r4 where "r4 = mul128 f0 g4 + mul128 f1 g3 + mul128 f2 g2 + mul128 f3 g1 + mul128 f4 g0"
  note defs = r0_def r1_def r2_def r3_def r4_def
  have res: "fe_mul f g = carry128 r0 r1 r2 r3 r4"
    by (simp add: fe_mul_def f g Let_def defs mul128_def)
  note pr = fl [THEN mul128(2), OF gl(1)] fl [THEN mul128(2), OF gl(2)] fl [THEN mul128(2), OF gl(3)]
    fl [THEN mul128(2), OF gl(4)] fl [THEN mul128(2), OF gl(5)]
  note ex = fl [THEN mul128(1), OF gl(1)] fl [THEN mul128(1), OF gl(2)] fl [THEN mul128(1), OF gl(3)]
    fl [THEN mul128(1), OF gl(4)] fl [THEN mul128(1), OF gl(5)]
  have nn: "0 \<le> uint x * uint y" for x y :: u64 by simp
  have u0: "uint r0 = uint f0 * uint g0 +
      19 * (uint f1 * uint g4 + uint f2 * uint g3 + uint f3 * uint g2 + uint f4 * uint g1)"
    unfolding r0_def using pr nn by (simp add: uint_word_ariths ex mod_simps)
  have u1: "uint r1 = uint f0 * uint g1 + uint f1 * uint g0 +
      19 * (uint f2 * uint g4 + uint f3 * uint g3 + uint f4 * uint g2)"
    unfolding r1_def using pr nn by (simp add: uint_word_ariths ex mod_simps)
  have u2: "uint r2 = uint f0 * uint g2 + uint f1 * uint g1 + uint f2 * uint g0 +
      19 * (uint f3 * uint g4 + uint f4 * uint g3)"
    unfolding r2_def using pr nn by (simp add: uint_word_ariths ex mod_simps)
  have u3: "uint r3 = uint f0 * uint g3 + uint f1 * uint g2 + uint f2 * uint g1 + uint f3 * uint g0 +
      19 * (uint f4 * uint g4)"
    unfolding r3_def using pr nn by (simp add: uint_word_ariths ex mod_simps)
  have u4: "uint r4 = uint f0 * uint g4 + uint f1 * uint g3 + uint f2 * uint g2 + uint f3 * uint g1 +
      uint f4 * uint g0"
    unfolding r4_def using pr nn by (simp add: uint_word_ariths ex mod_simps)
  have b: "uint r0 < 2 ^ 114" "uint r1 < 2 ^ 114" "uint r2 < 2 ^ 114" "uint r3 < 2 ^ 114"
    "uint r4 \<le> 5 * 2 ^ 108"
    unfolding u0 u1 u2 u3 u4 using pr by simp_all
  show "tight (fe_mul f g)" unfolding res by (rule carry128_spec(2) [OF b])
  define h where "h = (uint f1 * uint g4 + uint f2 * uint g3 + uint f3 * uint g2 + uint f4 * uint g1) +
    2 ^ 51 * (uint f2 * uint g4 + uint f3 * uint g3 + uint f4 * uint g2) +
    2 ^ 102 * (uint f3 * uint g4 + uint f4 * uint g3) + 2 ^ 153 * (uint f4 * uint g4)"
  have "uint r0 + 2 ^ 51 * uint r1 + 2 ^ 102 * uint r2 + 2 ^ 153 * uint r3 + 2 ^ 204 * uint r4 =
      fe_val f * fe_val g + fe_p * (- h)"
    unfolding u0 u1 u2 u3 u4 h_def f g fe_val.simps fe_p_def by (simp add: algebra_simps)
  from cong_p_trans [OF carry128_spec(1) [OF b] cong_pI [OF this]]
  show "cong_p (fe_val (fe_mul f g)) (fe_val f * fe_val g)" by (simp add: res)
qed

lemma fe_mul_scalar_spec:
  assumes "loose f" and "uint s < 2 ^ 53"
  shows "cong_p (fe_val (fe_mul_scalar f s)) (fe_val f * uint s)" and "tight (fe_mul_scalar f s)"
proof -
  obtain f0 f1 f2 f3 f4 where f: "f = Fe f0 f1 f2 f3 f4" by (cases f)
  have fl: "uint f0 < 2 ^ 53" "uint f1 < 2 ^ 53" "uint f2 < 2 ^ 53" "uint f3 < 2 ^ 53" "uint f4 < 2 ^ 53"
    using assms(1) by (simp_all add: f)
  note ex = fl [THEN mul128(1), OF assms(2)] and pr = fl [THEN mul128(2), OF assms(2)]
  have res: "fe_mul_scalar f s =
      carry128 (mul128 f0 s) (mul128 f1 s) (mul128 f2 s) (mul128 f3 s) (mul128 f4 s)"
    by (simp add: fe_mul_scalar_def f Let_def mul128_def)
  have b: "uint (mul128 f0 s) < 2 ^ 114" "uint (mul128 f1 s) < 2 ^ 114" "uint (mul128 f2 s) < 2 ^ 114"
    "uint (mul128 f3 s) < 2 ^ 114" "uint (mul128 f4 s) \<le> 5 * 2 ^ 108"
    unfolding ex using pr by simp_all
  show "tight (fe_mul_scalar f s)" unfolding res by (rule carry128_spec(2) [OF b])
  show "cong_p (fe_val (fe_mul_scalar f s)) (fe_val f * uint s)"
    using carry128_spec(1) [OF b] unfolding res ex by (simp add: f algebra_simps)
qed

lemma fe_add_spec:
  assumes "tight f" and "tight g"
  shows "fe_val (fe_add f g) = fe_val f + fe_val g" and "loose (fe_add f g)"
proof -
  obtain f0 f1 f2 f3 f4 where f: "f = Fe f0 f1 f2 f3 f4" by (cases f)
  obtain g0 g1 g2 g3 g4 where g: "g = Fe g0 g1 g2 g3 g4" by (cases g)
  have "uint (x + y) = uint x + uint y" if "uint x < 2 ^ 51 + 2 ^ 13" "uint y < 2 ^ 51 + 2 ^ 13" for x y :: u64
    using that by (intro uint_add_exact) simp
  then show "fe_val (fe_add f g) = fe_val f + fe_val g" and "loose (fe_add f g)"
    using assms by (simp_all add: fe_add_def f g)
qed

lemma fe_sub_spec:
  assumes "tight f" and "tight g"
  shows "cong_p (fe_val (fe_sub f g)) (fe_val f - fe_val g)" and "loose (fe_sub f g)"
proof -
  obtain f0 f1 f2 f3 f4 where f: "f = Fe f0 f1 f2 f3 f4" by (cases f)
  obtain g0 g1 g2 g3 g4 where g: "g = Fe g0 g1 g2 g3 g4" by (cases g)
  have limb: "uint (x + k - y) = uint x + uint k - uint y"
    if "uint x < 2 ^ 51 + 2 ^ 13" "uint y < 2 ^ 51 + 2 ^ 13" "2 ^ 52 - 38 \<le> uint k" "uint k < 2 ^ 52" for x y k :: u64
  proof -
    have "uint (x + k) = uint x + uint k" using that by (intro uint_add_exact) simp
    moreover have "uint y \<le> uint k" using that(2,3) by simp
    then have "uint y \<le> uint x + uint k" using uint_ge_0 [of x] by linarith
    ultimately show ?thesis by (simp add: uint_sub_exact)
  qed
  have k: "uint (0xFFFFFFFFFFFDA :: u64) = 2 ^ 52 - 38" "uint (0xFFFFFFFFFFFFE :: u64) = 2 ^ 52 - 2"
    by simp_all
  have u: "uint (f0 + 0xFFFFFFFFFFFDA - g0) = uint f0 + (2 ^ 52 - 38) - uint g0"
    "uint (f1 + 0xFFFFFFFFFFFFE - g1) = uint f1 + (2 ^ 52 - 2) - uint g1"
    "uint (f2 + 0xFFFFFFFFFFFFE - g2) = uint f2 + (2 ^ 52 - 2) - uint g2"
    "uint (f3 + 0xFFFFFFFFFFFFE - g3) = uint f3 + (2 ^ 52 - 2) - uint g3"
    "uint (f4 + 0xFFFFFFFFFFFFE - g4) = uint f4 + (2 ^ 52 - 2) - uint g4"
    using assms by (subst limb; simp add: f g)+
  have lt: "uint x + k - uint y < 2 ^ 53" if "uint x < 2 ^ 51 + 2 ^ 13" and "k < 2 ^ 52" for x y :: u64 and k
  proof -
    have "uint x + k - uint y \<le> uint x + k" by simp
    also have "\<dots> < 2 ^ 53" using that by simp
    finally show ?thesis .
  qed
  show "loose (fe_sub f g)"
    unfolding fe_sub_def f g fe.case fe_below.simps u by (intro conjI lt) (use assms in \<open>simp_all add: f\<close>)
  have "fe_val (fe_sub f g) = fe_val f - fe_val g + fe_p * 2"
    unfolding fe_sub_def f g fe.case fe_val.simps u fe_p_def by simp
  then show "cong_p (fe_val (fe_sub f g)) (fe_val f - fe_val g)" by (rule cong_pI)
qed

lemma fe_sq_spec:
  assumes "loose f"
  shows "cong_p (fe_val (fe_sq f)) ((fe_val f) ^ 2)" and "tight (fe_sq f)"
  using fe_mul_spec [OF assms assms] by (simp_all add: fe_sq_def power2_eq_square)

lemma swap_limb_spec: "swap_limb 0 f g = (f, g)" "swap_limb (- 1) f g = (g, f)"
proof -
  show "swap_limb 0 f g = (f, g)" by (simp add: swap_limb_def)
  have "f XOR (f XOR g) = g" by (rule bit_word_eqI) (auto simp add: bit_xor_iff)
  moreover have "g XOR (f XOR g) = f" by (rule bit_word_eqI) (auto simp add: bit_xor_iff)
  ultimately show "swap_limb (- 1) f g = (g, f)" by (simp add: swap_limb_def Let_def)
qed

lemma fe_cswap_spec: "fe_cswap f g 0 = (f, g)" "fe_cswap f g 1 = (g, f)"
  by (cases f; cases g; simp add: fe_cswap_def swap_limb_spec)+

section \<open>The inverse\<close>

definition is_pow :: "int \<Rightarrow> nat \<Rightarrow> fe \<Rightarrow> bool" where
  "is_pow z n f \<longleftrightarrow> cong_p (fe_val f) (z ^ n) \<and> tight f"

lemma is_pow_mul: "is_pow z m f \<Longrightarrow> is_pow z n g \<Longrightarrow> is_pow z (m + n) (fe_mul f g)"
  unfolding is_pow_def
  using cong_p_trans [OF fe_mul_spec(1) [OF tight_loose tight_loose] cong_p_mult, of f g "z ^ m" "z ^ n"]
    fe_mul_spec(2) [OF tight_loose tight_loose, of f g]
  by (simp only: power_add simp_thms)

lemma is_pow_sq: "is_pow z m f \<Longrightarrow> is_pow z (2 * m) (fe_sq f)"
  using is_pow_mul [of z m f m f] by (simp add: fe_sq_def mult_2)

lemma is_pow_sq_n: "is_pow z m f \<Longrightarrow> is_pow z (2 ^ n * m) (fe_sq_n f n)"
proof (induction n)
  case (Suc n)
  then show ?case using is_pow_sq [of z "2 ^ n * m"] by (simp add: fe_sq_n_def mult.assoc)
qed (simp add: fe_sq_n_def)

lemma fe_inv_spec:
  assumes "tight z"
  shows "cong_p (fe_val (fe_inv z)) (fe_val z ^ (2 ^ 255 - 21))" and "tight (fe_inv z)"
proof -
  let ?v = "fe_val z"
  have z: "is_pow ?v 1 z" using assms by (simp add: is_pow_def)
  define z2 where "z2 = fe_sq z"
  define z9 where "z9 = fe_mul z (fe_sq_n z2 2)"
  define z11 where "z11 = fe_mul z2 z9"
  define z5 where "z5 = fe_mul z9 (fe_sq z11)"
  define z10 where "z10 = fe_mul (fe_sq_n z5 5) z5"
  define z20 where "z20 = fe_mul (fe_sq_n z10 10) z10"
  define z40 where "z40 = fe_mul (fe_sq_n z20 20) z20"
  define z50 where "z50 = fe_mul (fe_sq_n z40 10) z10"
  define z100 where "z100 = fe_mul (fe_sq_n z50 50) z50"
  define z200 where "z200 = fe_mul (fe_sq_n z100 100) z100"
  define z250 where "z250 = fe_mul (fe_sq_n z200 50) z50"
  have 2: "is_pow ?v 2 z2" using is_pow_sq [OF z] by (simp add: z2_def)
  have 9: "is_pow ?v 9 z9" using is_pow_mul [OF z is_pow_sq_n [OF 2, of 2]] by (simp add: z9_def)
  have 11: "is_pow ?v 11 z11" using is_pow_mul [OF 2 9] by (simp add: z11_def)
  have 5: "is_pow ?v (2 ^ 5 - 1) z5" using is_pow_mul [OF 9 is_pow_sq [OF 11]] by (simp add: z5_def)
  have step: "is_pow ?v (2 ^ (m + n) - 1) (fe_mul (fe_sq_n f n) g)"
    if f: "is_pow ?v (2 ^ m - 1) f" and g: "is_pow ?v (2 ^ n - 1) g" for f g m n
  proof -
    have "2 ^ n * (2 ^ m - 1) + (2 ^ n - 1) = (2 ^ (m + n) - 1 :: nat)"
      by (simp add: power_add diff_mult_distrib2 mult.commute)
    then show ?thesis using is_pow_mul [OF is_pow_sq_n [OF f, of n] g] by simp
  qed
  have 10: "is_pow ?v (2 ^ 10 - 1) z10" using step [OF 5 5] unfolding z10_def by simp
  have 20: "is_pow ?v (2 ^ 20 - 1) z20" using step [OF 10 10] unfolding z20_def by simp
  have 40: "is_pow ?v (2 ^ 40 - 1) z40" using step [OF 20 20] unfolding z40_def by simp
  have 50: "is_pow ?v (2 ^ 50 - 1) z50" using step [OF 40 10] unfolding z50_def by simp
  have 100: "is_pow ?v (2 ^ 100 - 1) z100" using step [OF 50 50] unfolding z100_def by simp
  have 200: "is_pow ?v (2 ^ 200 - 1) z200" using step [OF 100 100] unfolding z200_def by simp
  have 250: "is_pow ?v (2 ^ 250 - 1) z250" using step [OF 200 50] unfolding z250_def by simp
  have res: "fe_inv z = fe_mul (fe_sq_n z250 5) z11"
    by (simp add: fe_inv_def Let_def z2_def z9_def z11_def z5_def z10_def z20_def z40_def z50_def
        z100_def z200_def z250_def)
  have "is_pow ?v (2 ^ 5 * (2 ^ 250 - 1) + 11) (fe_inv z)"
    unfolding res by (rule is_pow_mul [OF is_pow_sq_n [OF 250] 11])
  moreover have "2 ^ 5 * (2 ^ 250 - 1) + 11 = (2 ^ 255 - 21 :: nat)" by simp
  ultimately show "cong_p (fe_val (fe_inv z)) (fe_val z ^ (2 ^ 255 - 21))" and "tight (fe_inv z)"
    by (simp_all only: is_pow_def)
qed

section \<open>Bytes\<close>

text \<open>The limbs of an element with 51-bit limbs, as the bits of its value.\<close>

definition limb_bit :: "fe \<Rightarrow> nat \<Rightarrow> bool" where
  "limb_bit h k =
    (case h of Fe o0 o1 o2 o3 o4 \<Rightarrow>
      if k < 51 then bit o0 k else if k < 102 then bit o1 (k - 51) else if k < 153 then bit o2 (k - 102)
      else if k < 204 then bit o3 (k - 153) else bit o4 (k - 204))"

lemma below51_bit: "uint (w :: u64) < 2 ^ 51 \<Longrightarrow> bit w n \<Longrightarrow> n < 51"
proof (rule ccontr)
  assume w: "uint w < 2 ^ 51" "bit w n" "\<not> n < 51"
  then have "take_bit 51 (uint w) = uint w" by (simp add: take_bit_int_eq_self_iff)
  moreover have "bit (uint w) n" using w(2) bit_imp_le_length [OF w(2)] by (simp add: bit_simps)
  ultimately have "bit (take_bit 51 (uint w)) n" by simp
  then show False using w(3) by (simp add: bit_take_bit_iff)
qed

lemma join51:
  assumes "uint (a :: u64) < 2 ^ 51"
  shows "bit (uint a + 2 ^ 51 * l) k \<longleftrightarrow> (if k < 51 then bit a k else bit l (k - 51))"
proof -
  have "take_bit 51 (uint a) = uint a" using assms by (intro take_bit_int_eq_self) simp_all
  then have "uint a + 2 ^ 51 * l = concat_bit 51 (uint a) l"
    by (simp add: concat_bit_eq push_bit_eq_mult)
  then show ?thesis by (auto simp add: bit_concat_bit_iff bit_simps)
qed

lemma fe_val_bit:
  assumes "fe_below (2 ^ 51) h"
  shows "bit (fe_val h) k \<longleftrightarrow> limb_bit h k"
proof -
  obtain a b c d e where h: "h = Fe a b c d e" by (cases h)
  have lt: "uint a < 2 ^ 51" "uint b < 2 ^ 51" "uint c < 2 ^ 51" "uint d < 2 ^ 51"
    using assms by (simp_all add: h)
  have "fe_val h = uint a + 2 ^ 51 * (uint b + 2 ^ 51 * (uint c + 2 ^ 51 * (uint d + 2 ^ 51 * uint e)))"
    by (simp add: h)
  then have "bit (fe_val h) k \<longleftrightarrow> (if k < 51 then bit a k else if k - 51 < 51 then bit b (k - 51)
      else if k - 51 - 51 < 51 then bit c (k - 51 - 51)
      else if k - 51 - 51 - 51 < 51 then bit d (k - 51 - 51 - 51) else bit (uint e) (k - 51 - 51 - 51 - 51))"
    by (simp only: join51 lt)
  moreover have "bit (uint e) n \<longleftrightarrow> bit e n" for n
    using bit_imp_le_length [of e n] by (auto simp add: bit_simps)
  ultimately show ?thesis
    by (cases "k < 51"; cases "k < 102"; cases "k < 153"; cases "k < 204"; simp add: limb_bit_def h less_diff_conv2)
qed

lemma fe_val_nonneg: "0 \<le> fe_val h"
  by (cases h) simp

text \<open>A byte inside a limb, and a byte across two.\<close>

lemma byte_inside: "r < 8 \<Longrightarrow> bit (ucast (drop_bit s (a :: u64)) :: u8) r \<longleftrightarrow> bit a (s + r)"
  by (simp add: bit_simps add.commute)

lemma byte_across:
  assumes "uint a < 2 ^ 51" and "r < 8" and "s + k = 51" and "43 < s"
  shows "bit (ucast (drop_bit s a OR push_bit k b) :: u8) r \<longleftrightarrow>
    (if s + r < 51 then bit a (s + r) else bit (b :: u64) (s + r - 51))"
proof -
  have "k \<le> r \<longleftrightarrow> \<not> s + r < 51" and "r - k = s + r - 51" using assms(3) by auto
  moreover have "bit a (s + r) \<Longrightarrow> s + r < 51" by (rule below51_bit [OF assms(1)])
  ultimately show ?thesis using assms(2) by (auto simp add: bit_simps)
qed

lemma pack_limbs_bit:
  assumes "fe_below (2 ^ 51) h" and "j < 32" and r: "r < 8"
  shows "bit (pack_limbs h ! j) r \<longleftrightarrow> limb_bit h (8 * j + r)"
proof -
  obtain o0 o1 o2 o3 o4 where h: "h = Fe o0 o1 o2 o3 o4" by (cases h)
  have lt: "uint o0 < 2 ^ 51" "uint o1 < 2 ^ 51" "uint o2 < 2 ^ 51" "uint o3 < 2 ^ 51"
    using assms(1) by (simp_all add: h)
  have across: "bit (ucast (drop_bit 48 o0 OR push_bit 3 o1) :: u8) r \<longleftrightarrow> (if 48 + r < 51 then bit o0 (48 + r) else bit o1 (48 + r - 51))"
    "bit (ucast (drop_bit 45 o1 OR push_bit 6 o2) :: u8) r \<longleftrightarrow> (if 45 + r < 51 then bit o1 (45 + r) else bit o2 (45 + r - 51))"
    "bit (ucast (drop_bit 50 o2 OR push_bit 1 o3) :: u8) r \<longleftrightarrow> (if 50 + r < 51 then bit o2 (50 + r) else bit o3 (50 + r - 51))"
    "bit (ucast (drop_bit 47 o3 OR push_bit 4 o4) :: u8) r \<longleftrightarrow> (if 47 + r < 51 then bit o3 (47 + r) else bit o4 (47 + r - 51))"
    by (rule byte_across [OF lt(1) r] byte_across [OF lt(2) r] byte_across [OF lt(3) r]
        byte_across [OF lt(4) r]; simp)+
  have low: "bit (ucast o0 :: u8) r \<longleftrightarrow> bit o0 r" using byte_inside [OF r, of 0 o0] by simp
  have "j \<in> set [0..<32]" using assms(2) by simp
  moreover have "[0..<32] = [0, 1, 2, 3, 4, 5, 6, 7, 8, 9, 10, 11, 12, 13, 14, 15, 16, 17, 18, 19, 20, 21, 22,
    23, 24, 25, 26, 27, 28, 29, 30, 31]" by code_simp
  ultimately show ?thesis
    using r unfolding h pack_limbs_def limb_bit_def fe.case
    by (simp only: list.set insert_iff empty_iff simp_thms)
      (elim disjE; simp add: byte_inside [OF r] across low del: push_bit_Suc One_nat_def)
qed

lemma pack_limbs_val:
  assumes "fe_below (2 ^ 51) h"
  shows "uint (of_le_bytes (pack_limbs h) :: 256 word) = fe_val h"
proof -
  have len: "length (pack_limbs h) = 32" by (cases h) (simp add: pack_limbs_def)
  have "bit (of_le_bytes (pack_limbs h) :: 256 word) k \<longleftrightarrow> bit (fe_val h) k" for k
  proof (cases "k < 256")
    case True
    then have "k div 8 < 32" by (simp add: less_mult_imp_div_less)
    then have "bit (pack_limbs h ! (k div 8)) (k mod 8) \<longleftrightarrow> limb_bit h (8 * (k div 8) + k mod 8)"
      by (intro pack_limbs_bit [OF assms]) simp_all
    then show ?thesis using True by (simp add: bit_of_le_bytes len fe_val_bit [OF assms])
  next
    case False
    have "\<not> bit (fe_val h) k"
      using False assms unfolding fe_val_bit [OF assms]
      by (cases h) (auto simp add: limb_bit_def dest: below51_bit [rotated])
    then show ?thesis using False by (simp add: bit_of_le_bytes len)
  qed
  then show ?thesis
    by (intro bit_eqI) (auto simp add: bit_simps dest: bit_imp_le_length)
qed

lemma bit_fold_or: "bit (foldl (\<lambda>v i. v OR f i) (v :: u64) xs) k \<longleftrightarrow> bit v k \<or> (\<exists>i\<in>set xs. bit (f i) k)"
  by (induction xs arbitrary: v) (auto simp add: bit_or_iff)

lemma load_le64_bit:
  assumes "length s = 32" and "off + 8 \<le> 32"
  shows "bit (load_le64 s off) k \<longleftrightarrow> k < 64 \<and> bit (of_le_bytes s :: 256 word) (8 * off + k)"
proof (cases "k < 64")
  case True
  have "(\<exists>i\<in>{0..<8}. bit (push_bit (i * 8) (ucast (s ! (off + i))) :: u64) k) \<longleftrightarrow>
      bit (s ! (off + k div 8)) (k mod 8)"
  proof
    assume "\<exists>i\<in>{0..<8}. bit (push_bit (i * 8) (ucast (s ! (off + i))) :: u64) k"
    then obtain i where i: "8 * i \<le> k" "bit (s ! (off + i)) (k - 8 * i)" "k - 8 * i < 8"
      using bit_imp_le_length [where 'a = 8] by (fastforce simp add: bit_simps mult.commute)
    then have "k div 8 = i" by (intro div_nat_eqI) simp_all
    moreover have "k mod 8 = k - 8 * i" using calculation by (simp add: modulo_nat_def mult.commute)
    ultimately show "bit (s ! (off + k div 8)) (k mod 8)" using i(2) by simp
  next
    assume "bit (s ! (off + k div 8)) (k mod 8)"
    moreover have "k div 8 < 8" using True by (simp add: less_mult_imp_div_less)
    moreover have "k - k div 8 * 8 = k mod 8" by (simp add: modulo_nat_def)
    ultimately have "bit (push_bit (k div 8 * 8) (ucast (s ! (off + k div 8))) :: u64) k" and "k div 8 \<in> {0..<8}"
      using True by (simp_all add: bit_simps)
    then show "\<exists>i\<in>{0..<8}. bit (push_bit (i * 8) (ucast (s ! (off + i))) :: u64) k" by blast
  qed
  moreover have "(8 * off + k) div 8 = off + k div 8" "8 * off + k < 256" using True assms(2) by simp_all
  ultimately show ?thesis
    using True assms by (simp add: load_le64_def bit_fold_or bit_of_le_bytes)
next
  case False
  then show ?thesis using bit_imp_le_length [of "load_le64 s off" k] by auto
qed

lemma limb_bits: "bit (w AND kMask51) k \<longleftrightarrow> k < 51 \<and> bit w k"
  by (auto simp add: kMask51_mask bit_simps)

lemma fe_frombytes_spec:
  assumes "length s = 32"
  shows "fe_val (fe_frombytes s) = uint (of_le_bytes s :: 256 word) mod 2 ^ 255"
    and "fe_below (2 ^ 51) (fe_frombytes s)"
proof -
  have lt: "uint (w AND kMask51) < 2 ^ 51" for w unfolding uint_and51 by simp
  show b: "fe_below (2 ^ 51) (fe_frombytes s)"
    unfolding fe_frombytes_def fe_below.simps by (simp only: lt simp_thms)
  show "fe_val (fe_frombytes s) = uint (of_le_bytes s :: 256 word) mod 2 ^ 255"
    unfolding take_bit_eq_mod [symmetric]
  proof (rule bit_eqI)
    fix k
    have ld: "bit (load_le64 s off) i \<longleftrightarrow> i < 64 \<and> bit (of_le_bytes s :: 256 word) (8 * off + i)"
      if "off + 8 \<le> 32" for off i
      using load_le64_bit [OF assms that] .
    show "bit (fe_val (fe_frombytes s)) k \<longleftrightarrow> bit (take_bit 255 (uint (of_le_bytes s :: 256 word))) k"
      unfolding fe_val_bit [OF b] unfolding fe_frombytes_def limb_bit_def fe.case
      by (auto simp add: limb_bits ld bit_drop_bit_eq bit_take_bit_iff bit_uint_iff)
  qed
qed

section \<open>The canonical representative\<close>

text \<open>The limbs of a pass, \<open>q\<close> for the quotient and \<open>m\<close> for the remainder by \<open>2^51\<close>.\<close>

lemma pass_column:
  assumes "uint (x :: u64) < 2 ^ 53" and "uint y < 2 ^ 53"
  shows "uint (y + drop_bit 51 x) = uint y + uint x div 2 ^ 51" and "uint x div 2 ^ 51 < 4"
proof -
  have "uint x div 2 ^ 51 < 2 ^ 2" using assms(1) by (simp add: div_less_iff_less_mult)
  then show q: "uint x div 2 ^ 51 < 4" by simp
  show "uint (y + drop_bit 51 x) = uint y + uint x div 2 ^ 51"
    using q assms(2) by (subst uint_add_exact) (simp_all add: uint_drop51)
qed

lemma carry_pass_limbs:
  assumes "uint h0 < 2 ^ 52" and "uint h1 < 2 ^ 52" and "uint h2 < 2 ^ 52" and "uint h3 < 2 ^ 52"
    and "uint h4 < 2 ^ 52"
  obtains g0 g1 g2 g3 g4 c where "carry_pass (Fe h0 h1 h2 h3 h4) = Fe g0 g1 g2 g3 g4"
    and "uint g1 < 2 ^ 51" and "uint g2 < 2 ^ 51" and "uint g3 < 2 ^ 51" and "uint g4 < 2 ^ 51"
    and "uint g0 = uint h0 mod 2 ^ 51 + 19 * c" and "0 \<le> c" and "c < 4"
    and "fe_val (Fe g0 g1 g2 g3 g4) = fe_val (Fe h0 h1 h2 h3 h4) - fe_p * c"
    and "uint h0 < 2 ^ 51 \<longrightarrow> uint h1 < 2 ^ 51 \<longrightarrow> uint h2 < 2 ^ 51 \<longrightarrow> uint h3 < 2 ^ 51 \<longrightarrow> uint h4 < 2 ^ 51 \<longrightarrow> c = 0"
proof -
  define a1 where "a1 = h1 + drop_bit 51 h0"
  define a2 where "a2 = h2 + drop_bit 51 a1"
  define a3 where "a3 = h3 + drop_bit 51 a2"
  define a4 where "a4 = h4 + drop_bit 51 a3"
  define g0 where "g0 = (h0 AND kMask51) + 19 * drop_bit 51 a4"
  define c where "c = uint a4 div 2 ^ 51"
  have a1: "uint a1 = uint h1 + uint h0 div 2 ^ 51" "uint h0 div 2 ^ 51 < 4"
    using pass_column [of h0 h1] assms by (simp_all add: a1_def)
  then have b1: "uint a1 < 2 ^ 53" using assms by simp
  have a2: "uint a2 = uint h2 + uint a1 div 2 ^ 51" "uint a1 div 2 ^ 51 < 4"
    using pass_column [of a1 h2] assms b1 by (simp_all add: a2_def)
  then have b2: "uint a2 < 2 ^ 53" using assms by simp
  have a3: "uint a3 = uint h3 + uint a2 div 2 ^ 51" "uint a2 div 2 ^ 51 < 4"
    using pass_column [of a2 h3] assms b2 by (simp_all add: a3_def)
  then have b3: "uint a3 < 2 ^ 53" using assms by simp
  have a4: "uint a4 = uint h4 + uint a3 div 2 ^ 51" "uint a3 div 2 ^ 51 < 4"
    using pass_column [of a3 h4] assms b3 by (simp_all add: a4_def)
  then have b4: "uint a4 < 2 ^ 53" using assms by simp
  have c: "0 \<le> c" "c < 4" using pass_column(2) [OF b4 b4] by (simp_all add: c_def pos_imp_zdiv_nonneg_iff)
  have m: "0 \<le> x mod 2 ^ 51" "x mod 2 ^ 51 < 2 ^ 51" for x :: int by simp_all
  have g0: "uint g0 = uint h0 mod 2 ^ 51 + 19 * c"
  proof -
    have "uint (19 * drop_bit 51 a4) = 19 * c"
      using c by (subst uint_mult_exact) (simp_all add: uint_drop51 flip: c_def [simplified])
    then show ?thesis
      unfolding g0_def using c m(2) [of "uint h0"] by (subst uint_add_exact) (simp_all add: uint_and51)
  qed
  have res: "carry_pass (Fe h0 h1 h2 h3 h4) =
      Fe g0 (a1 AND kMask51) (a2 AND kMask51) (a3 AND kMask51) (a4 AND kMask51)"
    by (simp add: carry_pass_def Let_def a1_def a2_def a3_def a4_def g0_def)
  have val: "fe_val (Fe g0 (a1 AND kMask51) (a2 AND kMask51) (a3 AND kMask51) (a4 AND kMask51)) =
      fe_val (Fe h0 h1 h2 h3 h4) - fe_p * c"
  proof -
    define q :: "int \<Rightarrow> int" where "q x = x div 2 ^ 51" for x
    define r :: "int \<Rightarrow> int" where "r x = x mod 2 ^ 51" for x
    have qr: "x = 2 ^ 51 * q x + r x" for x unfolding q_def r_def by (rule split51)
    have "uint a1 = uint h1 + q (uint h0)" "uint a2 = uint h2 + q (uint a1)"
      "uint a3 = uint h3 + q (uint a2)" "uint a4 = uint h4 + q (uint a3)" "c = q (uint a4)"
      unfolding q_def c_def by (fact a1(1) a2(1) a3(1) a4(1) refl)+
    then show ?thesis
      using qr [of "uint h0"] qr [of "uint a1"] qr [of "uint a2"] qr [of "uint a3"] qr [of "uint a4"]
      unfolding fe_val.simps uint_and51 g0 r_def [symmetric] fe_p_def by (simp add: algebra_simps)
  qed
  have "c = 0" if "uint h0 < 2 ^ 51" "uint h1 < 2 ^ 51" "uint h2 < 2 ^ 51" "uint h3 < 2 ^ 51" "uint h4 < 2 ^ 51"
  proof -
    have z: "uint x < 2 ^ 51 \<Longrightarrow> uint x div 2 ^ 51 = 0" for x :: u64 by (simp add: div_pos_pos_trivial)
    have "uint a1 = uint h1" using a1(1) z [OF that(1)] by simp
    then have "uint a2 = uint h2" using a2(1) z [of a1] that(2) by simp
    then have "uint a3 = uint h3" using a3(1) z [of a2] that(3) by simp
    then have "uint a4 = uint h4" using a4(1) z [of a3] that(4) by simp
    then show "c = 0" using z [of a4] that(5) unfolding c_def by simp
  qed
  moreover have "uint (w AND kMask51) < 2 ^ 51" for w unfolding uint_and51 by (rule m)
  ultimately show thesis
    using that [OF res _ _ _ _ g0 c val] by blast
qed

definition limbs51 :: "fe \<Rightarrow> bool" where
  "limbs51 h = fe_below (2 ^ 51) h"

lemma carry_pass_steps:
  assumes "tight h"
  shows "limbs51 ((carry_pass ^^ 3) h)" and "cong_p (fe_val ((carry_pass ^^ 3) h)) (fe_val h)"
proof -
  have step: "cong_p (fe_val (carry_pass h)) (fe_val h) \<and>
      (case h of Fe h0 h1 h2 h3 h4 \<Rightarrow> case carry_pass h of Fe g0 g1 g2 g3 g4 \<Rightarrow>
        uint g1 < 2 ^ 51 \<and> uint g2 < 2 ^ 51 \<and> uint g3 < 2 ^ 51 \<and> uint g4 < 2 ^ 51 \<and>
        uint g0 < 2 ^ 51 + 57 \<and>
        (uint h0 < 2 ^ 51 + 57 \<and> uint h1 < 2 ^ 51 \<and> uint h2 < 2 ^ 51 \<and> uint h3 < 2 ^ 51 \<and> uint h4 < 2 ^ 51 \<longrightarrow>
          uint g0 < 2 ^ 51))"
    if below: "fe_below (2 ^ 52) h" for h
  proof -
    obtain h0 h1 h2 h3 h4 where h: "h = Fe h0 h1 h2 h3 h4" by (cases h)
    have lt: "uint h0 < 2 ^ 52" "uint h1 < 2 ^ 52" "uint h2 < 2 ^ 52" "uint h3 < 2 ^ 52" "uint h4 < 2 ^ 52"
      using below by (simp_all add: h)
    obtain g0 g1 g2 g3 g4 c where g: "carry_pass (Fe h0 h1 h2 h3 h4) = Fe g0 g1 g2 g3 g4"
      "uint g1 < 2 ^ 51" "uint g2 < 2 ^ 51" "uint g3 < 2 ^ 51" "uint g4 < 2 ^ 51"
      "uint g0 = uint h0 mod 2 ^ 51 + 19 * c" "0 \<le> c" "c < 4"
      "fe_val (Fe g0 g1 g2 g3 g4) = fe_val (Fe h0 h1 h2 h3 h4) - fe_p * c"
      "uint h0 < 2 ^ 51 \<longrightarrow> uint h1 < 2 ^ 51 \<longrightarrow> uint h2 < 2 ^ 51 \<longrightarrow> uint h3 < 2 ^ 51 \<longrightarrow> uint h4 < 2 ^ 51 \<longrightarrow> c = 0"
      using carry_pass_limbs [OF lt] by blast
    have cong: "cong_p (fe_val (carry_pass h)) (fe_val h)"
      unfolding h g(1) by (rule cong_pI [of _ _ "- c"]) (simp add: g(9) del: fe_val.simps)
    have m: "uint h0 mod 2 ^ 51 < 2 ^ 51" by simp
    have small: "uint g0 < 2 ^ 51"
      if le: "uint h0 < 2 ^ 51 + 57" "uint h1 < 2 ^ 51" "uint h2 < 2 ^ 51" "uint h3 < 2 ^ 51" "uint h4 < 2 ^ 51"
    proof (cases "uint h0 < 2 ^ 51")
      case True
      then have "c = 0" using g(10) le by blast
      then show ?thesis using g(6) m by simp
    next
      case False
      have "uint h0 mod 2 ^ 51 = uint h0 - 2 ^ 51"
      proof -
        have "uint h0 mod 2 ^ 51 = (uint h0 - 2 ^ 51) mod 2 ^ 51"
          using False by (intro mod_pos_geq) simp_all
        also have "\<dots> = uint h0 - 2 ^ 51"
          using False le(1) by (intro mod_pos_pos_trivial) simp_all
        finally show ?thesis .
      qed
      then show ?thesis using le(1) g(6,8) by simp
    qed
    have "uint g0 < 2 ^ 51 + 57" using g(6,8) m by linarith
    then show ?thesis
      using cong g(1-5) small unfolding h by simp
  qed
  define h1 where "h1 = carry_pass h"
  define h2 where "h2 = carry_pass h1"
  define h3 where "h3 = carry_pass h2"
  have h: "(carry_pass ^^ 3) h = h3" by (simp add: h1_def h2_def h3_def eval_nat_numeral)
  have "fe_below (2 ^ 52) h" using assms by (cases h) simp
  note s1 = step [OF this, folded h1_def]
  then have b1: "fe_below (2 ^ 52) h1" by (auto split: fe.splits)
  note s2 = step [OF b1, folded h2_def]
  have b2: "limbs51 h2" using s1 s2 by (auto simp add: limbs51_def split: fe.splits)
  then have "fe_below (2 ^ 52) h2" by (cases h2) (simp add: limbs51_def)
  note s3 = step [OF this, folded h3_def]
  show "limbs51 ((carry_pass ^^ 3) h)"
    unfolding h using b2 s3 by (auto simp add: limbs51_def split: fe.splits)
  show "cong_p (fe_val ((carry_pass ^^ 3) h)) (fe_val h)"
    unfolding h using s1 s2 s3 by (blast intro: cong_p_trans)
qed

text \<open>The trial subtraction of \<open>p\<close>.\<close>

lemma sub_limb_spec:
  assumes "uint h < 2 ^ 51" and "uint p < 2 ^ 51" and "b = 0 \<or> b = 1"
  obtains m b' where "sub_limb h p b = (m, b')" and "uint m < 2 ^ 51" and "b' = 0 \<or> b' = 1"
    and "uint h - uint p - uint b = uint m - 2 ^ 51 * uint b'"
proof -
  define d where "d = uint h - uint p - uint b"
  have b: "0 \<le> uint b" "uint b \<le> 1" using assms(3) by auto
  have d: "- (2 ^ 51) \<le> d" "d < 2 ^ 51"
    using assms(1,2) b uint_ge_0 [of h] uint_ge_0 [of p] unfolding d_def by linarith+
  have "h - p - b = of_int d" by (simp add: d_def)
  then have s: "sint (h - p - b) = d"
    using d by (simp add: signed_of_int signed_take_bit_int_eq_self)
  have "uint (h - p - b) = d mod 2 ^ 64"
    unfolding \<open>h - p - b = of_int d\<close> by (simp add: uint_word_of_int_eq take_bit_eq_mod)
  then have m: "uint ((h - p - b) AND kMask51) = d mod 2 ^ 51"
    unfolding uint_and51 by (simp add: mod_mod_cancel)
  have dm: "d mod 2 ^ 51 = (if d < 0 then d + 2 ^ 51 else d)"
  proof (cases "d < 0")
    case True
    have "d mod 2 ^ 51 = (d + 2 ^ 51) mod 2 ^ 51" by (simp only: mod_add_self2)
    also have "\<dots> = d + 2 ^ 51" using True d(1) by (intro mod_pos_pos_trivial) simp_all
    finally show ?thesis using True by simp
  next
    case False
    then show ?thesis using d(2) by (simp add: mod_pos_pos_trivial)
  qed
  show thesis
  proof (rule that)
    show "sub_limb h p b = ((h - p - b) AND kMask51, if d < 0 then 1 else 0)"
      by (simp add: sub_limb_def s)
    show "uint ((h - p - b) AND kMask51) < 2 ^ 51" unfolding m by simp
    show "(if d < 0 then 1 else 0) = (0 :: u64) \<or> (if d < 0 then 1 else 0) = (1 :: u64)" by simp
    show "uint h - uint p - uint b = uint ((h - p - b) AND kMask51) - 2 ^ 51 * uint (if d < 0 then 1 else 0 :: u64)"
      unfolding m dm d_def [symmetric] by simp
  qed
qed

lemma select_limb_spec: "select_limb (- 1) h m = h" "select_limb 0 h m = m"
  by (simp_all add: select_limb_def)

lemma reduce_p_spec:
  assumes "limbs51 h"
  shows "limbs51 (reduce_p h)" and "fe_val (reduce_p h) = fe_val h mod fe_p"
proof -
  obtain h0 h1 h2 h3 h4 where h: "h = Fe h0 h1 h2 h3 h4" by (cases h)
  have lt: "uint h0 < 2 ^ 51" "uint h1 < 2 ^ 51" "uint h2 < 2 ^ 51" "uint h3 < 2 ^ 51" "uint h4 < 2 ^ 51"
    using assms by (simp_all add: h limbs51_def)
  have k: "uint (kMask51 - 18) = 2 ^ 51 - 19" "uint kMask51 = 2 ^ 51 - 1"
    by (simp_all add: kMask51_def)
  have kl: "uint (kMask51 - 18) < 2 ^ 51" "uint kMask51 < 2 ^ 51" unfolding k by simp_all
  obtain m0 b0 where 0: "sub_limb h0 (kMask51 - 18) 0 = (m0, b0)" "uint m0 < 2 ^ 51" "b0 = 0 \<or> b0 = 1"
    "uint h0 - uint (kMask51 - 18) - uint (0 :: u64) = uint m0 - 2 ^ 51 * uint b0"
    using sub_limb_spec [OF lt(1) kl(1), of 0] by blast
  obtain m1 b1 where 1: "sub_limb h1 kMask51 b0 = (m1, b1)" "uint m1 < 2 ^ 51" "b1 = 0 \<or> b1 = 1"
    "uint h1 - uint kMask51 - uint b0 = uint m1 - 2 ^ 51 * uint b1"
    using sub_limb_spec [OF lt(2) kl(2) 0(3)] by blast
  obtain m2 b2 where 2: "sub_limb h2 kMask51 b1 = (m2, b2)" "uint m2 < 2 ^ 51" "b2 = 0 \<or> b2 = 1"
    "uint h2 - uint kMask51 - uint b1 = uint m2 - 2 ^ 51 * uint b2"
    using sub_limb_spec [OF lt(3) kl(2) 1(3)] by blast
  obtain m3 b3 where 3: "sub_limb h3 kMask51 b2 = (m3, b3)" "uint m3 < 2 ^ 51" "b3 = 0 \<or> b3 = 1"
    "uint h3 - uint kMask51 - uint b2 = uint m3 - 2 ^ 51 * uint b3"
    using sub_limb_spec [OF lt(4) kl(2) 2(3)] by blast
  obtain m4 b4 where 4: "sub_limb h4 kMask51 b3 = (m4, b4)" "uint m4 < 2 ^ 51" "b4 = 0 \<or> b4 = 1"
    "uint h4 - uint kMask51 - uint b3 = uint m4 - 2 ^ 51 * uint b4"
    using sub_limb_spec [OF lt(5) kl(2) 3(3)] by blast
  let ?m = "Fe m0 m1 m2 m3 m4"
  have res: "reduce_p h = (if b4 = 0 then ?m else h)"
    using 4(3) by (auto simp add: reduce_p_def sub_p_def h Let_def 0(1) 1(1) 2(1) 3(1) 4(1) select_limb_spec)
  have m: "limbs51 ?m" using 0(2) 1(2) 2(2) 3(2) 4(2) by (simp add: limbs51_def)
  then show "limbs51 (reduce_p h)" using assms by (simp add: res)
  have diff: "fe_val h - fe_p = fe_val ?m - 2 ^ 255 * uint b4"
    using 0(4) 1(4) 2(4) 3(4) 4(4) unfolding h fe_val.simps fe_p_def k by (simp add: algebra_simps)
  have range: "0 \<le> fe_val f" "fe_val f < 2 ^ 255" if "limbs51 f" for f
  proof -
    show "0 \<le> fe_val f" by (rule fe_val_nonneg)
    obtain a b c d e where f: "f = Fe a b c d e" by (cases f)
    have "uint a \<le> 2 ^ 51 - 1" "uint b \<le> 2 ^ 51 - 1" "uint c \<le> 2 ^ 51 - 1" "uint d \<le> 2 ^ 51 - 1" "uint e \<le> 2 ^ 51 - 1"
      using that by (simp_all add: limbs51_def f)
    then show "fe_val f < 2 ^ 255" unfolding f fe_val.simps by simp
  qed
  show "fe_val (reduce_p h) = fe_val h mod fe_p"
  proof (cases "b4 = 0")
    case True
    then have e: "fe_val h = fe_val ?m + fe_p" using diff by simp
    moreover have "fe_val ?m < fe_p" using range(2) [OF assms] unfolding e by (simp add: fe_p_def)
    ultimately show ?thesis using range(1) [OF m] True by (simp add: res mod_pos_pos_trivial)
  next
    case False
    then have "uint b4 = 1" using 4(3) by auto
    then have "fe_val h < fe_p" using diff range(2) [OF m] by simp
    then show ?thesis using range(1) [OF assms] False by (simp add: res mod_pos_pos_trivial)
  qed
qed

lemma fe_tobytes_spec:
  assumes "tight h"
  shows "uint (of_le_bytes (fe_tobytes h) :: 256 word) = fe_val h mod fe_p"
proof -
  note c = carry_pass_steps [OF assms]
  note r = reduce_p_spec [OF c(1)]
  show ?thesis
    using pack_limbs_val [OF r(1) [unfolded limbs51_def]] r(2) c(2)
    by (simp add: fe_tobytes_def cong_p_def)
qed

section \<open>The Montgomery ladder over the integers modulo \<open>p\<close>\<close>

text \<open>A point is given by projective coordinates \<open>(X, Z)\<close> of its \<open>u\<close> coordinate: doubling,
  differential addition, and the ladder that keeps \<open>(n P, (n + 1) P)\<close>.\<close>

type_synonym mont_point = "int \<times> int"

definition mont_dbl :: "mont_point \<Rightarrow> mont_point" where
  "mont_dbl P =
    (let (x, z) = P; aa = (x + z) ^ 2; bb = (x - z) ^ 2; e = aa - bb
     in (aa * bb mod fe_p, e * (aa + 121665 * e) mod fe_p))"

definition mont_add :: "int \<Rightarrow> mont_point \<Rightarrow> mont_point \<Rightarrow> mont_point" where
  "mont_add u P Q =
    (let (x2, z2) = P; (x3, z3) = Q; da = (x3 - z3) * (x2 + z2); cb = (x3 + z3) * (x2 - z2)
     in ((da + cb) ^ 2 mod fe_p, u * (da - cb) ^ 2 mod fe_p))"

definition mont_step :: "int \<Rightarrow> bool \<Rightarrow> mont_point \<times> mont_point \<Rightarrow> mont_point \<times> mont_point" where
  "mont_step u b s =
    (let (P, Q) = s
     in if b then (mont_add u P Q, mont_dbl Q) else (mont_dbl P, mont_add u P Q))"

definition mont_ladder :: "nat list \<Rightarrow> (nat \<Rightarrow> bool) \<Rightarrow> int \<Rightarrow> mont_point \<times> mont_point" where
  "mont_ladder ts n u = foldl (\<lambda>s t. mont_step u (n t) s) ((1, 0), (u, 1)) ts"

text \<open>The scalar multiplication on \<open>u\<close> coordinates: \<open>X / Z\<close> with \<open>1 / Z = Z^(p - 2)\<close>.\<close>

definition x25519_spec :: "(nat \<Rightarrow> bool) \<Rightarrow> int \<Rightarrow> int" where
  "x25519_spec n u =
    (let (X, Z) = fst (mont_ladder (rev [0..<255]) n u) in X * Z ^ (2 ^ 255 - 21) mod fe_p)"

lemma mont_add_sym: "mont_add u P Q = mont_add u Q P"
proof -
  obtain x2 z2 x3 z3 where P: "P = (x2, z2)" "Q = (x3, z3)" by (cases P; cases Q)
  have "(x3 - z3) * (x2 + z2) - (x3 + z3) * (x2 - z2) = - ((x2 - z2) * (x3 + z3) - (x2 + z2) * (x3 - z3))"
    by (simp add: algebra_simps)
  then have "((x3 - z3) * (x2 + z2) - (x3 + z3) * (x2 - z2)) ^ 2 =
      ((x2 - z2) * (x3 + z3) - (x2 + z2) * (x3 - z3)) ^ 2"
    by (simp only: power2_minus)
  moreover have "(x3 - z3) * (x2 + z2) + (x3 + z3) * (x2 - z2) = (x2 - z2) * (x3 + z3) + (x2 + z2) * (x3 - z3)"
    by (simp add: algebra_simps)
  ultimately show ?thesis by (simp only: mont_add_def P prod.case Let_def)
qed

definition fe_point :: "fe \<Rightarrow> fe \<Rightarrow> mont_point \<Rightarrow> bool" where
  "fe_point x z P \<longleftrightarrow> tight x \<and> tight z \<and> cong_p (fe_val x) (fst P) \<and> cong_p (fe_val z) (snd P)"

lemma cong_p_mod [simp]: "cong_p a (b mod fe_p) \<longleftrightarrow> cong_p a b"
  by (simp add: cong_p_def)

lemma cong_p_sq: "cong_p a b \<Longrightarrow> cong_p (a ^ 2) (b ^ 2)"
  by (rule cong_p_power)

lemma ladder_arith_spec:
  assumes x1: "tight x1" "cong_p (fe_val x1) u" and P: "fe_point x2 z2 P" and Q: "fe_point x3 z3 Q"
    and res: "ladder_arith x1 x2 z2 x3 z3 = (x2', z2', x3', z3')"
  shows "fe_point x2' z2' (mont_dbl P)" and "fe_point x3' z3' (mont_add u P Q)"
proof -
  have t: "tight x2" "tight z2" "tight x3" "tight z3" using P Q by (simp_all add: fe_point_def)
  have c: "cong_p (fe_val x2) (fst P)" "cong_p (fe_val z2) (snd P)" "cong_p (fe_val x3) (fst Q)"
    "cong_p (fe_val z3) (snd Q)"
    using P Q by (simp_all add: fe_point_def)
  define a where "a = fe_add x2 z2"
  define b where "b = fe_sub x2 z2"
  define cc where "cc = fe_add x3 z3"
  define d where "d = fe_sub x3 z3"
  define aa where "aa = fe_sq a"
  define bb where "bb = fe_sq b"
  define e2 where "e2 = fe_sub aa bb"
  define da where "da = fe_mul d a"
  define cb where "cb = fe_mul cc b"
  define s where "s = fe_mul_scalar e2 121665"
  let ?A = "fst P + snd P" and ?B = "fst P - snd P" and ?C = "fst Q + snd Q" and ?D = "fst Q - snd Q"
  have a: "loose a" "cong_p (fe_val a) ?A"
    unfolding a_def using fe_add_spec [OF t(1,2)] cong_p_add [OF c(1,2)] by simp_all
  have b: "loose b" "cong_p (fe_val b) ?B"
    unfolding b_def using fe_sub_spec [OF t(1,2)] cong_p_diff [OF c(1,2)] by (blast intro: cong_p_trans)+
  have cc: "loose cc" "cong_p (fe_val cc) ?C"
    unfolding cc_def using fe_add_spec [OF t(3,4)] cong_p_add [OF c(3,4)] by simp_all
  have d: "loose d" "cong_p (fe_val d) ?D"
    unfolding d_def using fe_sub_spec [OF t(3,4)] cong_p_diff [OF c(3,4)] by (blast intro: cong_p_trans)+
  have aa: "tight aa" "cong_p (fe_val aa) (?A ^ 2)"
    unfolding aa_def using fe_sq_spec [OF a(1)] cong_p_sq [OF a(2)] by (blast intro: cong_p_trans)+
  have bb: "tight bb" "cong_p (fe_val bb) (?B ^ 2)"
    unfolding bb_def using fe_sq_spec [OF b(1)] cong_p_sq [OF b(2)] by (blast intro: cong_p_trans)+
  let ?E = "?A ^ 2 - ?B ^ 2"
  have e2: "loose e2" "cong_p (fe_val e2) ?E"
    unfolding e2_def using fe_sub_spec [OF aa(1) bb(1)] cong_p_diff [OF aa(2) bb(2)]
    by (blast intro: cong_p_trans)+
  have da: "tight da" "cong_p (fe_val da) (?D * ?A)"
    unfolding da_def using fe_mul_spec [OF d(1) a(1)] cong_p_mult [OF d(2) a(2)] by (blast intro: cong_p_trans)+
  have cb: "tight cb" "cong_p (fe_val cb) (?C * ?B)"
    unfolding cb_def using fe_mul_spec [OF cc(1) b(1)] cong_p_mult [OF cc(2) b(2)] by (blast intro: cong_p_trans)+
  have "uint (121665 :: u64) = 121665" by simp
  then have s: "tight s" "cong_p (fe_val s) (121665 * ?E)"
    unfolding s_def using fe_mul_scalar_spec [OF e2(1), of 121665] cong_p_mult [OF e2(2) cong_p_refl [of 121665]]
    by (auto simp add: mult.commute intro: cong_p_trans)
  have sum: "loose (fe_add aa s)" "cong_p (fe_val (fe_add aa s)) (?A ^ 2 + 121665 * ?E)"
    using fe_add_spec [OF aa(1) s(1)] cong_p_add [OF aa(2) s(2)] by simp_all
  have z2': "tight (fe_mul e2 (fe_add aa s))"
    "cong_p (fe_val (fe_mul e2 (fe_add aa s))) (?E * (?A ^ 2 + 121665 * ?E))"
    using fe_mul_spec [OF e2(1) sum(1)] cong_p_mult [OF e2(2) sum(2)] by (blast intro: cong_p_trans)+
  have x2': "tight (fe_mul aa bb)" "cong_p (fe_val (fe_mul aa bb)) (?A ^ 2 * ?B ^ 2)"
    using fe_mul_spec [OF tight_loose [OF aa(1)] tight_loose [OF bb(1)]] cong_p_mult [OF aa(2) bb(2)]
    by (blast intro: cong_p_trans)+
  have sm: "loose (fe_add da cb)" "cong_p (fe_val (fe_add da cb)) (?D * ?A + ?C * ?B)"
    using fe_add_spec [OF da(1) cb(1)] cong_p_add [OF da(2) cb(2)] by simp_all
  have df: "loose (fe_sub da cb)" "cong_p (fe_val (fe_sub da cb)) (?D * ?A - ?C * ?B)"
    using fe_sub_spec [OF da(1) cb(1)] cong_p_diff [OF da(2) cb(2)] by (blast intro: cong_p_trans)+
  have x3': "tight (fe_sq (fe_add da cb))" "cong_p (fe_val (fe_sq (fe_add da cb))) ((?D * ?A + ?C * ?B) ^ 2)"
    using fe_sq_spec [OF sm(1)] cong_p_sq [OF sm(2)] by (blast intro: cong_p_trans)+
  have sq: "tight (fe_sq (fe_sub da cb))" "cong_p (fe_val (fe_sq (fe_sub da cb))) ((?D * ?A - ?C * ?B) ^ 2)"
    using fe_sq_spec [OF df(1)] cong_p_sq [OF df(2)] by (blast intro: cong_p_trans)+
  have z3': "tight (fe_mul x1 (fe_sq (fe_sub da cb)))"
    "cong_p (fe_val (fe_mul x1 (fe_sq (fe_sub da cb)))) (u * (?D * ?A - ?C * ?B) ^ 2)"
    using fe_mul_spec [OF tight_loose [OF x1(1)] tight_loose [OF sq(1)]] cong_p_mult [OF x1(2) sq(2)]
    by (blast intro: cong_p_trans)+
  have r: "x2' = fe_mul aa bb" "z2' = fe_mul e2 (fe_add aa s)" "x3' = fe_sq (fe_add da cb)"
    "z3' = fe_mul x1 (fe_sq (fe_sub da cb))"
    using res by (simp_all add: ladder_arith_def Let_def a_def b_def cc_def d_def aa_def bb_def e2_def
        da_def cb_def s_def)
  show "fe_point x2' z2' (mont_dbl P)"
    using x2' z2' by (cases P) (simp add: fe_point_def r mont_dbl_def Let_def)
  show "fe_point x3' z3' (mont_add u P Q)"
    using x3' z3' by (cases P; cases Q) (simp add: fe_point_def r mont_add_def Let_def)
qed

text \<open>The state of the loop: the two points, exchanged when \<open>swap\<close> is one.\<close>

definition ladder_rep :: "ladder_state \<Rightarrow> mont_point \<times> mont_point \<Rightarrow> bool" where
  "ladder_rep s m \<longleftrightarrow>
    (case s of (x2, z2, x3, z3, swap) \<Rightarrow>
       swap = 0 \<and> fe_point x2 z2 (fst m) \<and> fe_point x3 z3 (snd m) \<or>
       swap = 1 \<and> fe_point x2 z2 (snd m) \<and> fe_point x3 z3 (fst m))"

lemma ladder_step_rep:
  assumes x1: "tight x1" "cong_p (fe_val x1) u" and m: "ladder_rep s m"
    and kt: "kt = bit (of_le_bytes e :: 256 word) t" and e: "length e = 32" "t < 256"
  shows "ladder_rep (ladder_step e x1 s t) (mont_step u kt m)"
proof -
  obtain x2 z2 x3 z3 swap where s: "s = (x2, z2, x3, z3, swap)" by (cases s)
  obtain P Q where m': "m = (P, Q)" by (cases m)
  define b where "b = (ucast (drop_bit (t mod 8) (e ! (t div 8)) AND 1) :: u64)"
  have b: "b = of_bool kt"
  proof -
    have one: "ucast (w AND 1) = (of_bool (bit w 0) :: u64)" for w :: u8
      by (rule bit_word_eqI) (auto simp add: bit_simps)
    show ?thesis using e unfolding b_def one by (simp add: kt bit_of_le_bytes bit_drop_bit_eq)
  qed
  define y where "y = (if (swap = 1) = kt then (x2, z2, x3, z3) else (x3, z3, x2, z2))"
  obtain w2 v2 w3 v3 where y: "y = (w2, v2, w3, v3)" by (cases y)
  obtain n2 nz2 n3 nz3 where n: "ladder_arith x1 w2 v2 w3 v3 = (n2, nz2, n3, nz3)"
    by (cases "ladder_arith x1 w2 v2 w3 v3")
  have sw: "swap = 0 \<or> swap = 1" using m by (auto simp add: ladder_rep_def s)
  have step: "ladder_step e x1 s t = (n2, nz2, n3, nz3, b)"
    using sw y n unfolding ladder_step_def s Let_def prod.case b_def [symmetric] unfolding b
    by (cases kt) (auto simp add: y_def fe_cswap_spec split: if_splits)
  have pts: "if kt then fe_point w2 v2 Q \<and> fe_point w3 v3 P else fe_point w2 v2 P \<and> fe_point w3 v3 Q"
    using m y by (auto simp add: ladder_rep_def s m' y_def split: if_splits)
  show ?thesis
  proof (cases kt)
    case True
    then have "fe_point n2 nz2 (mont_dbl Q)" and "fe_point n3 nz3 (mont_add u Q P)"
      using ladder_arith_spec [OF x1 _ _ n, of Q P] pts by simp_all
    then show ?thesis
      unfolding step using True by (simp add: ladder_rep_def b m' mont_step_def mont_add_sym [of u Q P])
  next
    case False
    then have "fe_point n2 nz2 (mont_dbl P)" and "fe_point n3 nz3 (mont_add u P Q)"
      using ladder_arith_spec [OF x1 _ _ n, of P Q] pts by simp_all
    then show ?thesis
      unfolding step using False by (simp add: ladder_rep_def b m' mont_step_def)
  qed
qed

lemma ladder_run_rep:
  assumes "tight x1" and "cong_p (fe_val x1) u" and "ladder_rep s m" and "length e = 32"
    and "\<forall>t\<in>set ts. t < 256"
  shows "ladder_rep (foldl (ladder_step e x1) s ts)
    (foldl (\<lambda>m t. mont_step u (bit (of_le_bytes e :: 256 word) t) m) m ts)"
  using assms
proof (induction ts arbitrary: s m)
  case (Cons t ts)
  have "ladder_rep (ladder_step e x1 s t) (mont_step u (bit (of_le_bytes e :: 256 word) t) m)"
    using Cons.prems by (intro ladder_step_rep) simp_all
  then show ?case using Cons by simp
qed simp

text \<open>The clamped scalar: bits 0 to 2 and 255 cleared, bit 254 set.\<close>

definition clamped_bit :: "bytes \<Rightarrow> nat \<Rightarrow> bool" where
  "clamped_bit key t \<longleftrightarrow> t = 254 \<or> 3 \<le> t \<and> t < 254 \<and> bit (of_le_bytes key :: 256 word) t"

lemma clamp_bits:
  assumes "length key = 32" and "t < 256"
  shows "bit (of_le_bytes (clamp key) :: 256 word) t \<longleftrightarrow> clamped_bit key t"
proof -
  have len: "length (clamp key) = 32" using assms by (simp add: clamp_def Let_def)
  have byte: "clamp key ! i = (if i = 0 then key ! 0 AND 248 else if i = 31 then (key ! 31 AND 127) OR 64 else key ! i)"
    if "i < 32" for i
    using that assms(1) by (auto simp add: clamp_def Let_def nth_list_update)
  have i: "t div 8 < 32" using assms(2) by (simp add: less_mult_imp_div_less)
  have r: "t mod 8 < 8" by simp
  have lo: "bit (248 :: u8) r \<longleftrightarrow> 3 \<le> r" if "r < 8" for r
  proof -
    have "\<forall>r\<in>{0..<8}. bit (248 :: u8) r \<longleftrightarrow> 3 \<le> r" by code_simp
    then show ?thesis using that by simp
  qed
  have hi: "bit (127 :: u8) r \<longleftrightarrow> r \<noteq> 7" "bit (64 :: u8) r \<longleftrightarrow> r = 6" if "r < 8" for r
  proof -
    have "\<forall>r\<in>{0..<8}. (bit (127 :: u8) r \<longleftrightarrow> r \<noteq> 7) \<and> (bit (64 :: u8) r \<longleftrightarrow> r = 6)" by code_simp
    then show "bit (127 :: u8) r \<longleftrightarrow> r \<noteq> 7" "bit (64 :: u8) r \<longleftrightarrow> r = 6" using that by simp_all
  qed
  have t: "t = 8 * (t div 8) + t mod 8" by simp
  consider "t div 8 = 0" | "t div 8 = 31" | "t div 8 \<noteq> 0" "t div 8 \<noteq> 31" by blast
  then show ?thesis
  proof cases
    case 1
    then have "t < 8" and "t mod 8 = t" by simp_all
    then show ?thesis
      using 1 assms len i lo [OF r] by (auto simp add: bit_of_le_bytes byte clamped_bit_def bit_and_iff)
  next
    case 2
    then have "t = 248 + t mod 8" using t by simp
    then have "t mod 8 \<noteq> 7 \<longleftrightarrow> t < 255" "t mod 8 = 6 \<longleftrightarrow> t = 254" "3 \<le> t" using r assms(2) by linarith+
    then show ?thesis
      using 2 assms len i hi [OF r] by (auto simp add: bit_of_le_bytes byte clamped_bit_def bit_and_iff bit_or_iff)
  next
    case 3
    then have "8 \<le> t" "t < 248"
      using assms(2) by (auto simp add: not_less [symmetric] div_eq_0_iff dest: div_nat_eqI)
    then show ?thesis
      using 3 assms len i by (auto simp add: bit_of_le_bytes byte clamped_bit_def)
  qed
qed

section \<open>Property\<close>

text \<open>
  C4: X25519 is scalar multiplication on the Montgomery curve.  For a 32-byte private and peer
  key, the limb code with its lazy carries and conditional swaps returns, as little-endian
  bytes, the canonical representative of \<open>X / Z\<close> where \<open>(X, Z)\<close> comes from the plain Montgomery
  ladder (doubling and differential addition modulo \<open>2^255 - 19\<close>) over the bits of the clamped
  scalar; no limb overflows on the way.
\<close>

theorem x25519_is_ladder:
  assumes "length key = 32" and "length peer_key = 32"
  shows "uint (of_le_bytes (snd (x25519 key peer_key)) :: 256 word) =
    x25519_spec (clamped_bit key) (uint (of_le_bytes peer_key :: 256 word) mod 2 ^ 255)"
proof -
  define e where "e = clamp key"
  define x1 where "x1 = fe_frombytes peer_key"
  define u where "u = uint (of_le_bytes peer_key :: 256 word) mod 2 ^ 255"
  have e: "length e = 32" using assms(1) by (simp add: e_def clamp_def Let_def)
  have x1: "tight x1" "cong_p (fe_val x1) u"
    using fe_frombytes_spec [OF assms(2)] by (cases x1; simp add: x1_def u_def)+
  have "ladder_rep (Fe 1 0 0 0 0, Fe 0 0 0 0 0, x1, Fe 1 0 0 0 0, 0) ((1, 0), (u, 1))"
    using x1 by (simp add: ladder_rep_def fe_point_def)
  from ladder_run_rep [OF x1 this e, of "rev [0..<255]"]
  have rep: "ladder_rep (foldl (ladder_step e x1) (Fe 1 0 0 0 0, Fe 0 0 0 0 0, x1, Fe 1 0 0 0 0, 0) (rev [0..<255]))
      (mont_ladder (rev [0..<255]) (bit (of_le_bytes e :: 256 word)) u)"
    by (simp add: mont_ladder_def)
  moreover have "mont_ladder (rev [0..<255]) (bit (of_le_bytes e :: 256 word)) u =
      mont_ladder (rev [0..<255]) (clamped_bit key) u"
    unfolding mont_ladder_def by (rule foldl_cong) (simp_all add: e_def clamp_bits assms(1))
  ultimately obtain x2 z2 x3 z3 swap P Q where
    run: "foldl (ladder_step e x1) (Fe 1 0 0 0 0, Fe 0 0 0 0 0, x1, Fe 1 0 0 0 0, 0) (rev [0..<255]) =
      (x2, z2, x3, z3, swap)"
    and lad: "mont_ladder (rev [0..<255]) (clamped_bit key) u = (P, Q)"
    and rep: "ladder_rep (x2, z2, x3, z3, swap) (P, Q)"
    by (metis prod.exhaust)
  obtain a b where ab: "fst (fe_cswap x2 x3 swap) = a" "fst (fe_cswap z2 z3 swap) = b" by blast
  have pt: "fe_point a b P" using rep ab by (auto simp add: ladder_rep_def fe_cswap_spec)
  have out: "snd (x25519 key peer_key) = fe_tobytes (fe_mul a (fe_inv b))"
    unfolding x25519_def Let_def e_def [symmetric] x1_def [symmetric] run prod.case
    using ab by (auto split: prod.split)
  have t: "tight a" "tight b" using pt by (simp_all add: fe_point_def)
  note inv = fe_inv_spec [OF t(2)]
  note m = fe_mul_spec [OF tight_loose [OF t(1)] tight_loose [OF inv(2)]]
  have "cong_p (fe_val (fe_mul a (fe_inv b))) (fst P * snd P ^ (2 ^ 255 - 21))"
    using m(1) inv(1) pt unfolding fe_point_def by (blast intro: cong_p_trans cong_p_mult cong_p_power)
  then show ?thesis
    unfolding out fe_tobytes_spec [OF m(2)] x25519_spec_def u_def [symmetric] lad
    by (cases P) (simp add: cong_p_def)
qed

theorem x25519_is_ladder_witness:
  "uint (of_le_bytes (snd (x25519 (replicate 32 77) (replicate 32 9))) :: 256 word) =
    x25519_spec (clamped_bit (replicate 32 77)) (uint (of_le_bytes (replicate 32 9) :: 256 word) mod 2 ^ 255)"
  by (rule x25519_is_ladder; rule length_replicate)

end
