(* ===== verification/Reports.thy ===== *)
theory Reports
  imports Reassembler
begin

text \<open>
  The receiver reports of \<open>report.cpp\<close>: what the receiver measures in an interval and packs into
  a payload, and what the sender makes of it, with the pruning and retransmission of its
  pending packets.
\<close>

definition kMinCeSamples :: u64 where "kMinCeSamples = 20"
definition kMaxRetries :: u32 where "kMaxRetries = 10"

section \<open>Missing sequence numbers\<close>

text \<open>The cursor steps over a gap and the received numbers behind it.\<close>

definition skip_gap :: "u32 \<Rightarrow> seq_track \<Rightarrow> seq_track" where
  "skip_gap g s =
    (if m_seq_initialized s \<and> g = m_next_expected_seq s
     then advance_cursor (s\<lparr>m_next_expected_seq := m_next_expected_seq s + 1\<rparr>) else s)"

definition forget_gap :: "u32 \<Rightarrow> seq_track \<Rightarrow> seq_track" where
  "forget_gap g s =
    s\<lparr>m_missing_channel := om_erase g (m_missing_channel s), m_missing_seqs := om_erase g (m_missing_seqs s)\<rparr>"

text \<open>One entry of the table of missing numbers: dropped, given up, reported as lost or left
  for the next interval.\<close>

definition gap_step ::
  "time \<Rightarrow> peer_conf \<Rightarrow> int \<Rightarrow> u32 \<Rightarrow> seq_track \<times> u32 list \<Rightarrow> u32 \<times> time \<Rightarrow> seq_track \<times> u32 list" where
  "gap_step now conf give_up_us loss_threshold st entry =
    (let (s, lost) = st; (g, since) = entry;
         elapsed_us = (now - since) sdiv 1000;
         gch = (case om_find (m_missing_channel s) g of None \<Rightarrow> 0 | Some c \<Rightarrow> c);
         reliable = (gch < 8 \<and> m_channel_reliable conf ! unat gch \<and> m_peer_retransmit conf)
     in if \<not> reliable then (forget_gap g (skip_gap g s), lost)
        else if elapsed_us > give_up_us then (forget_gap g s, lost)
        else if elapsed_us > uint loss_threshold then (skip_gap g s, lost @ [g])
        else (s, lost))"

text \<open>At most 4096 entries are kept; the smallest numbers go first.\<close>

definition trim_missing :: "seq_track \<Rightarrow> seq_track" where
  "trim_missing s =
    (let n = length (m_missing_seqs s) - 4096; gone = map fst (take n (m_missing_seqs s))
     in s\<lparr>m_missing_seqs := drop n (m_missing_seqs s),
          m_missing_channel := foldl (\<lambda>m g. om_erase g m) (m_missing_channel s) gone\<rparr>)"

definition loss_threshold_of :: "u32 \<Rightarrow> u32" where
  "loss_threshold_of sender_rtt_us =
    (let rtt_threshold = (if sender_rtt_us > 0 then sender_rtt_us else 10000)
     in if rtt_threshold < 10000 then 100000 else rtt_threshold * 7 div 2)"

definition scan_gaps :: "time \<Rightarrow> int \<Rightarrow> peer \<Rightarrow> seq_track \<times> u32 list" where
  "scan_gaps now interval_ms p =
    (let loss_threshold = loss_threshold_of (p_sender_rtt_us p);
         give_up_us = (milliseconds (interval_ms * (uint kMaxRetries + 2))) sdiv 1000;
         (s, lost) = foldl (gap_step now (p_conf p) give_up_us loss_threshold) (p_seq p, [])
                       (m_missing_seqs (p_seq p))
     in (trim_missing s, lost))"

section \<open>Lateness\<close>

text \<open>The middle of the first histogram bin at which the running count exceeds the target.\<close>

fun find_p50 :: "u64 \<Rightarrow> u64 \<Rightarrow> nat \<Rightarrow> u32 list \<Rightarrow> u64" where
  "find_p50 target cum b [] = 0"
| "find_p50 target cum b (c # cs) =
    (let cum = cum + ucast c
     in if cum > target then of_nat b * 8000 + 4000 else find_p50 target cum (Suc b) cs)"

text \<open>Samples above the line; the bin of the line counts in proportion.\<close>

definition over_line :: "u64 \<Rightarrow> u32 list \<Rightarrow> u64" where
  "over_line line_us hist =
    (let line_bin = unat (line_us div 8000) in
     if line_bin + 1 < length hist
     then sum_list (map ucast (drop (line_bin + 1) hist)) +
          ucast (hist ! line_bin) * (8000 - (line_us - of_nat line_bin * 8000)) div 8000
     else 0)"

text \<open>The late ratio, the median transit time and the new late line.\<close>

definition late_summary :: "u32 \<Rightarrow> u64 \<Rightarrow> late_stats \<Rightarrow> late_stats \<times> f64 \<times> u64" where
  "late_summary late_buffer_ms lost_for_late s =
    (if late_buffer_ms > 0 \<and> m_hist_samples s > 0
     then let p50_us = find_p50 (m_hist_samples s div 2) 0 0 (m_latency_hist s);
              line_us = p50_us + ucast late_buffer_ms * 1000;
              over = over_line line_us (m_latency_hist s);
              denom = m_hist_samples s + lost_for_late;
              late_ratio = fdiv (f64_of_u64 (over + lost_for_late))
                             (f64_of_u64 (if denom > 0 then denom else 1));
              late_ratio = (if late_ratio > 1 then 1 else late_ratio)
          in (s\<lparr>m_late_line_us := line_us\<rparr>, late_ratio, p50_us)
     else let denom = m_transit_samples s + lost_for_late
          in (s, fdiv (f64_of_u64 (m_late_samples s + lost_for_late))
                   (f64_of_u64 (if denom > 0 then denom else 1)), 0))"

definition clear_late :: "late_stats \<Rightarrow> late_stats" where
  "clear_late s = s\<lparr>m_transit_samples := 0, m_late_samples := 0,
     m_latency_hist := replicate (length (m_latency_hist s)) 0, m_hist_samples := 0\<rparr>"

definition loss_ratio_of :: "u32 \<Rightarrow> u32 \<Rightarrow> u16" where
  "loss_ratio_of cursor_advance lost =
    (if cursor_advance > 0 \<and> lost > 0
     then ucast (min 10000 (ucast (ucast lost * 10000 div ucast cursor_advance :: u64)) :: u32)
     else 0)"

section \<open>The payload\<close>

text \<open>What an interval amounts to.\<close>

record interval =
  iv_ack :: u32
  iv_ratio :: u16
  iv_lost :: "u32 list"
  iv_probe_bw :: u64
  iv_loss :: u16
  iv_p50_us :: u64

definition collect :: "time \<Rightarrow> int \<Rightarrow> u32 \<Rightarrow> peer \<Rightarrow> peer \<times> interval" where
  "collect now interval_ms late_buffer_ms p =
    (let cursor_before = (if m_seq_initialized (p_seq p) then m_next_expected_seq (p_seq p) else 0);
         (s, lost) = scan_gaps now interval_ms p;
         lost_n = of_nat (length lost) :: u32;
         lost_for_late = (if m_ce_marks (p_rx p) > 0 then 0 else ucast lost_n) :: u64;
         (late, late_ratio, p50_us) = late_summary late_buffer_ms lost_for_late (p_late p);
         ratio_val = of_int \<lfloor>fmul late_ratio 10000\<rfloor> :: u16;
         ack_seq = (if m_seq_initialized s
                    then (if m_next_expected_seq s > 0 then m_next_expected_seq s - 1 else 0) else 0);
         loss = loss_ratio_of (ack_seq + 1 - cursor_before) lost_n;
         probe = finalize_probe_train now (p_probe p)
     in (p\<lparr>p_seq := s, p_late := clear_late late, p_probe := probe\<lparr>m_probe_bw_bps := 0\<rparr>\<rparr>,
         \<lparr> iv_ack = ack_seq, iv_ratio = ratio_val, iv_lost = lost, iv_probe_bw = m_probe_bw_bps probe,
           iv_loss = loss, iv_p50_us = p50_us \<rparr>))"

text \<open>The delivery rate and the share of marked packets, each with its minimum sample.\<close>

definition recv_rate_of :: "int \<Rightarrow> rx_count \<Rightarrow> u64" where
  "recv_rate_of interval_ms c =
    (if m_recv_bytes c \<ge> 4096 then m_recv_bytes c * 1000 div of_int (max interval_ms 1) else 0)"

definition ce_ratio_of :: "rx_count \<Rightarrow> u64" where
  "ce_ratio_of c =
    (let marked = m_ce_marks c; both = marked + m_data_pkts c
     in if both \<ge> kMinCeSamples
        then (if both > 0 then min (marked * 10000 div both) 10000 else 0) else 0)"

definition lost_count_of :: "u32 list \<Rightarrow> u16" where
  "lost_count_of lost = (let n = of_nat (length lost) :: u16 in if n > 256 then 256 else n)"

definition put_all :: "(bytes \<Rightarrow> nat \<Rightarrow> 'a \<Rightarrow> bytes) \<Rightarrow> nat \<Rightarrow> nat \<Rightarrow> 'a list \<Rightarrow> bytes \<Rightarrow> bytes" where
  "put_all put off step xs p = foldl (\<lambda>p i. put p (off + i * step) (xs ! i)) p [0..<length xs]"

definition put_pair :: "bytes \<Rightarrow> nat \<Rightarrow> u16 \<times> u16 \<Rightarrow> bytes" where
  "put_pair p off fd = put16 (put16 p off (fst fd)) (off + 2) (snd fd)"

definition report_head :: "interval \<Rightarrow> u64 \<Rightarrow> u64 \<Rightarrow> bytes" where
  "report_head iv recv_rate ce =
    (let lost_count = lost_count_of (iv_lost iv); n = unat lost_count;
         payload = replicate (16 + n * 4 + 14) 0;
         payload = put32 payload 0 (iv_ack iv);
         payload = put16 payload 4 (iv_ratio iv);
         payload = put16 payload 6 lost_count;
         payload = put32 payload 8 0;
         payload = put_all put32 12 4 (take n (iv_lost iv)) payload;
         payload = put32 payload (12 + n * 4) (ucast (iv_probe_bw iv AND 0xFFFFFFFF));
         payload = put32 payload (16 + n * 4) (ucast (recv_rate AND 0xFFFFFFFF));
         payload = put16 payload (22 + n * 4) (ucast ce);
         payload = put16 payload (20 + n * 4) (iv_loss iv)
     in put16 payload (24 + n * 4) (ucast (iv_p50_us iv div 1000)))"

text \<open>The statistics of frames: a histogram in lite mode, otherwise a list of pairs.\<close>

definition report_frames :: "bool \<Rightarrow> nat \<Rightarrow> frame_stats \<Rightarrow> bytes \<Rightarrow> bytes" where
  "report_frames lite_mode base f payload =
    (let payload = resize0 payload (base + 1 + 2 + 64 + 1 + 4 * 48);
         payload = put8 payload base (if lite_mode then 0 else 1);
         payload = put16 payload (base + 1) (ucast (min (m_frame_max_bytes f) 65535))
     in if lite_mode
        then let payload = put_all put8 (base + 3) 1
                   (map (\<lambda>c. ucast (if c > 255 then 255 else c)) (m_frame_latency_hist f)) payload
             in take (base + 3 + 64) payload
        else let n = min (length (m_frame_pairs f)) 48;
                 payload = put8 payload (base + 3) (of_nat n);
                 payload = put_all put_pair (base + 4) 4 (take n (m_frame_pairs f)) payload
             in take (base + 4 + n * 4) payload)"

definition clear_frames :: "frame_stats \<Rightarrow> frame_stats" where
  "clear_frames f = f\<lparr>m_frame_latency_hist := replicate (length (m_frame_latency_hist f)) 0,
     m_frame_hist_samples := 0, m_frame_max_bytes := 0, m_frame_pairs := []\<rparr>"

definition build_payload :: "time \<Rightarrow> int \<Rightarrow> u32 \<Rightarrow> bool \<Rightarrow> peer \<Rightarrow> peer \<times> bytes" where
  "build_payload now interval_ms late_buffer_ms lite_mode p =
    (let (p, iv) = collect now interval_ms late_buffer_ms p;
         payload = report_head iv (recv_rate_of interval_ms (p_rx p)) (ce_ratio_of (p_rx p));
         p = p\<lparr>p_rx := (p_rx p)\<lparr>m_recv_bytes := 0, m_ce_marks := 0, m_data_pkts := 0\<rparr>\<rparr>;
         base = 12 + unat (lost_count_of (iv_lost iv)) * 4 + 14;
         payload = report_frames lite_mode base (p_frames p) payload
     in (p\<lparr>p_frames := clear_frames (p_frames p)\<rparr>, payload))"

section \<open>Handling a report\<close>

record report_result =
  rr_probe_bw :: u64
  rr_recv_rate :: u64
  rr_loss_ratio :: u16
  rr_ce_ratio :: u16
  rr_frame_lite :: bool
  rr_frame_hist :: "u32 list"
  rr_frame_hist_samples :: u32
  rr_frame_max_bytes :: u32
  rr_frame_pairs :: "(u16 \<times> u16) list"

definition report_result0 :: report_result where
  "report_result0 = \<lparr> rr_probe_bw = 0, rr_recv_rate = 0, rr_loss_ratio = 0, rr_ce_ratio = 0,
     rr_frame_lite = True, rr_frame_hist = replicate 64 0, rr_frame_hist_samples = 0,
     rr_frame_max_bytes = 0, rr_frame_pairs = [] \<rparr>"

definition parse_frames :: "bytes \<Rightarrow> nat \<Rightarrow> report_result \<Rightarrow> report_result" where
  "parse_frames payload fbase r =
    (if length payload \<ge> fbase + 1
     then let r = r\<lparr>rr_frame_lite := (payload ! fbase AND 1 = 0)\<rparr>
          in if rr_frame_lite r
             then (if length payload \<ge> fbase + 3 + 64
                   then let hist = map (\<lambda>b. ucast (payload ! (fbase + 3 + b))) [0..<64]
                        in r\<lparr>rr_frame_max_bytes := ucast (get16 payload (fbase + 1)),
                             rr_frame_hist := hist,
                             rr_frame_hist_samples := rr_frame_hist_samples r + sum_list hist\<rparr>
                   else r)
             else if length payload \<ge> fbase + 4
             then let r = r\<lparr>rr_frame_max_bytes := ucast (get16 payload (fbase + 1))\<rparr>;
                      n = min (unat (payload ! (fbase + 3))) 48
                  in if length payload \<ge> fbase + 4 + n * 4
                     then r\<lparr>rr_frame_pairs := rr_frame_pairs r @
                            map (\<lambda>i. (get16 payload (fbase + 4 + i * 4), get16 payload (fbase + 6 + i * 4))) [0..<n]\<rparr>
                     else r
             else r
     else r)"

definition parse_result :: "bytes \<Rightarrow> nat \<Rightarrow> report_result \<times> u16" where
  "parse_result payload expected =
    (let size = length payload;
         r = report_result0\<lparr>
           rr_probe_bw := if size \<ge> expected + 4 then ucast (get32 payload expected) else 0,
           rr_recv_rate := if size \<ge> expected + 8 then ucast (get32 payload (expected + 4)) else 0,
           rr_loss_ratio := if size \<ge> expected + 10 then get16 payload (expected + 8) else 0,
           rr_ce_ratio := if size \<ge> expected + 12 then get16 payload (expected + 10) else 0\<rparr>;
         p50_ms = (if size \<ge> expected + 14 then get16 payload (expected + 12) else 0)
     in (parse_frames payload (expected + 14) r, p50_ms))"

text \<open>One retransmission: the callback gets the stored packet, and its entry counts it.\<close>

definition count_retry :: "time \<Rightarrow> u32 \<Rightarrow> (u32, pending_send) omap \<Rightarrow> (u32, pending_send) omap" where
  "count_retry now k m =
    (case om_find m k of
       Some e \<Rightarrow> if ps_retries e < kMaxRetries
                 then om_set k (e\<lparr>ps_last_send := now, ps_retries := ps_retries e + 1\<rparr>) m else m
     | None \<Rightarrow> m)"

definition resend_lost ::
  "time \<Rightarrow> u32 \<Rightarrow> u32 list \<Rightarrow> (u32, pending_send) omap \<Rightarrow> (u32, pending_send) omap \<times> (packet_header \<times> bytes) list" where
  "resend_lost now ack_seq lost m =
    (let snapshot = filter (\<lambda>(k, e). k \<in> set lost \<and> ps_retries e < kMaxRetries) m;
         m = filter (\<lambda>(k, e). \<not> (k \<le> ack_seq \<and> k \<notin> set lost \<or> ps_retries e \<ge> kMaxRetries)) m
     in (foldl (\<lambda>m e. count_retry now (fst e) m) m snapshot,
         map (\<lambda>(k, e). (ps_header e, ps_payload e)) snapshot))"

definition report_handle ::
  "time \<Rightarrow> bytes \<Rightarrow> peer \<Rightarrow> peer \<times> report_result \<times> (packet_header \<times> bytes) list" where
  "report_handle now payload p =
    (if length payload < 12 then (p, report_result0, [])
     else
       let ack_seq = get32 payload 0;
           late_ratio_raw = get16 payload 4;
           lost_count = unat (get16 payload 6);
           expected = 12 + lost_count * 4
       in if length payload < expected then (p, report_result0, [])
          else
            let (result, p50_ms) = parse_result payload expected;
                ratio = fdiv (f64_of_int (uint late_ratio_raw)) 10000;
                ratio = (if ratio < 0 then 0 else ratio);
                ratio = (if ratio > 1 then 1 else ratio);
                p = p\<lparr>p_fec := (p_fec p)\<lparr>m_peer_late_ratio := ratio, m_have_late_report := True,
                                         m_peer_p50_ms := p50_ms\<rparr>\<rparr>;
                lost = map (\<lambda>i. get32 payload (12 + i * 4)) [0..<lost_count];
                (pending, resent) = resend_lost now ack_seq lost (p_pending p)
            in (p\<lparr>p_pending := pending\<rparr>, result, resent))"

section \<open>Retransmissions\<close>

lemma om_ok_distinct: "om_ok m \<Longrightarrow> distinct (map fst m)"
  by (induction m) (fastforce simp add: om_ok_Cons)+

definition retried :: "time \<Rightarrow> pending_send \<Rightarrow> pending_send" where
  "retried now e =
    (if ps_retries e < kMaxRetries then e\<lparr>ps_last_send := now, ps_retries := ps_retries e + 1\<rparr> else e)"

lemma count_retry_ok: "om_ok m \<Longrightarrow> om_ok (count_retry now k m)"
  by (simp add: count_retry_def split: option.split)

lemma count_retry_find:
  "om_ok m \<Longrightarrow> om_find (count_retry now k m) j =
     (if j = k then map_option (retried now) (om_find m j) else om_find m j)"
  by (auto simp add: count_retry_def retried_def om_find_set split: option.split)

lemma count_retries_find:
  "om_ok m \<Longrightarrow> distinct (map fst xs) \<Longrightarrow>
   om_ok (foldl (\<lambda>m e. count_retry now (fst e) m) m xs) \<and>
   om_find (foldl (\<lambda>m e. count_retry now (fst e) m) m xs) j =
     (if j \<in> fst ` set xs then map_option (retried now) (om_find m j) else om_find m j)"
proof (induction xs arbitrary: m)
  case (Cons x xs)
  then show ?case
    by (auto simp add: count_retry_ok count_retry_find)
qed simp

text \<open>What a report does to a pending packet.\<close>

lemma resend_lost_spec:
  assumes "om_ok m"
  shows "om_ok (fst (resend_lost now ack lost m))"
    and "om_find (fst (resend_lost now ack lost m)) k =
      (case om_find m k of
         None \<Rightarrow> None
       | Some e \<Rightarrow> if ps_retries e \<ge> kMaxRetries \<or> k \<le> ack \<and> k \<notin> set lost then None
                   else if k \<in> set lost then Some (e\<lparr>ps_last_send := now, ps_retries := ps_retries e + 1\<rparr>)
                   else Some e)"
    and "snd (resend_lost now ack lost m) =
      map (\<lambda>(k, e). (ps_header e, ps_payload e)) (filter (\<lambda>(k, e). k \<in> set lost \<and> ps_retries e < kMaxRetries) m)"
proof -
  define snap where "snap = filter (\<lambda>(k, e). k \<in> set lost \<and> ps_retries e < kMaxRetries) m"
  define kept where
    "kept = filter (\<lambda>(k, e). \<not> (k \<le> ack \<and> k \<notin> set lost \<or> ps_retries e \<ge> kMaxRetries)) m"
  have res: "resend_lost now ack lost m =
      (foldl (\<lambda>m e. count_retry now (fst e) m) kept snap, map (\<lambda>(k, e). (ps_header e, ps_payload e)) snap)"
    unfolding resend_lost_def Let_def snap_def kept_def by (rule refl)
  have ok: "om_ok kept" and d: "distinct (map fst snap)"
    using om_ok_filter [OF assms] om_ok_distinct [OF om_ok_filter [OF assms]] by (simp_all add: kept_def snap_def)
  show "om_ok (fst (resend_lost now ack lost m))" using count_retries_find [OF ok d] by (simp add: res)
  have mem: "k \<in> fst ` set snap \<longleftrightarrow> (\<exists>e. om_find m k = Some e \<and> k \<in> set lost \<and> ps_retries e < kMaxRetries)"
    by (force simp add: snap_def om_find_mem [OF assms])
  have kept_find: "om_find kept k = (case om_find m k of None \<Rightarrow> None
      | Some e \<Rightarrow> if \<not> (k \<le> ack \<and> k \<notin> set lost \<or> ps_retries e \<ge> kMaxRetries) then Some e else None)"
    unfolding kept_def by (simp add: om_find_filter [OF assms] split: option.split)
  show "om_find (fst (resend_lost now ack lost m)) k =
      (case om_find m k of
         None \<Rightarrow> None
       | Some e \<Rightarrow> if ps_retries e \<ge> kMaxRetries \<or> k \<le> ack \<and> k \<notin> set lost then None
                   else if k \<in> set lost then Some (e\<lparr>ps_last_send := now, ps_retries := ps_retries e + 1\<rparr>)
                   else Some e)"
    using count_retries_find [OF ok d, of now k]
    by (auto simp add: res mem kept_find retried_def not_le split: option.split)
  show "snd (resend_lost now ack lost m) =
      map (\<lambda>(k, e). (ps_header e, ps_payload e)) (filter (\<lambda>(k, e). k \<in> set lost \<and> ps_retries e < kMaxRetries) m)"
    by (simp add: res snap_def)
qed

text \<open>What is left of the retransmission budget.\<close>

definition budget :: "(u32, pending_send) omap \<Rightarrow> nat" where
  "budget m = sum_list (map (\<lambda>(k, e). unat (kMaxRetries - min kMaxRetries (ps_retries e))) m)"

lemma budget_Nil [simp]: "budget [] = 0"
  and budget_Cons [simp]: "budget ((k, e) # m) = unat (kMaxRetries - min kMaxRetries (ps_retries e)) + budget m"
  by (simp_all add: budget_def)

lemma budget_set:
  "om_ok m \<Longrightarrow> om_find m k = Some e \<Longrightarrow> ps_retries e < kMaxRetries \<Longrightarrow>
     Suc (budget (om_set k (e\<lparr>ps_last_send := now, ps_retries := ps_retries e + 1\<rparr>) m)) = budget m"
proof (induction m)
  case (Cons x m)
  obtain a v where x: "x = (a, v)" by (cases x)
  show ?case
  proof (cases "a = k")
    case True
    then have v: "v = e" using Cons.prems by (simp add: x)
    have lt: "unat (ps_retries e) < 10" using Cons.prems(3) by (simp add: kMaxRetries_def word_less_nat_alt)
    then have s: "unat (ps_retries e + 1) = Suc (unat (ps_retries e))" by (simp add: unat_word_ariths)
    have u: "unat (kMaxRetries - min kMaxRetries r) = 10 - min 10 (unat r)" for r
      by (simp add: kMaxRetries_def min_def word_le_nat_alt unat_sub)
    show ?thesis using True lt by (simp add: x v u s)
  next
    case False
    have "om_ok m" and gt: "\<forall>e\<in>set m. a < fst e" using Cons.prems by (auto simp add: x om_ok_Cons)
    have "(k, e) \<in> set m" using False Cons.prems(2) by (auto simp add: x dest: map_of_SomeD)
    then have "a < k" using gt by auto
    then show ?thesis using Cons False by (auto simp add: x om_ok_Cons)
  qed
qed simp

lemma budget_filter: "budget (filter P m) \<le> budget m"
  by (induction m) auto

lemma budget_count_retries:
  "om_ok m \<Longrightarrow> distinct (map fst xs) \<Longrightarrow>
   (\<And>k e. (k, e) \<in> set xs \<Longrightarrow> om_find m k = Some e \<and> ps_retries e < kMaxRetries) \<Longrightarrow>
   budget (foldl (\<lambda>m e. count_retry now (fst e) m) m xs) + length xs = budget m"
proof (induction xs arbitrary: m)
  case (Cons x xs)
  obtain k e where x: "x = (k, e)" by (cases x)
  have h: "om_find m k = Some e" "ps_retries e < kMaxRetries" using Cons.prems(3) [of k e] by (simp_all add: x)
  have b: "Suc (budget (count_retry now k m)) = budget m"
    using budget_set [OF Cons.prems(1) h, of now] h by (simp add: count_retry_def)
  have "om_find (count_retry now k m) j = Some f \<and> ps_retries f < kMaxRetries" if "(j, f) \<in> set xs" for j f
  proof -
    have "j \<noteq> k" using that Cons.prems(2) by (force simp add: x)
    then show ?thesis using Cons.prems(3) [of j f] that by (simp add: count_retry_find Cons.prems(1))
  qed
  then show ?case
    using Cons.IH [OF count_retry_ok [OF Cons.prems(1)]] Cons.prems(2) b by (force simp add: x)
qed simp

lemma resend_lost_budget:
  assumes "om_ok m"
  shows "budget (fst (resend_lost now ack lost m)) + length (snd (resend_lost now ack lost m)) \<le> budget m"
proof -
  define snap where "snap = filter (\<lambda>(k, e). k \<in> set lost \<and> ps_retries e < kMaxRetries) m"
  define kept where
    "kept = filter (\<lambda>(k, e). \<not> (k \<le> ack \<and> k \<notin> set lost \<or> ps_retries e \<ge> kMaxRetries)) m"
  have "budget (foldl (\<lambda>m e. count_retry now (fst e) m) kept snap) + length snap = budget kept"
    using om_ok_filter [OF assms] om_ok_distinct [OF om_ok_filter [OF assms]]
    by (intro budget_count_retries)
      (auto simp add: kept_def snap_def om_find_filter [OF assms] om_find_mem [OF assms] not_le split: option.split)
  moreover have "budget kept \<le> budget m" unfolding kept_def by (rule budget_filter)
  moreover have "resend_lost now ack lost m =
      (foldl (\<lambda>m e. count_retry now (fst e) m) kept snap, map (\<lambda>(k, e). (ps_header e, ps_payload e)) snap)"
    unfolding resend_lost_def Let_def snap_def kept_def by (rule refl)
  ultimately show ?thesis by simp
qed

fun run_reports :: "(time \<times> bytes) list \<Rightarrow> peer \<Rightarrow> peer \<times> (packet_header \<times> bytes) list" where
  "run_reports [] p = (p, [])"
| "run_reports ((now, payload) # rs) p =
    (let (p, r, out) = report_handle now payload p; (p, outs) = run_reports rs p in (p, out @ outs))"

lemma report_handle_budget:
  assumes "om_ok (p_pending p)" and "report_handle now payload p = (p', r, out)"
  shows "om_ok (p_pending p')" and "budget (p_pending p') + length out \<le> budget (p_pending p)"
proof -
  define ack where "ack = get32 payload 0"
  define lost where "lost = map (\<lambda>i. get32 payload (12 + i * 4)) [0..<unat (get16 payload 6)]"
  have "(p_pending p', out) = (p_pending p, []) \<or> (p_pending p', out) = resend_lost now ack lost (p_pending p)"
    using assms(2) by (auto simp add: report_handle_def ack_def lost_def Let_def split: if_splits prod.splits)
  then have "p_pending p' = p_pending p \<and> out = [] \<or>
      p_pending p' = fst (resend_lost now ack lost (p_pending p)) \<and> out = snd (resend_lost now ack lost (p_pending p))"
    by (metis Pair_inject prod.collapse)
  then show "om_ok (p_pending p')" and "budget (p_pending p') + length out \<le> budget (p_pending p)"
    using resend_lost_spec(1) [OF assms(1)] resend_lost_budget [OF assms(1)] assms(1) by auto
qed

lemma run_reports_budget:
  "om_ok (p_pending p) \<Longrightarrow> length (snd (run_reports rs p)) \<le> budget (p_pending p)"
proof (induction rs arbitrary: p)
  case (Cons x rs)
  obtain now payload where x: "x = (now, payload)" by (cases x)
  obtain p' r out where h: "report_handle now payload p = (p', r, out)" by (cases "report_handle now payload p")
  obtain p2 outs where rest: "run_reports rs p' = (p2, outs)" by (cases "run_reports rs p'")
  note b = report_handle_budget [OF Cons.prems h]
  have "length outs \<le> budget (p_pending p')" using Cons.IH [OF b(1)] by (simp add: rest)
  then show ?case using b(2) by (simp add: x h rest)
qed simp

lemma budget_bound: "budget m \<le> 10 * length m"
proof (induction m)
  case (Cons x m)
  have "unat (kMaxRetries - min kMaxRetries r) \<le> 10" for r
    by (simp add: kMaxRetries_def min_def word_le_nat_alt unat_sub)
  then show ?case using Cons by (cases x) (simp add: add_mono)
qed simp

section \<open>Layout of the payload\<close>

lemma get_put_other:
  "o2 + n \<le> off \<or> off + length bs \<le> o2 \<Longrightarrow> off + length bs \<le> length buf \<Longrightarrow>
     get_at (put_at buf off bs) o2 n = get_at buf o2 n"
  using get_put_before get_put_after by blast

lemma put_at_twice:
  "off + length xs + length ys \<le> length p \<Longrightarrow> put_at (put_at p off xs) (off + length xs) ys = put_at p off (xs @ ys)"
  by (simp add: put_at_def ac_simps)

text \<open>Consecutive fields of one size are one block.\<close>

lemma put_all_block:
  assumes put: "\<And>p off v. off + step \<le> length p \<Longrightarrow> put p off v = put_at p off (enc v)"
    and len: "\<And>v. length (enc v) = step"
  shows "off + length xs * step \<le> length p \<Longrightarrow> put_all put off step xs p = put_at p off (concat (map enc xs))"
proof (induction xs rule: rev_induct)
  case Nil
  then show ?case by (simp add: put_all_def put_at_def)
next
  case (snoc x xs)
  have cl: "length (concat (map enc xs)) = length xs * step" by (induction xs) (simp_all add: len)
  have "put_all put off step (xs @ [x]) p = put (put_all put off step xs p) (off + length xs * step) x"
  proof -
    have "foldl (\<lambda>p i. put p (off + i * step) ((xs @ [x]) ! i)) p [0..<length xs] =
        foldl (\<lambda>p i. put p (off + i * step) (xs ! i)) p [0..<length xs]"
      by (rule foldl_cong) (simp_all add: nth_append)
    then show ?thesis by (simp add: put_all_def)
  qed
  also have "\<dots> = put_at (put_at p off (concat (map enc xs))) (off + length xs * step) (enc x)"
    using snoc by (simp add: put cl)
  also have "\<dots> = put_at p off (concat (map enc (xs @ [x])))"
    using put_at_twice [of off "concat (map enc xs)" "enc x" p] snoc.prems by (simp add: cl len)
  finally show ?case .
qed

lemma get_concat:
  assumes "\<And>v. length (enc v) = step"
  shows "i < length xs \<Longrightarrow> get_at (concat (map enc xs)) (i * step) step = enc (xs ! i)"
proof (induction xs arbitrary: i)
  case (Cons x xs)
  then show ?case using assms [of x]
    by (cases i) (simp_all add: get_at_def)
qed simp

lemma get_put_inside:
  "off + length bs \<le> length buf \<Longrightarrow> k + n \<le> length bs \<Longrightarrow> get_at (put_at buf off bs) (off + k) n = get_at bs k n"
  by (simp add: put_at_def get_at_def)

lemma length_concat_enc: "(\<And>v. length (enc v) = step) \<Longrightarrow> length (concat (map enc xs)) = length xs * step"
  by (induction xs) simp_all

lemma lost_count_le: "unat (lost_count_of lost) \<le> length lost"
proof -
  have "length lost mod 65536 \<le> length lost" by (rule mod_less_eq_dividend)
  then have "256 < length lost mod 65536 \<Longrightarrow> 256 \<le> length lost" by linarith
  then show ?thesis by (auto simp add: lost_count_of_def Let_def unat_of_nat word_less_nat_alt)
qed

lemma nth_get_at: "i < length xs \<Longrightarrow> xs ! i = hd (get_at xs i 1)"
  by (simp add: get_at_def hd_drop_conv_nth)

definition be32 :: "u32 \<Rightarrow> bytes" where "be32 v = le_bytes 4 (to_be32 v)"
definition be16 :: "u16 \<Rightarrow> bytes" where "be16 v = le_bytes 2 (to_be16 v)"

lemma put_be: "put32 p off v = put_at p off (be32 v)" "put16 p off h = put_at p off (be16 h)"
  by (simp_all add: put32_def put16_def be32_def be16_def)

lemma length_be [simp]: "length (be32 v) = 4" "length (be16 h) = 2"
  by (simp_all add: be32_def be16_def)

lemma get_be: "get_at p off 4 = be32 v \<Longrightarrow> get32 p off = v" "get_at p off 2 = be16 h \<Longrightarrow> get16 p off = h"
  by (simp_all add: get32_def get16_def be32_def be16_def of_le_bytes_le_bytes)

text \<open>The fields of the head, each at its offset.\<close>

lemma report_head_fields:
  fixes iv r ce
  defines "n \<equiv> unat (lost_count_of (iv_lost iv))" and "h \<equiv> report_head iv r ce"
  shows "length h = 30 + n * 4"
    and "get_at h 0 4 = be32 (iv_ack iv)"
    and "get_at h 4 2 = be16 (iv_ratio iv)"
    and "get_at h 6 2 = be16 (lost_count_of (iv_lost iv))"
    and "i < n \<Longrightarrow> get_at h (12 + i * 4) 4 = be32 (iv_lost iv ! i)"
    and "get_at h (12 + n * 4) 4 = be32 (ucast (iv_probe_bw iv AND 0xFFFFFFFF))"
    and "get_at h (16 + n * 4) 4 = be32 (ucast (r AND 0xFFFFFFFF))"
    and "get_at h (20 + n * 4) 2 = be16 (iv_loss iv)"
    and "get_at h (22 + n * 4) 2 = be16 (ucast ce)"
    and "get_at h (24 + n * 4) 2 = be16 (ucast (iv_p50_us iv div 1000))"
proof -
  define xs where "xs = take n (iv_lost iv)"
  have xs: "length xs = n" using lost_count_le [of "iv_lost iv"] by (simp add: xs_def n_def)
  have cl: "length (concat (map be32 xs)) = n * 4" by (simp add: length_concat_enc xs)
  have h: "h = put_at (put_at (put_at (put_at (put_at (put_at (put_at (put_at (put_at (put_at
      (replicate (30 + n * 4) 0) 0 (be32 (iv_ack iv))) 4 (be16 (iv_ratio iv)))
      6 (be16 (lost_count_of (iv_lost iv)))) 8 (be32 0)) 12 (concat (map be32 xs)))
      (12 + n * 4) (be32 (ucast (iv_probe_bw iv AND 0xFFFFFFFF))))
      (16 + n * 4) (be32 (ucast (r AND 0xFFFFFFFF)))) (22 + n * 4) (be16 (ucast ce)))
      (20 + n * 4) (be16 (iv_loss iv))) (24 + n * 4) (be16 (ucast (iv_p50_us iv div 1000)))"
    unfolding h_def report_head_def Let_def n_def [symmetric] xs_def [symmetric] put_be
    by (subst put_all_block [where enc = be32]) (simp_all add: put_be xs)
  show "length h = 30 + n * 4" by (simp add: h cl)
  show "get_at h 0 4 = be32 (iv_ack iv)" "get_at h 4 2 = be16 (iv_ratio iv)"
    "get_at h 6 2 = be16 (lost_count_of (iv_lost iv))"
    "get_at h (12 + n * 4) 4 = be32 (ucast (iv_probe_bw iv AND 0xFFFFFFFF))"
    "get_at h (16 + n * 4) 4 = be32 (ucast (r AND 0xFFFFFFFF))"
    "get_at h (20 + n * 4) 2 = be16 (iv_loss iv)"
    "get_at h (22 + n * 4) 2 = be16 (ucast ce)"
    "get_at h (24 + n * 4) 2 = be16 (ucast (iv_p50_us iv div 1000))"
    by (simp_all add: h cl get_put_other get_put_same)
  show "get_at h (12 + i * 4) 4 = be32 (iv_lost iv ! i)" if i: "i < n"
  proof -
    have "get_at h (12 + i * 4) 4 = get_at (concat (map be32 xs)) (i * 4) 4"
      using i by (simp add: h cl get_put_other get_put_inside)
    then show ?thesis using get_concat [of be32 4 i xs] i by (simp add: xs) (simp add: xs_def)
  qed
qed

text \<open>The statistics of frames, behind the head.\<close>

lemma get_at_take: "o2 + n \<le> k \<Longrightarrow> get_at (take k xs) o2 n = get_at xs o2 n"
  by (simp add: get_at_def drop_take)

lemma get_at_resize: "o2 + n \<le> length h \<Longrightarrow> length h \<le> k \<Longrightarrow> get_at (resize0 h k) o2 n = get_at h o2 n"
  by (auto simp add: get_at_def resize0_def)

lemma put8_block: "put8 p off v = put_at p off [v]"
  by (simp add: put8_def)

definition frame_bytes :: "frame_stats \<Rightarrow> bytes" where
  "frame_bytes f = map (\<lambda>c. ucast (if c > 255 then 255 else c)) (m_frame_latency_hist f)"

definition frame_max :: "frame_stats \<Rightarrow> u16" where
  "frame_max f = ucast (min (m_frame_max_bytes f) 65535)"

lemma report_frames_lite:
  assumes "length (m_frame_latency_hist f) = 64"
  shows "report_frames True base f h =
    take (base + 67) (put_at (put_at (put_at (resize0 h (base + 260)) base [0]) (base + 1) (be16 (frame_max f)))
      (base + 3) (frame_bytes f))"
proof -
  have c: "concat (map (\<lambda>b. [b]) xs) = xs" for xs :: bytes by (induction xs) simp_all
  have "length (frame_bytes f) = 64" using assms by (simp add: frame_bytes_def)
  then show ?thesis
    unfolding report_frames_def Let_def put_be put8_block frame_bytes_def [symmetric] frame_max_def [symmetric]
    by (subst put_all_block [where enc = "\<lambda>b. [b]"]) (simp_all add: c put8_block ac_simps)
qed

definition pair_bytes :: "u16 \<times> u16 \<Rightarrow> bytes" where
  "pair_bytes fd = be16 (fst fd) @ be16 (snd fd)"

lemma length_pair_bytes [simp]: "length (pair_bytes fd) = 4"
  by (simp add: pair_bytes_def)

lemma put_pair_block: "off + 4 \<le> length p \<Longrightarrow> put_pair p off fd = put_at p off (pair_bytes fd)"
  using put_at_twice [of off "be16 (fst fd)" "be16 (snd fd)" p] by (simp add: put_pair_def put_be pair_bytes_def)

lemma report_frames_full:
  fixes f
  defines "n \<equiv> min (length (m_frame_pairs f)) 48"
  shows "report_frames False base f h =
    take (base + 4 + n * 4) (put_at (put_at (put_at (put_at (resize0 h (base + 260)) base [1]) (base + 1)
      (be16 (frame_max f))) (base + 3) [of_nat n]) (base + 4) (concat (map pair_bytes (take n (m_frame_pairs f)))))"
proof -
  have n: "length (take n (m_frame_pairs f)) = n" "n \<le> 48" by (simp_all add: n_def)
  show ?thesis
    unfolding report_frames_def Let_def put_be put8_block frame_max_def [symmetric] n_def [symmetric]
    using n by (subst put_all_block [where enc = pair_bytes]) (simp_all add: put_pair_block ac_simps)
qed

lemma report_frames_head:
  assumes "o2 + n \<le> base" and "base \<le> length h" and "length h \<le> base + 260"
    and "length (m_frame_latency_hist f) = 64"
  shows "get_at (report_frames lite base f h) o2 n = get_at h o2 n"
proof (cases lite)
  case True
  have "length (frame_bytes f) = 64" by (simp add: frame_bytes_def assms)
  then show ?thesis using assms True
    by (simp add: report_frames_lite get_at_take get_put_other get_at_resize)
next
  case False
  have "length (concat (map pair_bytes (take (min (length (m_frame_pairs f)) 48) (m_frame_pairs f)))) \<le> 192"
    by (simp add: length_concat_enc)
  then show ?thesis using assms False
    by (simp add: report_frames_full get_at_take get_put_other get_at_resize)
qed

lemma length_report_frames:
  assumes "length (m_frame_latency_hist f) = 64"
  shows "length (report_frames True base f h) = base + 67"
    and "length (report_frames False base f h) = base + 4 + min (length (m_frame_pairs f)) 48 * 4"
proof -
  have "length (frame_bytes f) = 64" by (simp add: frame_bytes_def assms)
  then show "length (report_frames True base f h) = base + 67"
    by (simp add: report_frames_lite assms)
  have "length (concat (map pair_bytes (take (min (length (m_frame_pairs f)) 48) (m_frame_pairs f)))) =
      min (length (m_frame_pairs f)) 48 * 4"
    by (simp add: length_concat_enc)
  then show "length (report_frames False base f h) = base + 4 + min (length (m_frame_pairs f)) 48 * 4"
    by (simp add: report_frames_full)
qed

text \<open>What the sender reads from the statistics of frames.\<close>

lemma ucast_back:
  "ucast (ucast c :: u8) = take_bit 8 (c :: u32)" "ucast (ucast c :: u16) = take_bit 16 (c :: u32)"
  by (auto intro!: bit_word_eqI simp add: bit_simps)

lemma parse_frames_lite:
  assumes hist: "length (m_frame_latency_hist f) = 64"
  shows "parse_frames (report_frames True base f h) base r =
    r\<lparr>rr_frame_lite := True, rr_frame_max_bytes := ucast (frame_max f),
      rr_frame_hist := map (min 255) (m_frame_latency_hist f),
      rr_frame_hist_samples := rr_frame_hist_samples r + sum_list (map (min 255) (m_frame_latency_hist f))\<rparr>"
proof -
  define P where "P = report_frames True base f h"
  have fb: "length (frame_bytes f) = 64" by (simp add: frame_bytes_def hist)
  have P: "P = take (base + 67) (put_at (put_at (put_at (resize0 h (base + 260)) base [0]) (base + 1)
      (be16 (frame_max f))) (base + 3) (frame_bytes f))"
    by (simp add: P_def report_frames_lite hist)
  have len: "length P = base + 67" by (simp add: P_def length_report_frames hist)
  have flag: "P ! base = 0"
    using fb by (simp add: nth_get_at len) (simp add: P get_at_take get_put_other get_put_same)
  have mx: "get16 P (base + 1) = frame_max f"
    using fb by (intro get_be) (simp add: P get_at_take get_put_other get_put_same)
  have "P ! (base + 3 + b) = frame_bytes f ! b" if "b < 64" for b
    using that fb by (simp add: P put_at_def nth_append)
  then have "map (\<lambda>b. ucast (P ! (base + 3 + b)) :: u32) [0..<64] = map (\<lambda>b. ucast (frame_bytes f ! b)) [0..<64]"
    by simp
  also have "\<dots> = map ucast (frame_bytes f)"
    using map_nth [of "frame_bytes f"] fb by (metis map_map comp_apply map_cong)
  also have "\<dots> = map (min 255) (m_frame_latency_hist f)"
  proof -
    have "ucast (ucast (if c > 255 then 255 else c) :: u8) = min 255 c" for c :: u32
    proof (cases "c > 255")
      case False
      then have "unat c < 2 ^ 8" by (simp add: word_less_nat_alt not_less)
      then have "unat (take_bit 8 c) = unat c" by (simp add: unsigned_take_bit_eq take_bit_nat_eq_self)
      then have "take_bit 8 c = c" by (simp only: word_unat_eq_iff)
      then show ?thesis using False by (auto simp add: ucast_back min_def)
    qed (auto simp add: min_def)
    then show ?thesis by (simp add: frame_bytes_def)
  qed
  finally have hs: "map (\<lambda>b. ucast (P ! (base + 3 + b)) :: u32) [0..<64] = map (min 255) (m_frame_latency_hist f)" .
  show ?thesis
    unfolding P_def [symmetric] parse_frames_def Let_def hs by (simp add: len flag mx [simplified])
qed

lemma parse_frames_full:
  assumes hist: "length (m_frame_latency_hist f) = 64"
  shows "parse_frames (report_frames False base f h) base r =
    r\<lparr>rr_frame_lite := False, rr_frame_max_bytes := ucast (frame_max f),
      rr_frame_pairs := rr_frame_pairs r @ take 48 (m_frame_pairs f)\<rparr>"
proof -
  define P n xs where "P = report_frames False base f h" and "n = min (length (m_frame_pairs f)) 48"
    and "xs = take 48 (m_frame_pairs f)"
  have n: "length xs = n" "n \<le> 48" "take n (m_frame_pairs f) = xs" by (simp_all add: n_def xs_def min_def)
  have cl: "length (concat (map pair_bytes xs)) = n * 4" by (simp add: length_concat_enc n)
  have P: "P = take (base + 4 + n * 4) (put_at (put_at (put_at (put_at (resize0 h (base + 260)) base [1]) (base + 1)
      (be16 (frame_max f))) (base + 3) [of_nat n]) (base + 4) (concat (map pair_bytes xs)))"
    unfolding P_def report_frames_full n_def [symmetric] n(3) by (rule refl)
  have len: "length P = base + 4 + n * 4" using n(2) by (simp add: P cl)
  have flag: "P ! base = 1" and cnt: "P ! (base + 3) = of_nat n"
    using n(2) by (simp_all add: nth_get_at len) (simp_all add: P cl get_at_take get_put_other get_put_same)
  have mx: "get16 P (base + 1) = frame_max f"
    using n(2) by (intro get_be) (simp add: P cl get_at_take get_put_other get_put_same)
  have "(get16 P (base + 4 + i * 4), get16 P (base + 6 + i * 4)) = xs ! i" if i: "i < n" for i
  proof -
    have "get_at P (base + 4 + i * 4) 4 = get_at (concat (map pair_bytes xs)) (i * 4) 4"
      using i n(2) by (simp add: P cl get_at_take get_put_inside)
    then have g: "get_at P (base + 4 + i * 4) 4 = pair_bytes (xs ! i)"
      using get_concat [of pair_bytes 4 i xs] i n by simp
    have "get_at P (base + 4 + i * 4) 2 = take 2 (pair_bytes (xs ! i))"
      unfolding g [symmetric] by (simp add: get_at_def)
    moreover have "get_at P (base + 6 + i * 4) 2 = drop 2 (pair_bytes (xs ! i))"
      unfolding g [symmetric] by (simp add: get_at_def drop_take ac_simps)
    ultimately show ?thesis by (simp add: pair_bytes_def get_be prod_eq_iff)
  qed
  then have ps: "map (\<lambda>i. (get16 P (base + 4 + i * 4), get16 P (base + 6 + i * 4))) [0..<n] = xs"
    by (simp add: n(1) list_eq_iff_nth_eq)
  have un: "unat (of_nat n :: u8) = n" using n(2) by (simp add: unat_of_nat)
  show ?thesis
    unfolding P_def [symmetric] xs_def [symmetric] parse_frames_def Let_def cnt un
    using n(2) by (simp add: len flag mx [simplified] ps min_def)
qed

section \<open>Properties\<close>


text \<open>
  A report keeps a pending packet exactly when it is neither acknowledged nor out of retries,
  counts the retry of one it names as lost, and resends exactly those; a report that is too short
  changes nothing.
\<close>

theorem report_prunes_and_resends:
  assumes "om_ok (p_pending p)" and "report_handle now payload p = (p', r, out)"
  shows "let ack = get32 payload 0; n = unat (get16 payload 6);
             lost = map (\<lambda>i. get32 payload (12 + i * 4)) [0..<n];
             ok = (12 \<le> length payload \<and> 12 + n * 4 \<le> length payload) in
    om_find (p_pending p') k =
      (case om_find (p_pending p) k of None \<Rightarrow> None
       | Some e \<Rightarrow>
           if \<not> ok then Some e
           else if ps_retries e \<ge> kMaxRetries \<or> k \<le> ack \<and> k \<notin> set lost then None
           else if k \<in> set lost then Some (e\<lparr>ps_last_send := now, ps_retries := ps_retries e + 1\<rparr>)
           else Some e) \<and>
    ((h, b) \<in> set out \<longleftrightarrow> ok \<and>
      (\<exists>j e. j \<in> set lost \<and> om_find (p_pending p) j = Some e \<and> ps_retries e < kMaxRetries \<and>
        ps_header e = h \<and> ps_payload e = b))"
proof -
  define ack n where "ack = get32 payload 0" and "n = unat (get16 payload 6)"
  define lost where "lost = map (\<lambda>i. get32 payload (12 + i * 4)) [0..<n]"
  show ?thesis
  proof (cases "12 \<le> length payload \<and> 12 + n * 4 \<le> length payload")
    case False
    then have "(p, report_result0, []) = (p', r, out)"
      using assms(2) unfolding report_handle_def Let_def n_def by (simp split: if_splits)
    then have "p' = p" "out = []" by simp_all
    then show ?thesis using False by (auto simp add: Let_def n_def split: option.split)
  next
    case True
    then have "(p_pending p', out) = resend_lost now ack lost (p_pending p)"
      using assms(2)
      by (auto simp add: report_handle_def ack_def lost_def n_def Let_def split: prod.splits)
    then have e: "p_pending p' = fst (resend_lost now ack lost (p_pending p))" "out = snd (resend_lost now ack lost (p_pending p))"
      by (metis fst_conv, metis snd_conv)
    have resent: "(h, b) \<in> set out \<longleftrightarrow> (\<exists>j e. j \<in> set lost \<and> om_find (p_pending p) j = Some e \<and>
        ps_retries e < kMaxRetries \<and> ps_header e = h \<and> ps_payload e = b)"
      by (force simp add: e resend_lost_spec(3) [OF assms(1)] om_find_mem [OF assms(1)])
    show ?thesis
      unfolding Let_def n_def [symmetric] ack_def [symmetric] lost_def [symmetric] resent
      by (simp only: True e(1) resend_lost_spec(2) [OF assms(1)]) (simp split: option.split)
  qed
qed

text \<open>
  C16: retransmission ends.  Whatever reports arrive, in whatever order, they make the sender
  retransmit at most ten times the packets that were pending when the first of them arrived.
\<close>

theorem retransmissions_bounded:
  assumes "om_ok (p_pending p)"
  shows "length (snd (run_reports rs p)) \<le> 10 * length (p_pending p)"
  using run_reports_budget [OF assms, of rs] budget_bound [of "p_pending p"] by linarith

section \<open>Examples\<close>

text \<open>A receiver that misses number 5 of a reliable channel for 200 ms, and the sender of it.\<close>

definition ex_rx :: peer where
  "ex_rx = peer0\<lparr>
     p_seq := seq_track0\<lparr>m_missing_seqs := [(5, 0)], m_missing_channel := [(5, 2)], m_recv_seqs := [6, 7],
                         m_next_expected_seq := 5, m_seq_initialized := True\<rparr>,
     p_conf := (p_conf peer0)\<lparr>m_channel_reliable := replicate 8 True\<rparr>\<rparr>"

definition ex_tx :: peer where
  "ex_tx = peer0\<lparr>p_pending := map (\<lambda>k. (k, \<lparr>ps_header = header0\<lparr>h_sequence := k\<rparr>, ps_payload = [7], ps_last_send = 0,
     ps_bytes = 49, ps_retries = 0\<rparr>)) [4, 5, 6, 8]\<rparr>"

definition ex_report :: bytes where
  "ex_report = snd (build_payload (milliseconds 200) 100 0 True ex_rx)"

lemma collect_scan:
  "iv_lost (snd (collect now ms lb p)) = snd (scan_gaps now ms p)"
  "iv_ack (snd (collect now ms lb p)) =
     (let s = fst (scan_gaps now ms p) in
      if m_seq_initialized s then (if m_next_expected_seq s > 0 then m_next_expected_seq s - 1 else 0) else 0)"
  by (simp_all add: collect_def Let_def split: prod.split)

lemma ex_collect: "iv_lost (snd (collect (milliseconds 200) 100 0 ex_rx)) = [5]"
  "iv_ack (snd (collect (milliseconds 200) 100 0 ex_rx)) = 7"
  unfolding collect_scan by code_simp+


lemma ex_tx_ok: "om_ok (p_pending ex_tx)"
  by (simp add: ex_tx_def om_ok_def)

lemma report_prunes_and_resends_witness:
  "let q2 = fst (report_handle 9 (replicate 7 0 @ [4] @ replicate 4 0 @ concat (map be32 [5, 1, 2, 3])) ex_tx) in
     map_option ps_retries (om_find (p_pending q2) 5) = Some 1"
proof -
  define payload where "payload = replicate 7 0 @ [4] @ replicate 4 0 @ concat (map be32 [5, 1, 2, 3])"
  obtain q2 r out where h: "report_handle 9 payload ex_tx = (q2, r, out)" by (metis prod_cases3)
  have f: "om_find (p_pending ex_tx) 5 = Some \<lparr>ps_header = header0\<lparr>h_sequence := 5\<rparr>, ps_payload = [7],
      ps_last_send = 0, ps_bytes = 49, ps_retries = 0\<rparr>"
    by (simp add: ex_tx_def)
  have n: "get16 payload 6 = 4" and l: "length payload = 28" and e: "get32 payload 12 = 5"
    unfolding payload_def by code_simp+
  have "[0..<4] = [0, 1, 2, 3::nat]" by (simp add: upt_rec)
  then have "5 \<in> set (map (\<lambda>i. get32 payload (12 + i * 4)) [0..<4])" by (simp add: e)
  then show ?thesis
    unfolding payload_def [symmetric] h
    using report_prunes_and_resends [OF ex_tx_ok h, of 5 header0 "[]"] f n l
    by (simp add: Let_def kMaxRetries_def)
qed

lemma retransmissions_bounded_witness:
  "length (snd (run_reports [(1, ex_report), (2, ex_report), (3, [])] ex_tx)) \<le> 40"
  using retransmissions_bounded [OF ex_tx_ok, of "[(1, ex_report), (2, ex_report), (3, [])]"]
  by (simp add: ex_tx_def)

end
