(* ===== verification/Secure_Path.thy ===== *)
theory Secure_Path
  imports Peer Packet_Codec Aes_Gcm Sha256 Curve25519
begin

text \<open>
  The encrypted data path of \<open>transport.cpp\<close>: the session key derived from the X25519 exchange,
  the nonce of a packet, the datagram built around the ciphertext and its opening at the receiver.
  Headers travel in the clear and are the associated data of the authenticated encryption.
\<close>

section \<open>Operations\<close>

record session =
  m_crypto_ready :: bool
  m_crypto_key :: bytes

definition session0 :: session where
  "session0 = \<lparr> m_crypto_ready = False, m_crypto_key = replicate 32 0 \<rparr>"

definition kDataKeyInfo :: bytes where "kDataKeyInfo = map of_char ''tight-data-key-v1''"

text \<open>A low-order point leaves the session as it was.  The salt holds both client identifiers, the
  smaller one first.\<close>

definition derive_session_key :: "bytes \<Rightarrow> u32 \<Rightarrow> bytes \<Rightarrow> u32 \<Rightarrow> session \<Rightarrow> session" where
  "derive_session_key private_key local_client_id peer_pub peer_client_id s =
    (let (ok, shared) = x25519 private_key peer_pub in
     if \<not> ok then s
     else let lo = min local_client_id peer_client_id; hi = max local_client_id peer_client_id;
              salt = map (\<lambda>i. ucast (drop_bit (i * 8) lo AND 0xFF)) [0..<4] @
                     map (\<lambda>i. ucast (drop_bit (i * 8) hi AND 0xFF)) [0..<4]
          in s\<lparr>m_crypto_key := hkdf_sha256 shared (Some salt) kDataKeyInfo, m_crypto_ready := True\<rparr>)"

definition build_nonce :: "packet_header \<Rightarrow> bytes" where
  "build_nonce h =
    (let n = put32 (replicate 12 0) 0 (h_client_id h) in
     if h_type h = Command
     then (put32 n 4 (h_sequence h))[8 := packet_type_byte (h_type h)]
     else (put16 (put32 n 4 (h_message_id h)) 8 (h_fragment_index h))[10 := packet_type_byte (h_type h)])"

text \<open>The size field is 16 bits wide: a payload of 65520 bytes or more would not fit with its tag,
  and the MTU keeps payloads far below that.\<close>

definition build_wire_packet :: "bool \<Rightarrow> session \<Rightarrow> packet_header \<Rightarrow> bytes \<Rightarrow> bytes" where
  "build_wire_packet encryption_enabled s h payload =
    (let encrypted = encryption_enabled \<and> m_crypto_ready s;
         wire = (if encrypted
                 then h\<lparr>h_flags := h_flags h OR kFlagEncrypted,
                        h_payload_size := of_nat (length payload + kGcmTagSize)\<rparr>
                 else h);
         datagram = encode_header_to wire (replicate (kHeaderSize + unat (h_payload_size wire)) 0);
         datagram =
           (if \<not> encrypted
            then (if payload \<noteq> [] then put_at datagram kHeaderSize payload else datagram)
            else let (ct, tag) = aes256_gcm_encrypt (m_crypto_key s) (build_nonce wire)
                                   (take (kHeaderSize - 4) datagram) payload
                 in put_at (put_at datagram kHeaderSize ct) (kHeaderSize + length payload) tag)
     in finalize_crc datagram (length datagram))"

definition decrypt_payload :: "session \<Rightarrow> packet_header \<Rightarrow> bytes \<Rightarrow> (packet_header \<times> bytes) option" where
  "decrypt_payload s h payload =
    (if \<not> m_crypto_ready s then None
     else if length payload < kGcmTagSize then None
     else
       let ct_len = length payload - kGcmTagSize;
           aad = snd (encode_to h [] (replicate kHeaderSize 0))
       in case aes256_gcm_decrypt (m_crypto_key s) (build_nonce h) (take (kHeaderSize - 4) aad)
                 (take ct_len payload) (drop ct_len payload) of
            None \<Rightarrow> None
          | Some pt \<Rightarrow> Some (h\<lparr>h_payload_size := of_nat ct_len, h_flags := h_flags h AND NOT kFlagEncrypted\<rparr>, pt))"

text \<open>What the receiver does with a datagram before it dispatches on the type: decoding, then
  decryption if the flag says so.\<close>

definition open_datagram :: "session \<Rightarrow> bytes \<Rightarrow> (packet_header \<times> bytes) option" where
  "open_datagram s d =
    (case decode d of
       None \<Rightarrow> None
     | Some (h, payload) \<Rightarrow>
         if h_flags h AND kFlagEncrypted \<noteq> 0 then decrypt_payload s h payload else Some (h, payload))"

section \<open>Keys and nonces\<close>

text \<open>The salt does not depend on which end computes it.\<close>

lemma session_keys_agree:
  assumes "x25519 a pub_b = x25519 b pub_a"
  shows "derive_session_key a id_a pub_b id_b s = derive_session_key b id_b pub_a id_a s"
  unfolding derive_session_key_def assms min.commute [of id_b id_a] max.commute [of id_b id_a] by (rule refl)

lemma replicate_small: "replicate 4 (0 :: u8) = [0, 0, 0, 0]" "replicate 2 (0 :: u8) = [0, 0]"
  by (simp_all add: numeral_eq_Suc)

lemma build_nonce_command:
  "h_type h = Command \<Longrightarrow>
     build_nonce h = le_bytes 4 (to_be32 (h_client_id h)) @ le_bytes 4 (to_be32 (h_sequence h)) @ [10, 0, 0, 0]"
  by (simp add: build_nonce_def put32_def put_at_def le_bytes_to_be32 replicate_small)

lemma le_bytes_2: "le_bytes 2 v = [ucast v, ucast (drop_bit 8 v)]"
  by (simp add: le_bytes_def upt_rec)

lemma build_nonce_other:
  "h_type h \<noteq> Command \<Longrightarrow>
     build_nonce h = le_bytes 4 (to_be32 (h_client_id h)) @ le_bytes 4 (to_be32 (h_message_id h)) @
       le_bytes 2 (to_be16 (h_fragment_index h)) @ [packet_type_byte (h_type h), 0]"
  by (simp add: build_nonce_def put32_def put16_def put_at_def le_bytes_to_be32 le_bytes_2 replicate_small)

lemma length_build_nonce [simp]: "length (build_nonce h) = 12"
  by (cases "h_type h = Command") (simp_all add: build_nonce_command build_nonce_other)

lemma le_bytes_inject:
  fixes x y :: "'a::len word"
  shows "LENGTH('a) \<le> 8 * n \<Longrightarrow> le_bytes n x = le_bytes n y \<longleftrightarrow> x = y"
  by (metis of_le_bytes_le_bytes)

lemma to_be_inject: "to_be32 a = to_be32 b \<longleftrightarrow> a = b" "to_be16 c = to_be16 d \<longleftrightarrow> c = d"
  by (metis to_be32_involution, metis to_be16_involution)

lemma le_bytes_be_inject [simp]:
  "le_bytes 4 (to_be32 a) = le_bytes 4 (to_be32 b) \<longleftrightarrow> a = b"
  "le_bytes 2 (to_be16 c) = le_bytes 2 (to_be16 d) \<longleftrightarrow> c = d"
  by (simp_all add: le_bytes_inject to_be_inject)

lemma data_command_nonce: "h_type h \<in> {Data, Parity} \<Longrightarrow> h_type g = Command \<Longrightarrow> build_nonce h \<noteq> build_nonce g"
  by (auto simp add: build_nonce_command build_nonce_other le_bytes_2)

lemma build_nonce_checksum [simp]: "build_nonce (h\<lparr>h_checksum := c\<rparr>) = build_nonce h"
  by (simp add: build_nonce_def Let_def)

lemma of_nat_unat_word: "unat w = n \<Longrightarrow> of_nat n = (w :: 'a::len word)"
  by auto

section \<open>The datagram as one block\<close>

text \<open>The header that travels with a ciphertext, and the ciphertext with its tag.\<close>

definition wire_header :: "packet_header \<Rightarrow> bytes \<Rightarrow> packet_header" where
  "wire_header h payload =
    h\<lparr>h_flags := h_flags h OR kFlagEncrypted, h_payload_size := of_nat (length payload + kGcmTagSize)\<rparr>"

definition sealed :: "session \<Rightarrow> packet_header \<Rightarrow> bytes \<Rightarrow> bytes" where
  "sealed s w payload =
    (let (ct, tag) = aes256_gcm_encrypt (m_crypto_key s) (build_nonce w) (header_fields w) payload in ct @ tag)"

lemma gcm_lengths:
  assumes "aes256_gcm_encrypt key nonce aad pt = (ct, tag)"
  shows "length ct = length pt" "length tag = 16"
  using assms by (auto simp add: aes256_gcm_encrypt_def Let_def)

lemma length_sealed [simp]: "length (sealed s w payload) = length payload + 16"
  by (cases "aes256_gcm_encrypt (m_crypto_key s) (build_nonce w) (header_fields w) payload")
    (simp add: sealed_def gcm_lengths)

lemma finalize_whole:
  "finalize_crc (header_fields w @ [0, 0, 0, 0] @ body) (length (header_fields w @ [0, 0, 0, 0] @ body)) = encode w body"
  using finalize_crc_block [of "[0, 0, 0, 0]" "48 + length body" body w "[]"] by (simp add: encode_block)

lemma build_wire_packet_encrypted:
  assumes "m_crypto_ready s" and "length payload + 16 < 65536"
  shows "build_wire_packet True s h payload =
    encode (wire_header h payload) (sealed s (wire_header h payload) payload)"
proof -
  define w where "w = wire_header h payload"
  define n where "n = length payload"
  obtain ct tag where e: "aes256_gcm_encrypt (m_crypto_key s) (build_nonce w) (header_fields w) payload = (ct, tag)"
    by (cases "aes256_gcm_encrypt (m_crypto_key s) (build_nonce w) (header_fields w) payload")
  note l = gcm_lengths [OF e]
  have sz: "unat (h_payload_size w) = n + 16"
    using assms(2) by (simp add: w_def n_def wire_header_def kGcmTagSize_def unat_of_nat del: of_nat_add)
  define d where "d = encode_header_to w (replicate (kHeaderSize + unat (h_payload_size w)) 0)"
  have d: "d = header_fields w @ [0, 0, 0, 0] @ replicate (n + 16) 0"
    unfolding d_def by (subst encode_header_to_block) (simp_all add: kHeaderSize_def sz)
  have ct: "put_at (put_at d 48 ct) (48 + n) tag = header_fields w @ [0, 0, 0, 0] @ ct @ tag"
  proof -
    have "put_at d 48 ct = (header_fields w @ [0, 0, 0, 0] @ ct) @ replicate 16 0"
      using put_at_prefix [of "header_fields w @ [0, 0, 0, 0]" 48 "replicate (n + 16) 0" ct] by (simp add: d l n_def)
    then show ?thesis
      using put_at_prefix [of "header_fields w @ [0, 0, 0, 0] @ ct" "48 + n" "replicate 16 0" tag] by (simp add: l n_def)
  qed
  have "build_wire_packet True s h payload =
      (let datagram = put_at (put_at d 48 ct) (48 + n) tag in finalize_crc datagram (length datagram))"
  proof -
    have t: "(True \<and> m_crypto_ready s) = True" using assms(1) by simp
    have "take 44 d = header_fields w" by (simp add: d)
    then show ?thesis
      unfolding build_wire_packet_def Let_def t if_True wire_header_def [symmetric] w_def [symmetric] d_def [symmetric]
      by (simp add: kHeaderSize_def n_def e)
  qed
  then show ?thesis
    unfolding ct Let_def finalize_whole by (simp add: sealed_def e flip: w_def)
qed

lemma build_wire_packet_plain:
  assumes "\<not> (enc \<and> m_crypto_ready s)" and "unat (h_payload_size h) = length payload"
  shows "build_wire_packet enc s h payload = encode h payload"
proof -
  have "encode_header_to h (replicate (kHeaderSize + length payload) 0) =
      header_fields h @ [0, 0, 0, 0] @ replicate (length payload) 0"
    by (subst encode_header_to_block) (simp_all add: kHeaderSize_def)
  then have "build_wire_packet enc s h payload =
      (let d = header_fields h @ [0, 0, 0, 0] @ payload in finalize_crc d (length d))"
    using assms by (auto simp add: build_wire_packet_def Let_def put_at_def kHeaderSize_def)
  then show ?thesis by (simp add: Let_def finalize_whole [simplified])
qed

section \<open>Opening a datagram\<close>

lemma header_aad: "take 44 (snd (encode_to h [] (replicate kHeaderSize 0))) = header_fields h"
proof -
  have "snd (encode_to h [] (replicate kHeaderSize 0)) = encode h []"
    by (simp add: encode_def)
  then show ?thesis by (simp add: encode_block)
qed

lemma decrypt_payload_iff:
  "decrypt_payload s h payload = Some (g, pt) \<longleftrightarrow>
     m_crypto_ready s \<and> payload = sealed s h pt \<and>
     g = h\<lparr>h_payload_size := of_nat (length pt), h_flags := h_flags h AND NOT kFlagEncrypted\<rparr>"
proof (cases "m_crypto_ready s \<and> 16 \<le> length payload")
  case False
  then show ?thesis
    using length_sealed [of s h pt] by (auto simp add: decrypt_payload_def kGcmTagSize_def)
next
  case True
  define ct tag where "ct = take (length payload - 16) payload" and "tag = drop (length payload - 16) payload"
  have tag: "length tag = 16" and ct: "length ct = length payload - 16" and cat: "payload = ct @ tag"
    using True by (simp_all add: ct_def tag_def)
  have eq: "aes256_gcm_encrypt (m_crypto_key s) (build_nonce h) (header_fields h) pt = (ct, tag) \<longleftrightarrow>
      payload = sealed s h pt"
  proof -
    obtain c t where e: "aes256_gcm_encrypt (m_crypto_key s) (build_nonce h) (header_fields h) pt = (c, t)"
      by (cases "aes256_gcm_encrypt (m_crypto_key s) (build_nonce h) (header_fields h) pt")
    show ?thesis using gcm_lengths [OF e] tag by (auto simp add: sealed_def e cat)
  qed
  have len: "aes256_gcm_encrypt (m_crypto_key s) (build_nonce h) (header_fields h) pt = (ct, tag) \<Longrightarrow>
      length payload - 16 = length pt"
    using gcm_lengths(1) ct by fastforce
  have "decrypt_payload s h payload =
      (case aes256_gcm_decrypt (m_crypto_key s) (build_nonce h) (header_fields h) ct tag of
         None \<Rightarrow> None
       | Some pt \<Rightarrow> Some (h\<lparr>h_payload_size := of_nat (length payload - 16),
                              h_flags := h_flags h AND NOT kFlagEncrypted\<rparr>, pt))"
    using True by (simp add: decrypt_payload_def Let_def kGcmTagSize_def header_aad kHeaderSize_def [symmetric]
        header_aad [unfolded kHeaderSize_def] ct_def tag_def) (simp add: kHeaderSize_def header_aad [unfolded kHeaderSize_def])
  then show ?thesis
    using True eq len gcm_decrypt_iff [OF tag, of "m_crypto_key s" "build_nonce h" "header_fields h" ct pt]
    by (auto split: option.splits)
qed

section \<open>Properties\<close>

lemma flag_bit: "bit kFlagEncrypted k \<longleftrightarrow> k = 15"
proof -
  have e: "kFlagEncrypted = 2 ^ 15" by (simp add: kFlagEncrypted_def)
  show ?thesis unfolding e bit_exp_iff by auto
qed

lemma flag_clear: "(f :: u16) AND kFlagEncrypted = 0 \<longleftrightarrow> \<not> bit f 15"
proof -
  have "f AND kFlagEncrypted = 0 \<longleftrightarrow> (\<forall>n. \<not> bit (f AND kFlagEncrypted) n)"
    by (auto intro: bit_word_eqI)
  then show ?thesis by (auto simp add: bit_and_iff flag_bit)
qed

lemma decode_flags: "decode d = Some (w, p) \<Longrightarrow> get16 d 6 = h_flags w"
  by (simp add: decode_iff)

lemma flag_nonzero: "kFlagEncrypted \<noteq> 0"
  by (simp add: kFlagEncrypted_def)

lemma flag_laws:
  fixes f :: u16
  shows "(f OR kFlagEncrypted) AND kFlagEncrypted \<noteq> 0"
    and "f AND kFlagEncrypted = 0 \<Longrightarrow> (f OR kFlagEncrypted) AND NOT kFlagEncrypted = f"
    and "f AND kFlagEncrypted \<noteq> 0 \<Longrightarrow> (f AND NOT kFlagEncrypted) OR kFlagEncrypted = f"
    and "(f AND NOT kFlagEncrypted) AND kFlagEncrypted = 0"
  unfolding flag_clear by (auto intro!: bit_word_eqI simp add: bit_simps flag_bit)

text \<open>
  C17: the encrypted path is a round trip.  Whatever a sender with a session key builds for a header
  with a free encryption flag and a payload that leaves room for the tag, a receiver with the same
  key opens to exactly that header (with the checksum that was on the wire) and that payload, even
  when the datagram is followed by other bytes.
\<close>

theorem secure_roundtrip:
  assumes "m_crypto_ready s" and "header_ok h payload" and "h_flags h AND kFlagEncrypted = 0"
    and "length payload + 16 < 65536"
  shows "open_datagram s (build_wire_packet True s h payload @ rest) =
    Some (h\<lparr>h_checksum := datagram_crc (wire_header h payload) (sealed s (wire_header h payload) payload)\<rparr>, payload)"
proof -
  define w where "w = wire_header h payload"
  define body where "body = sealed s w payload"
  define c where "c = datagram_crc w body"
  have "header_ok w body"
    using assms(2,4)
    by (simp add: header_ok_def w_def wire_header_def body_def kGcmTagSize_def unat_of_nat del: of_nat_add)
  then have d: "decode (build_wire_packet True s h payload @ rest) = Some (w\<lparr>h_checksum := c\<rparr>, body)"
    unfolding build_wire_packet_encrypted [OF assms(1,4)] w_def [symmetric] body_def [symmetric] c_def
    by (rule decode_encode_append)
  have f: "h_flags w AND kFlagEncrypted \<noteq> 0" by (simp add: w_def wire_header_def flag_nonzero)
  have same: "sealed s (w\<lparr>h_checksum := c\<rparr>) payload = body"
    unfolding body_def sealed_def header_fields_checksum by simp
  have "of_nat (length payload) = h_payload_size h"
    using assms(2) by (intro of_nat_unat_word) (simp add: header_ok_def)
  then have g: "w\<lparr>h_checksum := c, h_payload_size := of_nat (length payload),
      h_flags := h_flags w AND NOT kFlagEncrypted\<rparr> = h\<lparr>h_checksum := c\<rparr>"
    using assms(3) by (simp add: w_def wire_header_def flag_laws(2))
  have "decrypt_payload s (w\<lparr>h_checksum := c\<rparr>) body = Some (h\<lparr>h_checksum := c\<rparr>, payload)"
    unfolding decrypt_payload_iff using assms(1) same g by simp
  then show ?thesis
    using f by (simp add: open_datagram_def d) (simp add: c_def body_def w_def)
qed

text \<open>
  C18: nothing else is accepted under the encryption flag.  If the receiver opens a datagram whose
  flag says it is encrypted, then it holds a session key and the datagram starts with the very bytes
  that a sender with that key builds for the header and the payload it returns; so a changed header,
  nonce, ciphertext or tag is refused.
\<close>

theorem only_sealed_accepted:
  assumes "open_datagram s d = Some (h, payload)" and "get16 d 6 AND kFlagEncrypted \<noteq> 0"
  shows "m_crypto_ready s \<and> header_ok h payload \<and> h_flags h AND kFlagEncrypted = 0 \<and>
    take (64 + length payload) d = build_wire_packet True s h payload"
proof -
  obtain w p where d: "decode d = Some (w, p)"
    using assms(1) by (auto simp add: open_datagram_def split: option.splits)
  have fw: "h_flags w AND kFlagEncrypted \<noteq> 0" using assms(2) by (simp add: decode_flags [OF d])
  then have "decrypt_payload s w p = Some (h, payload)" using assms(1) by (simp add: open_datagram_def d)
  then have ready: "m_crypto_ready s" and p: "p = sealed s w payload"
    and h: "h = w\<lparr>h_payload_size := of_nat (length payload), h_flags := h_flags w AND NOT kFlagEncrypted\<rparr>"
    unfolding decrypt_payload_iff by auto
  have ok: "header_ok w p" by (rule decode_header_ok(1) [OF d])
  have sz: "unat (h_payload_size w) = length payload + 16" using ok p by (simp add: header_ok_def)
  have lt: "length payload + 16 < 65536" 
  proof -
    have "unat (h_payload_size w) < 2 ^ LENGTH(16)" by (rule unsigned_less)
    then show ?thesis by (simp add: sz)
  qed
  have "of_nat (length payload + 16) = h_payload_size w" by (rule of_nat_unat_word [OF sz])
  then have wh: "wire_header h payload = w"
    using fw by (simp add: h wire_header_def kGcmTagSize_def flag_laws(3) del: of_nat_add)
  have "take (48 + length p) d = encode w p" by (rule decode_canonical [OF d])
  then have "take (64 + length payload) d = build_wire_packet True s h payload"
    unfolding build_wire_packet_encrypted [OF ready lt] wh by (simp add: p)
  moreover have "header_ok h payload"
    using ok lt by (simp add: header_ok_def h unat_of_nat)
  ultimately show ?thesis using ready by (simp add: h flag_laws(4))
qed

text \<open>
  C19: nonces of different packets differ.  Two data or parity packets have the same nonce only if
  client, message, fragment and type agree; two commands only if client and sequence number agree;
  and a command never shares a nonce with a data packet.
\<close>

theorem nonce_unique:
  "(h_type h \<in> {Data, Parity} \<and> h_type g \<in> {Data, Parity} \<longrightarrow>
     (build_nonce h = build_nonce g \<longleftrightarrow>
       h_client_id h = h_client_id g \<and> h_message_id h = h_message_id g \<and>
       h_fragment_index h = h_fragment_index g \<and> h_type h = h_type g)) \<and>
   (h_type h = Command \<and> h_type g = Command \<longrightarrow>
     (build_nonce h = build_nonce g \<longleftrightarrow> h_client_id h = h_client_id g \<and> h_sequence h = h_sequence g)) \<and>
   (h_type h \<in> {Data, Parity} \<and> h_type g = Command \<longrightarrow> build_nonce h \<noteq> build_nonce g)"
proof -
  have "build_nonce h = build_nonce g \<longleftrightarrow>
      h_client_id h = h_client_id g \<and> h_message_id h = h_message_id g \<and>
      h_fragment_index h = h_fragment_index g \<and> h_type h = h_type g"
    if "h_type h \<in> {Data, Parity}" "h_type g \<in> {Data, Parity}"
  proof -
    have "packet_type_byte (h_type h) = packet_type_byte (h_type g) \<longleftrightarrow> h_type h = h_type g"
      using that by auto
    moreover have "h_type h \<noteq> Command" "h_type g \<noteq> Command" using that by auto
    ultimately show ?thesis by (simp add: build_nonce_other)
  qed
  moreover have "build_nonce h = build_nonce g \<longleftrightarrow> h_client_id h = h_client_id g \<and> h_sequence h = h_sequence g"
    if "h_type h = Command" "h_type g = Command"
    using that by (simp add: build_nonce_command)
  ultimately show ?thesis using data_command_nonce by blast
qed

section \<open>Examples\<close>

definition ex_session :: session where
  "ex_session = \<lparr> m_crypto_ready = True, m_crypto_key = replicate 32 7 \<rparr>"

definition ex_data_header :: packet_header where
  "ex_data_header = header0\<lparr>h_magic := kMagic, h_version := kVersion, h_type := Data, h_flags := 1,
     h_client_id := 5, h_message_id := 9, h_fragment_count := 1, h_payload_size := 3\<rparr>"

lemma ex_data_header_ok: "header_ok ex_data_header [1, 2, 3]" "h_flags ex_data_header AND kFlagEncrypted = 0"
  by (simp_all add: header_ok_def ex_data_header_def packet_type_of_byte.simps kFlagEncrypted_def)

lemma secure_roundtrip_witness:
  "map_option snd (open_datagram ex_session (build_wire_packet True ex_session ex_data_header [1, 2, 3])) = Some [1, 2, 3]"
proof -
  have "m_crypto_ready ex_session" by (simp add: ex_session_def)
  from secure_roundtrip [OF this ex_data_header_ok, of "[]"] show ?thesis by simp
qed

lemma only_sealed_accepted_witness:
  "\<exists>d h. open_datagram ex_session d = Some (h, [1, 2, 3]) \<and> take 67 d = build_wire_packet True ex_session h [1, 2, 3]"
proof -
  define w where "w = wire_header ex_data_header [1, 2, 3]"
  define d where "d = encode w (sealed ex_session w [1, 2, 3])"
  define c where "c = datagram_crc w (sealed ex_session w [1, 2, 3])"
  have ok: "header_ok w (sealed ex_session w [1, 2, 3])"
    using ex_data_header_ok(1) by (simp add: header_ok_def w_def wire_header_def kGcmTagSize_def)
  have d: "decode d = Some (w\<lparr>h_checksum := c\<rparr>, sealed ex_session w [1, 2, 3])"
    using decode_encode_append [OF ok, of "[]"] by (simp add: d_def c_def)
  have f: "h_flags w AND kFlagEncrypted \<noteq> 0" by (simp add: w_def wire_header_def flag_nonzero)
  have "sealed ex_session (w\<lparr>h_checksum := c\<rparr>) [1, 2, 3] = sealed ex_session w [1, 2, 3]"
    unfolding sealed_def header_fields_checksum by simp
  then obtain h where o: "open_datagram ex_session d = Some (h, [1, 2, 3])"
    using f by (auto simp add: open_datagram_def d decrypt_payload_iff ex_session_def)
  have "get16 d 6 AND kFlagEncrypted \<noteq> 0" using f by (simp add: decode_flags [OF d])
  from only_sealed_accepted [OF o this] o show ?thesis by auto
qed

lemma nonce_unique_witness:
  "build_nonce ex_data_header \<noteq> build_nonce (ex_data_header\<lparr>h_fragment_index := 1\<rparr>)"
  using nonce_unique [of ex_data_header "ex_data_header\<lparr>h_fragment_index := 1\<rparr>"] by (simp add: ex_data_header_def header0_def)

end
