(* ===== verification/Transport_State.thy ===== *)
theory Transport_State
  imports Secure_Path Bandwidth Command Blocking_Queue Peer "HOL-Library.List_Lexorder"
begin

text \<open>
  The state of \<open>TightTransport::Impl\<close>: the configuration, the peers with their link state, the
  queues between the threads, the pacer and the capacity window, and what the transport does to
  the outside (datagrams sent and callbacks of the application), which every operation returns as
  a list of effects in the order in which it happens.  A \<open>Peer*\<close> is the key of the peer in the
  table \<open>m_peers\<close>; strings are lists of bytes, in the byte-wise order of \<open>std::string\<close>.  The
  application has installed every callback.
\<close>

section \<open>Configuration\<close>

record config =
  c_id :: bytes
  c_token :: bytes
  c_role :: link_role
  c_mtu :: nat
  c_heartbeat :: time
  c_report_interval :: time
  c_flush_interval :: time
  c_dead_timeout :: time
  c_retransmit_timeout :: time
  c_initial_bandwidth_bytes :: u64
  c_queue_limit :: nat
  c_max_message_bytes :: nat
  c_drop_log :: bool
  c_retransmit_enabled :: bool
  c_late_rtt_multiplier :: f64
  c_late_buffer_ms :: u32
  c_audio_reserved_bps :: u32
  c_loan_seconds :: f64
  c_slowdown_window_ms :: u32
  c_channel_fec_extra :: "u16 list"
  c_channel_reliable :: "bool list"
  c_speed_test_enabled :: bool
  c_speed_test_bytes :: nat
  c_encryption_enabled :: bool
  c_encode_queue_limit :: nat
  c_outbound_queue_limit :: nat
  c_lite_mode :: bool
  c_lite_profile :: lite_profile
  c_fec_enabled :: bool

definition default_config :: config where
  "default_config = \<lparr> c_id = [], c_token = [], c_role = Leaf, c_mtu = 1350, c_heartbeat = seconds 5,
     c_report_interval = seconds 1, c_flush_interval = milliseconds 10, c_dead_timeout = seconds 30,
     c_retransmit_timeout = milliseconds 500, c_initial_bandwidth_bytes = 3750000,
     c_queue_limit = 65536, c_max_message_bytes = 64 * 1024, c_drop_log = True,
     c_retransmit_enabled = True, c_late_rtt_multiplier = 4, c_late_buffer_ms = 0,
     c_audio_reserved_bps = 0, c_loan_seconds = 5, c_slowdown_window_ms = 3000,
     c_channel_fec_extra = replicate 8 0, c_channel_reliable = replicate 8 False,
     c_speed_test_enabled = True, c_speed_test_bytes = 100 * 1024, c_encryption_enabled = True,
     c_encode_queue_limit = 4096, c_outbound_queue_limit = 65536, c_lite_mode = False,
     c_lite_profile = Audio, c_fec_enabled = True \<rparr>"

section \<open>Peers\<close>

type_synonym peer_id = bytes

record file_recv =
  f_name :: bytes
  f_total :: u64
  f_chunk_size :: u32
  f_chunk_count :: u32
  f_chunks :: "bytes option list"
  f_received :: u32

definition file_recv0 :: file_recv where
  "file_recv0 = \<lparr> f_name = [], f_total = 0, f_chunk_size = 0, f_chunk_count = 0, f_chunks = [], f_received = 0 \<rparr>"

text \<open>The fields of \<open>Peer\<close> about the link; the groups of the data plane are in \<open>l_peer\<close>.\<close>

record link =
  l_id :: peer_id
  l_addr :: "addr_key option"
  l_role :: link_role
  l_state :: link_state
  l_peer_client_id :: u32
  l_peer_session_id :: u64
  l_last_recv :: time
  l_last_heartbeat_sent :: time
  l_last_handshake_sent :: time
  l_handshake_backoff :: time
  l_last_report_sent :: time
  l_last_online_sent :: time
  l_sequence_out :: u32
  l_control_seq_out :: u32
  l_reconnect :: bool
  l_last_report_at :: time
  l_session :: session
  l_cmd :: cmd_state
  l_files :: "(u32, file_recv) omap"
  l_peer :: peer

definition link0 :: link where
  "link0 = \<lparr> l_id = [], l_addr = None, l_role = Leaf, l_state = LClosed, l_peer_client_id = 0,
     l_peer_session_id = 0, l_last_recv = 0, l_last_heartbeat_sent = 0, l_last_handshake_sent = 0,
     l_handshake_backoff = milliseconds 500, l_last_report_sent = 0, l_last_online_sent = 0,
     l_sequence_out = 1, l_control_seq_out = 1, l_reconnect = False, l_last_report_at = 0,
     l_session = session0, l_cmd = cmd_new, l_files = [], l_peer = peer0 \<rparr>"

section \<open>The transport\<close>

record send_msg =
  qm_peer :: peer_id
  qm_payload :: bytes
  qm_channel :: u8

record encode_task =
  et_peer :: peer_id
  et_payload :: bytes
  et_channel :: u8

record outbound_packet =
  ob_peer :: peer_id
  ob_channel :: u8
  ob_datagram :: bytes

record ident =
  i_client_id :: u32
  i_session_id :: u64
  i_private :: bytes
  i_public :: bytes

text \<open>The queues between the threads, with the counters of what passed them.\<close>

record queues =
  q_send :: "(int, send_msg list) omap"
  q_encode :: "encode_task bqueue"
  q_outbound :: "outbound_packet bqueue"
  q_audio :: "outbound_packet bqueue"
  q_drain_until_ms :: "u64 list"
  q_lite_pending :: "outbound_packet option"
  q_last_app_send_ms :: u64
  q_fd_tx_bytes :: u64
  q_tx_bytes :: u64

record pacer =
  k_token_bucket :: f64
  k_token_bucket_time :: time
  k_loan_drain :: bool
  k_loan_exhausted_reported :: bool
  k_pacer_limited :: bool

text \<open>The capacity reported to the application and the windows in which a backlog is drained;
  points of time that the sources keep as a count of nanoseconds are times.\<close>

record capacity =
  v_fd_rate_last_bytes :: u64
  v_fd_rate_last_ts :: time
  v_queue :: "u64 bqueue"
  v_last_cap_notified :: u64
  v_evac_mode :: nat
  v_evac_keyframe_sent :: bool
  v_evac_freeze_until :: time
  v_evac_reset_token :: bool
  v_evac_processed_cong :: time
  v_evac_slow_deadline :: time
  v_evac_slow_q_bytes :: u64
  v_evac_slow_btl_snap :: u64
  v_tx_rate_last_bytes :: u64
  v_tx_rate_last_ts :: time
  v_overload_send_ewma :: f64
  v_overload_recv_ewma :: f64
  v_evac_pending :: u64

record transport =
  t_running :: bool
  t_sock :: bool
  t_lite_mode :: bool
  t_ident :: ident
  t_bandwidth :: bandwidth
  t_queues :: queues
  t_pacer :: pacer
  t_capacity :: capacity
  t_file_id_out :: u32
  t_peers :: "(peer_id, link) omap"
  t_peer_by_addr :: "(addr_key, peer_id) omap"
  t_last_timeout_check :: time

text \<open>The constructor; \<open>client\<close> and \<open>sess\<close> are its two random numbers, \<open>priv\<close> and \<open>pub\<close> the key pair
  of \<open>x25519_generate\<close>.\<close>

definition queue_capacity :: "config \<Rightarrow> nat \<Rightarrow> nat \<Rightarrow> nat \<Rightarrow> nat" where
  "queue_capacity c audio video full =
    (if c_lite_mode c then (if c_lite_profile c = Audio then min full audio else min full video) else full)"

definition new_transport :: "config \<Rightarrow> time \<Rightarrow> u64 \<Rightarrow> u64 \<Rightarrow> bytes \<Rightarrow> bytes \<Rightarrow> transport" where
  "new_transport c now client sess priv pub =
    (let cid = ucast (client AND 0x7FFFFFFF);
         zero = replicate 32 0
     in \<lparr> t_running = False, t_sock = False, t_lite_mode = c_lite_mode c,
          t_ident = \<lparr> i_client_id = (if cid = 0 then 1 else cid), i_session_id = sess,
                      i_private = (if c_encryption_enabled c then priv else zero),
                      i_public = (if c_encryption_enabled c then pub else zero) \<rparr>,
          t_bandwidth = bw_new (c_initial_bandwidth_bytes c),
          t_queues = \<lparr> q_send = [], q_encode = bq_new (queue_capacity c 16 64 (c_encode_queue_limit c)),
            q_outbound = bq_new (queue_capacity c 32 256 (c_outbound_queue_limit c)),
            q_audio = bq_new (if c_lite_mode c \<and> c_lite_profile c = Audio then 48 else 128),
            q_drain_until_ms = replicate 8 0, q_lite_pending = None, q_last_app_send_ms = 0,
            q_fd_tx_bytes = 0, q_tx_bytes = 0 \<rparr>,
          t_pacer = \<lparr> k_token_bucket = 0, k_token_bucket_time = now, k_loan_drain = False,
            k_loan_exhausted_reported = False, k_pacer_limited = False \<rparr>,
          t_capacity = \<lparr> v_fd_rate_last_bytes = 0, v_fd_rate_last_ts = 0, v_queue = bq_new 4,
            v_last_cap_notified = 0, v_evac_mode = 0, v_evac_keyframe_sent = False,
            v_evac_freeze_until = 0, v_evac_reset_token = False, v_evac_processed_cong = 0,
            v_evac_slow_deadline = 0, v_evac_slow_q_bytes = 0, v_evac_slow_btl_snap = 0,
            v_tx_rate_last_bytes = 0, v_tx_rate_last_ts = 0, v_overload_send_ewma = 0,
            v_overload_recv_ewma = 0, v_evac_pending = 0 \<rparr>,
          t_file_id_out = 1, t_peers = [], t_peer_by_addr = [], t_last_timeout_check = 0 \<rparr>)"

section \<open>Effects\<close>

datatype effect =
    Sendto addr_key bytes
  | On_peer peer_id link_role link_state u32
  | On_message peer_id bytes
  | On_message_loss peer_id u8
  | On_file peer_id bytes bytes
  | On_data peer_id bytes
  | On_command peer_id bytes
  | On_loan_exhausted bool
  | On_evac_keyframe
  | Log_drop u32 nat nat
  | Length_error

text \<open>One operation after another, with the effects of both.\<close>

definition and_then :: "'s \<times> 'e list \<Rightarrow> ('s \<Rightarrow> 's \<times> 'e list) \<Rightarrow> 's \<times> 'e list" where
  "and_then a f = (let (s, es) = a; (s, fs) = f s in (s, es @ fs))"

lemma and_then_Pair [simp]: "and_then (s, es) f = (fst (f s), es @ snd (f s))"
  by (simp add: and_then_def split: prod.split)

text \<open>The clocks of one handler call: the monotonic clock and \<open>unix_millis()\<close>.\<close>

record env =
  e_now :: time
  e_ms :: u64

definition tick_of :: "env \<Rightarrow> u32" where
  "tick_of e = ucast (e_ms e AND 0xFFFFFFFF)"

text \<open>A handler works on the peer it was called for and on the rest of the transport.\<close>

type_synonym here = "link \<times> transport"

section \<open>Sending\<close>

text \<open>\<open>send_raw\<close> for an ordinary buffer, whose channel is 7, and for a pooled buffer.\<close>

definition send_raw_bytes :: "peer_id \<Rightarrow> bytes \<Rightarrow> here \<Rightarrow> here" where
  "send_raw_bytes pk datagram s =
    (let (l, t) = s; q = t_queues t in
     if l_addr l = None \<or> \<not> t_sock t then s
     else (l, t\<lparr>t_queues := q\<lparr>q_outbound := snd (bq_try_push \<lparr> ob_peer = pk, ob_channel = 7,
                                                        ob_datagram = datagram \<rparr> (q_outbound q))\<rparr>\<rparr>))"

definition send_raw :: "peer_id \<Rightarrow> bytes \<Rightarrow> u8 \<Rightarrow> here \<Rightarrow> here" where
  "send_raw pk datagram channel s =
    (let (l, t) = s; q = t_queues t in
     if l_addr l = None \<or> \<not> t_sock t then s
     else
       let q = (if channel = 2 \<or> channel = 3
                then q\<lparr>q_fd_tx_bytes := q_fd_tx_bytes q + of_nat (length datagram)\<rparr> else q);
           pkt = \<lparr> ob_peer = pk, ob_channel = channel, ob_datagram = datagram \<rparr>;
           q = (if channel = 1 then q\<lparr>q_audio := snd (bq_try_push pkt (q_audio q))\<rparr>
                else q\<lparr>q_outbound := snd (bq_try_push pkt (q_outbound q))\<rparr>)
       in (l, t\<lparr>t_queues := q\<rparr>))"

definition send_direct :: "bytes \<Rightarrow> here \<Rightarrow> here \<times> effect list" where
  "send_direct datagram s =
    (let (l, t) = s in
     case l_addr l of None \<Rightarrow> (s, []) | Some a \<Rightarrow> if t_sock t then (s, [Sendto a datagram]) else (s, []))"

definition fire_peer_event :: "link_state \<Rightarrow> here \<Rightarrow> here \<times> effect list" where
  "fire_peer_event st s =
    (s, [On_peer (l_id (fst s)) (l_role (fst s)) st (l_peer_client_id (fst s))])"

definition control_header :: "packet_type \<Rightarrow> env \<Rightarrow> transport \<Rightarrow> packet_header" where
  "control_header ty e t =
    header0\<lparr>h_magic := kMagic, h_version := kVersion, h_type := ty,
      h_client_id := i_client_id (t_ident t), h_session_id := i_session_id (t_ident t), h_tick := tick_of e\<rparr>"

text \<open>\<open>m_pending[seq]\<close> keeps the retry count of an entry that is already there.\<close>

definition remember ::
  "u32 \<Rightarrow> packet_header \<Rightarrow> bytes \<Rightarrow> time \<Rightarrow> nat \<Rightarrow> (u32, pending_send) omap \<Rightarrow> (u32, pending_send) omap" where
  "remember seq h payload now n m =
    (let retries = (case om_find m seq of Some e \<Rightarrow> ps_retries e | None \<Rightarrow> 0)
     in om_set seq \<lparr> ps_header = h, ps_payload = payload, ps_last_send = now, ps_bytes = n,
                     ps_retries = retries \<rparr> m)"

definition send_control :: "packet_type \<Rightarrow> bytes \<Rightarrow> bool \<Rightarrow> env \<Rightarrow> peer_id \<Rightarrow> here \<Rightarrow> here" where
  "send_control ty payload ackable e pk s =
    (let (l, t) = s;
         h = control_header ty e t;
         (h, l) = (if ackable
                   then (h\<lparr>h_sequence := l_control_seq_out l\<rparr>, l\<lparr>l_control_seq_out := l_control_seq_out l + 1\<rparr>)
                   else (h, l));
         h = h\<lparr>h_payload_size := of_nat (length payload)\<rparr>;
         datagram = encode h payload;
         (l, t) = send_raw_bytes pk datagram (l, t)
     in if ackable
        then (l\<lparr>l_peer := (l_peer l)\<lparr>p_pending := remember (h_sequence h) h payload (e_now e)
                                                   (length datagram) (p_pending (l_peer l))\<rparr>\<rparr>, t)
        else (l, t))"

definition send_ack_packet :: "u32 \<Rightarrow> env \<Rightarrow> peer_id \<Rightarrow> here \<Rightarrow> here" where
  "send_ack_packet ack e pk s =
    send_raw_bytes pk (encode ((control_header Ack e (snd s))\<lparr>h_acknowledgment := ack\<rparr>) []) s"

definition handshake_payload :: "config \<Rightarrow> ident \<Rightarrow> bytes" where
  "handshake_payload c i =
    (let id_size = of_nat (min (length (c_id c)) 65535) :: u16
     in [(case c_role c of Leaf \<Rightarrow> 0 | Node \<Rightarrow> 1), ucast (drop_bit 8 id_size AND 0xFF), ucast (id_size AND 0xFF)]
        @ take (unat id_size) (c_id c) @ c_token c
        @ (if c_encryption_enabled c then i_public i else [])
        @ [if c_retransmit_enabled c then 1 else 0])"

definition send_handshake :: "config \<Rightarrow> env \<Rightarrow> peer_id \<Rightarrow> here \<Rightarrow> here" where
  "send_handshake c e pk s =
    (let (l, t) = s; payload = handshake_payload c (t_ident t)
     in send_control Handshake payload True e pk (l\<lparr>l_last_handshake_sent := e_now e\<rparr>, t))"

end
