(* ===== verification/Link.thy ===== *)
theory Link
  imports Transport_State Reports
begin

text \<open>
  The links of \<open>transport.cpp\<close>: connecting, the handshake with its token check and key exchange,
  the control packets, clock synchronisation, acknowledgements of control packets, and the timers of
  the reactor that resend, report, and close dead links.
\<close>

section \<open>Clock synchronisation\<close>

text \<open>\<open>offset = remote clock - local clock\<close> in microseconds.  It only converges upwards.\<close>

definition sync_clock :: "int \<Rightarrow> u32 \<Rightarrow> u64 \<Rightarrow> clock \<Rightarrow> clock" where
  "sync_clock rtt_us tick arrival_ms k =
    (if tick = 0 then k
     else
       let arrival_low = ucast (arrival_ms AND 0xFFFFFFFF) :: u32
       in if rtt_us \<le> 0
          then let sample_us = sint (tick - arrival_low) * 1000;
                   k = (if \<not> m_clock_synced k
                        then k\<lparr>m_clock_offset_us := sample_us, m_clock_synced := True\<rparr>
                        else if sample_us > m_clock_offset_us k then k\<lparr>m_clock_offset_us := sample_us\<rparr>
                        else k)
               in k\<lparr>m_clock_pending := False\<rparr>
          else let sample_us = sint (tick - arrival_low) * 1000 -
                     (if rtt_us > 0 \<and> rtt_us < 100000 then rtt_us sdiv 2 else 0);
                   k = (if \<not> m_clock_synced k
                        then k\<lparr>m_clock_offset_us := sample_us, m_clock_synced := True\<rparr>
                        else if sample_us > m_clock_offset_us k then k\<lparr>m_clock_offset_us := sample_us\<rparr>
                        else k)
               in k\<lparr>m_clock_pending := False\<rparr>)"

definition sync_peer :: "u32 \<Rightarrow> u64 \<Rightarrow> here \<Rightarrow> here" where
  "sync_peer tick ms s =
    (let (l, t) = s
     in (l\<lparr>l_peer := (l_peer l)\<lparr>p_clock := sync_clock (m_rtt (t_bandwidth t)) tick ms (p_clock (l_peer l))\<rparr>\<rparr>, t))"

definition try_sync_clock :: "here \<Rightarrow> here" where
  "try_sync_clock s =
    (let k = p_clock (l_peer (fst s))
     in if m_clock_pending k then sync_peer (m_hs_tick k) (m_hs_arrival_ms k) s else s)"

definition feed_rtt_from_tick :: "u32 \<Rightarrow> env \<Rightarrow> here \<Rightarrow> here" where
  "feed_rtt_from_tick tick e s =
    (let (l, t) = s; transit_us = transit_time_us (p_clock (l_peer l)) tick (e_ms e)
     in if transit_us < 0 \<or> transit_us > 10000000 then s
        else (l, t\<lparr>t_bandwidth := on_ack (transit_us * 2) (t_bandwidth t)\<rparr>))"

section \<open>The speed test\<close>

fun probe_sizes :: "nat \<Rightarrow> nat \<Rightarrow> nat list" where
  "probe_sizes frag remaining =
    (if remaining = 0 \<or> frag = 0 then []
     else let n = min frag remaining in n # probe_sizes frag (remaining - n))"

declare probe_sizes.simps [simp del]

definition send_speed_test :: "config \<Rightarrow> env \<Rightarrow> here \<Rightarrow> here \<times> effect list" where
  "send_speed_test c e s =
    (let (l, t) = s in
     if \<not> c_speed_test_enabled c then (s, [])
     else case l_addr l of
            None \<Rightarrow> (s, [])
          | Some a \<Rightarrow>
              if \<not> t_sock t then (s, [])
              else let frag = (if c_mtu c > kHeaderSize then c_mtu c - kHeaderSize else 1152)
                   in (s, map (\<lambda>n. Sendto a (encode ((control_header Probe e t)\<lparr>h_payload_size := of_nat n\<rparr>)
                                              (replicate n 0)))
                              (probe_sizes frag (c_speed_test_bytes c))))"

section \<open>Handlers\<close>

definition set_state :: "link_state \<Rightarrow> here \<Rightarrow> here" where
  "set_state st s = ((fst s)\<lparr>l_state := st\<rparr>, snd s)"

text \<open>A fresh session: clock, commands and the report time restart.\<close>

definition restart_session :: "packet_header \<Rightarrow> env \<Rightarrow> here \<Rightarrow> here" where
  "restart_session h e s =
    (let (l, t) = sync_peer (h_tick h) (e_ms e) s
     in (l\<lparr>l_cmd := cmd_reset (l_cmd l), l_last_report_at := 0\<rparr>, t))"

definition derive_key :: "bytes \<Rightarrow> u32 \<Rightarrow> here \<Rightarrow> here" where
  "derive_key pub peer_client_id s =
    (let (l, t) = s
     in (l\<lparr>l_session := derive_session_key (i_private (t_ident t)) (i_client_id (t_ident t)) pub
                          peer_client_id (l_session l)\<rparr>, t))"

definition set_peer_retransmit :: "bool \<Rightarrow> link \<Rightarrow> link" where
  "set_peer_retransmit b l =
    l\<lparr>l_peer := (l_peer l)\<lparr>p_conf := (p_conf (l_peer l))\<lparr>m_peer_retransmit := b\<rparr>\<rparr>\<rparr>"

text \<open>The fields of a handshake: the name, the flag byte if there is one, the public key if
  encryption is on and there is room for one, and the token.\<close>

definition parse_handshake :: "bool \<Rightarrow> bytes \<Rightarrow> (bytes \<times> bool option \<times> bytes option \<times> bytes) option" where
  "parse_handshake encryption payload =
    (if length payload < 3 then None
     else
       let id_size = unat (push_bit 8 (ucast (payload ! 1)) OR ucast (payload ! 2) :: u16) in
       if length payload < 3 + id_size then None
       else
         let name = take id_size (drop 3 payload);
             token_end = length payload;
             (flag, token_end) = (if token_end > 3 + id_size
                                  then (Some (payload ! (token_end - 1) AND 1 \<noteq> 0), token_end - 1)
                                  else (None, token_end));
             (pub, token_end) = (if encryption \<and> token_end \<ge> 3 + id_size + 32
                                 then (Some (get_at payload (token_end - 32) 32), token_end - 32)
                                 else (None, token_end))
         in Some (name, flag, pub, get_at payload (3 + id_size) (token_end - 3 - id_size)))"

definition handshake_ack_payload :: "config \<Rightarrow> ident \<Rightarrow> bytes" where
  "handshake_ack_payload c i =
    (if c_encryption_enabled c then i_public i else []) @ [if c_retransmit_enabled c then 1 else 0]"

definition handle_handshake ::
  "config \<Rightarrow> env \<Rightarrow> peer_id \<Rightarrow> packet_header \<Rightarrow> bytes \<Rightarrow> here \<Rightarrow> here \<times> effect list" where
  "handle_handshake c e pk h payload s =
    (case parse_handshake (c_encryption_enabled c) payload of
       None \<Rightarrow> (s, [])
     | Some (name, flag, pub, token) \<Rightarrow>
         let (l, t) = s;
             l = (case flag of None \<Rightarrow> l | Some b \<Rightarrow> set_peer_retransmit b l)
         in if token \<noteq> c_token c then ((l, t), [])
            else
              let (l, t) = restart_session h e (l, t);
                  l = (if name \<noteq> [] then l\<lparr>l_id := name\<rparr> else l);
                  l = l\<lparr>l_role := (if payload ! 0 = 1 then Node else Leaf)\<rparr>;
                  s = (case pub of None \<Rightarrow> (l, t) | Some k \<Rightarrow> derive_key k (h_client_id h) (l, t));
                  s = (if \<not> l_reconnect (fst s) \<and> l_addr (fst s) \<noteq> None then send_handshake c e pk s else s);
                  (s, es) = (if l_state (fst s) \<noteq> LEstablished \<and> l_state (fst s) \<noteq> LOnline
                             then fire_peer_event LEstablished (set_state LEstablished s) else (s, []))
              in (send_control HandshakeAck (handshake_ack_payload c (t_ident (snd s))) True e pk s, es))"

definition handle_handshake_ack ::
  "config \<Rightarrow> env \<Rightarrow> peer_id \<Rightarrow> packet_header \<Rightarrow> bytes \<Rightarrow> here \<Rightarrow> here \<times> effect list" where
  "handle_handshake_ack c e pk h payload s =
    (let s = restart_session h e s;
         s = (if payload \<noteq> []
              then let tail = length payload;
                       s = (set_peer_retransmit (payload ! (tail - 1) AND 1 \<noteq> 0) (fst s), snd s);
                       tail = tail - 1
                   in if c_encryption_enabled c \<and> tail \<ge> 32
                      then derive_key (get_at payload (tail - 32) 32) (h_client_id h) s else s
              else s)
     in if l_state (fst s) = LOnline then (s, [])
        else if l_state (fst s) = LHandshake \<or> l_state (fst s) = LEstablished
        then let (l, t) = send_control Online [] True e pk s;
                 l = l\<lparr>l_last_online_sent := e_now e, l_state := LOnline, l_handshake_backoff := milliseconds 500\<rparr>
             in and_then (fire_peer_event LOnline (l, t)) (send_speed_test c e)
        else (s, []))"

definition handle_online :: "config \<Rightarrow> env \<Rightarrow> here \<Rightarrow> here \<times> effect list" where
  "handle_online c e s =
    (if l_state (fst s) \<noteq> LOnline
     then and_then (fire_peer_event LOnline (set_state LOnline s)) (send_speed_test c e)
     else (s, []))"

definition handle_heartbeat :: "env \<Rightarrow> packet_header \<Rightarrow> bytes \<Rightarrow> here \<Rightarrow> here" where
  "handle_heartbeat e h payload s =
    (let (l, t) = s;
         l = (if length payload \<ge> 4
              then l\<lparr>l_peer := (l_peer l)\<lparr>p_sender_rtt_us := get32 payload 0\<rparr>\<rparr> else l)
     in feed_rtt_from_tick (h_tick h) e (sync_peer (h_tick h) (e_ms e) (l, t)))"

definition handle_probe :: "env \<Rightarrow> packet_header \<Rightarrow> here \<Rightarrow> here" where
  "handle_probe e h s =
    (let (l, t) = s; now = e_now e;
         p = finalize_probe_train now (p_probe (l_peer l));
         p = (if m_probe_count p = 0 then p\<lparr>m_probe_first := now\<rparr> else p);
         p = p\<lparr>m_probe_last := now, m_probe_count := m_probe_count p + 1,
               m_probe_bytes := m_probe_bytes p + of_nat (kHeaderSize + unat (h_payload_size h))\<rparr>
     in (l\<lparr>l_peer := (l_peer l)\<lparr>p_probe := p\<rparr>\<rparr>, t))"

definition handle_bye :: "here \<Rightarrow> here \<times> effect list" where
  "handle_bye s =
    (if l_state (fst s) \<noteq> LClosed then fire_peer_event LClosed (set_state LClosed s) else (s, []))"

definition handle_ack :: "env \<Rightarrow> packet_header \<Rightarrow> here \<Rightarrow> here" where
  "handle_ack e h s =
    (let (l, t) = s; ack = h_acknowledgment h in
     if ack = 0 then s
     else case om_find (p_pending (l_peer l)) ack of
            None \<Rightarrow> s
          | Some ps \<Rightarrow>
              let l = l\<lparr>l_peer := (l_peer l)\<lparr>p_pending := om_erase ack (p_pending (l_peer l))\<rparr>\<rparr>;
                  rtt = (e_now e - ps_last_send ps) sdiv 1000;
                  rtt = (if rtt < 0 then 0 else rtt)
              in try_sync_clock (l, t\<lparr>t_bandwidth := on_ack rtt (t_bandwidth t)\<rparr>))"

section \<open>Timers of the reactor\<close>

text \<open>\<open>for (auto& kv : m_peers)\<close>.\<close>

definition each_peer ::
  "(peer_id \<Rightarrow> here \<Rightarrow> here \<times> effect list) \<Rightarrow> transport \<Rightarrow> transport \<times> effect list" where
  "each_peer f t =
    foldl (\<lambda>a pk. and_then a (\<lambda>t.
             case om_find (t_peers t) pk of
               None \<Rightarrow> (t, [])
             | Some l \<Rightarrow> (case f pk (l, t) of ((l, t), es) \<Rightarrow> (t\<lparr>t_peers := om_set pk l (t_peers t)\<rparr>, es))))
          (t, []) (map fst (t_peers t))"

definition quiet :: "here \<Rightarrow> here \<times> effect list" where "quiet s = (s, [])"

definition live :: "link \<Rightarrow> bool" where
  "live l \<longleftrightarrow> l_state l = LEstablished \<or> l_state l = LOnline"

definition drop_handshakes :: "link \<Rightarrow> link" where
  "drop_handshakes l =
    l\<lparr>l_peer := (l_peer l)\<lparr>p_pending := filter (\<lambda>(k, ps). h_type (ps_header ps) \<noteq> Handshake) (p_pending (l_peer l))\<rparr>\<rparr>"

definition resend_handshake :: "config \<Rightarrow> env \<Rightarrow> peer_id \<Rightarrow> here \<Rightarrow> here" where
  "resend_handshake c e pk s =
    (let (l, t) = s in
     if l_state l \<noteq> LHandshake then s
     else
       let l = drop_handshakes l in
       if e_now e - l_last_handshake_sent l < l_handshake_backoff l then (l, t)
       else let (l, t) = send_handshake c e pk (l, t)
            in (l\<lparr>l_handshake_backoff := min (l_handshake_backoff l * 2) (milliseconds 5000)\<rparr>, t))"

definition send_heartbeat :: "config \<Rightarrow> env \<Rightarrow> peer_id \<Rightarrow> here \<Rightarrow> here" where
  "send_heartbeat c e pk s =
    (let (l, t) = s in
     if \<not> live l then s
     else if e_now e - l_last_heartbeat_sent l < c_heartbeat c then s
     else let rtt_us = of_int (m_rtt (t_bandwidth t)) :: u32;
              (l, t) = send_control Heartbeat (le_bytes 4 (to_be32 rtt_us)) False e pk s
          in (l\<lparr>l_last_heartbeat_sent := e_now e\<rparr>, t))"

definition send_online_announcement :: "config \<Rightarrow> env \<Rightarrow> peer_id \<Rightarrow> here \<Rightarrow> here" where
  "send_online_announcement c e pk s =
    (let (l, t) = s in
     if \<not> live l then s
     else if e_now e - l_last_online_sent l < c_heartbeat c then s
     else let (l, t) = send_control Online [] False e pk s in (l\<lparr>l_last_online_sent := e_now e\<rparr>, t))"

definition send_report :: "config \<Rightarrow> env \<Rightarrow> peer_id \<Rightarrow> here \<Rightarrow> here \<times> effect list" where
  "send_report c e pk s =
    (let (l, t) = s in
     if \<not> live l then (s, [])
     else if e_now e - l_last_report_sent l < c_report_interval c then (s, [])
     else
       let (p, payload) = build_payload (e_now e) (c_report_interval c div 1000000) (c_late_buffer_ms c)
                            (t_lite_mode t) (l_peer l);
           l = l\<lparr>l_peer := p\<rparr>;
           h = (control_header Report e t)\<lparr>h_payload_size := of_nat (length payload)\<rparr>
       in and_then (send_direct (encode h payload) (l, t))
            (\<lambda>(l, t). ((l\<lparr>l_last_report_sent := e_now e\<rparr>, t), [])))"

definition expire_inbox :: "config \<Rightarrow> env \<Rightarrow> link \<Rightarrow> link" where
  "expire_inbox c e l =
    l\<lparr>l_peer := (l_peer l)\<lparr>p_inbox := (p_inbox (l_peer l))\<lparr>
        m_incoming := filter (\<lambda>(k, m). \<not> e_now e - in_first_seen m \<ge> c_dead_timeout c)
                        (m_incoming (p_inbox (l_peer l))),
        m_completed := filter (\<lambda>(k, ts). \<not> e_now e - ts \<ge> c_dead_timeout c)
                         (m_completed (p_inbox (l_peer l)))\<rparr>\<rparr>\<rparr>"

definition check_offline :: "config \<Rightarrow> env \<Rightarrow> peer_id \<Rightarrow> here \<Rightarrow> here \<times> effect list" where
  "check_offline c e pk s =
    (let (l, t) = s; l = expire_inbox c e l in
     if \<not> live l then ((l, t), [])
     else if e_now e - l_last_recv l \<ge> c_dead_timeout c
     then let l = l\<lparr>l_state := LClosed, l_peer := (l_peer l)\<lparr>p_pending := []\<rparr>\<rparr>
          in and_then (fire_peer_event LClosed (l, t))
               (\<lambda>(l, t). (if l_reconnect l
                          then (l\<lparr>l_state := LHandshake, l_last_handshake_sent := e_now e - c_retransmit_timeout c,
                                  l_handshake_backoff := milliseconds 500, l_last_recv := e_now e\<rparr>, t)
                          else (l, t), []))
     else ((l, t), []))"

definition send_bye :: "env \<Rightarrow> here \<Rightarrow> here \<times> effect list" where
  "send_bye e s =
    (let (l, t) = s in
     if l_state l = LClosed then (s, [])
     else case l_addr l of
            None \<Rightarrow> (s, [])
          | Some a \<Rightarrow> (set_state LClosed s, [Sendto a (encode ((control_header Bye e t)\<lparr>h_tick := 0\<rparr>) [])]))"

definition flush_command :: "env \<Rightarrow> here \<Rightarrow> here \<times> effect list" where
  "flush_command e s =
    (let (l, t) = s; (k, ready) = cmd_flush_expired (of_int (m_rtt (t_bandwidth t))) (e_now e) (l_cmd l)
     in ((l\<lparr>l_cmd := k\<rparr>, t), map (On_command (l_id l)) ready))"

definition send_handshakes :: "config \<Rightarrow> env \<Rightarrow> transport \<Rightarrow> transport \<times> effect list" where
  "send_handshakes c e = each_peer (\<lambda>pk s. quiet (resend_handshake c e pk s))"

definition send_heartbeats :: "config \<Rightarrow> env \<Rightarrow> transport \<Rightarrow> transport \<times> effect list" where
  "send_heartbeats c e = each_peer (\<lambda>pk s. quiet (send_heartbeat c e pk s))"

definition send_online_announcements :: "config \<Rightarrow> env \<Rightarrow> transport \<Rightarrow> transport \<times> effect list" where
  "send_online_announcements c e = each_peer (\<lambda>pk s. quiet (send_online_announcement c e pk s))"

definition send_reports :: "config \<Rightarrow> env \<Rightarrow> transport \<Rightarrow> transport \<times> effect list" where
  "send_reports c e = each_peer (send_report c e)"

definition check_offlines :: "config \<Rightarrow> env \<Rightarrow> transport \<Rightarrow> transport \<times> effect list" where
  "check_offlines c e = each_peer (check_offline c e)"

definition flush_commands :: "env \<Rightarrow> transport \<Rightarrow> transport \<times> effect list" where
  "flush_commands e = each_peer (\<lambda>pk. flush_command e)"

definition send_byes :: "env \<Rightarrow> transport \<Rightarrow> transport \<times> effect list" where
  "send_byes e t = (if \<not> t_sock t then (t, []) else each_peer (\<lambda>pk. send_bye e) t)"

text \<open>The estimate is lowered once when no live peer has reported for three intervals, at most
  every 500 ms and not while the estimate is frozen.\<close>

definition check_report_timeouts :: "config \<Rightarrow> env \<Rightarrow> transport \<Rightarrow> transport" where
  "check_report_timeouts c e t =
    (let now = e_now e in
     if t_last_timeout_check t \<noteq> 0 \<and> now - t_last_timeout_check t < milliseconds 500 then t
     else
       let t = t\<lparr>t_last_timeout_check := now\<rparr>;
           ls = filter live (map snd (t_peers t));
           stalled = filter (\<lambda>l. m_have_late_report (p_fec (l_peer l)) \<and>
                                 now - l_last_report_at l \<ge> c_report_interval c * 3) ls
       in if ls \<noteq> [] \<and> length stalled = length ls
          then let freeze = v_evac_freeze_until (t_capacity t); frozen = (freeze \<noteq> 0 \<and> now < freeze)
               in if frozen then t else t\<lparr>t_bandwidth := on_report_timeout (t_bandwidth t)\<rparr>
          else t)"

section \<open>Peers come and go\<close>

fun dec_digits :: "nat \<Rightarrow> bytes" where
  "dec_digits n = (if n < 10 then [of_nat (48 + n)] else dec_digits (n div 10) @ [of_nat (48 + n mod 10)])"

declare dec_digits.simps [simp del]

definition copy_conf :: "config \<Rightarrow> transport \<Rightarrow> peer_conf \<Rightarrow> peer_conf" where
  "copy_conf c t p = p\<lparr>m_drop_log := c_drop_log c \<and> \<not> t_lite_mode t, m_retransmit := c_retransmit_enabled c,
     m_channel_reliable := c_channel_reliable c\<rparr>"

text \<open>\<open>rand\<close> is the random number of the name of an unknown peer.\<close>

definition anon_id :: "addr_key \<Rightarrow> u64 \<Rightarrow> peer_id" where
  "anon_id a rand = map of_char ''anon-'' @ dec_digits (unat (to_be16 (ak_port a))) @ map of_char ''-'' @
     dec_digits (unat (rand AND 0xFFFFFFFF))"

definition create_peer :: "config \<Rightarrow> env \<Rightarrow> u64 \<Rightarrow> addr_key \<Rightarrow> transport \<Rightarrow> peer_id \<times> transport" where
  "create_peer c e rand a t =
    (let pk = anon_id a rand;
         l = (case om_find (t_peers t) pk of Some l \<Rightarrow> l | None \<Rightarrow> link0);
         l = l\<lparr>l_id := pk, l_addr := Some a, l_role := Leaf\<rparr>;
         l = l\<lparr>l_peer := (l_peer l)\<lparr>p_conf := copy_conf c t (p_conf (l_peer l)),
                p_fec := (p_fec (l_peer l))\<lparr>m_lite_mode := t_lite_mode t, m_fec_disable := \<not> c_fec_enabled c\<rparr>\<rparr>\<rparr>;
         l = l\<lparr>l_state := LHandshake, l_last_handshake_sent := e_now e - seconds 3600\<rparr>
     in (pk, t\<lparr>t_peers := om_set pk l (t_peers t), t_peer_by_addr := om_set a pk (t_peer_by_addr t)\<rparr>))"

definition find_or_create_peer_by_addr ::
  "config \<Rightarrow> env \<Rightarrow> u64 \<Rightarrow> addr_key \<Rightarrow> transport \<Rightarrow> peer_id \<times> transport" where
  "find_or_create_peer_by_addr c e rand a t =
    (case om_find (t_peer_by_addr t) a of
       Some pk \<Rightarrow> (if om_find (t_peers t) pk \<noteq> None then (pk, t) else create_peer c e rand a t)
     | None \<Rightarrow> create_peer c e rand a t)"

text \<open>\<open>resolved\<close> is what \<open>resolve_address\<close> makes of the host and port.\<close>

definition connect ::
  "config \<Rightarrow> env \<Rightarrow> peer_id \<Rightarrow> addr_key option \<Rightarrow> transport \<Rightarrow> bool \<times> transport" where
  "connect c e remote_id resolved t =
    (if \<not> t_running t then (False, t)
     else case resolved of
            None \<Rightarrow> (False, t)
          | Some a \<Rightarrow>
              let t = (case om_find (t_peer_by_addr t) a of
                         Some old \<Rightarrow> if old \<noteq> remote_id
                                     then t\<lparr>t_peers := om_erase old (t_peers t),
                                            t_peer_by_addr := om_set a remote_id (t_peer_by_addr t)\<rparr>
                                     else t
                       | None \<Rightarrow> t);
                  l = (case om_find (t_peers t) remote_id of Some l \<Rightarrow> l | None \<Rightarrow> link0);
                  l = l\<lparr>l_id := remote_id, l_addr := Some a, l_role := Node, l_reconnect := True\<rparr>;
                  l = l\<lparr>l_peer := (l_peer l)\<lparr>p_conf := copy_conf c t (p_conf (l_peer l))\<rparr>\<rparr>;
                  t = t\<lparr>t_peer_by_addr := om_set a remote_id (t_peer_by_addr t)\<rparr>;
                  l = (if l_state l = LClosed
                       then l\<lparr>l_state := LHandshake, l_last_handshake_sent := e_now e - seconds 3600,
                              l_handshake_backoff := milliseconds 500\<rparr>
                       else l);
                  (l, t) = send_handshake c e remote_id (l, t)
              in (True, t\<lparr>t_peers := om_set remote_id l (t_peers t)\<rparr>))"

end
