(* ===== verification/Link_Laws.thy ===== *)
theory Link_Laws
  imports Link
begin

text \<open>
  What the handlers and timers of a link guarantee: the handshake checks the token and carries the
  key, the clock offset is the best sample seen, the application learns of every change of state,
  and the retry delay stays between half a second and five seconds.
\<close>

section \<open>What sending leaves alone\<close>

lemma send_raw_bytes_link [simp]: "fst (send_raw_bytes pk d s) = fst s"
  by (cases s) (simp add: send_raw_bytes_def Let_def)

lemma send_raw_bytes_transport [simp]:
  "t_bandwidth (snd (send_raw_bytes pk d s)) = t_bandwidth (snd s)"
  "t_ident (snd (send_raw_bytes pk d s)) = t_ident (snd s)"
  "t_sock (snd (send_raw_bytes pk d s)) = t_sock (snd s)"
  "t_peers (snd (send_raw_bytes pk d s)) = t_peers (snd s)"
  "t_lite_mode (snd (send_raw_bytes pk d s)) = t_lite_mode (snd s)"
  by (cases s; simp add: send_raw_bytes_def Let_def)+

text \<open>The link after a control packet: a number is used and the packet is remembered.\<close>

lemma send_control_link:
  "fst (send_control ty payload ackable e pk s) =
    (if ackable
     then (fst s)\<lparr>l_control_seq_out := l_control_seq_out (fst s) + 1,
            l_peer := (l_peer (fst s))\<lparr>p_pending :=
              remember (l_control_seq_out (fst s))
                ((control_header ty e (snd s))\<lparr>h_sequence := l_control_seq_out (fst s),
                   h_payload_size := of_nat (length payload)\<rparr>) payload (e_now e) (48 + length payload)
                (p_pending (l_peer (fst s)))\<rparr>\<rparr>
     else fst s)"
  by (cases s) (auto simp add: send_control_def Let_def prod_eq_iff split: prod.splits
      dest!: arg_cong [of "send_raw_bytes _ _ _" _ fst])

lemma send_control_fields [simp]:
  "l_state (fst (send_control ty payload ackable e pk s)) = l_state (fst s)"
  "l_id (fst (send_control ty payload ackable e pk s)) = l_id (fst s)"
  "l_role (fst (send_control ty payload ackable e pk s)) = l_role (fst s)"
  "l_addr (fst (send_control ty payload ackable e pk s)) = l_addr (fst s)"
  "l_session (fst (send_control ty payload ackable e pk s)) = l_session (fst s)"
  "l_cmd (fst (send_control ty payload ackable e pk s)) = l_cmd (fst s)"
  "l_reconnect (fst (send_control ty payload ackable e pk s)) = l_reconnect (fst s)"
  "l_handshake_backoff (fst (send_control ty payload ackable e pk s)) = l_handshake_backoff (fst s)"
  "l_peer_client_id (fst (send_control ty payload ackable e pk s)) = l_peer_client_id (fst s)"
  "p_conf (l_peer (fst (send_control ty payload ackable e pk s))) = p_conf (l_peer (fst s))"
  "p_clock (l_peer (fst (send_control ty payload ackable e pk s))) = p_clock (l_peer (fst s))"
  by (simp_all add: send_control_link)

lemma remember_ok [simp]: "om_ok m \<Longrightarrow> om_ok (remember seq h payload now n m)"
  by (simp add: remember_def Let_def)

lemma send_control_transport [simp]:
  "t_bandwidth (snd (send_control ty payload ackable e pk s)) = t_bandwidth (snd s)"
  "t_ident (snd (send_control ty payload ackable e pk s)) = t_ident (snd s)"
  "t_sock (snd (send_control ty payload ackable e pk s)) = t_sock (snd s)"
  "t_peers (snd (send_control ty payload ackable e pk s)) = t_peers (snd s)"
  by (cases s; auto simp add: send_control_def Let_def split: prod.splits
      dest!: arg_cong [of "send_raw_bytes _ _ _" _ snd])+

lemma send_control_ok [simp]:
  "om_ok (p_pending (l_peer (fst s))) \<Longrightarrow> om_ok (p_pending (l_peer (fst (send_control ty payload ackable e pk s))))"
  by (simp add: send_control_link)

lemma send_handshake_fields [simp]:
  "l_state (fst (send_handshake c e pk s)) = l_state (fst s)"
  "l_id (fst (send_handshake c e pk s)) = l_id (fst s)"
  "l_role (fst (send_handshake c e pk s)) = l_role (fst s)"
  "l_session (fst (send_handshake c e pk s)) = l_session (fst s)"
  "l_cmd (fst (send_handshake c e pk s)) = l_cmd (fst s)"
  "l_peer_client_id (fst (send_handshake c e pk s)) = l_peer_client_id (fst s)"
  "l_handshake_backoff (fst (send_handshake c e pk s)) = l_handshake_backoff (fst s)"
  "p_conf (l_peer (fst (send_handshake c e pk s))) = p_conf (l_peer (fst s))"
  "p_clock (l_peer (fst (send_handshake c e pk s))) = p_clock (l_peer (fst s))"
  "t_ident (snd (send_handshake c e pk s)) = t_ident (snd s)"
  "om_ok (p_pending (l_peer (fst s))) \<Longrightarrow> om_ok (p_pending (l_peer (fst (send_handshake c e pk s))))"
  by (cases s; simp add: send_handshake_def Let_def)+

section \<open>The handshake\<close>

lemma take_drop_middle: "take n (drop n (xs @ ys)) = take n (drop n xs @ drop (n - length xs) ys)"
  by simp

text \<open>What one end writes the other end reads.\<close>

lemma handshake_understood:
  assumes "length (c_id c) < 65536" and "c_encryption_enabled c = enc" and "length (i_public i) = 32"
  shows "parse_handshake enc (handshake_payload c i) =
    Some (c_id c, Some (c_retransmit_enabled c), if enc then Some (i_public i) else None, c_token c)"
proof -
  define n where "n = length (c_id c)"
  define sz where "sz = (of_nat n :: u16)"
  define role :: u8 where "role = (case c_role c of Leaf \<Rightarrow> 0 | Node \<Rightarrow> 1)"
  define b :: u8 where "b = (if c_retransmit_enabled c then 1 else 0)"
  define key where "key = (if enc then i_public i else [])"
  define P where "P = [role, ucast (drop_bit 8 sz AND 0xFF), ucast (sz AND 0xFF)] @ c_id c @ c_token c @ key @ [b]"
  have n: "n < 65536" using assms(1) by (simp add: n_def)
  then have un: "unat sz = n" by (simp add: sz_def unat_of_nat)
  have m: "min (length (c_id c)) 65535 = n" using assms(1) by (simp add: n_def)
  have P: "handshake_payload c i = P"
    using assms(2) un
    by (simp add: handshake_payload_def Let_def m sz_def [symmetric] P_def role_def key_def b_def) (simp add: n_def)
  have "push_bit 8 (ucast (ucast (drop_bit 8 sz AND 0xFF) :: u8)) OR ucast (ucast (sz AND 0xFF) :: u8) = sz"
    by (rule bit_word_eqI) (auto simp add: bit_simps masks_u16)
  then have size: "unat (push_bit 8 (ucast (P ! 1)) OR ucast (P ! 2) :: u16) = n"
    by (simp add: P_def un)
  have lk: "length key = (if enc then 32 else 0)" using assms(3) by (simp add: key_def)
  have len: "length P = 3 + n + length (c_token c) + length key + 1" by (simp add: P_def n_def)
  have name: "take n (drop 3 P) = c_id c" by (simp add: P_def n_def)
  have last: "P ! (length P - 1) = b" by (simp add: P_def nth_append)
  define pre where "pre = [role, ucast (drop_bit 8 sz AND 0xFF), ucast (sz AND 0xFF)] @ c_id c @ c_token c"
  have pre: "P = pre @ key @ [b]" "length pre = 3 + n + length (c_token c)" by (simp_all add: P_def pre_def n_def)
  have pub: "enc \<Longrightarrow> get_at P (length P - 1 - 32) 32 = key"
    using lk by (simp add: len) (simp add: pre get_at_def)
  define pre2 where "pre2 = [role, ucast (drop_bit 8 sz AND 0xFF), ucast (sz AND 0xFF)] @ c_id c"
  have pre2: "P = pre2 @ c_token c @ key @ [b]" "length pre2 = 3 + n" by (simp_all add: P_def pre2_def n_def)
  have token: "get_at P (3 + n) (length (c_token c)) = c_token c"
    unfolding pre2(2) [symmetric] by (simp add: pre2(1) get_at_def)
  have flag: "(P ! (length P - 1) AND 1 \<noteq> 0) = c_retransmit_enabled c"
    unfolding last b_def by simp
  show ?thesis
    unfolding P parse_handshake_def Let_def size name flag
    using pub token lk by (auto simp add: len key_def)
qed

lemma restart_session_fields [simp]:
  "l_state (fst (restart_session h e s)) = l_state (fst s)"
  "l_id (fst (restart_session h e s)) = l_id (fst s)"
  "l_addr (fst (restart_session h e s)) = l_addr (fst s)"
  "l_reconnect (fst (restart_session h e s)) = l_reconnect (fst s)"
  "l_session (fst (restart_session h e s)) = l_session (fst s)"
  "l_peer_client_id (fst (restart_session h e s)) = l_peer_client_id (fst s)"
  "l_handshake_backoff (fst (restart_session h e s)) = l_handshake_backoff (fst s)"
  "p_conf (l_peer (fst (restart_session h e s))) = p_conf (l_peer (fst s))"
  "p_pending (l_peer (fst (restart_session h e s))) = p_pending (l_peer (fst s))"
  "l_cmd (fst (restart_session h e s)) = cmd_reset (l_cmd (fst s))"
  "snd (restart_session h e s) = snd s"
  by (cases s; simp add: restart_session_def sync_peer_def)+

lemma derive_key_fields [simp]:
  "l_state (fst (derive_key pub cid s)) = l_state (fst s)"
  "l_id (fst (derive_key pub cid s)) = l_id (fst s)"
  "l_role (fst (derive_key pub cid s)) = l_role (fst s)"
  "l_addr (fst (derive_key pub cid s)) = l_addr (fst s)"
  "l_reconnect (fst (derive_key pub cid s)) = l_reconnect (fst s)"
  "l_cmd (fst (derive_key pub cid s)) = l_cmd (fst s)"
  "l_peer (fst (derive_key pub cid s)) = l_peer (fst s)"
  "l_peer_client_id (fst (derive_key pub cid s)) = l_peer_client_id (fst s)"
  "l_handshake_backoff (fst (derive_key pub cid s)) = l_handshake_backoff (fst s)"
  "l_session (fst (derive_key pub cid s)) = derive_session_key (i_private (t_ident (snd s)))
     (i_client_id (t_ident (snd s))) pub cid (l_session (fst s))"
  "snd (derive_key pub cid s) = snd s"
  by (cases s; simp add: derive_key_def)+

lemma set_state_fields [simp]:
  "l_state (fst (set_state st s)) = st" "l_id (fst (set_state st s)) = l_id (fst s)"
  "l_role (fst (set_state st s)) = l_role (fst s)" "l_session (fst (set_state st s)) = l_session (fst s)"
  "l_peer (fst (set_state st s)) = l_peer (fst s)" "l_cmd (fst (set_state st s)) = l_cmd (fst s)"
  "l_peer_client_id (fst (set_state st s)) = l_peer_client_id (fst s)"
  "l_handshake_backoff (fst (set_state st s)) = l_handshake_backoff (fst s)"
  "l_addr (fst (set_state st s)) = l_addr (fst s)"
  "snd (set_state st s) = snd s"
  by (simp_all add: set_state_def)

lemma set_peer_retransmit_fields [simp]:
  "l_state (set_peer_retransmit b l) = l_state l" "l_id (set_peer_retransmit b l) = l_id l"
  "l_session (set_peer_retransmit b l) = l_session l" "l_addr (set_peer_retransmit b l) = l_addr l"
  "l_reconnect (set_peer_retransmit b l) = l_reconnect l" "l_role (set_peer_retransmit b l) = l_role l"
  "l_cmd (set_peer_retransmit b l) = l_cmd l"
  "l_peer_client_id (set_peer_retransmit b l) = l_peer_client_id l"
  "l_handshake_backoff (set_peer_retransmit b l) = l_handshake_backoff l"
  "p_pending (l_peer (set_peer_retransmit b l)) = p_pending (l_peer l)"
  "p_clock (l_peer (set_peer_retransmit b l)) = p_clock (l_peer l)"
  "m_peer_retransmit (p_conf (l_peer (set_peer_retransmit b l))) = b"
  by (simp_all add: set_peer_retransmit_def)

lemma role_byte: "handshake_payload c i ! 0 = 1 \<longleftrightarrow> c_role c = Node"
  by (simp add: handshake_payload_def Let_def split: link_role.split)

lemma role_eta: "(if r = Node then Node else Leaf) = r"
  by (cases r) simp_all

text \<open>A handshake with another token only touches the flag for retransmissions; with the token of
  the configuration it makes the link live and sets its name, role and key.\<close>

lemma handshake_result:
  assumes "length (c_id a) < 65536" and "c_encryption_enabled a = c_encryption_enabled c"
    and "length (i_public i) = 32"
  shows "c_token a \<noteq> c_token c \<Longrightarrow> handle_handshake c e pk h (handshake_payload a i) (l, t) =
      ((set_peer_retransmit (c_retransmit_enabled a) l, t), [])"
    and "c_token a = c_token c \<Longrightarrow> handle_handshake c e pk h (handshake_payload a i) (l, t) = (s, es) \<Longrightarrow>
      l_state (fst s) = (if live l then l_state l else LEstablished) \<and>
      es = (if live l then [] else [On_peer (l_id (fst s)) (c_role a) LEstablished (l_peer_client_id l)]) \<and>
      l_id (fst s) = (if c_id a \<noteq> [] then c_id a else l_id l) \<and> l_role (fst s) = c_role a \<and>
      m_peer_retransmit (p_conf (l_peer (fst s))) = c_retransmit_enabled a \<and> t_ident (snd s) = t_ident t \<and>
      l_session (fst s) =
        (if c_encryption_enabled c
         then derive_session_key (i_private (t_ident t)) (i_client_id (t_ident t)) (i_public i) (h_client_id h) (l_session l)
         else l_session l)"
proof -
  note p = handshake_understood [OF assms]
  show "c_token a \<noteq> c_token c \<Longrightarrow> handle_handshake c e pk h (handshake_payload a i) (l, t) =
      ((set_peer_retransmit (c_retransmit_enabled a) l, t), [])"
    by (simp add: handle_handshake_def p)
  obtain l1 where r: "restart_session h e (set_peer_retransmit (c_retransmit_enabled a) l, t) = (l1, t)"
    using restart_session_fields(11) by (metis prod.collapse snd_conv)
  note f = restart_session_fields [of h e "(set_peer_retransmit (c_retransmit_enabled a) l, t)", unfolded r, simplified]
  show "l_state (fst s) = (if live l then l_state l else LEstablished) \<and>
      es = (if live l then [] else [On_peer (l_id (fst s)) (c_role a) LEstablished (l_peer_client_id l)]) \<and>
      l_id (fst s) = (if c_id a \<noteq> [] then c_id a else l_id l) \<and> l_role (fst s) = c_role a \<and>
      m_peer_retransmit (p_conf (l_peer (fst s))) = c_retransmit_enabled a \<and> t_ident (snd s) = t_ident t \<and>
      l_session (fst s) =
        (if c_encryption_enabled c
         then derive_session_key (i_private (t_ident t)) (i_client_id (t_ident t)) (i_public i) (h_client_id h) (l_session l)
         else l_session l)"
    if "c_token a = c_token c" "handle_handshake c e pk h (handshake_payload a i) (l, t) = (s, es)"
  proof -
    define l2 where "l2 = (if c_id a \<noteq> [] then l1\<lparr>l_id := c_id a\<rparr> else l1)\<lparr>l_role := c_role a\<rparr>"
    define s2 where "s2 = (if c_encryption_enabled c then derive_key (i_public i) (h_client_id h) (l2, t) else (l2, t))"
    define s3 where "s3 = (if \<not> l_reconnect (fst s2) \<and> l_addr (fst s2) \<noteq> None then send_handshake c e pk s2 else s2)"
    have f2: "l_state l2 = l_state l" "l_id l2 = (if c_id a \<noteq> [] then c_id a else l_id l)" "l_role l2 = c_role a"
      "m_peer_retransmit (p_conf (l_peer l2)) = c_retransmit_enabled a" "l_session l2 = l_session l"
      "l_peer_client_id l2 = l_peer_client_id l"
      by (simp_all add: l2_def f)
    have f3: "l_state (fst s3) = l_state l" "l_id (fst s3) = (if c_id a \<noteq> [] then c_id a else l_id l)"
      "l_role (fst s3) = c_role a" "m_peer_retransmit (p_conf (l_peer (fst s3))) = c_retransmit_enabled a"
      "l_peer_client_id (fst s3) = l_peer_client_id l" "t_ident (snd s3) = t_ident t"
      "l_session (fst s3) = (if c_encryption_enabled c
         then derive_session_key (i_private (t_ident t)) (i_client_id (t_ident t)) (i_public i) (h_client_id h) (l_session l)
         else l_session l)"
      by (simp_all add: s3_def s2_def f2)
    have "(s, es) = (let (s, es) = (if \<not> live (fst s3) then fire_peer_event LEstablished (set_state LEstablished s3) else (s3, []))
        in (send_control HandshakeAck (handshake_ack_payload c (t_ident (snd s))) True e pk s, es))"
      unfolding that(2) [symmetric] handle_handshake_def p option.case prod.case
      by (cases "c_encryption_enabled c")
        (simp_all add: that(1) r Let_def role_byte role_eta live_def s3_def s2_def l2_def)
    then show ?thesis
      using f3 by (cases "live l") (auto simp add: live_def fire_peer_event_def)
  qed
qed

section \<open>The clock\<close>

definition clock_sample :: "int \<Rightarrow> u32 \<Rightarrow> u64 \<Rightarrow> int" where
  "clock_sample rtt_us tick ms =
    sint (tick - ucast (ms AND 0xFFFFFFFF)) * 1000 - (if 0 < rtt_us \<and> rtt_us < 100000 then rtt_us sdiv 2 else 0)"

lemma sync_clock_alt:
  "sync_clock rtt tick ms k =
    (if tick = 0 then k
     else k\<lparr>m_clock_offset_us := (if m_clock_synced k then max (m_clock_offset_us k) (clock_sample rtt tick ms)
                                  else clock_sample rtt tick ms),
            m_clock_synced := True, m_clock_pending := False\<rparr>)"
  by (auto simp add: sync_clock_def Let_def clock_sample_def max_def not_less)

fun sync_run :: "(int \<times> u32 \<times> u64) list \<Rightarrow> clock \<Rightarrow> clock" where
  "sync_run [] k = k"
| "sync_run ((rtt, tick, ms) # ss) k = sync_run ss (sync_clock rtt tick ms k)"

definition samples_of :: "(int \<times> u32 \<times> u64) list \<Rightarrow> int list" where
  "samples_of ss = map (\<lambda>(rtt, tick, ms). clock_sample rtt tick ms) (filter (\<lambda>(rtt, tick, ms). tick \<noteq> 0) ss)"

lemma samples_of_simps [simp]:
  "samples_of [] = []"
  "samples_of ((rtt, tick, ms) # ss) = (if tick = 0 then samples_of ss else clock_sample rtt tick ms # samples_of ss)"
  by (simp_all add: samples_of_def)

lemma sync_run_synced:
  "m_clock_synced k \<Longrightarrow> m_clock_synced (sync_run ss k) \<and>
     m_clock_offset_us (sync_run ss k) = foldl max (m_clock_offset_us k) (samples_of ss)"
proof (induction ss arbitrary: k)
  case (Cons x ss)
  then show ?case by (cases x) (simp add: sync_clock_alt)
qed simp

lemma foldl_max: "foldl max a xs = Max (insert a (set xs))" for a :: int
proof (induction xs arbitrary: a)
  case (Cons x xs)
  show ?case
  proof (cases "xs = []")
    case False
    then show ?thesis using Cons [of "max a x"] by (simp add: max.assoc max.left_commute max.commute)
  qed simp
qed simp

section \<open>Runs of a link\<close>

datatype link_event =
    Rx_handshake packet_header bytes
  | Rx_handshake_ack packet_header bytes
  | Rx_online
  | Rx_heartbeat packet_header bytes
  | Rx_probe packet_header
  | Rx_bye
  | Rx_ack packet_header
  | Tick_handshake
  | Tick_heartbeat
  | Tick_online
  | Tick_report
  | Tick_offline
  | Tick_flush

fun link_step :: "config \<Rightarrow> env \<Rightarrow> peer_id \<Rightarrow> link_event \<Rightarrow> here \<Rightarrow> here \<times> effect list" where
  "link_step c e pk (Rx_handshake h payload) s = handle_handshake c e pk h payload s"
| "link_step c e pk (Rx_handshake_ack h payload) s = handle_handshake_ack c e pk h payload s"
| "link_step c e pk Rx_online s = handle_online c e s"
| "link_step c e pk (Rx_heartbeat h payload) s = quiet (handle_heartbeat e h payload s)"
| "link_step c e pk (Rx_probe h) s = quiet (handle_probe e h s)"
| "link_step c e pk Rx_bye s = handle_bye s"
| "link_step c e pk (Rx_ack h) s = quiet (handle_ack e h s)"
| "link_step c e pk Tick_handshake s = quiet (resend_handshake c e pk s)"
| "link_step c e pk Tick_heartbeat s = quiet (send_heartbeat c e pk s)"
| "link_step c e pk Tick_online s = quiet (send_online_announcement c e pk s)"
| "link_step c e pk Tick_report s = send_report c e pk s"
| "link_step c e pk Tick_offline s = check_offline c e pk s"
| "link_step c e pk Tick_flush s = flush_command e s"

definition link_ok :: "link \<Rightarrow> bool" where
  "link_ok l \<longleftrightarrow> milliseconds 500 \<le> l_handshake_backoff l \<and> l_handshake_backoff l \<le> milliseconds 5000 \<and>
     om_ok (p_pending (l_peer l))"

text \<open>What the application was told last, and what it should know of a state.\<close>

definition visible :: "link_state \<Rightarrow> link_state" where
  "visible st = (if st = LHandshake then LClosed else st)"

definition view_step :: "link_state \<Rightarrow> effect \<Rightarrow> link_state" where
  "view_step v f = (case f of On_peer i r st k \<Rightarrow> st | _ \<Rightarrow> v)"

definition app_view :: "link_state \<Rightarrow> effect list \<Rightarrow> link_state" where
  "app_view v es = foldl view_step v es"

lemma app_view_simps [simp]:
  "app_view v [] = v" "app_view v (f # es) = app_view (view_step v f) es"
  "app_view v (es @ fs) = app_view (app_view v es) fs"
  by (simp_all add: app_view_def)

text \<open>The contract of every operation on a link.\<close>

definition tracks :: "here \<Rightarrow> here \<times> effect list \<Rightarrow> bool" where
  "tracks s r \<longleftrightarrow> (link_ok (fst s) \<longrightarrow> link_ok (fst (fst r))) \<and>
     visible (l_state (fst (fst r))) = app_view (visible (l_state (fst s))) (snd r)"

lemma tracks_quiet:
  "(link_ok (fst s) \<Longrightarrow> link_ok (fst s')) \<Longrightarrow> l_state (fst s') = l_state (fst s) \<Longrightarrow> tracks s (quiet s')"
  by (simp add: tracks_def quiet_def)

lemma tracks_and_then: "tracks s r \<Longrightarrow> (\<And>s'. tracks s' (f s')) \<Longrightarrow> tracks s (and_then r f)"
  by (cases r) (simp add: tracks_def)

lemma tracks_silent:
  "(link_ok (fst s) \<Longrightarrow> link_ok (fst s')) \<Longrightarrow> l_state (fst s') = l_state (fst s) \<Longrightarrow> tracks s (s', [])"
  using tracks_quiet [of s s'] by (simp add: quiet_def)

lemma tracks_refl [simp]: "tracks s (s, [])"
  by (simp add: tracks_def)

lemma link_ok_sends [simp, intro]:
  "link_ok (fst s) \<Longrightarrow> link_ok (fst (send_control ty payload ackable e pk s))"
  "link_ok (fst s) \<Longrightarrow> link_ok (fst (send_handshake c e pk s))"
  by (simp_all add: link_ok_def)

lemma speed_test_tracks: "tracks s (send_speed_test c e s)"
proof -
  have "app_view v (map (\<lambda>n. Sendto a (g n)) xs) = v" for v a g and xs :: "nat list"
    by (induction xs) (simp_all add: view_step_def)
  then show ?thesis
    by (cases s) (simp add: tracks_def send_speed_test_def Let_def split: option.split)
qed

lemma visible_simps [simp]: "visible LHandshake = LClosed" "visible LClosed = LClosed"
  "visible LEstablished = LEstablished" "visible LOnline = LOnline"
  by (simp_all add: visible_def)

lemma view_step_simps [simp]: "view_step v (On_peer i r st k) = st" "view_step v (Sendto a d) = v"
  "view_step v (On_command i b) = v"
  by (simp_all add: view_step_def)

lemma handle_handshake_tracks: "tracks s (handle_handshake c e pk h payload s)"
proof (cases "parse_handshake (c_encryption_enabled c) payload")
  case None
  then show ?thesis by (simp add: handle_handshake_def tracks_silent)
next
  case (Some x)
  obtain l t where s: "s = (l, t)" by (cases s)
  obtain name flag pub token where x: "x = (name, flag, pub, token)" by (cases x)
  define l0 where "l0 = (case flag of None \<Rightarrow> l | Some b \<Rightarrow> set_peer_retransmit b l)"
  have l0: "link_ok l0 = link_ok l" "l_state l0 = l_state l"
    by (simp_all add: l0_def link_ok_def split: option.split)
  show ?thesis
  proof (cases "token = c_token c")
    case False
    then have "handle_handshake c e pk h payload s = ((l0, t), [])"
      by (simp add: handle_handshake_def Some x s l0_def)
    then show ?thesis using l0 by (simp add: s tracks_def)
  next
    case True
    obtain l1 where r: "restart_session h e (l0, t) = (l1, t)"
      using restart_session_fields(11) by (metis prod.collapse snd_conv)
    note f = restart_session_fields [of h e "(l0, t)", unfolded r, simplified]
    define l2 where "l2 = (if name \<noteq> [] then l1\<lparr>l_id := name\<rparr> else l1)\<lparr>l_role := (if payload ! 0 = 1 then Node else Leaf)\<rparr>"
    define s2 where "s2 = (case pub of None \<Rightarrow> (l2, t) | Some k \<Rightarrow> derive_key k (h_client_id h) (l2, t))"
    define s3 where "s3 = (if \<not> l_reconnect (fst s2) \<and> l_addr (fst s2) \<noteq> None then send_handshake c e pk s2 else s2)"
    have "link_ok (fst s2) = link_ok l1" by (simp add: s2_def l2_def link_ok_def split: option.split)
    also have "\<dots> = link_ok l" using f l0 by (simp add: link_ok_def)
    finally have ok: "link_ok l \<Longrightarrow> link_ok (fst s3)" by (simp add: s3_def)
    have "l_state (fst s2) = l_state l1" by (simp add: s2_def l2_def split: option.split)
    then have st: "l_state (fst s3) = l_state l" by (simp add: s3_def f l0)
    have "handle_handshake c e pk h payload s =
        (let (s, es) = (if l_state (fst s3) \<noteq> LEstablished \<and> l_state (fst s3) \<noteq> LOnline
                        then fire_peer_event LEstablished (set_state LEstablished s3) else (s3, []))
         in (send_control HandshakeAck (handshake_ack_payload c (t_ident (snd s))) True e pk s, es))"
      unfolding handle_handshake_def Some x s option.case prod.case Let_def l0_def [symmetric] r l2_def [symmetric]
        s2_def [symmetric] s3_def [symmetric]
      by (simp add: True)
    moreover have "link_ok (fst s3) \<Longrightarrow> link_ok (fst (set_state LEstablished s3))"
      by (simp add: link_ok_def)
    ultimately show ?thesis
      using ok st by (cases "l_state l") (auto simp add: tracks_def s fire_peer_event_def)
  qed
qed

lemma handle_online_tracks: "tracks s (handle_online c e s)"
proof -
  have "tracks s (fire_peer_event LOnline (set_state LOnline s))"
    by (simp add: tracks_def fire_peer_event_def link_ok_def)
  then show ?thesis
    by (auto simp add: handle_online_def intro!: tracks_and_then speed_test_tracks tracks_silent)
qed

lemma handle_handshake_ack_tracks: "tracks s (handle_handshake_ack c e pk h payload s)"
proof -
  define s1 where "s1 = restart_session h e s"
  define s2 where "s2 = (if payload \<noteq> []
              then let tail = length payload;
                       s = (set_peer_retransmit (payload ! (tail - 1) AND 1 \<noteq> 0) (fst s1), snd s1);
                       tail = tail - 1
                   in if c_encryption_enabled c \<and> tail \<ge> 32
                      then derive_key (get_at payload (tail - 32) 32) (h_client_id h) s else s
              else s1)"
  have ok: "link_ok (fst s2) = link_ok (fst s)" and st: "l_state (fst s2) = l_state (fst s)"
    by (simp_all add: s2_def s1_def Let_def link_ok_def)
  obtain l t where sc: "send_control Online [] True e pk s2 = (l, t)"
    by (cases "send_control Online [] True e pk s2")
  have l: "link_ok (fst s2) \<Longrightarrow> link_ok l" using link_ok_sends(1) [of s2 Online "[]" True e pk] by (simp add: sc)
  define s3 where "s3 = (l\<lparr>l_last_online_sent := e_now e, l_state := LOnline, l_handshake_backoff := milliseconds 500\<rparr>, t)"
  have "handle_handshake_ack c e pk h payload s =
      (if l_state (fst s2) = LOnline then (s2, [])
       else if l_state (fst s2) = LHandshake \<or> l_state (fst s2) = LEstablished
       then and_then (fire_peer_event LOnline s3) (send_speed_test c e)
       else (s2, []))"
    unfolding handle_handshake_ack_def s1_def [symmetric] Let_def s2_def [unfolded Let_def, symmetric] sc
      prod.case s3_def
    by (rule refl)
  moreover have "tracks s (fire_peer_event LOnline s3)"
    using l ok by (simp add: tracks_def fire_peer_event_def s3_def link_ok_def milliseconds_def)
  then have "tracks s (and_then (fire_peer_event LOnline s3) (send_speed_test c e))"
    by (rule tracks_and_then) (rule speed_test_tracks)
  moreover have "tracks s (s2, [])" by (rule tracks_silent) (simp_all add: ok st)
  ultimately show ?thesis by simp
qed

lemma sync_peer_fields [simp]:
  "l_state (fst (sync_peer tick ms s)) = l_state (fst s)"
  "l_handshake_backoff (fst (sync_peer tick ms s)) = l_handshake_backoff (fst s)"
  "p_pending (l_peer (fst (sync_peer tick ms s))) = p_pending (l_peer (fst s))"
  by (cases s; simp add: sync_peer_def)+

lemma try_sync_clock_fields [simp]:
  "l_state (fst (try_sync_clock s)) = l_state (fst s)"
  "l_handshake_backoff (fst (try_sync_clock s)) = l_handshake_backoff (fst s)"
  "p_pending (l_peer (fst (try_sync_clock s))) = p_pending (l_peer (fst s))"
  by (simp_all add: try_sync_clock_def Let_def)

lemma feed_rtt_link [simp]: "fst (feed_rtt_from_tick tick e s) = fst s"
  by (cases s) (simp add: feed_rtt_from_tick_def Let_def)

lemma small_handlers_track:
  "tracks s (quiet (handle_heartbeat e h payload s))" "tracks s (quiet (handle_probe e h s))"
  "tracks s (handle_bye s)" "tracks s (quiet (handle_ack e h s))" "tracks s (flush_command e s)"
proof -
  show "tracks s (quiet (handle_heartbeat e h payload s))"
    by (cases s, rule tracks_quiet) (auto simp add: handle_heartbeat_def link_ok_def)
  show "tracks s (quiet (handle_probe e h s))"
    by (cases s, rule tracks_quiet) (auto simp add: handle_probe_def link_ok_def Let_def)
  show "tracks s (handle_bye s)"
    by (simp add: handle_bye_def tracks_def fire_peer_event_def link_ok_def)
  show "tracks s (quiet (handle_ack e h s))"
    by (cases s, rule tracks_quiet) (auto simp add: handle_ack_def link_ok_def Let_def split: option.split)
  have "app_view v (map (On_command i) xs) = v" for v i xs by (induction xs) simp_all
  then show "tracks s (flush_command e s)"
    by (cases s) (simp add: flush_command_def tracks_def link_ok_def split: prod.split)
qed

lemma live_cases: "live l \<longleftrightarrow> visible (l_state l) = LEstablished \<or> visible (l_state l) = LOnline"
  by (cases "l_state l") (simp_all add: live_def)

lemma timers_track:
  "tracks s (quiet (resend_handshake c e pk s))" "tracks s (quiet (send_heartbeat c e pk s))"
  "tracks s (quiet (send_online_announcement c e pk s))" "tracks s (send_report c e pk s)"
  "tracks s (check_offline c e pk s)"
proof -
  obtain l t where s: "s = (l, t)" by (cases s)
  show "tracks s (quiet (resend_handshake c e pk s))"
  proof (rule tracks_quiet)
    have d: "link_ok l \<Longrightarrow> link_ok (drop_handshakes l)" "l_state (drop_handshakes l) = l_state l"
      by (simp_all add: link_ok_def drop_handshakes_def om_ok_filter)
    obtain l2 t2 where sh: "send_handshake c e pk (drop_handshakes l, t) = (l2, t2)"
      by (cases "send_handshake c e pk (drop_handshakes l, t)")
    have l2: "link_ok l \<Longrightarrow> link_ok l2" "l_state l2 = l_state l"
      using link_ok_sends(2) [of "(drop_handshakes l, t)" c e pk] send_handshake_fields(1) [of c e pk "(drop_handshakes l, t)"] d
      by (simp_all add: sh)
    show "link_ok (fst (resend_handshake c e pk s))" if "link_ok (fst s)"
      using that d l2 by (auto simp add: resend_handshake_def s Let_def sh link_ok_def milliseconds_def)
    show "l_state (fst (resend_handshake c e pk s)) = l_state (fst s)"
      using d l2 by (simp add: resend_handshake_def s Let_def sh)
  qed
  show "tracks s (quiet (send_heartbeat c e pk s))"
    by (rule tracks_quiet) (auto simp add: send_heartbeat_def s Let_def send_control_link link_ok_def split: prod.split
        dest!: arg_cong [of "send_control _ _ _ _ _ _" _ fst])
  show "tracks s (quiet (send_online_announcement c e pk s))"
    by (rule tracks_quiet) (auto simp add: send_online_announcement_def s Let_def send_control_link link_ok_def split: prod.split
        dest!: arg_cong [of "send_control _ _ _ _ _ _" _ fst])
  have pend: "p_pending (fst (build_payload now ms lb lite p)) = p_pending p" for now ms lb lite p
    by (simp add: build_payload_def collect_def Let_def split: prod.split)
  have "tracks (l, t) (and_then (send_direct d (l\<lparr>l_peer := p\<rparr>, t)) (\<lambda>(l, t). ((l\<lparr>l_last_report_sent := n\<rparr>, t), [])))"
    if "p_pending p = p_pending (l_peer l)" for d p n
    using that by (simp add: send_direct_def tracks_def link_ok_def split: option.split)
  note sent = this
  obtain p payload where b: "build_payload (e_now e) (c_report_interval c div 1000000) (c_late_buffer_ms c)
      (t_lite_mode t) (l_peer l) = (p, payload)"
    by fastforce
  then have "p_pending p = p_pending (l_peer l)" using pend by (metis fst_conv)
  note sent = sent [OF this]
  show "tracks s (send_report c e pk s)"
    by (simp only: send_report_def s Let_def prod.case b) (simp add: sent tracks_silent)
  have x: "link_ok (expire_inbox c e l) = link_ok l" "l_state (expire_inbox c e l) = l_state l"
    "live (expire_inbox c e l) = live l"
    by (simp_all add: expire_inbox_def link_ok_def live_def)
  show "tracks s (check_offline c e pk s)"
    using x by (auto simp add: check_offline_def s tracks_def Let_def fire_peer_event_def link_ok_def milliseconds_def)
qed

lemma link_step_tracks: "tracks s (link_step c e pk ev s)"
  by (cases ev) (simp_all add: handle_handshake_tracks handle_handshake_ack_tracks handle_online_tracks
      small_handlers_track timers_track)

text \<open>The runs of a link from its creation or from a closed state, with everything the transport
  did to the outside.\<close>

inductive link_run :: "config \<Rightarrow> peer_id \<Rightarrow> here \<Rightarrow> effect list \<Rightarrow> bool" for c :: config and pk :: peer_id where
  start: "link_ok l \<Longrightarrow> l_state l = LHandshake \<or> l_state l = LClosed \<Longrightarrow> link_run c pk (l, t) []"
| step: "link_run c pk s es \<Longrightarrow> link_step c e pk ev s = (s', fs) \<Longrightarrow> link_run c pk s' (es @ fs)"

inductive_cases link_run_cases: "link_run c pk s es"

lemma link_run_invariant:
  "link_run c pk s es \<Longrightarrow> link_ok (fst s) \<and> visible (l_state (fst s)) = app_view LClosed es"
proof (induction rule: link_run.induct)
  case (step s es e ev s' fs)
  then show ?case using link_step_tracks [of s c e pk ev] by (simp add: tracks_def)
qed auto

section \<open>Properties\<close>

text \<open>
  The token guards the handshake.  A handshake written by an end with another token changes
  nothing but the flag for retransmissions and tells the application nothing; with the same token it
  makes the link live, reports that once, and takes over the name, the role, the flag and, with
  encryption, the key derived from the public key it carries.
\<close>

theorem handshake_checks_token:
  assumes "length (c_id a) < 65536" and "c_encryption_enabled a = c_encryption_enabled c"
    and "length (i_public i) = 32"
    and "handle_handshake c e pk h (handshake_payload a i) (l, t) = (s, es)"
  shows "if c_token a = c_token c
    then l_state (fst s) = (if live l then l_state l else LEstablished) \<and>
      es = (if live l then [] else [On_peer (l_id (fst s)) (c_role a) LEstablished (l_peer_client_id l)]) \<and>
      l_id (fst s) = (if c_id a \<noteq> [] then c_id a else l_id l) \<and> l_role (fst s) = c_role a \<and>
      m_peer_retransmit (p_conf (l_peer (fst s))) = c_retransmit_enabled a \<and>
      l_session (fst s) =
        (if c_encryption_enabled c
         then derive_session_key (i_private (t_ident t)) (i_client_id (t_ident t)) (i_public i) (h_client_id h) (l_session l)
         else l_session l)
    else s = (set_peer_retransmit (c_retransmit_enabled a) l, t) \<and> es = []"
  using handshake_result [OF assms(1-3), of e pk h l t] assms(4) by auto

text \<open>
  The clock offset is the best sample.  After any sequence of samples the offset is the largest
  of the valid ones (and of the offset before, if there was one); samples without a tick change
  nothing.  So queueing delay and retransmissions, which only make samples smaller, never lower it.
\<close>

theorem clock_is_best_sample:
  "m_clock_synced (sync_run ss k) = (if samples_of ss = [] then m_clock_synced k else True) \<and>
   m_clock_offset_us (sync_run ss k) =
     (if m_clock_synced k then Max (insert (m_clock_offset_us k) (set (samples_of ss)))
      else if samples_of ss = [] then m_clock_offset_us k else Max (set (samples_of ss)))"
proof (cases "m_clock_synced k")
  case True
  then show ?thesis using sync_run_synced [OF True, of ss] by (simp add: foldl_max)
next
  case False
  then show ?thesis
  proof (induction ss)
    case (Cons x ss)
    obtain rtt tick ms where x: "x = (rtt, tick, ms)" by (cases x)
    show ?case
    proof (cases "tick = 0")
      case True
      then show ?thesis using Cons by (simp add: x sync_clock_alt)
    next
      case F: False
      define k' where "k' = sync_clock rtt tick ms k"
      have "m_clock_synced k'" "m_clock_offset_us k' = clock_sample rtt tick ms"
        using F False by (simp_all add: k'_def sync_clock_alt)
      then show ?thesis using sync_run_synced [of k' ss] False F by (simp add: x k'_def foldl_max)
    qed
  qed simp
qed


lemma speed_test_same [simp]: "fst (send_speed_test c e s) = s"
  by (cases s) (simp add: send_speed_test_def Let_def split: option.split)

lemma ack_result:
  assumes "l_state l = LHandshake" and "c_encryption_enabled a = c_encryption_enabled c"
    and "length (i_public i) = 32"
    and "handle_handshake_ack a e pk h (handshake_ack_payload c i) (l, t) = (s, es)"
  shows "l_state (fst s) = LOnline \<and> m_peer_retransmit (p_conf (l_peer (fst s))) = c_retransmit_enabled c \<and>
    l_session (fst s) =
      (if c_encryption_enabled c
       then derive_session_key (i_private (t_ident t)) (i_client_id (t_ident t)) (i_public i) (h_client_id h) (l_session l)
       else l_session l)"
proof -
  define b :: u8 where "b = (if c_retransmit_enabled c then 1 else 0)"
  have bf: "(b AND 1 \<noteq> 0) = c_retransmit_enabled c" by (simp add: b_def)
  define s1 where "s1 = restart_session h e (l, t)"
  define s2 where "s2 = (set_peer_retransmit (c_retransmit_enabled c) (fst s1), snd s1)"
  define s3 where "s3 = (if c_encryption_enabled c then derive_key (i_public i) (h_client_id h) s2 else s2)"
  have P: "handshake_ack_payload c i = (if c_encryption_enabled c then i_public i else []) @ [b]"
    by (simp add: handshake_ack_payload_def b_def)
  have f: "l_state (fst s3) = LHandshake" "m_peer_retransmit (p_conf (l_peer (fst s3))) = c_retransmit_enabled c"
    "l_session (fst s3) =
      (if c_encryption_enabled c
       then derive_session_key (i_private (t_ident t)) (i_client_id (t_ident t)) (i_public i) (h_client_id h) (l_session l)
       else l_session l)"
    using assms(1) by (simp_all add: s3_def s2_def s1_def)
  obtain l4 t4 where sc: "send_control Online [] True e pk s3 = (l4, t4)" by (cases "send_control Online [] True e pk s3")
  have f4: "m_peer_retransmit (p_conf (l_peer l4)) = c_retransmit_enabled c" "l_session l4 = l_session (fst s3)"
    using send_control_fields [of Online "[]" True e pk s3] f by (simp_all add: sc)
  have pub: "get_at (i_public i @ [b]) 0 32 = i_public i" using assms(3) by (simp add: get_at_def)
  have "(s, es) = and_then (fire_peer_event LOnline
      (l4\<lparr>l_last_online_sent := e_now e, l_state := LOnline, l_handshake_backoff := milliseconds 500\<rparr>, t4)) (send_speed_test a e)"
  proof (cases "c_encryption_enabled c")
    case True
    then show ?thesis
      unfolding assms(4) [symmetric] handle_handshake_ack_def P s1_def [symmetric] Let_def
      using assms(2,3) f(1) sc by (simp add: nth_append bf [simplified] pub s3_def s2_def)
  next
    case False
    then show ?thesis
      unfolding assms(4) [symmetric] handle_handshake_ack_def P s1_def [symmetric] Let_def
      using assms(2) f(1) sc by (simp add: bf [simplified] s3_def s2_def)
  qed
  then show ?thesis using f f4 by (simp add: fire_peer_event_def)
qed


section \<open>Examples\<close>

definition ex_config :: config where
  "ex_config = default_config\<lparr>c_id := [65], c_token := [7, 7], c_encryption_enabled := False\<rparr>"

definition ex_transport :: transport where
  "ex_transport = (new_transport ex_config 0 5 6 [] [])\<lparr>t_running := True, t_sock := True\<rparr>"

definition ex_link :: link where
  "ex_link = link0\<lparr>l_addr := Some (AddrKey 1 2), l_state := LHandshake\<rparr>"

definition ex_env :: env where
  "ex_env = \<lparr> e_now = seconds 10, e_ms = 10000 \<rparr>"

definition ex_hello :: packet_header where
  "ex_hello = header0\<lparr>h_client_id := 5, h_tick := 9990\<rparr>"

lemma ex_public: "length (i_public (t_ident ex_transport)) = 32" "i_client_id (t_ident ex_transport) = 5"
  by (simp_all add: ex_transport_def new_transport_def Let_def mask_eq_exp_minus_1 ex_config_def default_config_def)

lemma handshake_checks_token_witness:
  "snd (handle_handshake ex_config ex_env [1] ex_hello
     (handshake_payload (ex_config\<lparr>c_token := [7, 8]\<rparr>) (t_ident ex_transport)) (ex_link, ex_transport)) = [] \<and>
   l_state (fst (fst (handle_handshake ex_config ex_env [1] ex_hello
     (handshake_payload ex_config (t_ident ex_transport)) (ex_link, ex_transport)))) = LEstablished"
proof -
  obtain s es where 1: "handle_handshake ex_config ex_env [1] ex_hello
     (handshake_payload (ex_config\<lparr>c_token := [7, 8]\<rparr>) (t_ident ex_transport)) (ex_link, ex_transport) = (s, es)"
    by fastforce
  obtain s' es' where 2: "handle_handshake ex_config ex_env [1] ex_hello
     (handshake_payload ex_config (t_ident ex_transport)) (ex_link, ex_transport) = (s', es')"
    by fastforce
  have c: "length (c_id ex_config) < 65536" "c_token ex_config = [7, 7]" by (simp_all add: ex_config_def)
  have "\<not> live ex_link" by (simp add: live_def ex_link_def)
  then show ?thesis
    using handshake_checks_token [OF _ _ ex_public(1) 1] handshake_checks_token [OF _ _ ex_public(1) 2] c
    unfolding 1 2 by simp
qed



end
