(* ===== verification/Outbound.thy ===== *)
theory Outbound
  imports Link Fragmenter
begin

text \<open>
  The way out of \<open>transport.cpp\<close>: messages and commands of the application, the send queue of
  the reactor, the encoding stage that turns a message into datagrams, and the operations that drain
  or clear what is queued.
\<close>

section \<open>Limits\<close>

definition queue_limit :: "config \<Rightarrow> transport \<Rightarrow> nat" where
  "queue_limit c t =
    (if \<not> t_lite_mode t then c_queue_limit c
     else if c_lite_profile c = Audio then min (c_queue_limit c) 64 else min (c_queue_limit c) 128)"

definition max_message_bytes :: "config \<Rightarrow> nat" where
  "max_message_bytes c = max (8 * 1024) (min (c_max_message_bytes c) (10 * 1024 * 1024))"

definition flush_interval :: "config \<Rightarrow> transport \<Rightarrow> time" where
  "flush_interval c t =
    (if t_lite_mode t then max (c_flush_interval c) (milliseconds 10) else c_flush_interval c)"

definition set_queues :: "(queues \<Rightarrow> queues) \<Rightarrow> transport \<Rightarrow> transport" where
  "set_queues f t = t\<lparr>t_queues := f (t_queues t)\<rparr>"

text \<open>\<open>m_send_queue[p].emplace_back(m)\<close>, and the number of queued messages.\<close>

definition enqueue_msg :: "int \<Rightarrow> send_msg \<Rightarrow> queues \<Rightarrow> queues" where
  "enqueue_msg p m q =
    q\<lparr>q_send := om_set p ((case om_find (q_send q) p of None \<Rightarrow> [] | Some ms \<Rightarrow> ms) @ [m]) (q_send q)\<rparr>"

definition queued_total :: "queues \<Rightarrow> nat" where
  "queued_total q = sum_list (map (\<lambda>e. length (snd e)) (q_send q)) + m_size (q_encode q)"

section \<open>Messages and commands of the application\<close>

definition kKeyframeHoldTotal :: time where "kKeyframeHoldTotal = milliseconds 800"

definition hold_keyframe :: "env \<Rightarrow> capacity \<Rightarrow> capacity" where
  "hold_keyframe e v =
    (let v = v\<lparr>v_evac_keyframe_sent := True\<rparr>; hold_until = e_now e + kKeyframeHoldTotal;
         cur = v_evac_freeze_until v
     in if cur = 0 \<or> hold_until > cur then v\<lparr>v_evac_freeze_until := hold_until\<rparr> else v)"

definition send_message ::
  "config \<Rightarrow> env \<Rightarrow> peer_id \<Rightarrow> bytes \<Rightarrow> int \<Rightarrow> u8 \<Rightarrow> bool \<Rightarrow> transport \<Rightarrow> bool \<times> transport" where
  "send_message c e pid payload priority channel keyframe t =
    (let q = t_queues t in
     if \<not> t_running t then (False, t)
     else if length payload > max_message_bytes c then (False, t)
     else if queued_total q \<ge> queue_limit c t then (False, t)
     else if m_capacity (q_outbound q) > 0 \<and> m_size (q_outbound q) \<ge> m_capacity (q_outbound q) then (False, t)
     else
       let q = enqueue_msg priority \<lparr> qm_peer = pid, qm_payload = payload, qm_channel = channel \<rparr> q;
           t = (if keyframe \<and> v_evac_mode (t_capacity t) = 1
                then t\<lparr>t_capacity := hold_keyframe e (t_capacity t)\<rparr> else t)
       in (True, t\<lparr>t_queues := q\<lparr>q_last_app_send_ms := e_ms e\<rparr>\<rparr>))"

text \<open>\<open>m_peers.find(id)\<close>, otherwise the first peer with that name.\<close>

definition find_peer :: "peer_id \<Rightarrow> transport \<Rightarrow> (peer_id \<times> link) option" where
  "find_peer pid t =
    (case om_find (t_peers t) pid of
       Some l \<Rightarrow> Some (pid, l)
     | None \<Rightarrow> find (\<lambda>(k, l). l_id l = pid) (t_peers t))"

definition command_header :: "env \<Rightarrow> transport \<Rightarrow> link \<Rightarrow> bytes \<Rightarrow> packet_header" where
  "command_header e t l payload =
    (control_header Command e t)\<lparr>h_sequence := m_cmd_seq_out (l_cmd l),
       h_payload_size := of_nat (length payload)\<rparr>"

definition send_command ::
  "config \<Rightarrow> env \<Rightarrow> peer_id \<Rightarrow> bytes \<Rightarrow> transport \<Rightarrow> bool \<times> transport \<times> effect list" where
  "send_command c e pid payload t =
    (if \<not> t_running t then (False, t, [])
     else
       let max_payload = (if c_mtu c > kHeaderSize then c_mtu c - kHeaderSize else 0) in
       if length payload > max_payload then (False, t, [])
       else case find_peer pid t of
              None \<Rightarrow> (False, t, [])
            | Some (pk, l) \<Rightarrow>
                if \<not> live l then (False, t, [])
                else
                  let h = command_header e t l payload;
                      l = l\<lparr>l_cmd := (l_cmd l)\<lparr>m_cmd_seq_out := m_cmd_seq_out (l_cmd l) + 1\<rparr>\<rparr>;
                      (s, es) = send_direct (build_wire_packet (c_encryption_enabled c) (l_session l) h payload) (l, t)
                  in (True, (snd s)\<lparr>t_peers := om_set pk (fst s) (t_peers (snd s))\<rparr>, es))"

section \<open>The send queue\<close>

definition drained :: "env \<Rightarrow> u8 \<Rightarrow> queues \<Rightarrow> bool" where
  "drained e channel q \<longleftrightarrow> channel < 8 \<and> e_ms e < q_drain_until_ms q ! unat channel"

text \<open>One message.  \<open>try_push\<close> takes the task by value, so the payload is gone when the queue is
  full and the message put back is empty.\<close>

definition process_msg :: "config \<Rightarrow> env \<Rightarrow> int \<Rightarrow> send_msg \<Rightarrow> transport \<Rightarrow> transport" where
  "process_msg c e priority m t =
    (let q = t_queues t in
     case find_peer (qm_peer m) t of
       None \<Rightarrow> t
     | Some (pk, l) \<Rightarrow>
         if drained e (qm_channel m) q then t
         else if \<not> live l
         then (if l_state l \<noteq> LClosed \<and> queued_total q < queue_limit c t
               then t\<lparr>t_queues := enqueue_msg priority m q\<rparr> else t)
         else
           let (pushed, enc) = bq_try_push \<lparr> et_peer = pk, et_payload = qm_payload m, et_channel = qm_channel m \<rparr>
                                 (q_encode q);
               q = q\<lparr>q_encode := enc\<rparr>
           in if \<not> pushed \<and> queued_total q < queue_limit c t
              then t\<lparr>t_queues := enqueue_msg 0 (m\<lparr>qm_payload := []\<rparr>) q\<rparr>
              else t\<lparr>t_queues := q\<rparr>)"

definition process_send_queue :: "config \<Rightarrow> env \<Rightarrow> transport \<Rightarrow> transport" where
  "process_send_queue c e t =
    (let local = q_send (t_queues t); t = set_queues (\<lambda>q. q\<lparr>q_send := []\<rparr>) t
     in foldl (\<lambda>t (p, ms). foldl (\<lambda>t m. process_msg c e p m t) t ms) t (rev local))"

section \<open>Encoding\<close>

definition data_header :: "env \<Rightarrow> u8 \<Rightarrow> frag_call \<Rightarrow> u32 \<Rightarrow> transport \<Rightarrow> packet_header" where
  "data_header e channel f seq t =
    (control_header (if fc_idx f < fc_data_cnt f then Data else Parity) e t)\<lparr>
       h_flags := fc_data_cnt f, h_sequence := seq, h_message_id := fc_msg_id f,
       h_fragment_index := fc_idx f, h_fragment_count := fc_cnt f,
       h_reserved := (fc_real_size f AND kRealSizeMask) OR push_bit kChannelShift (ucast (channel AND 0x0F)),
       h_payload_size := of_nat (fc_width f)\<rparr>"

text \<open>One fragment: data fragments take a sequence number, and those of a reliable channel are kept
  for retransmission if the peer takes part in it.\<close>

definition send_data_packet :: "config \<Rightarrow> env \<Rightarrow> peer_id \<Rightarrow> u8 \<Rightarrow> frag_call \<Rightarrow> here \<Rightarrow> here" where
  "send_data_packet c e pk channel f s =
    (let (l, t) = s;
         payload = put_at (replicate (fc_width f) 0) 0 (take (min (length (fc_data f)) (fc_width f)) (fc_data f));
         is_data = fc_idx f < fc_data_cnt f;
         reliable_ch = channel < 8 \<and> c_channel_reliable c ! unat channel;
         keep_pending = is_data \<and> reliable_ch \<and> m_peer_retransmit (p_conf (l_peer l));
         seq = (if is_data then l_sequence_out l else 0);
         l = (if is_data then l\<lparr>l_sequence_out := l_sequence_out l + 1\<rparr> else l);
         h = data_header e channel f seq t;
         datagram = build_wire_packet (c_encryption_enabled c) (l_session l) h payload;
         (l, t) = send_raw pk datagram channel (l, t)
     in if keep_pending
        then (l\<lparr>l_peer := (l_peer l)\<lparr>p_pending := remember seq h payload (e_now e) (length datagram)
                                                   (p_pending (l_peer l))\<rparr>\<rparr>, t)
        else (l, t))"

text \<open>\<open>bufs\<close> are the parity buffers of the encoding thread, which it keeps between messages.\<close>

definition fragment_msg ::
  "(f64 \<Rightarrow> f64) \<Rightarrow> config \<Rightarrow> env \<Rightarrow> peer_id \<Rightarrow> bytes \<Rightarrow> u8 \<Rightarrow> bytes list \<times> here \<Rightarrow> bytes list \<times> here" where
  "fragment_msg log2 c e pk payload channel b =
    (let (bufs, l, t) = b;
         probe_extra = ucast (m_fec_probe_extra (t_bandwidth t)) :: u16;
         chan_extra = (if channel < 8 then c_channel_fec_extra c ! unat channel else 0);
         probe_extra = (if channel \<noteq> 0 then 0 else probe_extra);
         (fec, bufs, calls) = fragment_and_send log2 payload (c_mtu c) chan_extra probe_extra (e_ms e) bufs (p_fec (l_peer l));
         l = l\<lparr>l_peer := (l_peer l)\<lparr>p_fec := fec\<rparr>\<rparr>
     in (bufs, foldl (\<lambda>s f. send_data_packet c e pk channel f s) (l, t) calls))"

text \<open>One task of the encoding queue; \<open>None\<close> when the peer it points to is gone.\<close>

definition encode_task_step ::
  "(f64 \<Rightarrow> f64) \<Rightarrow> config \<Rightarrow> env \<Rightarrow> encode_task \<Rightarrow> bytes list \<times> transport \<Rightarrow> (bytes list \<times> transport) option" where
  "encode_task_step log2 c e task b =
    (let (bufs, t) = b in
     if drained e (et_channel task) (t_queues t) then Some b
     else case om_find (t_peers t) (et_peer task) of
            None \<Rightarrow> None
          | Some l \<Rightarrow>
              let (bufs, l, t) = fragment_msg log2 c e (et_peer task) (et_payload task) (et_channel task) (bufs, l, t)
              in Some (bufs, t\<lparr>t_peers := om_set (et_peer task) l (t_peers t)\<rparr>))"

fun drain_encode_n ::
  "nat \<Rightarrow> (f64 \<Rightarrow> f64) \<Rightarrow> config \<Rightarrow> env \<Rightarrow> bytes list \<times> transport \<Rightarrow> (bytes list \<times> transport) option" where
  "drain_encode_n 0 log2 c e b = Some b"
| "drain_encode_n (Suc n) log2 c e b =
    (let (bufs, t) = b; (task, enc) = bq_poll (q_encode (t_queues t));
         t = set_queues (\<lambda>q. q\<lparr>q_encode := enc\<rparr>) t
     in case task of
          None \<Rightarrow> Some (bufs, t)
        | Some task \<Rightarrow>
            (case encode_task_step log2 c e task (bufs, t) of
               None \<Rightarrow> None
             | Some b \<Rightarrow> drain_encode_n n log2 c e b))"

definition drain_encode ::
  "(f64 \<Rightarrow> f64) \<Rightarrow> config \<Rightarrow> env \<Rightarrow> bytes list \<times> transport \<Rightarrow> (bytes list \<times> transport) option" where
  "drain_encode = drain_encode_n 16"

section \<open>Draining and clearing\<close>

definition kDefaultDrainMs :: nat where "kDefaultDrainMs = 100"

definition drain_channel :: "env \<Rightarrow> u8 \<Rightarrow> nat \<Rightarrow> transport \<Rightarrow> transport" where
  "drain_channel e channel duration_ms t =
    (if channel \<ge> 8 then t
     else set_queues (\<lambda>q. q\<lparr>q_drain_until_ms := (q_drain_until_ms q)[unat channel := e_ms e + of_nat duration_ms]\<rparr>) t)"

text \<open>Polling a queue until it is empty.\<close>

function poll_all :: "'a bqueue \<Rightarrow> 'a list \<times> 'a bqueue" where
  "poll_all q =
    (case bq_poll q of
       (None, q') \<Rightarrow> ([], q')
     | (Some x, q') \<Rightarrow> if m_size q' < m_size q then (let (xs, q'') = poll_all q' in (x # xs, q'')) else ([x], q'))"
  by pat_completeness auto
termination poll_all by (relation "measure m_size") auto

declare poll_all.simps [simp del]

definition clear_outbound :: "transport \<Rightarrow> transport" where
  "clear_outbound t =
    set_queues (\<lambda>q.
      let q = q\<lparr>q_send := map (\<lambda>(p, ms). (p, if p < 1 then [] else ms)) (q_send q)\<rparr>;
          (tasks, enc) = poll_all (q_encode q);
          enc = foldl (\<lambda>enc x. snd (bq_try_push x enc)) enc (filter (\<lambda>x. et_channel x = 1) tasks)
      in q\<lparr>q_encode := enc, q_outbound := snd (poll_all (q_outbound q))\<rparr>) t"

definition outbound_queue_size :: "transport \<Rightarrow> nat" where
  "outbound_queue_size t =
    (let q = t_queues t
     in sum_list (map (\<lambda>e. length (snd e)) (q_send q)) + m_size (q_encode q) + m_size (q_outbound q) + m_size (q_audio q))"

definition kFileChannel :: u8 where "kFileChannel = 2"
definition kDataChannel :: u8 where "kDataChannel = 3"

definition file_data_pending_bytes :: "transport \<Rightarrow> nat" where
  "file_data_pending_bytes t =
    sum_list (map (\<lambda>e. sum_list (map (\<lambda>m. if qm_channel m = kFileChannel \<or> qm_channel m = kDataChannel
                                         then length (qm_payload m) else 0) (snd e)))
               (q_send (t_queues t)))"

end
