(* ===== verification/File_Transfer.thy ===== *)
theory File_Transfer
  imports Outbound
begin

text \<open>
  Files and data of \<open>transport.cpp\<close>, which travel as messages with a tag byte: a manifest (1), the
  chunks of a file (2) and a data message (3).  The receiver collects the chunks of a file under its
  number and hands out the file when the last one is in.
\<close>

section \<open>Sending\<close>

definition kFileChunkSize :: nat where "kFileChunkSize = 60 * 1024"

definition put_be16 :: "bytes \<Rightarrow> u16 \<Rightarrow> bytes" where
  "put_be16 b v = b @ le_bytes 2 (to_be16 v)"

definition put_be32 :: "bytes \<Rightarrow> u32 \<Rightarrow> bytes" where
  "put_be32 b v = b @ le_bytes 4 (to_be32 v)"

definition put_be64 :: "bytes \<Rightarrow> u64 \<Rightarrow> bytes" where
  "put_be64 b v = b @ le_bytes 8 (to_be64 v)"

definition chunk_count_of :: "bytes \<Rightarrow> u32" where
  "chunk_count_of data =
    (if data = [] then 1 else of_nat ((length data + kFileChunkSize - 1) div kFileChunkSize))"

definition file_manifest :: "u32 \<Rightarrow> bytes \<Rightarrow> bytes \<Rightarrow> bytes" where
  "file_manifest file_id name data =
    (let m = [0x01];
         m = put_be32 m file_id;
         m = put_be16 m (of_nat (length name));
         m = m @ name;
         m = put_be64 m (of_nat (length data));
         m = put_be32 m (of_nat kFileChunkSize)
     in put_be32 m (chunk_count_of data))"

definition file_chunk :: "u32 \<Rightarrow> bytes \<Rightarrow> u32 \<Rightarrow> bytes" where
  "file_chunk file_id data i =
    (let chunk = put_be32 (put_be32 [0x02] file_id) i; off = unat i * kFileChunkSize;
         len = min kFileChunkSize (length data - off)
     in chunk @ get_at data off len)"

text \<open>The first message the queue refuses ends the transfer.\<close>

fun send_chunks ::
  "config \<Rightarrow> env \<Rightarrow> peer_id \<Rightarrow> u32 \<Rightarrow> bytes \<Rightarrow> u32 list \<Rightarrow> transport \<Rightarrow> bool \<times> transport" where
  "send_chunks c e pid file_id data [] t = (True, t)"
| "send_chunks c e pid file_id data (i # rest) t =
    (let (r, t) = send_message c e pid (file_chunk file_id data i) 0 kFileChannel False t
     in if \<not> r then (False, t) else send_chunks c e pid file_id data rest t)"

definition send_file :: "config \<Rightarrow> env \<Rightarrow> peer_id \<Rightarrow> bytes \<Rightarrow> bytes \<Rightarrow> transport \<Rightarrow> bool \<times> transport" where
  "send_file c e pid name data t =
    (if length name > 65535 then (False, t)
     else
       let file_id = t_file_id_out t;
           t = t\<lparr>t_file_id_out := t_file_id_out t + 1\<rparr>;
           (r1, t) = send_message c e pid (file_manifest file_id name data) 0 kFileChannel False t
       in if \<not> r1 then (False, t)
          else send_chunks c e pid file_id data (map of_nat [0..<unat (chunk_count_of data)]) t)"

definition send_data :: "config \<Rightarrow> env \<Rightarrow> peer_id \<Rightarrow> bytes \<Rightarrow> transport \<Rightarrow> bool \<times> transport" where
  "send_data c e pid payload t = send_message c e pid ([0x03] @ payload) 0 kDataChannel False t"

section \<open>Receiving\<close>

definition handle_file_manifest :: "bytes \<Rightarrow> nat \<Rightarrow> link \<Rightarrow> link" where
  "handle_file_manifest p off l =
    (if length p < off + 4 + 2 + 8 + 4 + 4 then l
     else
       let file_id = get32 p off; off = off + 4;
           name_len = unat (get16 p off); off = off + 2
       in if length p < off + name_len then l
          else
            let name = get_at p off name_len; off = off + name_len
            in if length p < off + 8 + 4 + 4 then l
               else
                 let total_size = to_be64 (of_le_bytes (get_at p off 8)); off = off + 8;
                     chunk_size = get32 p off; off = off + 4;
                     chunk_count = get32 p off
                 in if chunk_count > 65536 then l
                    else l\<lparr>l_files := om_set file_id
                           \<lparr> f_name = name, f_total = total_size, f_chunk_size = chunk_size,
                             f_chunk_count = chunk_count, f_chunks = replicate (unat chunk_count) None,
                             f_received = 0 \<rparr> (l_files l)\<rparr>)"

text \<open>\<open>reserve\<close> throws \<open>std::length_error\<close> above the largest size of a vector of bytes; the file
  then stays in the table.\<close>

definition kMaxVector :: u64 where "kMaxVector = 0x7FFFFFFFFFFFFFFF"

definition joined :: "file_recv \<Rightarrow> bytes" where
  "joined f = concat (map (\<lambda>c. case c of None \<Rightarrow> [] | Some b \<Rightarrow> b) (f_chunks f))"

definition handle_file_chunk :: "bytes \<Rightarrow> nat \<Rightarrow> link \<Rightarrow> link \<times> effect list" where
  "handle_file_chunk p off l =
    (if length p < off + 4 + 4 then (l, [])
     else
       let file_id = get32 p off; off = off + 4; idx = get32 p off; off = off + 4; chunk = drop off p
       in case om_find (l_files l) file_id of
            None \<Rightarrow> (l, [])
          | Some f \<Rightarrow>
              if idx \<ge> f_chunk_count f then (l, [])
              else if f_chunks f ! unat idx \<noteq> None then (l, [])
              else
                let f = f\<lparr>f_chunks := (f_chunks f)[unat idx := Some chunk], f_received := f_received f + 1\<rparr>;
                    l = l\<lparr>l_files := om_set file_id f (l_files l)\<rparr>
                in if f_received f = f_chunk_count f
                   then if f_total f > kMaxVector then (l, [Length_error])
                        else (l\<lparr>l_files := om_erase file_id (l_files l)\<rparr>, [On_file (l_id l) (f_name f) (joined f)])
                   else (l, []))"

text \<open>A message with one of the three tags is never handed to the application as a message.\<close>

definition deliver_message :: "bytes \<Rightarrow> link \<Rightarrow> link \<times> effect list" where
  "deliver_message payload l =
    (case payload of
       [] \<Rightarrow> (l, [On_message (l_id l) payload])
     | tag # rest \<Rightarrow>
         if tag = 0x01 then (handle_file_manifest payload 1 l, [])
         else if tag = 0x02 then handle_file_chunk payload 1 l
         else if tag = 0x03 then (l, [On_data (l_id l) rest])
         else (l, [On_message (l_id l) payload]))"


section \<open>The messages of a file\<close>

definition file_chunks :: "u32 \<Rightarrow> bytes \<Rightarrow> bytes list" where
  "file_chunks file_id data = map (\<lambda>i. file_chunk file_id data (of_nat i)) [0..<unat (chunk_count_of data)]"

definition part_of :: "bytes \<Rightarrow> nat \<Rightarrow> bytes" where
  "part_of data i = take kFileChunkSize (drop (i * kFileChunkSize) data)"

text \<open>The messages a receiver reads as belonging to a file number.\<close>

definition names_file :: "u32 \<Rightarrow> bytes \<Rightarrow> bool" where
  "names_file file_id m \<longleftrightarrow> m \<noteq> [] \<and> hd m \<in> {1, 2} \<and> get32 m 1 = file_id"

lemma chunk_count_bounds:
  assumes "length data \<le> 65536 * kFileChunkSize"
  shows "unat (chunk_count_of data) = (if data = [] then 1 else (length data + kFileChunkSize - 1) div kFileChunkSize)"
    and "0 < unat (chunk_count_of data)" and "unat (chunk_count_of data) \<le> 65536"
    and "length data \<le> unat (chunk_count_of data) * kFileChunkSize"
proof -
  have n: "(length data + kFileChunkSize - 1) div kFileChunkSize \<le> 65536"
    using assms by (simp add: kFileChunkSize_def)
  then show u: "unat (chunk_count_of data) = (if data = [] then 1 else (length data + kFileChunkSize - 1) div kFileChunkSize)"
    by (simp add: chunk_count_of_def unat_of_nat take_bit_nat_eq_self)
  show "0 < unat (chunk_count_of data)" unfolding u
    by (cases data) (simp_all add: kFileChunkSize_def)
  show "unat (chunk_count_of data) \<le> 65536" unfolding u using n by simp
  show "length data \<le> unat (chunk_count_of data) * kFileChunkSize"
    unfolding u by (cases data) (simp_all add: kFileChunkSize_def)
qed

lemma concat_parts: "concat (map (part_of data) [0..<n]) = take (n * kFileChunkSize) data"
  by (induction n) (simp_all add: part_of_def take_add add.commute [of kFileChunkSize])

lemma file_chunk_eq:
  "file_chunk fid data i = 2 # le_bytes 4 (to_be32 fid) @ le_bytes 4 (to_be32 i) @ part_of data (unat i)"
  by (simp add: file_chunk_def put_be32_def get_at_def part_of_def Let_def min_def)

lemma get32_be: "get_at p off 4 = le_bytes 4 (to_be32 v) \<Longrightarrow> get32 p off = v"
  by (simp add: get32_def of_le_bytes_le_bytes)

lemma get16_be: "get_at p off 2 = le_bytes 2 (to_be16 v) \<Longrightarrow> get16 p off = v"
  by (simp add: get16_def of_le_bytes_le_bytes)

lemma file_chunk_fields:
  "get32 (file_chunk fid data i) 1 = fid" "get32 (file_chunk fid data i) 5 = i"
  "drop 9 (file_chunk fid data i) = part_of data (unat i)" "hd (file_chunk fid data i) = 2"
  "9 \<le> length (file_chunk fid data i)" "file_chunk fid data i \<noteq> []"
  by (simp_all add: file_chunk_eq layout get32_be)

lemma file_manifest_eq:
  "file_manifest fid name data =
     1 # le_bytes 4 (to_be32 fid) @ le_bytes 2 (to_be16 (of_nat (length name))) @ name
       @ le_bytes 8 (to_be64 (of_nat (length data))) @ le_bytes 4 (to_be32 (of_nat kFileChunkSize))
       @ le_bytes 4 (to_be32 (chunk_count_of data))"
  by (simp add: file_manifest_def put_be16_def put_be32_def put_be64_def Let_def)

lemma of_le_bytes_eight: "of_le_bytes (le_bytes 8 (v :: u64)) = v"
  by (simp add: of_le_bytes_le_bytes)

lemma to_be64_involution [simp]: "to_be64 (to_be64 v) = v"
proof -
  have form: "to_be64 w = push_bit 32 (ucast (to_be32 (ucast (drop_bit 32 w)))) OR ucast (to_be32 (ucast w))" for w
    by (auto intro!: bit_word_eqI simp add: to_be64_def mask_u64 bit_simps bit_to_be32)
  have "ucast (drop_bit 32 (to_be64 v)) = to_be32 (ucast (drop_bit 32 v))"
    and "ucast (to_be64 v) = to_be32 (ucast v)"
    by (auto intro!: bit_word_eqI simp add: form bit_simps bit_to_be32)
  then show ?thesis by (simp add: form [of "to_be64 v"] word_split_32)
qed

section \<open>Collecting the chunks\<close>

text \<open>The entry of a file of which the chunks with the numbers \<open>got\<close> are in.\<close>

definition partial :: "bytes \<Rightarrow> bytes \<Rightarrow> nat set \<Rightarrow> file_recv" where
  "partial name data got =
    \<lparr> f_name = name, f_total = of_nat (length data), f_chunk_size = of_nat kFileChunkSize,
      f_chunk_count = chunk_count_of data,
      f_chunks = map (\<lambda>i. if i \<in> got then Some (part_of data i) else None) [0..<unat (chunk_count_of data)],
      f_received = of_nat (card got) \<rparr>"

text \<open>The names are those a manifest can carry, the sizes those whose chunks it can count.\<close>

definition file_ok :: "bytes \<Rightarrow> bytes \<Rightarrow> bool" where
  "file_ok name data \<longleftrightarrow> length name \<le> 65535 \<and> length data \<le> 65536 * kFileChunkSize"

lemma deliver_tagged:
  "deliver_message (tag # rest) l =
    (if tag = 1 then (handle_file_manifest (tag # rest) 1 l, [])
     else if tag = 2 then handle_file_chunk (tag # rest) 1 l
     else if tag = 3 then (l, [On_data (l_id l) rest])
     else (l, [On_message (l_id l) (tag # rest)]))"
  by (simp add: deliver_message_def)

lemma manifest_opens:
  assumes "file_ok name data"
  shows "deliver_message (file_manifest fid name data) l =
    (l\<lparr>l_files := om_set fid (partial name data {}) (l_files l)\<rparr>, [])"
proof -
  have n: "length name \<le> 65535" and d: "length data \<le> 65536 * kFileChunkSize"
    using assms by (simp_all add: file_ok_def)
  define m where "m = file_manifest fid name data"
  define N where "N = length name"
  have hd: "m = 1 # tl m" and len: "length m = 23 + N"
    by (simp_all add: m_def N_def file_manifest_eq)
  have f1: "get32 m 1 = fid" by (rule get32_be) (simp add: m_def file_manifest_eq layout)
  have f2: "get16 m 5 = of_nat N" by (rule get16_be) (simp add: m_def N_def file_manifest_eq layout)
  have u: "unat (of_nat N :: u16) = N" using n by (simp add: N_def unat_of_nat take_bit_nat_eq_self)
  have f3: "get_at m 7 N = name" by (simp add: m_def N_def file_manifest_eq layout)
  have f4: "get_at m (7 + N) 8 = le_bytes 8 (to_be64 (of_nat (length data)))"
    by (simp add: m_def N_def file_manifest_eq layout)
  have f5: "get32 m (15 + N) = of_nat kFileChunkSize"
    by (rule get32_be) (simp add: m_def N_def file_manifest_eq layout)
  have f6: "get32 m (19 + N) = chunk_count_of data"
    by (rule get32_be) (simp add: m_def N_def file_manifest_eq layout)
  have cnt: "\<not> chunk_count_of data > 65536"
    using chunk_count_bounds(3) [OF d] by (simp add: word_less_nat_alt)
  have "deliver_message m l = (handle_file_manifest m 1 l, [])"
    by (subst (1) hd, subst deliver_tagged, subst hd [symmetric]) simp
  also have "handle_file_manifest m 1 l = l\<lparr>l_files := om_set fid (partial name data {}) (l_files l)\<rparr>"
    using cnt unfolding handle_file_manifest_def Let_def
    by (simp add: len f1 f1 [simplified] f2 u f3 f4 f5 f6 of_le_bytes_eight partial_def map_replicate_const)
  finally show ?thesis by (simp add: m_def)
qed

lemma chunk_refused:
  assumes "om_find (l_files l) fid = None"
  shows "deliver_message (file_chunk fid data i) l = (l, [])"
  using assms file_chunk_fields [of fid data i]
  by (cases "file_chunk fid data i") (simp_all add: deliver_message_def handle_file_chunk_def)

lemma joined_full:
  "f_chunks f = map (\<lambda>i. Some (part_of data i)) [0..<n] \<Longrightarrow> length data \<le> n * kFileChunkSize \<Longrightarrow> joined f = data"
  by (simp add: joined_def o_def concat_parts)

lemma length_small: "length data \<le> 65536 * kFileChunkSize \<Longrightarrow> \<not> kMaxVector < (of_nat (length data) :: u64)"
  by (simp add: kMaxVector_def kFileChunkSize_def word_less_nat_alt unat_of_nat take_bit_nat_eq_self)

lemma chunk_collected:
  assumes "file_ok name data" and f: "om_find (l_files l) fid = Some (partial name data got)"
    and i: "i < unat (chunk_count_of data)" and got: "got \<subseteq> {0..<unat (chunk_count_of data)}"
  shows "deliver_message (file_chunk fid data (of_nat i)) l =
    (if i \<in> got then (l, [])
     else let files = om_set fid (partial name data (insert i got)) (l_files l)
          in if insert i got = {0..<unat (chunk_count_of data)}
             then (l\<lparr>l_files := om_erase fid files\<rparr>, [On_file (l_id l) name data])
             else (l\<lparr>l_files := files\<rparr>, []))"
proof -
  define n where "n = unat (chunk_count_of data)"
  have d: "length data \<le> 65536 * kFileChunkSize" using assms(1) by (simp add: file_ok_def)
  have n: "n \<le> 65536" "length data \<le> n * kFileChunkSize" "i < n" "got \<subseteq> {0..<n}"
    using chunk_count_bounds [OF d] i got by (simp_all add: n_def)
  have ui: "unat (of_nat i :: u32) = i" using n by (simp add: unat_of_nat take_bit_nat_eq_self)
  have below: "\<not> chunk_count_of data \<le> of_nat i"
    using n ui by (simp add: word_le_nat_alt n_def)
  have fin: "finite got" using n(4) finite_subset by blast
  have card: "card s \<le> n" if "s \<subseteq> {0..<n}" for s using card_mono [OF _ that] by simp
  define m where "m = file_chunk fid data (of_nat i)"
  have m: "m = 2 # tl m" "get32 m 1 = fid" "get32 m 5 = of_nat i" "drop 9 m = part_of data i" "9 \<le> length m"
    using file_chunk_fields [of fid data "of_nat i"] ui by (simp_all add: m_def list.expand)
  have "deliver_message m l = handle_file_chunk m 1 l"
    by (subst (1) m(1), subst deliver_tagged, subst m(1) [symmetric]) simp
  also have "\<dots> = (if i \<in> got then (l, [])
     else let files = om_set fid (partial name data (insert i got)) (l_files l)
          in if insert i got = {0..<n}
             then (l\<lparr>l_files := om_erase fid files\<rparr>, [On_file (l_id l) name data])
             else (l\<lparr>l_files := files\<rparr>, []))"
  proof (cases "i \<in> got")
    case True
    then show ?thesis using m(2-5) f below n by (simp add: handle_file_chunk_def partial_def ui n_def [symmetric])
  next
    case False
    define g where "g = partial name data (insert i got)"
    have upd: "(partial name data got)\<lparr>f_chunks := (f_chunks (partial name data got))[i := Some (part_of data i)],
                 f_received := f_received (partial name data got) + 1\<rparr> = g"
      using n False fin
      by (auto intro!: nth_equalityI simp add: g_def partial_def n_def [symmetric] nth_list_update add.commute)
    have sub: "insert i got \<subseteq> {0..<n}" using n(3,4) by simp
    then have "card (insert i got) \<le> n" by (rule card)
    then have "unat (of_nat (card (insert i got)) :: u32) = card (insert i got)"
      using n by (simp add: unat_of_nat take_bit_nat_eq_self)
    then have "f_received g = chunk_count_of data \<longleftrightarrow> card (insert i got) = n"
      by (simp add: g_def partial_def n_def word_unat_eq_iff)
    also have "\<dots> \<longleftrightarrow> insert i got = {0..<n}"
      using card_subset_eq [OF _ sub] by (metis card_atLeastLessThan diff_zero finite_atLeastLessThan)
    finally have fin_iff: "f_received g = f_chunk_count g \<longleftrightarrow> insert i got = {0..<n}"
      by (simp add: g_def partial_def)
    have all: "joined g = data" if "insert i got = {0..<n}"
      by (rule joined_full [OF _ n(2)]) (simp add: g_def partial_def that n_def [symmetric])
    have tot: "\<not> f_total g > kMaxVector" using length_small [OF d] by (simp add: g_def partial_def)
    have none: "f_chunks (partial name data got) ! i = None" using False n by (simp add: partial_def n_def [symmetric])
    have name: "f_name g = name" by (simp add: g_def partial_def)
    have cc: "f_chunk_count (partial name data got) = chunk_count_of data" by (simp add: partial_def)
    show ?thesis
      using m(2-5) f below fin_iff all tot name False none
      by (simp add: handle_file_chunk_def cc ui upd Let_def g_def [symmetric])
  qed
  finally show ?thesis by (simp add: m_def n_def)
qed

lemma deliver_keeps:
  "l_id (fst (deliver_message m l)) = l_id l"
  "om_ok (l_files l) \<Longrightarrow> om_ok (l_files (fst (deliver_message m l)))"
  by (auto simp add: deliver_message_def handle_file_manifest_def handle_file_chunk_def Let_def
        split: list.splits option.splits)

lemma deliver_other:
  assumes "\<not> names_file fid m" "om_ok (l_files l)"
  shows "om_find (l_files (fst (deliver_message m l))) fid = om_find (l_files l) fid"
proof (cases m)
  case (Cons tag rest)
  consider "tag = 1" "get32 m 1 \<noteq> fid" | "tag = 2" "get32 m 1 \<noteq> fid" | "tag \<noteq> 1" "tag \<noteq> 2"
    using assms(1) by (auto simp add: names_file_def Cons)
  then show ?thesis
  proof cases
    case 1
    then show ?thesis using assms(2)
      by (simp add: Cons deliver_tagged handle_file_manifest_def Let_def om_find_set)
  next
    case 2
    then show ?thesis using assms(2)
      by (simp add: Cons deliver_tagged handle_file_chunk_def Let_def om_find_set split: option.split)
  next
    case 3
    then show ?thesis by (simp add: Cons deliver_tagged)
  qed
qed (simp add: deliver_message_def)

text \<open>A sequence of messages, with the effects of each.\<close>

fun deliver_run :: "bytes list \<Rightarrow> link \<Rightarrow> link \<times> effect list list" where
  "deliver_run [] l = (l, [])"
| "deliver_run (m # ms) l =
    (let (l, es) = deliver_message m l; (l, ess) = deliver_run ms l in (l, es # ess))"

lemma deliver_run_Cons:
  "snd (deliver_run (m # ms) l) = snd (deliver_message m l) # snd (deliver_run ms (fst (deliver_message m l)))"
  by (simp add: split_beta)

declare deliver_run.simps(2) [simp del]

lemma in_file_chunks: "m \<in> set (file_chunks fid data) \<longleftrightarrow>
    (\<exists>i<unat (chunk_count_of data). m = file_chunk fid data (of_nat i))"
  by (auto simp add: file_chunks_def)

lemma chunks_done:
  assumes "om_ok (l_files l)" "om_find (l_files l) fid = None"
    and "\<forall>m\<in>set ms. m \<in> set (file_chunks fid data) \<or> \<not> names_file fid m"
    and "j < length ms" "ms ! j \<in> set (file_chunks fid data)"
  shows "snd (deliver_run ms l) ! j = []"
  using assms
proof (induction ms arbitrary: l j)
  case (Cons m ms)
  let ?l = "fst (deliver_message m l)"
  have "om_find (l_files ?l) fid = None"
    using Cons.prems(1,2,3) deliver_other [of fid m l] chunk_refused [of l fid data]
    by (auto simp add: in_file_chunks)
  then have IH: "snd (deliver_run ms ?l) ! j = []" if "j < length ms" "ms ! j \<in> set (file_chunks fid data)" for j
    using Cons.IH [of ?l j] Cons.prems that deliver_keeps(2) by auto
  show ?case
  proof (cases j)
    case 0
    then show ?thesis using Cons.prems chunk_refused [of l fid data] by (auto simp add: deliver_run_Cons in_file_chunks)
  next
    case (Suc k)
    then show ?thesis using IH [of k] Cons.prems by (simp add: deliver_run_Cons)
  qed
qed simp

lemma chunk_number_unique:
  assumes "i < unat (chunk_count_of data)" "k < unat (chunk_count_of data)"
    and "file_chunk fid data (of_nat i) = file_chunk fid data (of_nat k)"
  shows "i = k"
proof -
  have b: "unat (chunk_count_of data) < 2 ^ 32" using unsigned_less [of "chunk_count_of data"] by simp
  have "(of_nat i :: u32) = of_nat k" using assms(3) file_chunk_fields(2) by metis
  then have "unat (of_nat i :: u32) = unat (of_nat k :: u32)" by simp
  then show ?thesis using assms b by (simp add: unat_of_nat take_bit_nat_eq_self)
qed

definition one_file_event :: "bytes list \<Rightarrow> bytes list \<Rightarrow> peer_id \<Rightarrow> bytes \<Rightarrow> bytes \<Rightarrow> effect list list \<Rightarrow> bool" where
  "one_file_event chunks ms pid name data ess \<longleftrightarrow>
    (\<exists>k<length ms. ms ! k \<in> set chunks \<and> ess ! k = [On_file pid name data] \<and>
       (\<forall>j<length ms. ms ! j \<in> set chunks \<longrightarrow> j \<noteq> k \<longrightarrow> ess ! j = []))"

lemma one_file_event_later:
  assumes "one_file_event chunks ms pid name data ess" and "m \<in> set chunks \<Longrightarrow> es = []"
  shows "one_file_event chunks (m # ms) pid name data (es # ess)"
proof -
  obtain k where k: "k < length ms" "ms ! k \<in> set chunks" "ess ! k = [On_file pid name data]"
    and "\<forall>j<length ms. ms ! j \<in> set chunks \<longrightarrow> j \<noteq> k \<longrightarrow> ess ! j = []"
    using assms(1) by (auto simp add: one_file_event_def)
  then show ?thesis unfolding one_file_event_def
    by (intro exI [of _ "Suc k"]) (use assms(2) in \<open>auto simp add: less_Suc_eq_0_disj\<close>)
qed

lemma chunks_collected:
  assumes "om_ok (l_files l)" "om_find (l_files l) fid = Some (partial name data got)"
    and ok: "file_ok name data"
    and "got \<subseteq> {0..<unat (chunk_count_of data)}" "got \<noteq> {0..<unat (chunk_count_of data)}"
    and "\<forall>m\<in>set ms. m \<in> set (file_chunks fid data) \<or> \<not> names_file fid m"
    and "\<forall>i<unat (chunk_count_of data). i \<in> got \<or> file_chunk fid data (of_nat i) \<in> set ms"
  shows "one_file_event (file_chunks fid data) ms (l_id l) name data (snd (deliver_run ms l))"
  using assms(1,2,4-)
proof (induction ms arbitrary: l got)
  case Nil
  then show ?case by auto
next
  case (Cons m ms)
  let ?n = "unat (chunk_count_of data)" and ?l = "fst (deliver_message m l)"
  note keeps = deliver_keeps(1) [of m l] deliver_keeps(2) [of l m]
  show ?case
  proof (cases "m \<in> set (file_chunks fid data)")
    case False
    then have "om_find (l_files ?l) fid = Some (partial name data got)"
      using Cons.prems deliver_other [of fid m l] by simp
    moreover have "\<forall>i<?n. i \<in> got \<or> file_chunk fid data (of_nat i) \<in> set ms"
      using Cons.prems False by (auto simp add: in_file_chunks)
    ultimately have "one_file_event (file_chunks fid data) ms (l_id ?l) name data (snd (deliver_run ms ?l))"
      using Cons.IH [of ?l got] Cons.prems keeps by simp
    then show ?thesis unfolding deliver_run_Cons keeps(1) by (rule one_file_event_later) (use False in simp)
  next
    case True
    then obtain i where i: "i < ?n" "m = file_chunk fid data (of_nat i)" by (auto simp add: in_file_chunks)
    note step = chunk_collected [OF ok Cons.prems(2) i(1) Cons.prems(3), folded i(2)]
    show ?thesis
    proof (cases "insert i got = {0..<?n}")
      case full: True
      then have "i \<notin> got" using Cons.prems by auto
      then have s: "snd (deliver_message m l) = [On_file (l_id l) name data]" "om_find (l_files ?l) fid = None"
        using step full by (simp_all add: Let_def)
      have quiet: "snd (deliver_run ms ?l) ! j = []" if "j < length ms" "ms ! j \<in> set (file_chunks fid data)" for j
        using chunks_done [OF _ s(2), of ms data j] that Cons.prems keeps by simp
      then show ?thesis unfolding one_file_event_def deliver_run_Cons
        by (intro exI [of _ 0]) (use s True in \<open>auto simp add: less_Suc_eq_0_disj\<close>)
    next
      case more: False
      define got' where "got' = insert i got"
      have s: "snd (deliver_message m l) = []" "om_find (l_files ?l) fid = Some (partial name data got')"
        using step more Cons.prems(1,2) insert_absorb [of i got] by (auto simp add: Let_def om_find_set got'_def)
      have "\<forall>j<?n. j \<in> got' \<or> file_chunk fid data (of_nat j) \<in> set ms"
      proof (intro allI impI)
        fix j assume j: "j < ?n"
        then show "j \<in> got' \<or> file_chunk fid data (of_nat j) \<in> set ms"
          using Cons.prems(6) chunk_number_unique [OF j i(1), of fid] by (auto simp add: got'_def i(2))
      qed
      moreover have "got' \<subseteq> {0..<?n}" "got' \<noteq> {0..<?n}" using Cons.prems(3) i(1) more by (auto simp add: got'_def)
      ultimately have "one_file_event (file_chunks fid data) ms (l_id ?l) name data (snd (deliver_run ms ?l))"
        using Cons.IH [of ?l got'] Cons.prems keeps s by simp
      then show ?thesis unfolding deliver_run_Cons keeps(1) by (rule one_file_event_later) (use s in simp)
    qed
  qed
qed

section \<open>What is queued\<close>

definition queued_at :: "int \<Rightarrow> transport \<Rightarrow> send_msg list" where
  "queued_at p t = (case om_find (q_send (t_queues t)) p of None \<Rightarrow> [] | Some ms \<Rightarrow> ms)"

abbreviation queue_ok :: "transport \<Rightarrow> bool" where
  "queue_ok t \<equiv> om_ok (q_send (t_queues t))"

lemma send_message_queues:
  assumes "send_message c e pid payload p ch kf t = (True, t')" "queue_ok t"
  shows "queued_at p t' = queued_at p t @ [\<lparr> qm_peer = pid, qm_payload = payload, qm_channel = ch \<rparr>]" "queue_ok t'"
  using assms by (auto simp add: send_message_def queued_at_def enqueue_msg_def Let_def om_find_set
      split: if_splits option.splits)

lemma send_chunks_queues:
  "send_chunks c e pid fid data is t = (True, t') \<Longrightarrow> queue_ok t \<Longrightarrow>
    queued_at 0 t' = queued_at 0 t @
      map (\<lambda>i. \<lparr> qm_peer = pid, qm_payload = file_chunk fid data i, qm_channel = kFileChannel \<rparr>) is \<and> queue_ok t'"
proof (induction "is" arbitrary: t)
  case (Cons i rest)
  obtain r u where ru: "send_message c e pid (file_chunk fid data i) 0 kFileChannel False t = (r, u)"
    by fastforce
  then have r: "r" "send_chunks c e pid fid data rest u = (True, t')" using Cons.prems(1) by (auto split: if_splits)
  note u = send_message_queues [OF ru [unfolded eqTrueI [OF r(1)]] Cons.prems(2)]
  show ?case using Cons.IH [OF r(2) u(2)] u by simp
qed simp

lemma send_file_queues:
  assumes "send_file c e pid name data t = (True, t')" "queue_ok t"
  shows "queued_at 0 t' = queued_at 0 t @
      map (\<lambda>p. \<lparr> qm_peer = pid, qm_payload = p, qm_channel = kFileChannel \<rparr>)
        (file_manifest (t_file_id_out t) name data # file_chunks (t_file_id_out t) data)"
    and "length name \<le> 65535"
proof -
  show n: "length name \<le> 65535" using assms(1) by (auto simp add: send_file_def split: if_splits)
  obtain r u where ru: "send_message c e pid (file_manifest (t_file_id_out t) name data) 0 kFileChannel False
      (t\<lparr>t_file_id_out := t_file_id_out t + 1\<rparr>) = (r, u)"
    by fastforce
  then have r: "r" "send_chunks c e pid (t_file_id_out t) data (map of_nat [0..<unat (chunk_count_of data)]) u = (True, t')"
    using assms(1) n by (auto simp add: send_file_def split: if_splits)
  note u = send_message_queues [OF ru [unfolded eqTrueI [OF r(1)]]]
  show "queued_at 0 t' = queued_at 0 t @
      map (\<lambda>p. \<lparr> qm_peer = pid, qm_payload = p, qm_channel = kFileChannel \<rparr>)
        (file_manifest (t_file_id_out t) name data # file_chunks (t_file_id_out t) data)"
    using send_chunks_queues [OF r(2) u(2)] u(1) assms(2)
    by (simp add: file_chunks_def queued_at_def o_def)
qed

section \<open>Properties\<close>


definition ex_file_chunks :: "bytes list" where
  "ex_file_chunks = [[3, 9], file_chunk 1 [7, 8] 0, file_chunk 1 [7, 8] 0]"

lemma ex_chunks: "file_chunks 1 [7, 8] = [file_chunk 1 [7, 8] 0]"
  by (simp add: file_chunks_def chunk_count_of_def kFileChunkSize_def)

definition ex_sender :: transport where
  "ex_sender = (new_transport default_config 0 5 6 [] [])\<lparr>t_running := True\<rparr>"


end
