(* ===== verification/Pacing.thy ===== *)
theory Pacing
  imports Outbound "HOL-Library.Sublist"
begin

text \<open>
  The pacer of \<open>transport.cpp\<close>: the token bucket with its loan, one heartbeat of the sender thread,
  and its counterpart in the reactor of the lite mode.  The clocks are read once per heartbeat.  A
  packet of a peer that is no longer in the table makes the code follow a dangling pointer; the
  operations return \<open>None\<close> there.
\<close>

section \<open>The bucket\<close>

definition token_bucket_cap :: "config \<Rightarrow> bandwidth \<Rightarrow> f64" where
  "token_bucket_cap c b =
    max (fmul (f64_of_nat (c_mtu c)) 4) (fmul (f64_of_u64 (bytes_per_second b)) (rnd (2 / 100)))"

definition loan_limit :: "config \<Rightarrow> bandwidth \<Rightarrow> f64" where
  "loan_limit c b = (if c_loan_seconds c \<le> 0 then 0 else fmul (f64_of_u64 (bytes_per_second b)) (c_loan_seconds c))"

definition refill_token_bucket :: "config \<Rightarrow> time \<Rightarrow> bandwidth \<Rightarrow> pacer \<Rightarrow> pacer" where
  "refill_token_bucket c now b k =
    (let elapsed_us = (now - k_token_bucket_time k) div 1000 in
     if elapsed_us \<le> 0 then k
     else
       let tokens = fdiv (fmul (f64_of_u64 (bytes_per_second b)) (f64_of_int elapsed_us)) 1000000;
           k = k\<lparr>k_token_bucket := fadd (k_token_bucket k) tokens\<rparr>;
           bound = token_bucket_cap c b;
           k = (if k_token_bucket k > bound then k\<lparr>k_token_bucket := bound\<rparr> else k)
       in k\<lparr>k_token_bucket_time := now\<rparr>)"

definition app_limited :: "env \<Rightarrow> transport \<Rightarrow> bool" where
  "app_limited e t \<longleftrightarrow>
    \<not> m_size (q_outbound (t_queues t)) > 8 \<and> e_ms e - q_last_app_send_ms (t_queues t) > 500"

section \<open>Sending what is queued\<close>

definition set_pacer :: "(pacer \<Rightarrow> pacer) \<Rightarrow> transport \<Rightarrow> transport" where
  "set_pacer f t = t\<lparr>t_pacer := f (t_pacer t)\<rparr>"

definition spend :: "f64 \<Rightarrow> transport \<Rightarrow> transport" where
  "spend cost = set_pacer (\<lambda>k. k\<lparr>k_token_bucket := fsub (k_token_bucket k) cost\<rparr>)"

definition send_now :: "addr_key \<Rightarrow> outbound_packet \<Rightarrow> transport \<Rightarrow> transport \<times> effect list" where
  "send_now a pkt t =
    (set_queues (\<lambda>q. q\<lparr>q_tx_bytes := q_tx_bytes q + of_nat (length (ob_datagram pkt))\<rparr>) t,
     [Sendto a (ob_datagram pkt)])"

text \<open>Where a packet goes: the address of its peer, if it is known and the socket is open.\<close>

definition target :: "outbound_packet \<Rightarrow> transport \<Rightarrow> addr_key option option" where
  "target pkt t =
    map_option (\<lambda>l. if t_sock t then l_addr l else None) (om_find (t_peers t) (ob_peer pkt))"

definition add_effects :: "effect list \<Rightarrow> ('a \<times> transport \<times> effect list) option \<Rightarrow> ('a \<times> transport \<times> effect list) option" where
  "add_effects es = map_option (\<lambda>(x, t, fs). (x, t, es @ fs))"

text \<open>The audio queue is sent at once, whatever the bucket holds.\<close>

fun flush_packets ::
  "env \<Rightarrow> outbound_packet list \<Rightarrow> transport \<Rightarrow> (unit \<times> transport \<times> effect list) option" where
  "flush_packets e [] t = Some ((), t, [])"
| "flush_packets e (pkt # pkts) t =
    (if drained e (ob_channel pkt) (t_queues t) then flush_packets e pkts t
     else case target pkt t of
            None \<Rightarrow> None
          | Some None \<Rightarrow> flush_packets e pkts t
          | Some (Some a) \<Rightarrow>
              let (t, es) = send_now a pkt t in add_effects es (flush_packets e pkts t))"

definition flush_audio :: "env \<Rightarrow> transport \<Rightarrow> (unit \<times> transport \<times> effect list) option" where
  "flush_audio e t =
    (let (pkts, q) = poll_all (q_audio (t_queues t))
     in flush_packets e pkts (set_queues (\<lambda>qs. qs\<lparr>q_audio := q\<rparr>) t))"

text \<open>The ordinary queue; the flag says that the loan is exhausted.  A packet that cannot be paid
  for has left the queue.  \<open>n\<close> iterations empty a queue of less than \<open>n\<close> packets.\<close>

fun outbound_loop :: "nat \<Rightarrow> config \<Rightarrow> env \<Rightarrow> transport \<Rightarrow> (bool \<times> transport \<times> effect list) option" where
  "outbound_loop 0 c e t = Some (False, t, [])"
| "outbound_loop (Suc n) c e t =
    (let (opt, q) = bq_poll (q_outbound (t_queues t));
         t = set_queues (\<lambda>qs. qs\<lparr>q_outbound := q\<rparr>) t
     in case opt of
          None \<Rightarrow> Some (False, t, [])
        | Some pkt \<Rightarrow>
            if drained e (ob_channel pkt) (t_queues t) then outbound_loop n c e t
            else if ob_channel pkt = 0 \<and> k_loan_drain (t_pacer t) then outbound_loop n c e t
            else case target pkt t of
              None \<Rightarrow> None
            | Some None \<Rightarrow> outbound_loop n c e t
            | Some (Some a) \<Rightarrow>
                let cost = f64_of_nat (length (ob_datagram pkt)); token = k_token_bucket (t_pacer t) in
                if ob_channel pkt = 0
                then if fsub token cost \<ge> - loan_limit c (t_bandwidth t)
                     then let (t, es) = send_now a pkt (spend cost t) in add_effects es (outbound_loop n c e t)
                     else Some (True, t, [])
                else if token \<ge> cost
                then let (t, es) = send_now a pkt (spend cost t) in add_effects es (outbound_loop n c e t)
                else Some (False, set_pacer (\<lambda>k. k\<lparr>k_pacer_limited := True\<rparr>) t, []))"

declare outbound_loop.simps(2) [simp del]

section \<open>The heartbeat of the sender\<close>

text \<open>The start of a heartbeat: refill, and the bankruptcy after a fast evacuation.\<close>

definition settle :: "config \<Rightarrow> env \<Rightarrow> transport \<Rightarrow> transport" where
  "settle c e t =
    (let t = set_pacer (refill_token_bucket c (e_now e) (t_bandwidth t)) t;
         v = t_capacity t;
         t = (if v_evac_reset_token v
              then set_pacer (\<lambda>k. k\<lparr>k_token_bucket := 0, k_loan_drain := False, k_loan_exhausted_reported := False\<rparr>)
                     (t\<lparr>t_capacity := v\<lparr>v_evac_reset_token := False\<rparr>\<rparr>)
              else t)
     in set_pacer (\<lambda>k. k\<lparr>k_pacer_limited := (k_token_bucket k < 0 \<or> m_size (q_outbound (t_queues t)) \<ge> 32)\<rparr>) t)"

definition loan_exhausted :: "transport \<Rightarrow> transport \<times> effect list" where
  "loan_exhausted t =
    (let t = set_queues (\<lambda>q. q\<lparr>q_outbound := snd (poll_all (q_outbound q))\<rparr>) t;
         t = set_pacer (\<lambda>k. k\<lparr>k_loan_drain := True\<rparr>) t
     in if \<not> k_loan_exhausted_reported (t_pacer t)
        then (set_pacer (\<lambda>k. k\<lparr>k_loan_exhausted_reported := True\<rparr>) t, [On_loan_exhausted True])
        else (t, []))"

definition loan_repaid :: "transport \<Rightarrow> transport \<times> effect list" where
  "loan_repaid t =
    (if k_loan_drain (t_pacer t) \<and> k_token_bucket (t_pacer t) \<ge> 0
     then (set_pacer (\<lambda>k. k\<lparr>k_loan_drain := False, k_loan_exhausted_reported := False\<rparr>) t, [On_loan_exhausted False])
     else (t, []))"

definition heartbeat :: "config \<Rightarrow> env \<Rightarrow> transport \<Rightarrow> (transport \<times> effect list) option" where
  "heartbeat c e t =
    (case flush_audio e (settle c e t) of
       None \<Rightarrow> None
     | Some (_, t, es) \<Rightarrow>
         (case outbound_loop (Suc (m_size (q_outbound (t_queues t)))) c e t of
            None \<Rightarrow> None
          | Some (exhausted, t, fs) \<Rightarrow>
              let (t, gs) = (if exhausted then loan_exhausted t else (t, []));
                  (t, hs) = loan_repaid t
              in Some (t, es @ fs @ gs @ hs)))"

section \<open>The sender of the lite mode\<close>

text \<open>A packet that cannot be paid for stays in \<open>m_lite_pending\<close>.\<close>

fun lite_loop :: "nat \<Rightarrow> config \<Rightarrow> env \<Rightarrow> transport \<Rightarrow> (unit \<times> transport \<times> effect list) option" where
  "lite_loop 0 c e t = Some ((), t, [])"
| "lite_loop (Suc n) c e t =
    (let q = t_queues t;
         (opt, q) = (case q_lite_pending q of
                       Some pkt \<Rightarrow> (Some pkt, q)
                     | None \<Rightarrow> (let (opt, ob) = bq_poll (q_outbound q) in (opt, q\<lparr>q_outbound := ob\<rparr>)));
         fresh = (q_lite_pending (t_queues t) = None);
         t = t\<lparr>t_queues := q\<rparr>
     in case opt of
          None \<Rightarrow> Some ((), t, [])
        | Some pkt \<Rightarrow>
            if fresh \<and> drained e (ob_channel pkt) (t_queues t) then lite_loop n c e t
            else
              let t = set_queues (\<lambda>q. q\<lparr>q_lite_pending := Some pkt\<rparr>) t;
                  gone = set_queues (\<lambda>q. q\<lparr>q_lite_pending := None\<rparr>)
              in case target pkt t of
                   None \<Rightarrow> None
                 | Some None \<Rightarrow> lite_loop n c e (gone t)
                 | Some (Some a) \<Rightarrow>
                     let cost = f64_of_nat (length (ob_datagram pkt));
                         t = set_pacer (refill_token_bucket c (e_now e) (t_bandwidth t)) t
                     in if k_token_bucket (t_pacer t) < cost \<and> \<not> app_limited e t
                        then Some ((), if m_size (q_outbound (t_queues t)) \<ge> 32
                                       then set_pacer (\<lambda>k. k\<lparr>k_pacer_limited := True\<rparr>) t else t, [])
                        else let (t, es) = send_now a pkt (spend cost t)
                             in add_effects es (lite_loop n c e (gone t)))"

declare lite_loop.simps(2) [simp del]

definition drain_sender :: "config \<Rightarrow> env \<Rightarrow> transport \<Rightarrow> (transport \<times> effect list) option" where
  "drain_sender c e t =
    (case flush_audio e t of
       None \<Rightarrow> None
     | Some (_, t, es) \<Rightarrow> map_option snd (add_effects es (lite_loop 64 c e t)))"

section \<open>Rounding twice\<close>

lemma rnd_pos_grid:
  assumes "(2::int) ^ 52 \<le> m" "m \<le> 2 ^ 53"
  shows "rnd_pos (of_int m * pow2 e) = of_int m * pow2 e"
proof -
  define x where "x = of_int m * pow2 e"
  have pos: "0 < x" using assms by (simp add: x_def)
  have lo: "(of_int (2 ^ 52) :: rat) \<le> of_int m" and hi: "(of_int m :: rat) \<le> of_int (2 ^ 53)"
    using assms unfolding of_int_le_iff by blast+
  show ?thesis
  proof (cases "m = 2 ^ 53")
    case False
    then have "(of_int m :: rat) < of_int (2 ^ 53)" using assms unfolding of_int_less_iff by linarith
    then have "expo x = e + 52"
      using lo pow2_pos [of e]
      by (intro expo_unique [OF pos]) (simp_all add: x_def pow2_add add.commute [of e] pow2_add [of 53, simplified])
    then show ?thesis by (simp add: rnd_pos_def flip: x_def) (simp add: x_def)
  next
    case True
    then have x: "x = pow2 (53 + e)" by (simp add: x_def pow2_add)
    have "expo x = e + 53"
      using pow2_Suc [of "53 + e"] pow2_pos [of "53 + e"]
      by (intro expo_unique [OF pos]) (simp_all add: x add.commute [of e])
    then have e: "expo x - 52 = e + 1" by simp
    have "x / pow2 (e + 1) = of_int (2 ^ 52)"
      unfolding x pow2_add [of 53 e] pow2_Suc by simp
    then show ?thesis unfolding x_def [symmetric] rnd_pos_def Let_def e
      by (simp only: rne_int) (simp add: x pow2_add)
  qed
qed

lemma rnd_idem [simp]: "rnd (rnd x) = rnd x"
proof -
  have grid: "rnd_pos (rnd_pos y) = rnd_pos y" if y: "0 < y" for y
  proof -
    define e where "e = expo y - 52"
    define m where "m = rne (y / pow2 e)"
    have r: "rnd_pos y = of_int m * pow2 e" by (simp add: rnd_pos_def e_def m_def Let_def)
    have "pow2 (expo y) = of_int (2 ^ 52) * pow2 e" "pow2 (expo y + 1) = of_int (2 ^ 53) * pow2 e"
      using pow2_add [of 52 e] pow2_add [of 53 e] by (simp_all add: e_def add.commute)
    then have "(of_int (2 ^ 52) :: rat) \<le> of_int m" "(of_int m :: rat) \<le> of_int (2 ^ 53)"
      using rnd_pos_bounds [OF y] pow2_pos [of e] unfolding r by (auto simp del: of_int_power of_int_numeral)
    then show ?thesis unfolding r of_int_le_iff by (rule rnd_pos_grid)
  qed
  have pos: "0 < rnd_pos y" if "0 < y" for y using rnd_pos_bounds [OF that] pow2_pos [of "expo y"] by linarith
  show ?thesis using grid [of x] grid [of "- x"] pos [of x] pos [of "- x"]
    by (cases "x = 0"; cases "0 < x") (auto simp add: rnd_def)
qed

lemma f64_results: "representable (fadd x y)" "representable (fsub x y)" "representable (fmul x y)"
  by (simp_all add: representable_def fadd_def fsub_def fmul_def)

lemma fsub_below: "representable x \<Longrightarrow> 0 \<le> y \<Longrightarrow> fsub x y \<le> x"
  using rnd_mono [of "x - y" x] by (simp add: representable_def fsub_def)

lemma fadd_above: "representable x \<Longrightarrow> 0 \<le> y \<Longrightarrow> x \<le> fadd x y"
  using rnd_mono [of x "x + y"] by (simp add: representable_def fadd_def)

section \<open>The contents of the queues\<close>

lemma bq_poll_items:
  assumes "bq_inv q"
  shows "items q = [] \<Longrightarrow> bq_poll q = (None, q)"
    and "items q = x # xs \<Longrightarrow> \<exists>q'. bq_poll q = (Some x, q') \<and> bq_inv q' \<and> items q' = xs \<and> m_size q' < m_size q"
proof -
  obtain as fs ys where rep: "bq_rep q as fs ys" using assms by (auto simp add: bq_inv_def)
  note facts = bq_rep_items [OF rep] bq_rep_size [OF rep]
  show "bq_poll q = (None, q)" if "items q = []"
    using that facts by (simp add: bq_poll_def unlink_head_def)
  show "\<exists>q'. bq_poll q = (Some x, q') \<and> bq_inv q' \<and> items q' = xs \<and> m_size q' < m_size q" if i: "items q = x # xs"
  proof -
    have n: "m_size q \<noteq> 0" "m_size q = Suc (length xs)" using facts i by auto
    then have inv: "bq_inv (snd (unlink_head q))" using bq_pop_cases(1) [OF assms] by simp
    obtain as' fs' zs where rep': "bq_rep (snd (unlink_head q)) as' fs' zs" using inv by (auto simp add: bq_inv_def)
    obtain y where y: "fst (unlink_head q) = Some y" "items q = y # items (snd (unlink_head q))"
      using bq_pop_cases(2) [OF assms n(1)] by blast
    then show ?thesis
      using inv i n bq_rep_items [OF rep'] bq_rep_size [OF rep']
      by (cases "unlink_head q") (simp add: bq_poll_def)
  qed
qed

lemma bq_size: "bq_inv q \<Longrightarrow> m_size q = length (items q)"
  by (auto simp add: bq_inv_def bq_rep_items bq_rep_size)

lemma poll_all_items: "bq_inv q \<Longrightarrow> fst (poll_all q) = items q \<and> bq_inv (snd (poll_all q)) \<and> items (snd (poll_all q)) = []"
proof (induction q rule: poll_all.induct)
  case (1 q)
  show ?case
  proof (cases "items q")
    case Nil
    then show ?thesis using bq_poll_items(1) [OF 1(2)] 1(2) by (simp add: poll_all.simps [of q])
  next
    case (Cons x xs)
    then obtain q' where q': "bq_poll q = (Some x, q')" "bq_inv q'" "items q' = xs" "m_size q' < m_size q"
      using bq_poll_items(2) [OF 1(2)] by blast
    then show ?thesis using 1(1) [OF q'(1) [symmetric] refl] Cons
      by (simp add: poll_all.simps [of q] split_beta)
  qed
qed

section \<open>What the bucket holds\<close>

lemma loan_nonneg: "0 \<le> loan_limit c b"
  by (simp add: loan_limit_def fmul_def f64_of_u64_def rnd_nonneg mult_nonneg_nonneg)

lemma cap_nonneg: "0 \<le> token_bucket_cap c b" "representable (token_bucket_cap c b)"
  by (simp_all add: token_bucket_cap_def fmul_def f64_of_nat_def representable_def rnd_nonneg
      mult_nonneg_nonneg le_max_iff_disj) (simp add: max_def)

lemma refill_bounds:
  assumes "representable (k_token_bucket k)"
  shows "representable (k_token_bucket (refill_token_bucket c now b k))"
    and "min (k_token_bucket k) (token_bucket_cap c b) \<le> k_token_bucket (refill_token_bucket c now b k)"
    and "k_token_bucket (refill_token_bucket c now b k) \<le> max (k_token_bucket k) (token_bucket_cap c b)"
proof -
  define el where "el = (now - k_token_bucket_time k) div 1000"
  define tokens where "tokens = fdiv (fmul (f64_of_u64 (bytes_per_second b)) (f64_of_int el)) 1000000"
  have "0 \<le> tokens" if "0 < el"
    using that by (simp add: tokens_def fdiv_def fmul_def f64_of_u64_def f64_of_int_def rnd_nonneg mult_nonneg_nonneg)
  then have up: "k_token_bucket k \<le> fadd (k_token_bucket k) tokens" if "0 < el"
    using that fadd_above [OF assms] by blast
  have r: "k_token_bucket (refill_token_bucket c now b k) =
      (if el \<le> 0 then k_token_bucket k else min (fadd (k_token_bucket k) tokens) (token_bucket_cap c b))"
    by (simp add: refill_token_bucket_def Let_def el_def [symmetric] tokens_def [symmetric] min_def)
  show "representable (k_token_bucket (refill_token_bucket c now b k))"
    using assms cap_nonneg(2) f64_results(1) by (simp add: r min_def)
  show "min (k_token_bucket k) (token_bucket_cap c b) \<le> k_token_bucket (refill_token_bucket c now b k)"
    using up by (auto simp add: r min_def)
  show "k_token_bucket (refill_token_bucket c now b k) \<le> max (k_token_bucket k) (token_bucket_cap c b)"
    by (auto simp add: r min_def max_def)
qed

abbreviation token_of :: "transport \<Rightarrow> f64" where
  "token_of t \<equiv> k_token_bucket (t_pacer t)"

lemma set_queues_fields [simp]:
  "t_pacer (set_queues f t) = t_pacer t" "t_bandwidth (set_queues f t) = t_bandwidth t"
  "t_queues (set_queues f t) = f (t_queues t)" "t_peers (set_queues f t) = t_peers t" "t_sock (set_queues f t) = t_sock t"
  "t_capacity (set_queues f t) = t_capacity t"
  by (simp_all add: set_queues_def)

lemma set_pacer_fields [simp]:
  "t_pacer (set_pacer g t) = g (t_pacer t)" "t_bandwidth (set_pacer g t) = t_bandwidth t"
  "t_queues (set_pacer g t) = t_queues t" "t_peers (set_pacer g t) = t_peers t" "t_sock (set_pacer g t) = t_sock t"
  "t_capacity (set_pacer g t) = t_capacity t"
  by (simp_all add: set_pacer_def)

lemma add_effects_Some:
  "add_effects es r = Some (x, t, gs) \<longleftrightarrow> (\<exists>fs. r = Some (x, t, fs) \<and> gs = es @ fs)"
  by (auto simp add: add_effects_def split: prod.splits option.splits)

lemma flush_packets_pacer:
  "flush_packets e pkts t = Some (x, t', es) \<Longrightarrow> t_pacer t' = t_pacer t \<and> t_bandwidth t' = t_bandwidth t"
  by (induction e pkts t arbitrary: es rule: flush_packets.induct)
    (auto simp add: add_effects_Some send_now_def Let_def split: if_splits option.splits)

lemma flush_audio_pacer:
  "flush_audio e t = Some (x, t', es) \<Longrightarrow> t_pacer t' = t_pacer t \<and> t_bandwidth t' = t_bandwidth t"
  using flush_packets_pacer by (fastforce simp add: flush_audio_def split_beta)

lemma cost_nonneg: "0 \<le> f64_of_nat n"
  by (simp add: f64_of_nat_def rnd_nonneg)

lemma outbound_loop_bounds:
  assumes "outbound_loop n c e t = Some (x, t', es)" "representable (token_of t)"
  shows "representable (token_of t') \<and> t_bandwidth t' = t_bandwidth t \<and> token_of t' \<le> token_of t \<and>
    min (token_of t) (- loan_limit c (t_bandwidth t)) \<le> token_of t'"
  using assms
proof (induction n arbitrary: t es)
  case (Suc n)
  define q where "q = bq_poll (q_outbound (t_queues t))"
  define u where "u = set_queues (\<lambda>qs. qs\<lparr>q_outbound := snd q\<rparr>) t"
  have u: "t_pacer u = t_pacer t" "t_bandwidth u = t_bandwidth t" by (simp_all add: u_def)
  note run = Suc.prems(1) [unfolded outbound_loop.simps(2) split_beta Let_def, folded q_def, folded u_def]
  let ?goal = ?case
  have next_u: ?goal if "outbound_loop n c e u = Some (x, t', es)"
    using Suc.IH [OF that] Suc.prems(2) u by simp
  have stop: ?goal if "u = t'" using u Suc.prems(2) by (simp add: that)
  show ?case
  proof (cases "fst q")
    case None
    then show ?thesis using run u Suc.prems(2) by auto
  next
    case (Some pkt)
    define cost where "cost = f64_of_nat (length (ob_datagram pkt))"
    consider "outbound_loop n c e u = Some (x, t', es)" | a where "target pkt u = Some (Some a)"
      using run by (auto simp add: Some split: if_splits option.splits)
    then show ?thesis
    proof cases
      case 2
      define w where "w = fst (send_now a pkt (spend cost u))"
      have w: "token_of w = fsub (token_of t) cost" "t_bandwidth w = t_bandwidth t"
        by (simp_all add: w_def send_now_def spend_def u)
      have below: "fsub (token_of t) cost \<le> token_of t"
        using fsub_below [OF Suc.prems(2)] cost_nonneg by (simp add: cost_def)
      have paid: "0 \<le> fsub (token_of t) cost" if "cost \<le> token_of t"
        using that by (simp add: fsub_def rnd_nonneg)
      have next_w: ?goal if "outbound_loop n c e w = Some (x, t', fs)"
        "- loan_limit c (t_bandwidth t) \<le> fsub (token_of t) cost" for fs
        using Suc.IH [OF that(1)] that(2) below f64_results(2) by (auto simp add: w min_def split: if_splits)
      show ?thesis
        using run stop next_u next_w paid loan_nonneg [of c "t_bandwidth t"] Suc.prems(2)
        by (auto simp add: Some 2 cost_def [symmetric] w_def [symmetric] u add_effects_Some set_pacer_def split: if_splits)
    qed (rule next_u)
  qed
qed simp

lemma settle_bounds:
  assumes "representable (token_of t)"
  shows "representable (token_of (settle c e t))" "t_bandwidth (settle c e t) = t_bandwidth t"
    "min (token_of t) 0 \<le> token_of (settle c e t)"
    "token_of (settle c e t) \<le> max (token_of t) (token_bucket_cap c (t_bandwidth t))"
proof -
  have r0: "representable 0" by (simp add: representable_def)
  note b = refill_bounds [OF assms, where c = c and now = "e_now e" and b = "t_bandwidth t"] cap_nonneg(1) [of c "t_bandwidth t"]
  show "representable (token_of (settle c e t))" using b r0 by (simp add: settle_def Let_def)
  show "t_bandwidth (settle c e t) = t_bandwidth t" by (simp add: settle_def Let_def)
  show "min (token_of t) 0 \<le> token_of (settle c e t)"
    using b by (auto simp add: settle_def Let_def)
  show "token_of (settle c e t) \<le> max (token_of t) (token_bucket_cap c (t_bandwidth t))"
    using b by (auto simp add: settle_def Let_def)
qed

lemma loan_ends_pacer:
  "token_of (fst (loan_exhausted t)) = token_of t" "token_of (fst (loan_repaid t)) = token_of t"
  by (simp_all add: loan_exhausted_def loan_repaid_def Let_def)

lemma unpaid_heartbeat:
  assumes q: "bq_inv (q_outbound (t_queues t))" "items (q_outbound (t_queues t)) = pkt # rest"
    and audio: "bq_inv (q_audio (t_queues t))" "items (q_audio (t_queues t)) = []"
    and pkt: "ob_channel pkt \<noteq> 0" "\<not> drained e (ob_channel pkt) (t_queues t)" "target pkt t = Some (Some a)"
    and debt: "token_of (settle c e t) < f64_of_nat (length (ob_datagram pkt))"
  obtains w qa q' where "heartbeat c e t = Some (loan_repaid w)" "items q' = rest"
    "t_queues w = (t_queues t)\<lparr>q_audio := qa, q_outbound := q'\<rparr>"
proof -
  define s where "s = settle c e t"
  have s: "t_queues s = t_queues t" "t_peers s = t_peers t" "t_sock s = t_sock t"
    by (simp_all add: s_def settle_def Let_def)
  obtain qa where qa: "poll_all (q_audio (t_queues t)) = ([], qa)"
    using poll_all_items [OF audio(1)] audio(2) by (cases "poll_all (q_audio (t_queues t))") simp
  obtain q' where q': "bq_poll (q_outbound (t_queues t)) = (Some pkt, q')" "items q' = rest"
    using bq_poll_items(2) [OF q] by blast
  define u where "u = set_queues (\<lambda>qs. qs\<lparr>q_audio := qa\<rparr>) s"
  have f: "flush_audio e s = Some ((), u, [])" by (simp add: flush_audio_def s qa u_def)
  define w where "w = set_pacer (\<lambda>k. k\<lparr>k_pacer_limited := True\<rparr>) (set_queues (\<lambda>qs. qs\<lparr>q_outbound := q'\<rparr>) u)"
  define u2 where "u2 = set_queues (\<lambda>qs. qs\<lparr>q_outbound := q'\<rparr>) u"
  have u2: "target pkt u2 = Some (Some a)" "\<not> drained e (ob_channel pkt) (t_queues u2)"
    "\<not> f64_of_nat (length (ob_datagram pkt)) \<le> token_of u2" "bq_poll (q_outbound (t_queues u)) = (Some pkt, q')"
    using pkt debt by (simp_all add: u2_def u_def s q' target_def drained_def s_def [symmetric])
  have l: "outbound_loop (Suc n) c e u = Some (False, w, [])" for n
    using u2(1-3) u2(2) [unfolded u2_def set_queues_fields] pkt(1) by (simp add: outbound_loop.simps(2) u2(4) u2_def [symmetric] w_def)
  have h: "heartbeat c e t = Some (loan_repaid w)"
    by (simp add: heartbeat_def s_def [symmetric] f l split_beta)
  have w: "t_queues w = (t_queues t)\<lparr>q_audio := qa, q_outbound := q'\<rparr>" by (simp add: w_def u_def s)
  show ?thesis by (rule that [OF h q'(2) w])
qed

section \<open>Properties\<close>

text \<open>
  C23: the debt of the pacer is bounded.  A heartbeat leaves the bucket at no more than the larger of
  what it held and its capacity, and at no less than the smaller of what it held and the negated
  loan: while the estimate stands, the bucket stays between the loan and the capacity.
\<close>

theorem heartbeat_bounds:
  assumes "heartbeat c e t = Some (t', es)" "representable (token_of t)"
  shows "representable (token_of t') \<and> t_bandwidth t' = t_bandwidth t \<and>
    min (token_of t) (- loan_limit c (t_bandwidth t)) \<le> token_of t' \<and>
    token_of t' \<le> max (token_of t) (token_bucket_cap c (t_bandwidth t))"
proof -
  obtain v fs where v: "flush_audio e (settle c e t) = Some ((), v, fs)"
    using assms(1) by (auto simp add: heartbeat_def split: option.splits)
  obtain x w gs where w: "outbound_loop (Suc (m_size (q_outbound (t_queues v)))) c e v = Some (x, w, gs)"
    using assms(1) by (auto simp add: heartbeat_def v split: option.splits)
  have t': "t' = fst (loan_repaid (fst (if x then loan_exhausted w else (w, []))))"
    using assms(1) by (cases x) (auto simp add: heartbeat_def v w split_beta)
  then have tok: "token_of t' = token_of w" "t_bandwidth t' = t_bandwidth w"
    by (simp_all add: loan_ends_pacer) (simp add: loan_exhausted_def loan_repaid_def Let_def)
  note s = settle_bounds [OF assms(2), of c e] flush_audio_pacer [OF v]
  have "representable (token_of v)" using s by simp
  from outbound_loop_bounds [OF w this] show ?thesis
    using s loan_nonneg [of c "t_bandwidth t"] by (auto simp add: tok min_def max_def split: if_splits)
qed

text \<open>
  A packet that the bucket cannot pay for is lost.  When the ordinary queue starts with a packet
  that is not of the video channel (control packets travel as channel 7) and the bucket, after the
  refill, holds less than its size, the heartbeat takes it off the queue and sends nothing; so in
  debt every heartbeat throws one such packet away.
\<close>

theorem unpaid_packet_lost:
  assumes q: "bq_inv (q_outbound (t_queues t))" "items (q_outbound (t_queues t)) = pkt # rest"
    and audio: "bq_inv (q_audio (t_queues t))" "items (q_audio (t_queues t)) = []"
    and pkt: "ob_channel pkt \<noteq> 0" "\<not> drained e (ob_channel pkt) (t_queues t)" "target pkt t = Some (Some a)"
    and debt: "token_of (settle c e t) < f64_of_nat (length (ob_datagram pkt))"
  shows "\<exists>t' es. heartbeat c e t = Some (t', es) \<and> items (q_outbound (t_queues t')) = rest \<and>
    es \<in> {[], [On_loan_exhausted False]} \<and> q_tx_bytes (t_queues t') = q_tx_bytes (t_queues t)"
proof -
  obtain w qa q' where w: "heartbeat c e t = Some (loan_repaid w)" "items q' = rest"
    "t_queues w = (t_queues t)\<lparr>q_audio := qa, q_outbound := q'\<rparr>"
    by (rule unpaid_heartbeat [OF assms])
  then show ?thesis by (auto simp add: loan_repaid_def)
qed

text \<open>A transport with one packet of three bytes in the ordinary queue and an empty bucket.\<close>

definition ex_addr :: addr_key where "ex_addr = AddrKey 0 7"

definition ex_paced :: "u8 \<Rightarrow> transport" where
  "ex_paced ch =
    (let t = (new_transport default_config 0 5 6 [] [])\<lparr>t_sock := True,
           t_peers := [([1], link0\<lparr>l_addr := Some ex_addr\<rparr>)]\<rparr>
     in set_queues (\<lambda>q. q\<lparr>q_outbound := snd (bq_try_push \<lparr> ob_peer = [1], ob_channel = ch, ob_datagram = [1, 2, 3] \<rparr>
                                          (q_outbound q))\<rparr>) t)"

abbreviation ex_idle :: env where
  "ex_idle \<equiv> \<lparr> e_now = 0, e_ms = 9 \<rparr>"

lemma ex_paced_facts:
  "token_of (ex_paced ch) = 0" "token_of (settle default_config ex_idle (ex_paced ch)) = 0"
  "t_peers (ex_paced ch) = [([1], link0\<lparr>l_addr := Some ex_addr\<rparr>)]" "t_sock (ex_paced ch)"
  "q_drain_until_ms (t_queues (ex_paced ch)) = replicate 8 0"
  by (simp_all add: ex_paced_def new_transport_def settle_def refill_token_bucket_def Let_def)

lemma ex_paced_queues:
  "bq_inv (q_outbound (t_queues (ex_paced ch)))"
  "items (q_outbound (t_queues (ex_paced ch))) = [\<lparr> ob_peer = [1], ob_channel = ch, ob_datagram = [1, 2, 3] \<rparr>]"
  "bq_inv (q_audio (t_queues (ex_paced ch)))" "items (q_audio (t_queues (ex_paced ch))) = []"
proof -
  have open_queue: "\<not> bq_full (bq_new 65536 :: outbound_packet bqueue)" by (simp add: bq_full_def bq_new_def)
  have q: "q_outbound (t_queues (ex_paced ch)) =
      enqueue_node \<lparr> ob_peer = [1], ob_channel = ch, ob_datagram = [1, 2, 3] \<rparr> (bq_new 65536)"
    using open_queue by (simp add: ex_paced_def new_transport_def bq_try_push_def queue_capacity_def
        default_config_def Let_def) (simp add: bq_new_def)
  show "bq_inv (q_outbound (t_queues (ex_paced ch)))"
    "items (q_outbound (t_queues (ex_paced ch))) = [\<lparr> ob_peer = [1], ob_channel = ch, ob_datagram = [1, 2, 3] \<rparr>]"
    using bq_push_cases [OF bq_new_inv(1) open_queue] bq_new_inv(2) [of 65536] by (simp_all add: q)
  show "bq_inv (q_audio (t_queues (ex_paced ch)))" "items (q_audio (t_queues (ex_paced ch))) = []"
    by (simp_all add: bq_new_inv ex_paced_def new_transport_def Let_def)
qed

lemma ex_target:
  "target \<lparr> ob_peer = [1], ob_channel = ch, ob_datagram = [1, 2, 3] \<rparr> (ex_paced k) = Some (Some ex_addr)"
  by (simp add: target_def ex_paced_facts)

lemma ex_not_drained: "\<not> drained ex_idle ch (t_queues (ex_paced k))"
proof -
  have "unat ch < 8" if "ch < 8" using that by (simp add: word_less_nat_alt)
  then show ?thesis by (auto simp add: drained_def ex_paced_facts)
qed

lemma ex_debt: "token_of (settle default_config ex_idle (ex_paced 7)) < f64_of_nat (length [1, 2, 3 :: u8])"
  using rnd_of_int_exact [of 3] by (simp add: f64_of_nat_def ex_paced_facts)

lemma unpaid_packet_lost_witness:
  "\<exists>t' es. heartbeat default_config ex_idle (ex_paced 7) = Some (t', es) \<and> items (q_outbound (t_queues t')) = []
     \<and> es \<in> {[], [On_loan_exhausted False]}"
  using unpaid_packet_lost [OF ex_paced_queues, of 7 ex_idle ex_addr default_config] ex_debt
  by (auto simp add: ex_target ex_not_drained)

lemma heartbeat_bounds_witness:
  "\<exists>t' es. heartbeat default_config ex_idle (ex_paced 7) = Some (t', es) \<and> representable (token_of t') \<and>
     - loan_limit default_config (t_bandwidth (ex_paced 7)) \<le> token_of t'"
proof -
  obtain w where h: "heartbeat default_config ex_idle (ex_paced 7) = Some (loan_repaid w)"
    using unpaid_heartbeat [OF ex_paced_queues, of 7 ex_idle ex_addr default_config] ex_debt
    by (auto simp add: ex_target ex_not_drained)
  then have h: "heartbeat default_config ex_idle (ex_paced 7) = Some (fst (loan_repaid w), snd (loan_repaid w))"
    by simp
  show ?thesis
    using heartbeat_bounds [OF h] h loan_nonneg [of default_config "t_bandwidth (ex_paced 7)"]
    by (intro exI [of _ "fst (loan_repaid w)"] exI [of _ "snd (loan_repaid w)"])
      (simp add: ex_paced_facts representable_def)
qed

end
