(* ===== verification/Capacity.thy ===== *)
theory Capacity
  imports Outbound Bandwidth
begin

text \<open>
  The rate control of \<open>transport.cpp\<close>: what a report of the receiver does to the estimate, the
  evacuation windows that follow a sharp decrease, and the capacity for video that the application
  is told.  The clocks are read once per call.
\<close>

definition kEvacDrainMs :: u64 where "kEvacDrainMs = 100"
definition kEvacFreezeTotal :: time where "kEvacFreezeTotal = seconds 3"
definition kEvacFastMaxFactor :: f64 where "kEvacFastMaxFactor = rnd (60 / 100)"
definition kFecDisableRttMs :: int where "kFecDisableRttMs = 200"

definition set_capacity :: "(capacity \<Rightarrow> capacity) \<Rightarrow> transport \<Rightarrow> transport" where
  "set_capacity f t = t\<lparr>t_capacity := f (t_capacity t)\<rparr>"

section \<open>The capacity for video\<close>

definition file_data_rate_bps :: "time \<Rightarrow> transport \<Rightarrow> f64 \<times> transport" where
  "file_data_rate_bps now t =
    (let v = t_capacity t;
         dt = (now - v_fd_rate_last_ts v) sdiv 1000;
         cur = q_fd_tx_bytes (t_queues t);
         rate = (if dt > 0 \<and> v_fd_rate_last_ts v \<noteq> 0
                 then fdiv (fmul (f64_of_u64 (cur - v_fd_rate_last_bytes v)) 1000000) (f64_of_int dt) else 0)
     in (rate, t\<lparr>t_capacity := v\<lparr>v_fd_rate_last_bytes := cur, v_fd_rate_last_ts := now\<rparr>\<rparr>))"

definition fec_redundancy_ratio :: "transport \<Rightarrow> f64" where
  "fec_redundancy_ratio t =
    (let data = sum_list (map (\<lambda>(k, l). m_fec_data_pkts (p_fec (l_peer l))) (t_peers t));
         parity = sum_list (map (\<lambda>(k, l). m_fec_parity_pkts (p_fec (l_peer l))) (t_peers t))
     in if data = 0 then 0 else fdiv (f64_of_u64 parity) (f64_of_u64 data))"

definition at_least_0 :: "f64 \<Rightarrow> f64" where
  "at_least_0 x = (if x < 0 then 0 else x)"

text \<open>\<open>(total - audio - fd - evac) / (1 + ratio)\<close>, evaluated from the left.\<close>

definition share :: "f64 \<Rightarrow> f64 \<Rightarrow> f64 \<Rightarrow> f64 \<Rightarrow> f64" where
  "share total_bps audio fd_bps ratio = fdiv (fsub (fsub total_bps audio) fd_bps) (fadd 1 ratio)"

definition share_drain :: "f64 \<Rightarrow> f64 \<Rightarrow> f64 \<Rightarrow> f64 \<Rightarrow> f64 \<Rightarrow> f64" where
  "share_drain total_bps audio fd_bps evac_bps ratio =
    fdiv (fsub (fsub (fsub total_bps audio) fd_bps) evac_bps) (fadd 1 ratio)"

definition audio_reserve :: "config \<Rightarrow> f64" where
  "audio_reserve c =
    fmul (f64_of_int (uint (c_audio_reserved_bps c))) (fadd 1 (f64_of_int (uint (c_channel_fec_extra c ! 1))))"

text \<open>The edge: a sharp decrease that has not been dealt with opens a window, fast or slow.\<close>

definition evac_edge :: "config \<Rightarrow> env \<Rightarrow> u64 \<Rightarrow> transport \<Rightarrow> transport \<times> effect list" where
  "evac_edge c e btl t =
    (let now = e_now e; window = milliseconds (uint (c_slowdown_window_ms c));
         last_cong = m_last_congest_at (t_bandwidth t)
     in if last_cong > 0 \<and> last_cong \<noteq> v_evac_processed_cong (t_capacity t) \<and> now - last_cong < window
        then
          let factor = m_last_congest_factor (t_bandwidth t);
              (t, es) =
                (if factor < kEvacFastMaxFactor
                 then let t = clear_outbound t;
                          t = set_queues (\<lambda>q. q\<lparr>q_drain_until_ms := (q_drain_until_ms q)[0 := e_ms e + kEvacDrainMs]\<rparr>) t;
                          t = set_capacity (\<lambda>v. v\<lparr>v_evac_reset_token := True, v_evac_keyframe_sent := False,
                                v_evac_freeze_until := now + kEvacFreezeTotal, v_evac_mode := 1\<rparr>) t
                      in (t, [On_evac_keyframe])
                 else (set_capacity (\<lambda>v. v\<lparr>v_evac_slow_q_bytes := v_evac_pending v, v_evac_slow_btl_snap := btl,
                         v_evac_slow_deadline := now + window, v_evac_mode := 2\<rparr>) t, []))
          in (set_capacity (\<lambda>v. v\<lparr>v_evac_processed_cong := last_cong\<rparr>) t, es)
        else (t, []))"

definition evac_fast :: "env \<Rightarrow> capacity \<Rightarrow> capacity" where
  "evac_fast e v =
    (if v_evac_freeze_until v \<noteq> 0 \<and> e_now e \<ge> v_evac_freeze_until v
     then let v = v\<lparr>v_evac_freeze_until := 0\<rparr>
          in if \<not> v_evac_keyframe_sent v then v\<lparr>v_evac_mode := 0\<rparr> else v
     else v)"

definition evac_slow :: "config \<Rightarrow> env \<Rightarrow> f64 \<Rightarrow> f64 \<Rightarrow> f64 \<Rightarrow> f64 \<Rightarrow> capacity \<Rightarrow> f64 \<times> capacity" where
  "evac_slow c e cap audio fd_bps ratio v =
    (let window_s = fdiv (f64_of_int (uint (c_slowdown_window_ms c))) 1000;
         evac_bps = fdiv (fmul (f64_of_u64 (v_evac_slow_q_bytes v)) 8) window_s;
         total_snap = fmul (f64_of_u64 (v_evac_slow_btl_snap v)) 8;
         cap_drain = share_drain total_snap audio fd_bps evac_bps ratio;
         cap_drain = (if v_evac_slow_q_bytes v = 0 then fmul cap (rnd (1 / 2)) else cap_drain);
         cap_drain = at_least_0 cap_drain
     in (cap_drain,
         if e_now e \<ge> v_evac_slow_deadline v
         then v\<lparr>v_evac_mode := 0, v_evac_slow_q_bytes := 0, v_evac_slow_btl_snap := 0,
                v_evac_slow_deadline := 0, v_evac_pending := 0\<rparr>
         else v))"

definition video_capacity_bps :: "config \<Rightarrow> env \<Rightarrow> transport \<Rightarrow> u64 \<times> transport \<times> effect list" where
  "video_capacity_bps c e t =
    (let btl = m_btl_bw (t_bandwidth t);
         ratio = fec_redundancy_ratio t;
         (fd_rate, t) = file_data_rate_bps (e_now e) t;
         fd_bps = fmul fd_rate 8;
         audio = audio_reserve c;
         total_bps = fmul (f64_of_u64 btl) 8;
         cap = at_least_0 (share total_bps audio fd_bps ratio)
     in if c_slowdown_window_ms c > 0
        then
          let (t, es) = evac_edge c e btl t;
              mode = v_evac_mode (t_capacity t);
              (cap, t) =
                (if mode = 1 then (at_least_0 (share total_bps audio fd_bps ratio), set_capacity (evac_fast e) t)
                 else if mode = 2
                 then let (cap, v) = evac_slow c e cap audio fd_bps ratio (t_capacity t)
                      in (cap, set_capacity (\<lambda>_. v) t)
                 else (cap, t))
          in (u64_of_f64 cap, t, es)
        else (u64_of_f64 cap, t, []))"

definition push_cap :: "u64 \<Rightarrow> transport \<Rightarrow> transport" where
  "push_cap cap = set_capacity (\<lambda>v. v\<lparr>v_last_cap_notified := cap, v_queue := snd (bq_try_push cap (v_queue v))\<rparr>)"

definition notify_video_capacity :: "config \<Rightarrow> env \<Rightarrow> transport \<Rightarrow> transport \<times> effect list" where
  "notify_video_capacity c e t =
    (let (cap, t, es) = video_capacity_bps c e t;
         last_cap = v_last_cap_notified (t_capacity t)
     in if last_cap = 0 then (push_cap cap t, es)
        else
          let delta = (if cap > last_cap then cap - last_cap else last_cap - cap)
          in if delta * 10 > last_cap \<and> delta > 100000 then (push_cap cap t, es) else (t, es))"

section \<open>Reports\<close>

text \<open>Sustained overload: the smoothed sending rate exceeds the smoothed receiving rate.\<close>

definition overload_step :: "time \<Rightarrow> u64 \<Rightarrow> u64 \<Rightarrow> capacity \<Rightarrow> bool \<times> capacity" where
  "overload_step now cur recv v =
    (let dt = (if v_tx_rate_last_ts v \<noteq> 0 then fdiv (f64_of_int (now - v_tx_rate_last_ts v)) 1000000000 else 0);
         (overload, v) =
           (if dt > 0 \<and> cur \<ge> v_tx_rate_last_bytes v
            then let send_rate = fdiv (f64_of_u64 (cur - v_tx_rate_last_bytes v)) dt;
                     recv_rate = f64_of_u64 recv
                 in if recv_rate > 0
                    then let v = (if v_overload_send_ewma v = 0 \<and> v_overload_recv_ewma v = 0
                                  then v\<lparr>v_overload_send_ewma := send_rate, v_overload_recv_ewma := recv_rate\<rparr>
                                  else v\<lparr>v_overload_send_ewma := fadd (fmul (rnd (1 / 2)) (v_overload_send_ewma v)) (fmul (rnd (1 / 2)) send_rate),
                                         v_overload_recv_ewma := fadd (fmul (rnd (1 / 2)) (v_overload_recv_ewma v)) (fmul (rnd (1 / 2)) recv_rate)\<rparr>);
                             over = v_overload_send_ewma v > v_overload_recv_ewma v
                         in (over,
                             if over
                             then v\<lparr>v_evac_pending := v_evac_pending v +
                                    u64_of_f64 (fmul (fsub (v_overload_send_ewma v) (v_overload_recv_ewma v)) dt)\<rparr>
                             else v)
                    else (True, v\<lparr>v_overload_send_ewma := 0, v_overload_recv_ewma := 0\<rparr>)
            else (True, v))
     in (overload, v\<lparr>v_tx_rate_last_bytes := cur, v_tx_rate_last_ts := now\<rparr>))"

text \<open>The share of late frames; \<open>None\<close> (the code's -1) when the report has no statistics of frames.\<close>

definition late_line :: "config \<Rightarrow> u32 \<Rightarrow> f64 \<Rightarrow> f64 \<Rightarrow> f64" where
  "late_line c p50_ms btl_bps n_bytes =
    fadd (fadd (fmul (f64_of_int (uint p50_ms)) 1000)
               (fmul (fdiv (fmul n_bytes 8) btl_bps) 1000000))
         (fmul (f64_of_int (uint (c_late_buffer_ms c))) 1000)"

definition frame_late_ratio :: "config \<Rightarrow> u32 \<Rightarrow> u64 \<Rightarrow> report_result \<Rightarrow> f64 option" where
  "frame_late_ratio c p50_ms btl r =
    (let btl_bps = fmul (f64_of_u64 btl) 8 in
     if rr_frame_lite r
     then if rr_frame_hist_samples r > 0 \<and> rr_frame_max_bytes r > 0 \<and> btl_bps > 0
          then let line_us = late_line c p50_ms btl_bps (f64_of_int (uint (rr_frame_max_bytes r)));
                   over = foldl (\<lambda>over b. if fadd (fmul (f64_of_nat b) 8000) 4000 > line_us
                                          then over + ucast (rr_frame_hist r ! b) else over)
                            (0 :: u64) [0..<length (rr_frame_hist r)];
                   late = fdiv (f64_of_u64 over) (f64_of_int (uint (rr_frame_hist_samples r)))
               in Some (if late > 1 then 1 else late)
          else None
     else if rr_frame_pairs r \<noteq> [] \<and> btl_bps > 0
     then let late_cnt = length (filter (\<lambda>fp. fmul (f64_of_int (uint (snd fp))) 1000 >
                                      late_line c p50_ms btl_bps (f64_of_int (uint (fst fp)))) (rr_frame_pairs r))
          in Some (fdiv (f64_of_nat late_cnt) (f64_of_nat (length (rr_frame_pairs r))))
     else None)"

definition evac_confirm :: "capacity \<Rightarrow> capacity" where
  "evac_confirm v =
    (if v_evac_mode v = 1 \<and> v_evac_keyframe_sent v then v\<lparr>v_evac_mode := 0, v_evac_keyframe_sent := False\<rparr> else v)"

definition in_evac :: "time \<Rightarrow> capacity \<Rightarrow> bool" where
  "in_evac now v \<longleftrightarrow>
    v_evac_mode v = 2 \<and> now < v_evac_slow_deadline v \<or> v_evac_freeze_until v \<noteq> 0 \<and> now < v_evac_freeze_until v"

text \<open>What the lost packets of a report make the sender send again, past the queue and the pacer.\<close>

definition resend :: "config \<Rightarrow> here \<Rightarrow> (packet_header \<times> bytes) list \<Rightarrow> effect list" where
  "resend c s resent =
    concat (map (\<lambda>(h, payload).
      snd (send_direct (build_wire_packet (c_encryption_enabled c) (l_session (fst s)) h payload) s)) resent)"

definition set_late_ratio :: "f64 \<Rightarrow> link \<Rightarrow> link" where
  "set_late_ratio x l = l\<lparr>l_peer := (l_peer l)\<lparr>p_fec := (p_fec (l_peer l))\<lparr>m_peer_late_ratio := x\<rparr>\<rparr>\<rparr>"

definition set_fec_disable :: "bool \<Rightarrow> link \<Rightarrow> link" where
  "set_fec_disable b l = l\<lparr>l_peer := (l_peer l)\<lparr>p_fec := (p_fec (l_peer l))\<lparr>m_fec_disable := b\<rparr>\<rparr>\<rparr>"

text \<open>The report as the estimator gets it.\<close>

definition bw_report_of :: "config \<Rightarrow> time \<Rightarrow> bool \<Rightarrow> f64 option \<Rightarrow> report_result \<Rightarrow> here \<Rightarrow> bw_report" where
  "bw_report_of c now overload frame_late r s =
    (let (l, t) = s
     in \<lparr> r_p50_ms = ucast (m_peer_p50_ms (p_fec (l_peer l))),
          r_late = (case frame_late of Some x \<Rightarrow> x | None \<Rightarrow> m_peer_late_ratio (p_fec (l_peer l))),
          r_loss = fdiv (f64_of_int (uint (rr_loss_ratio r))) 10000,
          r_ce = fdiv (f64_of_int (uint (rr_ce_ratio r))) 10000,
          r_pacer_limited = k_pacer_limited (t_pacer t), r_overload = overload,
          r_in_evac = in_evac now (t_capacity t), r_recv_rate = f64_of_u64 (rr_recv_rate r) \<rparr>)"

text \<open>The whole handler; the peer goes back into the table before the capacity is worked out, which
  counts the packets of all peers.\<close>

definition report_estimate :: "config \<Rightarrow> env \<Rightarrow> report_result \<Rightarrow> here \<Rightarrow> here" where
  "report_estimate c e r s =
    (let (l, t) = s; now = e_now e;
         (overload, v) = overload_step now (q_tx_bytes (t_queues t)) (rr_recv_rate r) (t_capacity t);
         frame_late = frame_late_ratio c (ucast (m_peer_p50_ms (p_fec (l_peer l)))) (m_btl_bw (t_bandwidth t)) r;
         l = (case frame_late of Some x \<Rightarrow> set_late_ratio x l | None \<Rightarrow> l);
         t = t\<lparr>t_capacity := evac_confirm v\<rparr>;
         b = on_report now (bw_report_of c now overload frame_late r (l, t)) (t_bandwidth t);
         b = (if rr_probe_bw r > 0 then set_seed_and_clamp (rr_probe_bw r) b else b);
         l = set_fec_disable (m_rtt b > kFecDisableRttMs * 1000 \<or> rr_ce_ratio r > 100) l
     in (l, t\<lparr>t_bandwidth := b\<rparr>))"

definition handle_report ::
  "config \<Rightarrow> env \<Rightarrow> peer_id \<Rightarrow> packet_header \<Rightarrow> bytes \<Rightarrow> here \<Rightarrow> here \<times> effect list" where
  "handle_report c e pk h payload s =
    (let (l, t) = feed_rtt_from_tick (h_tick h) e s;
         (p, r, resent) = report_handle (e_now e) payload (l_peer l);
         l = l\<lparr>l_peer := p\<rparr>;
         es = resend c (l, t) resent;
         l = l\<lparr>l_last_report_at := e_now e\<rparr>;
         (l, t) = report_estimate c e r (l, t);
         (t, fs) = notify_video_capacity c e (t\<lparr>t_peers := om_set pk l (t_peers t)\<rparr>)
     in ((l, t), es @ fs))"

end
