(* ===== verification/Transport.thy ===== *)
theory Transport
  imports File_Transfer Pacing Capacity
begin

text \<open>
  The transport as a whole: what a datagram does on arrival, one turn of the reactor, the threads,
  and the operations of the application, composed into one step relation over everything the
  transport reacts to.  \<open>None\<close> stands for undefined behaviour: following a pointer to a peer that is
  gone, or indexing outside the fragments of a message.
\<close>

section \<open>Data and commands\<close>

definition deliver_event :: "rx_event \<Rightarrow> link \<Rightarrow> link \<times> effect list" where
  "deliver_event ev l =
    (case ev of Deliver message \<Rightarrow> deliver_message message l
     | Loss ch \<Rightarrow> (l, [On_message_loss (l_id l) ch])
     | Warn_drop msg n limit \<Rightarrow> (l, [Log_drop msg n limit]))"

fun deliver_events :: "rx_event list \<Rightarrow> link \<Rightarrow> link \<times> effect list" where
  "deliver_events [] l = (l, [])"
| "deliver_events (ev # evs) l = and_then (deliver_event ev l) (deliver_events evs)"

definition rx_params_of :: "config \<Rightarrow> transport \<Rightarrow> rx_params" where
  "rx_params_of c t =
    \<lparr> rx_rtt_us = of_int (m_rtt (t_bandwidth t)), rx_late_multiplier = c_late_rtt_multiplier c,
      rx_late_buffer_ms = c_late_buffer_ms c, rx_max_message_bytes = max_message_bytes c,
      rx_report_interval = c_report_interval c \<rparr>"

definition handle_data_packet ::
  "config \<Rightarrow> env \<Rightarrow> packet_header \<Rightarrow> bytes \<Rightarrow> here \<Rightarrow> (here \<times> effect list) option" where
  "handle_data_packet c e h payload s =
    (let (l, t) = s in
     case handle_data (rx_params_of c t) (e_now e) (e_ms e) h payload (l_peer l) of
       None \<Rightarrow> None
     | Some (p, evs) \<Rightarrow>
         let (l, es) = deliver_events evs (l\<lparr>l_peer := p\<rparr>) in Some ((l, t), es))"

definition handle_command :: "env \<Rightarrow> packet_header \<Rightarrow> bytes \<Rightarrow> here \<Rightarrow> here \<times> effect list" where
  "handle_command e h payload s =
    (let (l, t) = s;
         (k, ready) = cmd_handle h payload (of_int (m_rtt (t_bandwidth t))) (e_now e) (l_cmd l)
     in ((l\<lparr>l_cmd := k\<rparr>, t), map (On_command (l_id l)) ready))"

section \<open>Packets\<close>

text \<open>What every packet does to its peer, before anything in it is authenticated.\<close>

definition account_packet :: "env \<Rightarrow> packet_header \<Rightarrow> link \<Rightarrow> link" where
  "account_packet e h l =
    (let l = l\<lparr>l_last_recv := e_now e\<rparr>;
         l = (if l_peer_client_id l = 0 \<and> h_client_id h \<noteq> 0 then l\<lparr>l_peer_client_id := h_client_id h\<rparr> else l);
         l = (if l_peer_session_id l = 0 \<and> h_session_id h \<noteq> 0 then l\<lparr>l_peer_session_id := h_session_id h\<rparr> else l);
         rx = p_rx (l_peer l);
         rx = rx\<lparr>m_recv_bytes := m_recv_bytes rx + of_nat (kHeaderSize + unat (h_payload_size h))\<rparr>;
         rx = (if h_type h = Data \<or> h_type h = Parity then rx\<lparr>m_data_pkts := m_data_pkts rx + 1\<rparr> else rx)
     in l\<lparr>l_peer := (l_peer l)\<lparr>p_rx := rx\<rparr>\<rparr>)"

text \<open>The payload of an encrypted packet is opened in place.\<close>

definition open_payload :: "session \<Rightarrow> packet_header \<Rightarrow> bytes \<Rightarrow> (packet_header \<times> bytes) option" where
  "open_payload s h payload =
    (if h_flags h AND kFlagEncrypted \<noteq> 0 then decrypt_payload s h payload else Some (h, payload))"

definition acked :: "config \<Rightarrow> env \<Rightarrow> peer_id \<Rightarrow> packet_header \<Rightarrow> here \<times> effect list \<Rightarrow> here \<times> effect list" where
  "acked c e pk h r = (let (s, es) = r in (send_ack_packet (h_sequence h) e pk s, es))"

definition dispatch ::
  "config \<Rightarrow> env \<Rightarrow> peer_id \<Rightarrow> packet_header \<Rightarrow> bytes \<Rightarrow> here \<Rightarrow> (here \<times> effect list) option" where
  "dispatch c e pk h payload s =
    (case h_type h of
       Handshake \<Rightarrow> Some (acked c e pk h (handle_handshake c e pk h payload s))
     | HandshakeAck \<Rightarrow> Some (acked c e pk h (handle_handshake_ack c e pk h payload s))
     | Online \<Rightarrow> Some (acked c e pk h (handle_online c e s))
     | Heartbeat \<Rightarrow> Some (quiet (handle_heartbeat e h payload s))
     | Bye \<Rightarrow> Some (handle_bye s)
     | Data \<Rightarrow> handle_data_packet c e h payload s
     | Parity \<Rightarrow> if c_fec_enabled c then handle_data_packet c e h payload s else Some (quiet s)
     | Ack \<Rightarrow> Some (quiet (handle_ack e h s))
     | Report \<Rightarrow> Some (handle_report c e pk h payload s)
     | Probe \<Rightarrow> Some (quiet (handle_probe e h s))
     | Command \<Rightarrow> Some (handle_command e h payload s)
     | Unknown b \<Rightarrow> Some (quiet s))"

text \<open>A handler on the entry of a peer in the table.\<close>

definition with_peer ::
  "peer_id \<Rightarrow> (here \<Rightarrow> (here \<times> effect list) option) \<Rightarrow> transport \<Rightarrow> (transport \<times> effect list) option" where
  "with_peer pk f t =
    (case om_find (t_peers t) pk of
       None \<Rightarrow> None
     | Some l \<Rightarrow>
         (case f (l, t) of
            None \<Rightarrow> None
          | Some ((l, t), es) \<Rightarrow> Some (t\<lparr>t_peers := om_set pk l (t_peers t)\<rparr>, es)))"

definition packet_on_peer ::
  "config \<Rightarrow> env \<Rightarrow> peer_id \<Rightarrow> packet_header \<Rightarrow> bytes \<Rightarrow> here \<Rightarrow> (here \<times> effect list) option" where
  "packet_on_peer c e pk h payload s =
    (let (l, t) = s; l = account_packet e h l
     in case open_payload (l_session l) h payload of
          None \<Rightarrow> Some (quiet (l, t))
        | Some (h, payload) \<Rightarrow> dispatch c e pk h payload (l, t))"

definition handle_packet ::
  "config \<Rightarrow> env \<Rightarrow> u64 \<Rightarrow> addr_key \<Rightarrow> packet_header \<Rightarrow> bytes \<Rightarrow> transport \<Rightarrow> (transport \<times> effect list) option" where
  "handle_packet c e rand a h payload t =
    (let (pk, t) = find_or_create_peer_by_addr c e rand a t
     in with_peer pk (packet_on_peer c e pk h payload) t)"

section \<open>Datagrams\<close>

definition kCeMarkMagic :: u32 where "kCeMarkMagic = 0x45434334"

definition is_ce_mark :: "bytes \<Rightarrow> bool" where
  "is_ce_mark buf = (if length buf < 4 then False else of_le_bytes (get_at buf 0 4) = kCeMarkMagic)"

definition count_ce_mark :: "here \<Rightarrow> here" where
  "count_ce_mark s =
    (let (l, t) = s; rx = p_rx (l_peer l)
     in (l\<lparr>l_peer := (l_peer l)\<lparr>p_rx := rx\<lparr>m_ce_marks := m_ce_marks rx + 1\<rparr>\<rparr>\<rparr>, t))"

text \<open>One datagram; the buffer of the receiver holds 2048 bytes.  \<open>rand\<close> names an unknown peer.\<close>

record arrival =
  a_from :: addr_key
  a_datagram :: bytes
  a_rand :: u64

definition receive :: "config \<Rightarrow> env \<Rightarrow> arrival \<Rightarrow> transport \<Rightarrow> (transport \<times> effect list) option" where
  "receive c e a t =
    (let buf = take 2048 (a_datagram a) in
     if is_ce_mark buf
     then let (pk, t) = find_or_create_peer_by_addr c e (a_rand a) (a_from a) t
          in with_peer pk (\<lambda>s. Some (quiet (count_ce_mark s))) t
     else if length buf < kHeaderSize then Some (t, [])
     else case decode buf of
            None \<Rightarrow> Some (t, [])
          | Some (h, payload) \<Rightarrow> handle_packet c e (a_rand a) (a_from a) h payload t)"

definition and_thenO ::
  "('s \<times> 'e list) option \<Rightarrow> ('s \<Rightarrow> ('s \<times> 'e list) option) \<Rightarrow> ('s \<times> 'e list) option" where
  "and_thenO r f =
    (case r of None \<Rightarrow> None | Some (s, es) \<Rightarrow> map_option (\<lambda>(s, fs). (s, es @ fs)) (f s))"

fun receive_all :: "config \<Rightarrow> env \<Rightarrow> arrival list \<Rightarrow> transport \<Rightarrow> (transport \<times> effect list) option" where
  "receive_all c e [] t = Some (t, [])"
| "receive_all c e (a # as) t = and_thenO (receive c e a t) (receive_all c e as)"

text \<open>The lite mode takes at most 64 of the datagrams that wait in the socket.\<close>

definition drain_receiver :: "config \<Rightarrow> env \<Rightarrow> arrival list \<Rightarrow> transport \<Rightarrow> (transport \<times> effect list) option" where
  "drain_receiver c e waiting t = receive_all c e (take 64 waiting) t"

section \<open>The reactor\<close>

definition timers :: "config \<Rightarrow> env \<Rightarrow> transport \<Rightarrow> transport \<times> effect list" where
  "timers c e t =
    (let r = send_handshakes c e t;
         r = and_then r (send_heartbeats c e);
         r = and_then r (send_online_announcements c e);
         r = and_then r (send_reports c e);
         r = and_then r (\<lambda>t. (check_report_timeouts c e t, []));
         r = and_then r (check_offlines c e);
         r = and_then r (flush_commands e)
     in and_then r (\<lambda>t. (process_send_queue c e t, [])))"

text \<open>The state of the encoding stage with its parity buffers; \<open>log2\<close> is the library function.\<close>

type_synonym engine = "bytes list \<times> transport"

definition lite_duties ::
  "(f64 \<Rightarrow> f64) \<Rightarrow> config \<Rightarrow> env \<Rightarrow> arrival list \<Rightarrow> engine \<Rightarrow> (engine \<times> effect list) option" where
  "lite_duties log2 c e waiting b =
    (let (bufs, t) = b in
     case (if c_lite_profile c \<noteq> Video then drain_receiver c e waiting t else Some (t, [])) of
       None \<Rightarrow> None
     | Some (t, es) \<Rightarrow>
         (case drain_encode log2 c e (bufs, t) of
            None \<Rightarrow> None
          | Some (bufs, t) \<Rightarrow>
              (case drain_sender c e t of
                 None \<Rightarrow> None
               | Some (t, fs) \<Rightarrow> Some ((bufs, t), es @ fs))))"

definition reactor_tick ::
  "(f64 \<Rightarrow> f64) \<Rightarrow> config \<Rightarrow> env \<Rightarrow> arrival list \<Rightarrow> engine \<Rightarrow> (engine \<times> effect list) option" where
  "reactor_tick log2 c e waiting b =
    (let (bufs, t) = b; (t, es) = timers c e t
     in if t_lite_mode t
        then map_option (\<lambda>(b, fs). (b, es @ fs)) (lite_duties log2 c e waiting (bufs, t))
        else Some ((bufs, t), es))"

section \<open>Threads\<close>

record threads =
  th_receiver :: bool
  th_encode :: bool
  th_sender :: bool

definition no_threads :: threads where
  "no_threads = \<lparr> th_receiver = False, th_encode = False, th_sender = False \<rparr>"

definition all_threads :: threads where
  "all_threads = \<lparr> th_receiver = True, th_encode = True, th_sender = True \<rparr>"

text \<open>\<open>opened\<close> says whether the socket could be created and bound.\<close>

definition start :: "config \<Rightarrow> bool \<Rightarrow> threads \<times> transport \<Rightarrow> bool \<times> threads \<times> transport" where
  "start c opened s =
    (let (th, t) = s in
     if t_running t then (True, s)
     else if \<not> opened then (False, s)
     else
       let t = t\<lparr>t_sock := True, t_running := True\<rparr>;
           th = (if \<not> t_lite_mode t then all_threads
                 else if c_lite_profile c = Video then no_threads\<lparr>th_receiver := True\<rparr>
                 else no_threads)
       in (True, th, t))"

definition stop :: "threads \<times> transport \<Rightarrow> threads \<times> transport" where
  "stop s =
    (let (th, t) = s in
     if \<not> t_running t then s
     else (no_threads, set_capacity (\<lambda>v. v\<lparr>v_queue := bq_close (v_queue v)\<rparr>)
             (set_queues (\<lambda>q. q\<lparr>q_encode := bq_close (q_encode q), q_outbound := bq_close (q_outbound q)\<rparr>)
               (t\<lparr>t_running := False, t_sock := False\<rparr>))))"

definition set_drop_log :: "bool \<Rightarrow> link \<Rightarrow> link" where
  "set_drop_log b l = l\<lparr>l_peer := (l_peer l)\<lparr>p_conf := (p_conf (l_peer l))\<lparr>m_drop_log := b\<rparr>\<rparr>\<rparr>"

definition send_lite_pending :: "transport \<Rightarrow> (transport \<times> effect list) option" where
  "send_lite_pending t =
    (case q_lite_pending (t_queues t) of
       None \<Rightarrow> Some (t, [])
     | Some pkt \<Rightarrow>
         map_option (\<lambda>a. (set_queues (\<lambda>q. q\<lparr>q_lite_pending := None\<rparr>) t,
                          case a of None \<Rightarrow> [] | Some a \<Rightarrow> [Sendto a (ob_datagram pkt)]))
           (target pkt t))"

definition set_lite_mode ::
  "config \<Rightarrow> bool \<Rightarrow> threads \<times> transport \<Rightarrow> ((threads \<times> transport) \<times> effect list) option" where
  "set_lite_mode c lite s =
    (let (th, t) = s in
     if lite = t_lite_mode t then Some (s, [])
     else
       let t = t\<lparr>t_peers := map (\<lambda>(k, l). (k, set_drop_log (c_drop_log c \<and> \<not> lite) l)) (t_peers t)\<rparr>
       in if lite then Some ((no_threads, t\<lparr>t_lite_mode := True\<rparr>), [])
          else map_option (\<lambda>(t, es). ((if t_running t then all_threads else th, t\<lparr>t_lite_mode := False\<rparr>), es))
                 (send_lite_pending t))"

text \<open>Whether anything takes datagrams from the socket, and what leads messages to the wire.\<close>

definition receives :: "config \<Rightarrow> threads \<times> transport \<Rightarrow> bool" where
  "receives c s \<longleftrightarrow> th_receiver (fst s) \<or> t_lite_mode (snd s) \<and> c_lite_profile c \<noteq> Video"

section \<open>Queries\<close>

definition peers_snapshot :: "transport \<Rightarrow> (peer_id \<times> link_role \<times> link_state \<times> u32) list" where
  "peers_snapshot t = map (\<lambda>(k, l). (l_id l, l_role l, l_state l, l_peer_client_id l)) (t_peers t)"

definition peer_p50_ms :: "peer_id \<Rightarrow> transport \<Rightarrow> u32" where
  "peer_p50_ms pid t =
    (case find_peer pid t of None \<Rightarrow> 0 | Some (k, l) \<Rightarrow> ucast (m_peer_p50_ms (p_fec (l_peer l))))"

section \<open>Everything the transport reacts to\<close>

datatype event =
    Arrives env arrival
  | Turn env "arrival list"
  | Encode_next env
  | Send_beat env
  | App_send env peer_id bytes int u8 bool
  | App_command env peer_id bytes
  | App_file env peer_id bytes bytes
  | App_data env peer_id bytes
  | App_drain env u8 nat
  | App_clear
  | App_capacity env
  | App_connect env peer_id "addr_key option"

definition plain :: "engine \<Rightarrow> (transport \<Rightarrow> transport \<times> effect list) \<Rightarrow> (engine \<times> effect list) option" where
  "plain b f = (let (bufs, t) = b; (t, es) = f t in Some ((bufs, t), es))"

definition lift_step :: "bytes list \<Rightarrow> (transport \<times> effect list) option \<Rightarrow> (engine \<times> effect list) option" where
  "lift_step bufs r = map_option (\<lambda>(t, es). ((bufs, t), es)) r"

text \<open>The encoding thread takes one task; nothing happens when there is none.\<close>

definition encode_next :: "(f64 \<Rightarrow> f64) \<Rightarrow> config \<Rightarrow> env \<Rightarrow> engine \<Rightarrow> engine option" where
  "encode_next log2 c e b =
    (let (bufs, t) = b; (task, enc) = bq_poll (q_encode (t_queues t));
         t = set_queues (\<lambda>q. q\<lparr>q_encode := enc\<rparr>) t
     in case task of None \<Rightarrow> Some (bufs, t) | Some task \<Rightarrow> encode_task_step log2 c e task (bufs, t))"

fun transport_step :: "(f64 \<Rightarrow> f64) \<Rightarrow> config \<Rightarrow> event \<Rightarrow> engine \<Rightarrow> (engine \<times> effect list) option" where
  "transport_step log2 c (Arrives e a) b = lift_step (fst b) (receive c e a (snd b))"
| "transport_step log2 c (Turn e waiting) b = reactor_tick log2 c e waiting b"
| "transport_step log2 c (Encode_next e) b = map_option (\<lambda>b. (b, [])) (encode_next log2 c e b)"
| "transport_step log2 c (Send_beat e) b = lift_step (fst b) (heartbeat c e (snd b))"
| "transport_step log2 c (App_send e pid payload p ch kf) b =
     plain b (\<lambda>t. (snd (send_message c e pid payload p ch kf t), []))"
| "transport_step log2 c (App_command e pid payload) b = plain b (\<lambda>t. snd (send_command c e pid payload t))"
| "transport_step log2 c (App_file e pid name data) b = plain b (\<lambda>t. (snd (send_file c e pid name data t), []))"
| "transport_step log2 c (App_data e pid payload) b = plain b (\<lambda>t. (snd (send_data c e pid payload t), []))"
| "transport_step log2 c (App_drain e ch ms) b = plain b (\<lambda>t. (drain_channel e ch ms t, []))"
| "transport_step log2 c App_clear b = plain b (\<lambda>t. (clear_outbound t, []))"
| "transport_step log2 c (App_capacity e) b = plain b (\<lambda>t. snd (video_capacity_bps c e t))"
| "transport_step log2 c (App_connect e pid a) b = plain b (\<lambda>t. (snd (connect c e pid a t), []))"

end
