(* ===== verification/Transport_Laws.thy ===== *)
theory Transport_Laws
  imports Transport Link_Laws
begin

text \<open>
  Pointers to peers.  Queued tasks and packets point to entries of the peer table; this theory shows
  that everything the transport does keeps these pointers valid, with the one exception of
  \<open>connect\<close>, which may erase a peer that is still pointed to.
\<close>

section \<open>Sound states\<close>

definition refs :: "queues \<Rightarrow> peer_id set" where
  "refs q = ob_peer ` (set (items (q_outbound q)) \<union> set (items (q_audio q)) \<union> set_option (q_lite_pending q))
     \<union> et_peer ` set (items (q_encode q))"

definition queues_ok :: "queues \<Rightarrow> bool" where
  "queues_ok q \<longleftrightarrow> bq_inv (q_outbound q) \<and> bq_inv (q_audio q) \<and> bq_inv (q_encode q)"

abbreviation keys :: "transport \<Rightarrow> peer_id set" where
  "keys t \<equiv> fst ` set (t_peers t)"

definition sound :: "transport \<Rightarrow> bool" where
  "sound t \<longleftrightarrow> om_ok (t_peers t) \<and> queues_ok (t_queues t) \<and> refs (t_queues t) \<subseteq> keys t"

text \<open>The contract of an operation that works on the peers \<open>S\<close>.\<close>

definition safe :: "peer_id set \<Rightarrow> transport \<Rightarrow> transport \<Rightarrow> bool" where
  "safe S t t' \<longleftrightarrow> (sound t \<longrightarrow> S \<subseteq> keys t \<longrightarrow> sound t' \<and> keys t \<subseteq> keys t')"

lemma safe_refl [simp]: "safe S t t"
  by (simp add: safe_def)

lemma safe_trans: "safe S t u \<Longrightarrow> safe S u v \<Longrightarrow> safe S t v"
  unfolding safe_def by (meson subset_trans)

lemma safe_same: "safe S t u \<Longrightarrow> t_queues v = t_queues u \<Longrightarrow> t_peers v = t_peers u \<Longrightarrow> safe S t v"
  by (simp add: safe_def sound_def)

lemma keys_om_set: "fst ` set (om_set k v m) = insert k (fst ` set m)"
  by (induction k v m rule: om_set.induct) auto

lemma in_keys: "k \<in> fst ` set m \<longleftrightarrow> om_find m k \<noteq> None"
  by (force simp add: map_of_eq_None_iff)

lemma safe_om_set: "safe {pk} t u \<Longrightarrow> safe {pk} t (u\<lparr>t_peers := om_set pk l (t_peers u)\<rparr>)"
  by (auto simp add: safe_def sound_def keys_om_set)

section \<open>The queues\<close>

lemma try_push_items:
  assumes "bq_inv q"
  shows "bq_inv (snd (bq_try_push x q))" "set (items (snd (bq_try_push x q))) \<subseteq> insert x (set (items q))"
  using assms bq_push_cases [of q x] by (auto simp add: bq_try_push_def)

lemma poll_items:
  assumes "bq_inv q" "bq_poll q = (opt, q')"
  shows "bq_inv q'" "set_option opt \<union> set (items q') = set (items q)"
proof -
  have "bq_inv q' \<and> set_option opt \<union> set (items q') = set (items q)"
  proof (cases "items q")
    case Nil
    then show ?thesis using bq_poll_items(1) [OF assms(1)] assms by simp
  next
    case (Cons x xs)
    then show ?thesis using bq_poll_items(2) [OF assms(1)] assms by fastforce
  qed
  then show "bq_inv q'" "set_option opt \<union> set (items q') = set (items q)" by simp_all
qed

lemma push_items:
  assumes "bq_inv q"
  shows "f ` set (items (snd (bq_try_push x q))) \<subseteq> insert (f x) (f ` set (items q))"
  using try_push_items(2) [OF assms, of x] by blast

lemma push_queues:
  assumes "queues_ok q"
  shows "queues_ok (q\<lparr>q_outbound := snd (bq_try_push pkt (q_outbound q))\<rparr>)"
    and "refs (q\<lparr>q_outbound := snd (bq_try_push pkt (q_outbound q))\<rparr>) \<subseteq> insert (ob_peer pkt) (refs q)"
    and "queues_ok (q\<lparr>q_audio := snd (bq_try_push pkt (q_audio q))\<rparr>)"
    and "refs (q\<lparr>q_audio := snd (bq_try_push pkt (q_audio q))\<rparr>) \<subseteq> insert (ob_peer pkt) (refs q)"
    and "queues_ok (q\<lparr>q_encode := snd (bq_try_push task (q_encode q))\<rparr>)"
    and "refs (q\<lparr>q_encode := snd (bq_try_push task (q_encode q))\<rparr>) \<subseteq> insert (et_peer task) (refs q)"
  using assms push_items [of "q_outbound q" ob_peer pkt] push_items [of "q_audio q" ob_peer pkt]
    push_items [of "q_encode q" et_peer task]
  by (auto simp add: queues_ok_def refs_def image_Un try_push_items(1))

lemma other_fields [simp]:
  "queues_ok (q\<lparr>q_fd_tx_bytes := n\<rparr>) = queues_ok q" "refs (q\<lparr>q_fd_tx_bytes := n\<rparr>) = refs q"
  "queues_ok (q\<lparr>q_tx_bytes := n\<rparr>) = queues_ok q" "refs (q\<lparr>q_tx_bytes := n\<rparr>) = refs q"
  "queues_ok (q\<lparr>q_send := m\<rparr>) = queues_ok q" "refs (q\<lparr>q_send := m\<rparr>) = refs q"
  "queues_ok (q\<lparr>q_drain_until_ms := ds\<rparr>) = queues_ok q" "refs (q\<lparr>q_drain_until_ms := ds\<rparr>) = refs q"
  "queues_ok (q\<lparr>q_last_app_send_ms := n\<rparr>) = queues_ok q" "refs (q\<lparr>q_last_app_send_ms := n\<rparr>) = refs q"
  "queues_ok (q\<lparr>q_lite_pending := p\<rparr>) = queues_ok q"
  by (simp_all add: queues_ok_def refs_def)

text \<open>An operation that only changes the queues.\<close>

lemma safe_queues:
  assumes "queues_ok (t_queues t) \<Longrightarrow> queues_ok q \<and> refs q \<subseteq> S \<union> (refs (t_queues t))"
  shows "safe S t (t\<lparr>t_queues := q\<rparr>)"
  using assms by (auto simp add: safe_def sound_def)

section \<open>Sending\<close>

lemma safe_send_raw_bytes [simp]: "safe {pk} t (snd s) \<Longrightarrow> safe {pk} t (snd (send_raw_bytes pk d s))"
proof (rule safe_trans)
  show "safe {pk} (snd s) (snd (send_raw_bytes pk d s))"
    using push_queues(1,2) [of "t_queues (snd s)" "\<lparr> ob_peer = pk, ob_channel = 7, ob_datagram = d \<rparr>"]
    by (cases s) (simp add: send_raw_bytes_def Let_def safe_queues)
qed

lemma safe_send_raw [simp]: "safe {pk} t (snd s) \<Longrightarrow> safe {pk} t (snd (send_raw pk d ch s))"
proof (rule safe_trans)
  let ?p = "\<lparr> ob_peer = pk, ob_channel = ch, ob_datagram = d \<rparr>"
  let ?q = "(t_queues (snd s))\<lparr>q_fd_tx_bytes := n\<rparr>"
  show "safe {pk} (snd s) (snd (send_raw pk d ch s))"
    using push_queues(1-4) [of "t_queues (snd s)" ?p]
      push_queues(1,2) [of "(t_queues (snd s))\<lparr>q_fd_tx_bytes := q_fd_tx_bytes (t_queues (snd s)) + of_nat (length d)\<rparr>" ?p]
    by (cases s) (auto simp add: send_raw_def Let_def intro!: safe_queues)
qed

lemma safe_send_control [simp]:
  "safe {pk} t (snd s) \<Longrightarrow> safe {pk} t (snd (send_control ty payload ackable e pk s))"
  using safe_send_raw_bytes [of pk t "(l, snd s)" for l]
  by (cases s) (auto simp add: send_control_def Let_def split_beta)

lemma safe_send_ack [simp]: "safe {pk} t (snd s) \<Longrightarrow> safe {pk} t (snd (send_ack_packet ack e pk s))"
  by (simp add: send_ack_packet_def)

lemma safe_send_handshake [simp]: "safe {pk} t (snd s) \<Longrightarrow> safe {pk} t (snd (send_handshake c e pk s))"
  by (cases s) (simp add: send_handshake_def Let_def)

section \<open>The contract of an operation on a peer\<close>

locale peer_operation =
  fixes run :: "peer_id \<Rightarrow> here \<Rightarrow> here \<times> effect list"
  assumes safe_run: "safe {pk} t (snd (fst (run pk (l, t))))"
begin

lemma put_back:
  assumes "sound t" "om_find (t_peers t) pk = Some l" "run pk (l, t) = ((l', t'), es)"
  shows "sound (t'\<lparr>t_peers := om_set pk l' (t_peers t')\<rparr>) \<and> keys t \<subseteq> keys (t'\<lparr>t_peers := om_set pk l' (t_peers t')\<rparr>)"
proof -
  have "pk \<in> keys t" using assms(2) by (simp add: in_keys)
  moreover have "safe {pk} t (t'\<lparr>t_peers := om_set pk l' (t_peers t')\<rparr>)"
    using safe_run [of pk t l] assms(3) by (intro safe_om_set) simp
  ultimately show ?thesis using assms(1) unfolding safe_def by blast
qed

lemma each_peer_sound:
  assumes "sound t"
  shows "sound (fst (each_peer run t)) \<and> keys t \<subseteq> keys (fst (each_peer run t))"
proof -
  define f where "f = (\<lambda>a pk. and_then a (\<lambda>t.
             case om_find (t_peers t) pk of
               None \<Rightarrow> (t, [])
             | Some l \<Rightarrow> (case run pk (l, t) of ((l, t), es) \<Rightarrow> (t\<lparr>t_peers := om_set pk l (t_peers t)\<rparr>, es))))"
  have "sound (fst (foldl f a pks)) \<and> keys t \<subseteq> keys (fst (foldl f a pks))"
    if "sound (fst a) \<and> keys t \<subseteq> keys (fst a)" for a pks
    using that
  proof (induction pks arbitrary: a)
    case (Cons pk pks)
    obtain u es where a: "a = (u, es)" by (cases a)
    have "sound (fst (f a pk)) \<and> keys u \<subseteq> keys (fst (f a pk))"
    proof (cases "om_find (t_peers u) pk")
      case (Some l)
      obtain l' t' es' where r: "run pk (l, u) = ((l', t'), es')" by (metis prod.exhaust)
      show ?thesis using put_back [OF _ Some r] Cons.prems by (simp add: f_def a Some r)
    qed (use Cons.prems in \<open>simp add: f_def a\<close>)
    then have "sound (fst (f a pk)) \<and> keys t \<subseteq> keys (fst (f a pk))"
      using Cons.prems unfolding a fst_conv by blast
    then show ?case using Cons.IH [of "f a pk"] by simp
  qed simp
  then show ?thesis using assms by (simp add: each_peer_def f_def)
qed

end

section \<open>The handlers\<close>

lemma snd_unchanged [simp]:
  "snd (set_state st s) = snd s" "snd (sync_peer tick ms s) = snd s" "snd (try_sync_clock s) = snd s"
  "snd (restart_session h e s) = snd s" "snd (derive_key pub k s) = snd s"
  by (cases s; simp add: set_state_def sync_peer_def try_sync_clock_def restart_session_def derive_key_def Let_def split_beta)+

lemma effects_only [simp]:
  "fst (fire_peer_event st s) = s" "fst (send_speed_test c e s) = s" "fst (send_direct d s) = s"
  by (cases s; simp add: fire_peer_event_def send_speed_test_def send_direct_def Let_def split: option.split)+

lemma fst_and_then: "fst (and_then r f) = fst (f (fst r))"
  by (cases r) simp

lemma safe_handle_handshake: "safe {pk} t (snd (fst (handle_handshake c e pk h payload (l, t))))"
  by (auto simp add: handle_handshake_def Let_def split_beta split: option.split)

lemma safe_handle_handshake_ack: "safe {pk} t (snd (fst (handle_handshake_ack c e pk h payload (l, t))))"
  by (auto simp add: handle_handshake_ack_def Let_def split_beta fst_and_then)

lemma safe_handle_online: "safe {pk} t (snd (fst (handle_online c e (l, t))))"
  by (simp add: handle_online_def fst_and_then)

lemma safe_feed_rtt [simp]: "safe S t (snd s) \<Longrightarrow> safe S t (snd (feed_rtt_from_tick tick e s))"
  by (cases s) (auto simp add: feed_rtt_from_tick_def Let_def intro: safe_same)

lemma safe_small_handlers:
  "safe {pk} t (snd (fst (quiet (handle_heartbeat e h payload (l, t)))))"
  "safe {pk} t (snd (fst (quiet (handle_probe e h (l, t)))))"
  "safe {pk} t (snd (fst (handle_bye (l, t))))"
  "safe {pk} t (snd (fst (quiet (handle_ack e h (l, t)))))"
  "safe {pk} t (snd (fst (handle_command e h payload (l, t))))"
  "safe {pk} t (snd (fst (quiet (count_ce_mark (l, t)))))"
  by (auto simp add: quiet_def handle_heartbeat_def handle_probe_def handle_bye_def handle_ack_def
      handle_command_def count_ce_mark_def Let_def split_beta intro: safe_same [OF safe_refl] split: option.split)

lemma safe_timers:
  "safe {pk} t (snd (fst (quiet (resend_handshake c e pk (l, t)))))"
  "safe {pk} t (snd (fst (quiet (send_heartbeat c e pk (l, t)))))"
  "safe {pk} t (snd (fst (quiet (send_online_announcement c e pk (l, t)))))"
  "safe {pk} t (snd (fst (send_report c e pk (l, t))))"
  "safe {pk} t (snd (fst (check_offline c e pk (l, t))))"
  "safe {pk} t (snd (fst (flush_command e (l, t))))"
  by (auto simp add: quiet_def resend_handshake_def send_heartbeat_def send_online_announcement_def
      send_report_def check_offline_def flush_command_def Let_def split_beta fst_and_then)

interpretation handshakes: peer_operation "\<lambda>pk s. quiet (resend_handshake c e pk s)" for c e
  by unfold_locales (rule safe_timers)

interpretation heartbeats: peer_operation "\<lambda>pk s. quiet (send_heartbeat c e pk s)" for c e
  by unfold_locales (rule safe_timers)

interpretation announcements: peer_operation "\<lambda>pk s. quiet (send_online_announcement c e pk s)" for c e
  by unfold_locales (rule safe_timers)

interpretation reports: peer_operation "send_report c e" for c e
  by unfold_locales (rule safe_timers)

interpretation offlines: peer_operation "check_offline c e" for c e
  by unfold_locales (rule safe_timers)

interpretation flushes: peer_operation "\<lambda>pk. flush_command e" for e
  by unfold_locales (rule safe_timers)

section \<open>Reports and the capacity\<close>

lemma drain_item: "bq_inv q \<Longrightarrow> bq_inv (snd (poll_all q)) \<and> items (snd (poll_all q)) = []"
  using poll_all_items [of q] by simp

lemma push_all_items:
  assumes "bq_inv q"
  shows "bq_inv (foldl (\<lambda>q x. snd (bq_try_push x q)) q xs) \<and>
    set (items (foldl (\<lambda>q x. snd (bq_try_push x q)) q xs)) \<subseteq> set xs \<union> set (items q)"
  using assms
proof (induction xs arbitrary: q)
  case (Cons x xs)
  show ?case using Cons.IH [of "snd (bq_try_push x q)"] try_push_items [OF Cons.prems, of x] by fastforce
qed simp

lemma safe_clear_outbound: "safe S t (clear_outbound t)"
proof -
  define q where "q = t_queues t"
  define keep where "keep = filter (\<lambda>x. et_channel x = 1) (fst (poll_all (q_encode q)))"
  define enc where "enc = foldl (\<lambda>enc x. snd (bq_try_push x enc)) (snd (poll_all (q_encode q))) keep"
  define q' where "q' = q\<lparr>q_send := map (\<lambda>(p, ms). (p, if p < 1 then [] else ms)) (q_send q), q_encode := enc,
      q_outbound := snd (poll_all (q_outbound q))\<rparr>"
  have c: "clear_outbound t = t\<lparr>t_queues := q'\<rparr>"
    by (simp add: clear_outbound_def set_queues_def Let_def split_beta q'_def enc_def keep_def q_def)
  have "queues_ok q' \<and> refs q' \<subseteq> S \<union> (refs q)" if ok: "queues_ok q"
  proof -
    have inv: "bq_inv (q_outbound q)" "bq_inv (q_audio q)" "bq_inv (q_encode q)" using ok by (simp_all add: queues_ok_def)
    have "set keep \<subseteq> set (items (q_encode q))" using poll_all_items [OF inv(3)] by (auto simp add: keep_def)
    then have enc: "bq_inv enc" "set (items enc) \<subseteq> set (items (q_encode q))"
      using push_all_items [of "snd (poll_all (q_encode q))" keep] drain_item [OF inv(3)] by (auto simp add: enc_def)
    then have "et_peer ` set (items enc) \<subseteq> et_peer ` set (items (q_encode q))" by (rule_tac image_mono)
    then show ?thesis using inv enc(1) drain_item [OF inv(1)] by (auto simp add: queues_ok_def refs_def q'_def)
  qed
  then show ?thesis unfolding c by (intro safe_queues) (simp add: q_def)
qed

lemma safe_set_capacity [simp]: "safe S t u \<Longrightarrow> safe S t (set_capacity f u)"
  by (auto simp add: set_capacity_def intro: safe_same)

lemma set_capacity_fields [simp]:
  "t_peers (set_capacity f t) = t_peers t" "t_queues (set_capacity f t) = t_queues t"
  "t_bandwidth (set_capacity f t) = t_bandwidth t"
  by (simp_all add: set_capacity_def)

lemma safe_evac_edge: "safe S t (fst (evac_edge c e btl t))"
proof -
  have q: "safe S u (set_queues (\<lambda>q. q\<lparr>q_drain_until_ms := ds q\<rparr>) u)" for u ds
    by (simp add: set_queues_def safe_queues subset_insertI)
  show ?thesis
    using safe_trans [OF safe_clear_outbound q]
    by (simp add: evac_edge_def Let_def split_beta)
qed

lemma safe_video_capacity: "safe S t (fst (snd (video_capacity_bps c e t)))"
proof -
  define u where "u = snd (file_data_rate_bps (e_now e) t)"
  have "safe S t u" by (auto simp add: u_def file_data_rate_bps_def Let_def intro: safe_same [OF safe_refl])
  then have "safe S t (fst (evac_edge c e btl u))" for btl by (rule safe_trans) (rule safe_evac_edge)
  then show ?thesis
    using \<open>safe S t u\<close> by (simp add: video_capacity_bps_def Let_def split_beta u_def)
qed

lemma safe_notify: "safe S t (fst (notify_video_capacity c e t))"
  using safe_video_capacity [of S t c e]
  by (simp add: notify_video_capacity_def push_cap_def Let_def split_beta)

lemma safe_handle_report: "safe {pk} t (snd (fst (handle_report c e pk h payload (l, t))))"
proof -
  define s where "s = feed_rtt_from_tick (h_tick h) e (l, t)"
  define s2 where "s2 = report_estimate c e (fst (snd (report_handle (e_now e) payload (l_peer (fst s)))))
      ((fst s)\<lparr>l_peer := fst (report_handle (e_now e) payload (l_peer (fst s))), l_last_report_at := e_now e\<rparr>, snd s)"
  have "safe {pk} t (snd s)" by (simp add: s_def)
  moreover have "t_queues (snd s2) = t_queues (snd s)" "t_peers (snd s2) = t_peers (snd s)"
    by (simp_all add: s2_def report_estimate_def Let_def split_beta)
  ultimately have "safe {pk} t (snd s2)" by (rule safe_same)
  then have "safe {pk} t ((snd s2)\<lparr>t_peers := om_set pk (fst s2) (t_peers (snd s2))\<rparr>)" by (rule safe_om_set)
  then have "safe {pk} t (fst (notify_video_capacity c e ((snd s2)\<lparr>t_peers := om_set pk (fst s2) (t_peers (snd s2))\<rparr>)))"
    by (rule safe_trans) (rule safe_notify)
  then show ?thesis
    by (simp add: handle_report_def Let_def split_beta s_def [symmetric] s2_def [symmetric])
qed

section \<open>Arrivals\<close>

lemma safe_dispatch:
  assumes "dispatch c e pk h payload s = Some (s', es)"
  shows "safe {pk} (snd s) (snd s')"
proof -
  obtain l t where s: "s = (l, t)" by (cases s)
  have data: "safe {pk} t (snd s')" if "handle_data_packet c e h payload (l, t) = Some (s', es)"
    using that by (auto simp add: handle_data_packet_def Let_def split_beta split: option.splits)
  note facts = safe_handle_handshake [where l = l and t = t] safe_handle_handshake_ack [where l = l and t = t]
    safe_handle_online [where l = l and t = t] safe_small_handlers [where l = l and t = t]
    safe_handle_report [where l = l and t = t]
  show ?thesis
  proof (cases "h_type h")
    case Data
    then show ?thesis using assms data by (simp add: dispatch_def s)
  next
    case Parity
    then show ?thesis using assms data by (auto simp add: dispatch_def s quiet_def split: if_splits)
  next
    case Report
    then have "handle_report c e pk h payload (l, t) = (s', es)" using assms by (simp add: dispatch_def s)
    then show ?thesis
      using safe_handle_report [where pk = pk and t = t and c = c and e = e and h = h and payload = payload and l = l]
      by (simp add: s)
  next
    case Command
    then have "handle_command e h payload (l, t) = (s', es)" using assms by (simp add: dispatch_def s)
    then show ?thesis
      using safe_small_handlers(5) [where pk = pk and t = t and e = e and h = h and payload = payload and l = l]
      by (simp add: s)
  qed (use assms facts in \<open>auto simp add: dispatch_def s acked_def split_beta quiet_def\<close>)
qed

lemma safe_packet_on_peer:
  assumes "packet_on_peer c e pk h payload s = Some (s', es)"
  shows "safe {pk} (snd s) (snd s')"
proof (cases "open_payload (l_session (account_packet e h (fst s))) h payload")
  case None
  then show ?thesis using assms by (auto simp add: packet_on_peer_def Let_def quiet_def split_beta)
next
  case (Some x)
  then have "dispatch c e pk (fst x) (snd x) (account_packet e h (fst s), snd s) = Some (s', es)"
    using assms by (simp add: packet_on_peer_def Let_def split_beta)
  from safe_dispatch [OF this] show ?thesis by simp
qed

lemma with_peer_sound:
  assumes "with_peer pk f t = Some (t', es)" "sound t"
    and "\<And>s s' es. f s = Some (s', es) \<Longrightarrow> safe {pk} (snd s) (snd s')"
  shows "sound t' \<and> keys t \<subseteq> keys t'"
proof -
  obtain l where l: "om_find (t_peers t) pk = Some l" using assms(1) by (auto simp add: with_peer_def split: option.splits)
  then obtain l' u where f: "f (l, t) = Some ((l', u), es)" "t' = u\<lparr>t_peers := om_set pk l' (t_peers u)\<rparr>"
    using assms(1) by (auto simp add: with_peer_def split: option.splits)
  have "safe {pk} t u" using assms(3) [OF f(1)] by simp
  then have "safe {pk} t t'" unfolding f(2) by (rule safe_om_set)
  moreover have "pk \<in> keys t" using l by (simp add: in_keys)
  ultimately show ?thesis using assms(2) by (simp add: safe_def)
qed

lemma find_or_create_sound:
  assumes "sound t" "find_or_create_peer_by_addr c e rand a t = (pk, t')"
  shows "sound t' \<and> keys t \<subseteq> keys t' \<and> pk \<in> keys t'"
proof -
  have "sound t' \<and> keys t \<subseteq> keys t' \<and> pk \<in> keys t'" if "create_peer c e rand a t = (pk, t')"
  proof -
    define k where "k = anon_id a rand"
    have "pk = k \<and> (\<exists>l. t_peers t' = om_set k l (t_peers t)) \<and> t_queues t' = t_queues t"
      using that by (auto simp add: create_peer_def Let_def k_def)
    then obtain l where l: "pk = k" "t_peers t' = om_set k l (t_peers t)" "t_queues t' = t_queues t" by blast
    have k: "keys t' = insert k (keys t)" by (simp add: l(2) keys_om_set)
    have "om_ok (t_peers t')" using assms(1) by (simp add: l(2) sound_def)
    then show ?thesis using assms(1) by (simp add: sound_def k l(1,3) subset_insertI subset_insertI2)
  qed
  then show ?thesis using assms
    by (auto simp add: find_or_create_peer_by_addr_def in_keys split: option.splits if_splits)
qed

lemma receive_sound:
  assumes "receive c e a t = Some (t', es)" "sound t"
  shows "sound t' \<and> keys t \<subseteq> keys t'"
proof -
  obtain pk u where f: "find_or_create_peer_by_addr c e (a_rand a) (a_from a) t = (pk, u)" by fastforce
  note u = find_or_create_sound [OF assms(2) f]
  have on_peer: "sound t' \<and> keys t \<subseteq> keys t'"
    if "with_peer pk g u = Some (t', es)" "\<And>s s' es. g s = Some (s', es) \<Longrightarrow> safe {pk} (snd s) (snd s')" for g
  proof -
    have "sound t' \<and> keys u \<subseteq> keys t'"
      by (rule with_peer_sound [OF that(1) _ that(2)]) (use u in simp_all)
    then show ?thesis using u by (meson subset_trans)
  qed
  have ce: "safe {pk} (snd s) (snd s')" if "Some (quiet (count_ce_mark s)) = Some (s', es)" for s s' es
  proof -
    have "s' = count_ce_mark s" using that by (simp add: quiet_def)
    then show ?thesis
      using safe_small_handlers(6) [where l = "fst s" and t = "snd s" and pk = pk] by (simp add: quiet_def)
  qed
  consider "t' = t" | "with_peer pk (\<lambda>s. Some (quiet (count_ce_mark s))) u = Some (t', es)"
    | h payload where "with_peer pk (packet_on_peer c e pk h payload) u = Some (t', es)"
  proof (cases "is_ce_mark (take 2048 (a_datagram a))")
    case True
    then show ?thesis using assms(1) that(2) by (simp add: receive_def f)
  next
    case ce: False
    show ?thesis
    proof (cases "length (take 2048 (a_datagram a)) < kHeaderSize \<or> decode (take 2048 (a_datagram a)) = None")
      case True
      then show ?thesis using assms(1) ce that(1) by (auto simp add: receive_def Let_def simp del: length_take split: if_splits)
    next
      case False
      then obtain h payload where "decode (take 2048 (a_datagram a)) = Some (h, payload)" by auto
      then show ?thesis using assms(1) ce False that(3)
        by (simp add: receive_def handle_packet_def f Let_def del: length_take)
    qed
  qed
  then show ?thesis
  proof cases
    case 1
    then show ?thesis using assms(2) by simp
  next
    case 2
    then show ?thesis by (rule on_peer) (rule ce)
  next
    case 3
    then show ?thesis by (rule on_peer) (rule safe_packet_on_peer)
  qed
qed

lemma and_thenO_Some:
  "and_thenO r f = Some (s, es) \<longleftrightarrow> (\<exists>u fs gs. r = Some (u, fs) \<and> f u = Some (s, gs) \<and> es = fs @ gs)"
  by (auto simp add: and_thenO_def split: option.splits prod.splits)

lemma receive_all_sound:
  "receive_all c e as t = Some (t', es) \<Longrightarrow> sound t \<Longrightarrow> sound t' \<and> keys t \<subseteq> keys t'"
proof (induction "as" arbitrary: t es)
  case (Cons a "as")
  obtain u fs gs where u: "receive c e a t = Some (u, fs)" "receive_all c e as u = Some (t', gs)"
    using Cons.prems(1) by (auto simp add: and_thenO_Some)
  show ?case using receive_sound [OF u(1) Cons.prems(2)] Cons.IH [OF u(2)] by (meson subset_trans)
qed simp

section \<open>The reactor\<close>

lemma safe_empty: "safe {} t u \<longleftrightarrow> (sound t \<longrightarrow> sound u \<and> keys t \<subseteq> keys u)"
  by (simp add: safe_def)

lemma find_peer_key:
  assumes "find_peer pid t = Some (pk, l)"
  shows "pk \<in> keys t"
proof (cases "om_find (t_peers t) pid")
  case None
  then have "find (\<lambda>(k, l). l_id l = pid) (t_peers t) = Some (pk, l)" using assms by (simp add: find_peer_def)
  then have "(pk, l) \<in> set (t_peers t)" by (metis find_Some_iff nth_mem)
  then show ?thesis by (rule image_eqI [rotated]) simp
next
  case (Some l')
  then show ?thesis using assms by (simp add: find_peer_def in_keys)
qed

lemma process_msg_sound: "safe {} t (process_msg c e p m t)"
proof (cases "find_peer (qm_peer m) t")
  case (Some x)
  obtain pk l where x: "x = (pk, l)" by (cases x)
  let ?task = "\<lparr> et_peer = pk, et_payload = qm_payload m, et_channel = qm_channel m \<rparr>"
  have pk: "pk \<in> keys t" using find_peer_key Some x by blast
  have q: "safe {} t (t\<lparr>t_queues := q\<rparr>)"
    if "queues_ok (t_queues t) \<Longrightarrow> queues_ok q \<and> refs q \<subseteq> insert pk (refs (t_queues t))" for q
    using safe_queues [of t q "{pk}"] that pk by (simp add: safe_def)
  have e: "queues_ok (enqueue_msg a b q) = queues_ok q" "refs (enqueue_msg a b q) = refs q" for a b q
    by (simp_all add: enqueue_msg_def)
  note push = push_queues(5,6) [of "t_queues t" ?task]
  show ?thesis
    using push by (auto simp add: process_msg_def Some x Let_def split_beta e intro!: q)
qed (simp add: process_msg_def)

lemma safe_foldl: "(\<And>a x. safe S a (f a x)) \<Longrightarrow> safe S a (foldl f a xs)"
  by (induction xs arbitrary: a) (auto intro: safe_trans)

lemma process_send_queue_sound: "safe {} t (process_send_queue c e t)"
proof -
  have "safe {} t (set_queues (\<lambda>q. q\<lparr>q_send := []\<rparr>) t)" by (simp add: set_queues_def safe_queues)
  then show ?thesis unfolding process_send_queue_def Let_def
    by (rule safe_trans) (auto intro!: safe_foldl process_msg_sound)
qed

lemma timers_sound: "safe {} t (fst (timers c e t))"
proof -
  have chain: "safe {} t (fst (and_then r f))" if "safe {} t (fst r)" "\<And>u. safe {} u (fst (f u))" for r f
    using safe_trans [OF that(1) that(2)] by (simp add: fst_and_then)
  have timeouts: "safe {} u (check_report_timeouts c e u)" for u
    by (rule safe_same [OF safe_refl]) (simp_all add: check_report_timeouts_def Let_def)
  have each: "safe {} u (fst (send_handshakes c e u))" "safe {} u (fst (send_heartbeats c e u))"
    "safe {} u (fst (send_online_announcements c e u))" "safe {} u (fst (send_reports c e u))"
    "safe {} u (fst (check_offlines c e u))" "safe {} u (fst (flush_commands e u))" for u
    using handshakes.each_peer_sound heartbeats.each_peer_sound announcements.each_peer_sound
      reports.each_peer_sound offlines.each_peer_sound flushes.each_peer_sound
    by (simp_all add: safe_empty send_handshakes_def send_heartbeats_def send_online_announcements_def
        send_reports_def check_offlines_def flush_commands_def)
  show ?thesis unfolding timers_def Let_def
    by (intro chain each) (simp_all add: timeouts process_send_queue_sound)
qed

section \<open>The sender\<close>

text \<open>What an operation of the sender guarantees: it does not follow a dangling pointer.\<close>

definition fine :: "transport \<Rightarrow> ('a \<times> transport \<times> effect list) option \<Rightarrow> bool" where
  "fine t r \<longleftrightarrow> (\<exists>x u es. r = Some (x, u, es) \<and> sound u \<and> t_peers u = t_peers t)"

lemma fine_Some [simp]: "fine t (Some (x, u, es)) \<longleftrightarrow> sound u \<and> t_peers u = t_peers t"
  by (simp add: fine_def)

lemma fine_add [simp]: "fine t (add_effects es r) = fine t r"
  by (auto simp add: fine_def add_effects_def split: prod.splits)

lemma sound_set_pacer [simp]: "sound (set_pacer f t) = sound t"
  by (simp add: sound_def)

lemma sound_set_capacity [simp]: "sound (set_capacity f t) = sound t"
  by (simp add: sound_def)

lemma send_now_sound [simp]:
  "sound (fst (send_now a pkt t)) = sound t" "t_peers (fst (send_now a pkt t)) = t_peers t"
  "sound (spend cost t) = sound t" "t_peers (spend cost t) = t_peers t"
  by (simp_all add: send_now_def sound_def spend_def)

lemma target_known: "ob_peer pkt \<in> keys t \<Longrightarrow> target pkt t \<noteq> None"
  by (simp add: target_def in_keys)

lemma flush_packets_fine:
  "sound t \<Longrightarrow> ob_peer ` set pkts \<subseteq> keys t \<Longrightarrow> fine t (flush_packets e pkts t)"
proof (induction pkts arbitrary: t)
  case (Cons pkt pkts)
  have "fine (fst (send_now a pkt t)) (flush_packets e pkts (fst (send_now a pkt t)))" for a
    using Cons.prems by (intro Cons.IH) simp_all
  then have sent: "fine t (flush_packets e pkts (fst (send_now a pkt t)))" for a by (simp add: fine_def)
  have skip: "fine t (flush_packets e pkts t)" using Cons by simp
  show ?case using target_known [of pkt t] Cons.prems skip sent
    by (auto simp add: split_beta split: option.split)
qed simp

lemma flush_audio_fine: "sound t \<Longrightarrow> fine t (flush_audio e t)"
proof -
  assume t: "sound t"
  obtain pkts q where pq: "poll_all (q_audio (t_queues t)) = (pkts, q)" by fastforce
  define u where "u = set_queues (\<lambda>qs. qs\<lparr>q_audio := q\<rparr>) t"
  have a: "pkts = items (q_audio (t_queues t))" "bq_inv q" "items q = []"
    using poll_all_items [of "q_audio (t_queues t)"] t by (simp_all add: pq sound_def queues_ok_def)
  have "sound u" using t a by (auto simp add: sound_def queues_ok_def refs_def u_def)
  moreover have "ob_peer ` set pkts \<subseteq> keys u" using t by (auto simp add: sound_def refs_def u_def a)
  ultimately have "fine u (flush_packets e pkts u)" by (rule flush_packets_fine)
  then show ?thesis by (simp add: flush_audio_def pq fine_def u_def)
qed

lemma poll_outbound:
  assumes "sound t" "bq_poll (q_outbound (t_queues t)) = (opt, q)"
  shows "sound (set_queues (\<lambda>qs. qs\<lparr>q_outbound := q\<rparr>) t)" "ob_peer ` set_option opt \<subseteq> keys t"
proof -
  have inv: "bq_inv (q_outbound (t_queues t))" using assms(1) by (simp add: sound_def queues_ok_def)
  note p = poll_items [OF inv assms(2)]
  have "ob_peer ` set_option opt \<union> ob_peer ` set (items q) = ob_peer ` set (items (q_outbound (t_queues t)))"
    by (simp add: p(2) flip: image_Un)
  then have "ob_peer ` set_option opt \<union> ob_peer ` set (items q) \<subseteq> keys t"
    using assms(1) by (simp add: sound_def refs_def image_Un)
  then show "sound (set_queues (\<lambda>qs. qs\<lparr>q_outbound := q\<rparr>) t)" "ob_peer ` set_option opt \<subseteq> keys t"
    using assms(1) p(1) by (simp_all add: sound_def queues_ok_def refs_def image_Un)
qed

lemma outbound_loop_fine: "sound t \<Longrightarrow> fine t (outbound_loop n c e t)"
proof (induction n arbitrary: t)
  case (Suc n)
  obtain opt q where p: "bq_poll (q_outbound (t_queues t)) = (opt, q)" by fastforce
  define u where "u = set_queues (\<lambda>qs. qs\<lparr>q_outbound := q\<rparr>) t"
  have u: "sound u" "t_peers u = t_peers t" using poll_outbound [OF Suc.prems p] by (simp_all add: u_def)
  have IH: "fine t (outbound_loop n c e v)" if "sound v" "t_peers v = t_peers t" for v
    using Suc.IH [OF that(1)] that(2) by (simp add: fine_def)
  show ?case
  proof (cases opt)
    case None
    then show ?thesis using u by (simp add: outbound_loop.simps(2) p u_def)
  next
    case (Some pkt)
    have "target pkt u \<noteq> None"
      using poll_outbound(2) [OF Suc.prems p] u(2) by (intro target_known) (simp add: Some)
    then show ?thesis
      using u IH [of u] IH [of "fst (send_now a pkt (spend cost u))" for a cost]
      by (auto simp add: outbound_loop.simps(2) p Some Let_def split_beta u_def [symmetric] split: option.split)
  qed
qed simp

lemma settle_sound: "sound (settle c e t) = sound t" "t_peers (settle c e t) = t_peers t"
  by (simp_all add: settle_def Let_def sound_def)

lemma loan_ends_sound:
  "sound t \<Longrightarrow> sound (fst (loan_exhausted t))" "t_peers (fst (loan_exhausted t)) = t_peers t"
  "sound (fst (loan_repaid t)) = sound t" "t_peers (fst (loan_repaid t)) = t_peers t"
proof -
  show "sound (fst (loan_exhausted t))" if "sound t"
    using that poll_all_items [of "q_outbound (t_queues t)"]
    by (auto simp add: loan_exhausted_def sound_def queues_ok_def refs_def Let_def)
qed (simp_all add: loan_exhausted_def loan_repaid_def Let_def)

lemma heartbeat_fine:
  assumes "sound t"
  obtains t' es where "heartbeat c e t = Some (t', es)" "sound t'" "t_peers t' = t_peers t"
proof -
  have "fine (settle c e t) (flush_audio e (settle c e t))"
    by (rule flush_audio_fine) (simp add: settle_sound assms)
  then obtain v fs where v: "flush_audio e (settle c e t) = Some ((), v, fs)" "sound v" "t_peers v = t_peers t"
    by (auto simp add: fine_def settle_sound)
  obtain x w gs where w: "outbound_loop (Suc (m_size (q_outbound (t_queues v)))) c e v = Some (x, w, gs)"
    "sound w" "t_peers w = t_peers t"
    using outbound_loop_fine [OF v(2), of "Suc (m_size (q_outbound (t_queues v)))" c e] v(3)
    by (auto simp add: fine_def)
  define z where "z = fst (loan_repaid (fst (if x then loan_exhausted w else (w, []))))"
  have "\<exists>es. heartbeat c e t = Some (z, es)"
    by (cases x) (simp_all add: heartbeat_def v(1) w(1) split_beta z_def)
  moreover have "sound z" "t_peers z = t_peers t" using w loan_ends_sound [of w] by (auto simp add: z_def loan_ends_sound)
  ultimately show ?thesis using that by blast
qed

lemma pending_sound:
  "sound t \<Longrightarrow> sound (set_queues (\<lambda>q. q\<lparr>q_lite_pending := None\<rparr>) t)"
  "sound t \<Longrightarrow> ob_peer pkt \<in> keys t \<Longrightarrow> sound (set_queues (\<lambda>q. q\<lparr>q_lite_pending := Some pkt\<rparr>) t)"
  by (auto simp add: sound_def refs_def queues_ok_def)

lemma lite_loop_fine: "sound t \<Longrightarrow> fine t (lite_loop n c e t)"
proof (induction n arbitrary: t)
  case (Suc n)
  define pend where "pend = q_lite_pending (t_queues t)"
  obtain opt q where p: "bq_poll (q_outbound (t_queues t)) = (opt, q)" by fastforce
  define next_pkt where "next_pkt = (case pend of None \<Rightarrow> opt | Some _ \<Rightarrow> pend)"
  define u where "u = (case pend of None \<Rightarrow> set_queues (\<lambda>qs. qs\<lparr>q_outbound := q\<rparr>) t | Some _ \<Rightarrow> t)"
  have u: "sound u" "t_peers u = t_peers t"
    using poll_outbound [OF Suc.prems p] Suc.prems by (simp_all add: u_def split: option.split)
  have pk: "ob_peer pkt \<in> keys t" if "next_pkt = Some pkt" for pkt
    using poll_outbound(2) [OF Suc.prems p] Suc.prems that
    by (cases pend) (auto simp add: next_pkt_def pend_def sound_def refs_def)
  have IH: "fine t (lite_loop n c e v)" if "sound v" "t_peers v = t_peers t" for v
    using Suc.IH [OF that(1)] that(2) by (simp add: fine_def)
  have step: "lite_loop (Suc n) c e t =
      (case next_pkt of
          None \<Rightarrow> Some ((), u, [])
        | Some pkt \<Rightarrow>
            if pend = None \<and> drained e (ob_channel pkt) (t_queues u) then lite_loop n c e u
            else
              let t = set_queues (\<lambda>q. q\<lparr>q_lite_pending := Some pkt\<rparr>) u;
                  gone = set_queues (\<lambda>q. q\<lparr>q_lite_pending := None\<rparr>)
              in case target pkt t of
                   None \<Rightarrow> None
                 | Some None \<Rightarrow> lite_loop n c e (gone t)
                 | Some (Some a) \<Rightarrow>
                     let cost = f64_of_nat (length (ob_datagram pkt));
                         t = set_pacer (refill_token_bucket c (e_now e) (t_bandwidth t)) t
                     in if k_token_bucket (t_pacer t) < cost \<and> \<not> app_limited e t
                        then Some ((), if m_size (q_outbound (t_queues t)) \<ge> 32
                                       then set_pacer (\<lambda>k. k\<lparr>k_pacer_limited := True\<rparr>) t else t, [])
                        else let (t, es) = send_now a pkt (spend cost t)
                             in add_effects es (lite_loop n c e (gone t)))"
    by (cases pend; cases opt) (simp_all add: lite_loop.simps(2) p pend_def [symmetric] next_pkt_def u_def set_queues_def Let_def)
  show ?case
  proof (cases next_pkt)
    case None
    then show ?thesis using u by (simp add: step)
  next
    case (Some pkt)
    define v where "v = set_queues (\<lambda>q. q\<lparr>q_lite_pending := Some pkt\<rparr>) u"
    have v: "sound v" "t_peers v = t_peers t" using pending_sound(2) [OF u(1)] pk [OF Some] u(2) by (simp_all add: v_def)
    have "target pkt v \<noteq> None" using pk [OF Some] by (intro target_known) (simp add: v)
    moreover have "fine t (lite_loop n c e (set_queues (\<lambda>q. q\<lparr>q_lite_pending := None\<rparr>) w))"
      if "sound w" "t_peers w = t_peers t" for w
      using IH pending_sound(1) [OF that(1)] that(2) by simp
    ultimately show ?thesis using IH [OF u] v
      by (auto simp add: step Some Let_def split_beta v_def [symmetric] split: option.split)
  qed
qed simp

lemma drain_sender_fine:
  assumes "sound t"
  obtains t' es where "drain_sender c e t = Some (t', es)" "sound t'" "t_peers t' = t_peers t"
proof -
  obtain v fs where v: "flush_audio e t = Some ((), v, fs)" "sound v" "t_peers v = t_peers t"
    using flush_audio_fine [OF assms, of e] by (auto simp add: fine_def)
  obtain x w gs where w: "lite_loop 64 c e v = Some (x, w, gs)" "sound w" "t_peers w = t_peers t"
    using lite_loop_fine [OF v(2), of 64 c e] v(3) by (auto simp add: fine_def)
  show ?thesis by (rule that [of w "fs @ gs"]) (use v w in \<open>simp_all add: drain_sender_def add_effects_def\<close>)
qed

section \<open>The encoding stage\<close>

lemma safe_send_data_packet: "safe {pk} (snd s) (snd (send_data_packet c e pk ch f s))"
  using safe_send_raw [of pk "snd s" "(l, snd s)" d ch for l d]
  by (cases s) (auto simp add: send_data_packet_def Let_def split_beta)

lemma safe_fragment_msg: "safe {pk} t (snd (snd (fragment_msg log2 c e pk payload ch (bufs, l, t))))"
proof -
  have "safe {pk} (snd s) (snd (foldl (\<lambda>s f. send_data_packet c e pk ch f s) s fs))" for s fs
  proof (induction fs arbitrary: s)
    case (Cons f fs)
    show ?case using safe_trans [OF safe_send_data_packet Cons.IH] by simp
  qed simp
  then show ?thesis by (simp add: fragment_msg_def Let_def split_beta) (metis snd_conv)
qed

lemma encode_task_fine:
  assumes "sound t" "et_peer task \<in> keys t"
  obtains bufs' t' where "encode_task_step log2 c e task (bufs, t) = Some (bufs', t')" "sound t'" "keys t \<subseteq> keys t'"
proof (cases "drained e (et_channel task) (t_queues t)")
  case True
  show ?thesis by (rule that [of bufs t]) (use True assms in \<open>simp_all add: encode_task_step_def\<close>)
next
  case False
  obtain l where l: "om_find (t_peers t) (et_peer task) = Some l" using assms(2) by (auto simp add: in_keys)
  obtain bufs' l' u where f: "fragment_msg log2 c e (et_peer task) (et_payload task) (et_channel task) (bufs, l, t) = (bufs', l', u)"
    by (metis prod.exhaust)
  have "safe {et_peer task} t u" using safe_fragment_msg [of "et_peer task" t log2 c e "et_payload task" "et_channel task" bufs l]
    by (simp add: f)
  then have "safe {et_peer task} t (u\<lparr>t_peers := om_set (et_peer task) l' (t_peers u)\<rparr>)" by (rule safe_om_set)
  then show ?thesis
    by (intro that [of bufs' "u\<lparr>t_peers := om_set (et_peer task) l' (t_peers u)\<rparr>"])
      (use False l f assms in \<open>simp_all add: encode_task_step_def safe_def\<close>)
qed

lemma poll_encode:
  assumes "sound t" "bq_poll (q_encode (t_queues t)) = (opt, q)"
  shows "sound (set_queues (\<lambda>qs. qs\<lparr>q_encode := q\<rparr>) t)" "et_peer ` set_option opt \<subseteq> keys t"
proof -
  have inv: "bq_inv (q_encode (t_queues t))" using assms(1) by (simp add: sound_def queues_ok_def)
  note p = poll_items [OF inv assms(2)]
  have "et_peer ` set_option opt \<union> et_peer ` set (items q) = et_peer ` set (items (q_encode (t_queues t)))"
    by (simp add: p(2) flip: image_Un)
  then have "et_peer ` set_option opt \<union> et_peer ` set (items q) \<subseteq> keys t"
    using assms(1) by (simp add: sound_def refs_def image_Un)
  then show "sound (set_queues (\<lambda>qs. qs\<lparr>q_encode := q\<rparr>) t)" "et_peer ` set_option opt \<subseteq> keys t"
    using assms(1) p(1) by (simp_all add: sound_def queues_ok_def refs_def image_Un)
qed

lemma encode_next_fine:
  assumes "sound t"
  obtains bufs' t' where "encode_next log2 c e (bufs, t) = Some (bufs', t')" "sound t'" "keys t \<subseteq> keys t'"
proof -
  obtain opt q where p: "bq_poll (q_encode (t_queues t)) = (opt, q)" by fastforce
  define u where "u = set_queues (\<lambda>qs. qs\<lparr>q_encode := q\<rparr>) t"
  have u: "sound u" "keys u = keys t" using poll_encode(1) [OF assms p] by (simp_all add: u_def)
  show ?thesis
  proof (cases opt)
    case None
    show ?thesis by (rule that [of bufs u]) (use u None in \<open>simp_all add: encode_next_def p u_def [symmetric]\<close>)
  next
    case (Some task)
    have "et_peer task \<in> keys u" using poll_encode(2) [OF assms p] Some u by simp
    then obtain bufs' t' where "encode_task_step log2 c e task (bufs, u) = Some (bufs', t')" "sound t'" "keys u \<subseteq> keys t'"
      using encode_task_fine [OF u(1)] by metis
    then show ?thesis by (intro that [of bufs' t']) (simp_all add: encode_next_def p u_def [symmetric] Some u(2) [symmetric])
  qed
qed

lemma drain_encode_fine:
  assumes "sound t"
  obtains bufs' t' where "drain_encode_n n log2 c e (bufs, t) = Some (bufs', t')" "sound t'" "keys t \<subseteq> keys t'"
proof -
  have "\<exists>bufs' t'. drain_encode_n n log2 c e (bufs, t) = Some (bufs', t') \<and> sound t' \<and> keys t \<subseteq> keys t'"
    using assms
  proof (induction n arbitrary: bufs t)
    case (Suc n)
    obtain opt q where p: "bq_poll (q_encode (t_queues t)) = (opt, q)" by fastforce
    define u where "u = set_queues (\<lambda>qs. qs\<lparr>q_encode := q\<rparr>) t"
    have u: "sound u" "keys u = keys t" using poll_encode(1) [OF Suc.prems p] by (simp_all add: u_def)
    show ?case
    proof (cases opt)
      case None
      then show ?thesis using u by (simp add: p u_def [symmetric])
    next
      case (Some task)
      have "et_peer task \<in> keys u" using poll_encode(2) [OF Suc.prems p] Some u by simp
      then obtain bufs' t' where t': "encode_task_step log2 c e task (bufs, u) = Some (bufs', t')" "sound t'" "keys u \<subseteq> keys t'"
        using encode_task_fine [OF u(1)] by metis
      obtain bufs'' t'' where "drain_encode_n n log2 c e (bufs', t') = Some (bufs'', t'')" "sound t''" "keys t' \<subseteq> keys t''"
        using Suc.IH [OF t'(2)] by blast
      moreover have "keys t \<subseteq> keys t'" using t'(3) u(2) by simp
      ultimately show ?thesis using t'(1) by (simp add: p u_def [symmetric] Some)
    qed
  qed simp
  then show ?thesis using that by blast
qed

lemma lite_duties_sound:
  assumes "lite_duties log2 c e w (bufs, t) = Some ((bufs', t'), es)" "sound t"
  shows "sound t' \<and> keys t \<subseteq> keys t'"
proof -
  obtain u fs where u: "(if c_lite_profile c \<noteq> Video then drain_receiver c e w t else Some (t, [])) = Some (u, fs)"
    using assms(1) by (auto simp add: lite_duties_def split: option.splits)
  have su: "sound u \<and> keys t \<subseteq> keys u"
    using u receive_all_sound [of c e "take 64 w" t u fs] assms(2) by (auto simp add: drain_receiver_def split: if_splits)
  obtain b2 v where v: "drain_encode log2 c e (bufs, u) = Some (b2, v)" "sound v" "keys u \<subseteq> keys v"
    using drain_encode_fine [of u 16 log2 c e bufs] su by (metis drain_encode_def)
  obtain z gs where z: "drain_sender c e v = Some (z, gs)" "sound z" "t_peers z = t_peers v"
    using drain_sender_fine [OF v(2)] by metis
  have "t' = z" using assms(1) unfolding lite_duties_def prod.case Let_def u option.case
    by (simp add: v z)
  moreover have "keys t \<subseteq> keys v" by (rule subset_trans [OF conjunct2 [OF su] v(3)])
  ultimately show ?thesis using z by simp
qed

lemma lite_duties_defined:
  assumes "lite_duties log2 c e w (bufs, t) = None" "sound t"
  shows "drain_receiver c e w t = None"
proof (rule ccontr)
  assume "drain_receiver c e w t \<noteq> None"
  then obtain u fs where u: "(if c_lite_profile c \<noteq> Video then drain_receiver c e w t else Some (t, [])) = Some (u, fs)"
    by (cases "c_lite_profile c \<noteq> Video") auto
  have su: "sound u"
    using u receive_all_sound [of c e "take 64 w" t u fs] assms(2) by (auto simp add: drain_receiver_def split: if_splits)
  obtain b2 v where v: "drain_encode log2 c e (bufs, u) = Some (b2, v)" "sound v"
    using drain_encode_fine [OF su, of 16 log2 c e bufs] by (metis drain_encode_def)
  obtain z gs where z: "drain_sender c e v = Some (z, gs)"
    using drain_sender_fine [OF v(2)] by metis
  show False using assms(1) unfolding lite_duties_def prod.case Let_def u option.case
    by (simp add: v z)
qed

section \<open>The application\<close>

lemma send_message_sound: "safe {} t (snd (send_message c e pid payload p ch kf t))"
proof -
  have "safe {} t ((if b then t\<lparr>t_capacity := v\<rparr> else t)\<lparr>t_queues := (enqueue_msg p m (t_queues t))\<lparr>q_last_app_send_ms := n\<rparr>\<rparr>)"
    for b v m n
  proof -
    define u where "u = (if b then t\<lparr>t_capacity := v\<rparr> else t)"
    have "safe {} t u" by (auto simp add: u_def intro: safe_same [OF safe_refl])
    moreover have "safe {} u (u\<lparr>t_queues := (enqueue_msg p m (t_queues t))\<lparr>q_last_app_send_ms := n\<rparr>\<rparr>)"
      by (rule safe_queues) (simp add: enqueue_msg_def u_def split: if_splits)
    ultimately show ?thesis unfolding u_def by (rule safe_trans)
  qed
  then show ?thesis by (simp add: send_message_def Let_def)
qed

lemma send_chunks_sound: "safe {} t (snd (send_chunks c e pid fid data is t))"
proof (induction "is" arbitrary: t)
  case (Cons i "is")
  define r where "r = send_message c e pid (file_chunk fid data i) 0 kFileChannel False t"
  have "safe {} t (snd r)" by (simp add: r_def send_message_sound)
  then show ?case using safe_trans [OF _ Cons.IH] by (simp add: r_def [symmetric] split_beta)
qed simp

lemma send_file_sound: "safe {} t (snd (send_file c e pid name data t))"
proof -
  define u where "u = t\<lparr>t_file_id_out := t_file_id_out t + 1\<rparr>"
  define r where "r = send_message c e pid (file_manifest (t_file_id_out t) name data) 0 kFileChannel False u"
  have "safe {} t u" by (rule safe_same [OF safe_refl]) (simp_all add: u_def)
  then have "safe {} t (snd r)" unfolding r_def by (rule safe_trans) (rule send_message_sound)
  then show ?thesis using safe_trans [OF _ send_chunks_sound]
    by (simp add: send_file_def Let_def split_beta u_def [symmetric] r_def [symmetric])
qed

lemma send_command_sound: "safe {} t (fst (snd (send_command c e pid payload t)))"
proof (cases "find_peer pid t")
  case (Some x)
  obtain pk l where x: "x = (pk, l)" by (cases x)
  have "pk \<in> keys t" using find_peer_key Some x by blast
  then have "safe {} t (t\<lparr>t_peers := om_set pk l' (t_peers t)\<rparr>)" for l'
    using safe_om_set [OF safe_refl, of pk t l'] by (simp add: safe_def)
  then show ?thesis by (auto simp add: send_command_def Let_def Some x split_beta)
qed (simp add: send_command_def Let_def)

lemma video_capacity_sound: "safe {} t (fst (snd (video_capacity_bps c e t)))"
  by (rule safe_video_capacity)

section \<open>Properties\<close>


lemma ex_paced_sound: "sound (ex_paced 7)"
proof -
  have enc: "q_encode (t_queues (ex_paced 7)) = bq_new 4096" "q_lite_pending (t_queues (ex_paced 7)) = None"
    by (simp_all add: ex_paced_def new_transport_def Let_def queue_capacity_def default_config_def)
  show ?thesis
    using ex_paced_queues [of 7]
    by (simp add: sound_def queues_ok_def refs_def enc ex_paced_facts om_ok_def bq_new_inv)
qed


lemma send_control_queues:
  "\<exists>d. t_queues (snd (send_control ty payload ackable e pk s)) \<in>
     {t_queues (snd s), (t_queues (snd s))\<lparr>q_outbound := snd (bq_try_push \<lparr> ob_peer = pk, ob_channel = 7, ob_datagram = d \<rparr>
                                                        (q_outbound (t_queues (snd s))))\<rparr>}"
proof -
  have "t_queues (snd (send_raw_bytes pk d s)) \<in>
     {t_queues (snd s), (t_queues (snd s))\<lparr>q_outbound := snd (bq_try_push \<lparr> ob_peer = pk, ob_channel = 7, ob_datagram = d \<rparr>
                                                        (q_outbound (t_queues (snd s))))\<rparr>}" for d s
    by (cases s) (simp add: send_raw_bytes_def Let_def)
  moreover have "\<exists>d l. snd (send_control ty payload ackable e pk s) = snd (send_raw_bytes pk d (l, snd s))"
    by (cases s) (auto simp add: send_control_def Let_def split_beta)
  ultimately show ?thesis by (metis snd_conv)
qed

text \<open>
  \<open>connect\<close> can free a peer that is still in use.  When an address is taken over from a peer
  (an anonymous one, or one with another name) while the first packet of the queue still belongs to
  it, the next heartbeat of the sender follows the pointer to the erased entry.
\<close>

theorem connect_frees_referenced_peer:
  assumes t: "sound t" "t_running t" and a: "om_find (t_peer_by_addr t) a = Some old" "old \<noteq> rid"
    and q: "items (q_outbound (t_queues t)) = pkt # rest" "ob_peer pkt = old" "items (q_audio (t_queues t)) = []"
    and pkt: "\<not> drained e' (ob_channel pkt) (t_queues t)" "ob_channel pkt \<noteq> 0"
  shows "heartbeat c e' (snd (connect c e rid (Some a) t)) = None"
proof -
  define u where "u = t\<lparr>t_peers := om_erase old (t_peers t), t_peer_by_addr := om_set a rid (om_set a rid (t_peer_by_addr t))\<rparr>"
  obtain l s where s: "snd (connect c e rid (Some a) t) = (snd s)\<lparr>t_peers := om_set rid (fst s) (t_peers (snd s))\<rparr>"
    "s = send_handshake c e rid (l, u)"
    using t(2) a by (simp add: connect_def Let_def split_beta u_def)
  define w where "w = snd (connect c e rid (Some a) t)"
  have "t_peers (snd s) = om_erase old (t_peers t)"
    by (simp add: s(2) send_handshake_def Let_def u_def)
  then have gone: "om_find (t_peers w) old = None"
    using t(1) a(2) by (simp add: w_def s(1) sound_def om_find_set)
  obtain d where "t_queues w \<in> {t_queues t, (t_queues t)\<lparr>q_outbound := snd (bq_try_push \<lparr> ob_peer = rid, ob_channel = 7, ob_datagram = d \<rparr>
                                                        (q_outbound (t_queues t)))\<rparr>}"
    using send_control_queues [of Handshake "handshake_payload c (t_ident u)" True e rid "(l\<lparr>l_last_handshake_sent := e_now e\<rparr>, u)"]
    by (auto simp add: w_def s send_handshake_def Let_def u_def)
  moreover have inv: "bq_inv (q_outbound (t_queues t))" "bq_inv (q_audio (t_queues t))"
    using t(1) by (simp_all add: sound_def queues_ok_def)
  ultimately obtain rest' where wq: "items (q_outbound (t_queues w)) = pkt # rest'" "bq_inv (q_outbound (t_queues w))"
    "q_audio (t_queues w) = q_audio (t_queues t)" "q_drain_until_ms (t_queues w) = q_drain_until_ms (t_queues t)"
    using q(1) bq_push_cases [OF inv(1)] by (auto simp add: bq_try_push_def split: if_splits)
  define z where "z = settle c e' w"
  have z: "t_queues z = t_queues w" "t_peers z = t_peers w" by (simp_all add: z_def settle_def Let_def)
  obtain qa where qa: "poll_all (q_audio (t_queues z)) = ([], qa)"
    using poll_all_items [OF inv(2)] q(3) by (cases "poll_all (q_audio (t_queues z))") (simp add: z wq(3))
  obtain q' where q': "bq_poll (q_outbound (t_queues z)) = (Some pkt, q')"
    using bq_poll_items(2) [OF wq(2,1)] by (auto simp add: z)
  define y where "y = set_queues (\<lambda>qs. qs\<lparr>q_audio := qa\<rparr>) z"
  have "flush_audio e' z = Some ((), y, [])" by (simp add: flush_audio_def qa y_def)
  moreover have "outbound_loop (Suc n) c e' y = None" for n
  proof -
    have y: "bq_poll (q_outbound (t_queues y)) = (Some pkt, q')" using q' by (simp add: y_def)
    define x where "x = set_queues (\<lambda>qs. qs\<lparr>q_outbound := q'\<rparr>) y"
    have "target pkt x = None" "\<not> drained e' (ob_channel pkt) (t_queues x)"
      using gone q(2) pkt(1) by (simp_all add: x_def y_def z target_def drained_def wq(4))
    then show ?thesis using pkt(2) by (simp add: outbound_loop.simps(2) y x_def [symmetric] del: set_queues_fields)
  qed
  ultimately show ?thesis by (simp add: heartbeat_def w_def [symmetric] z_def [symmetric])
qed

definition ex_taken :: transport where
  "ex_taken = (ex_paced 7)\<lparr>t_running := True, t_peer_by_addr := [(ex_addr, [1])]\<rparr>"

lemma connect_frees_referenced_peer_witness:
  "heartbeat default_config ex_idle (snd (connect default_config ex_idle [2] (Some ex_addr) ex_taken)) = None"
proof -
  have s: "sound ex_taken" "t_queues ex_taken = t_queues (ex_paced 7)"
    using ex_paced_sound by (simp_all add: ex_taken_def sound_def)
  show ?thesis
    using ex_paced_queues [of 7] ex_not_drained [of 7 7]
    by (intro connect_frees_referenced_peer [OF s(1), where old = "[1]" and rest = "[]"
          and pkt = "\<lparr> ob_peer = [1], ob_channel = 7, ob_datagram = [1, 2, 3] \<rparr>"])
      (auto simp add: s(2), simp_all add: ex_taken_def)
qed

end
