(* ===== verification/Trust.thy ===== *)
theory Trust
  imports Transport_Laws
begin

text \<open>
  What the transport believes without proof: the notice \<open>Online\<close> and the acknowledgement of a
  handshake are acted on whoever sends them, whatever the token and the encryption say.
\<close>

section \<open>An unknown sender comes online\<close>

lemma sum_probe_sizes: "0 < frag \<Longrightarrow> sum_list (probe_sizes frag n) = n"
proof (induction n rule: less_induct)
  case (less n)
  then show ?case using less.IH [of "n - min frag n"]
    by (cases "n = 0") (simp_all add: probe_sizes.simps [of frag n] probe_sizes.simps [of frag 0] Let_def)
qed

lemma length_encode_ge: "length payload \<le> length (encode h payload)"
  by (simp add: encode_block)

lemma sum_list_ge: "(\<And>x. x \<in> set xs \<Longrightarrow> f x \<le> g x) \<Longrightarrow> sum_list (map f xs) \<le> (sum_list (map g xs) :: nat)"
  by (induction xs) (auto intro: add_mono)

text \<open>
  C25: one datagram without any secret makes an unknown sender online.  A plaintext notice \<open>Online\<close> from
  an address the transport has never heard of creates a peer, tells the application that it is
  online, and sends the whole speed test to that address: for the 48 bytes of a header at least
  \<open>speed_test_bytes\<close> bytes go to an address the sender need not own.
\<close>

theorem online_needs_no_token:
  assumes "h_type h = Online" "h_flags h AND kFlagEncrypted = 0"
    and "om_find (t_peer_by_addr t) a = None" "om_find (t_peers t) (anon_id a rand) = None" "om_ok (t_peers t)"
    and "t_sock t" "c_speed_test_enabled c"
  shows "\<exists>t' ds l. handle_packet c e rand a h payload t =
      Some (t', On_peer (anon_id a rand) Leaf LOnline (h_client_id h) # map (Sendto a) ds) \<and>
    om_find (t_peers t') (anon_id a rand) = Some l \<and> l_state l = LOnline \<and>
    c_speed_test_bytes c \<le> sum_list (map length ds)"
proof -
  define pk where "pk = anon_id a rand"
  obtain u where u: "find_or_create_peer_by_addr c e rand a t = (pk, u)" "t_sock u" "t_ident u = t_ident t" "om_ok (t_peers u)"
    and l: "\<exists>l. om_find (t_peers u) pk = Some l \<and> l_id l = pk \<and> l_role l = Leaf \<and> l_state l = LHandshake \<and>
        l_addr l = Some a \<and> l_peer_client_id l = 0"
    using assms(3-6) by (simp add: find_or_create_peer_by_addr_def create_peer_def Let_def pk_def [symmetric] om_find_set link0_def)
  then obtain l where l: "om_find (t_peers u) pk = Some l" "l_id l = pk" "l_role l = Leaf" "l_state l = LHandshake"
      "l_addr l = Some a" "l_peer_client_id l = 0"
    by blast
  define m where "m = (account_packet e h l)\<lparr>l_state := LOnline\<rparr>"
  have m: "l_id m = pk" "l_role m = Leaf" "l_state m = LOnline" "l_addr m = Some a" "l_peer_client_id m = h_client_id h"
    "l_state (account_packet e h l) = LHandshake"
    using l by (simp_all add: m_def account_packet_def Let_def)
  define frag where "frag = (if c_mtu c > kHeaderSize then c_mtu c - kHeaderSize else 1152)"
  define ds where "ds = map (\<lambda>n. encode ((control_header Probe e u)\<lparr>h_payload_size := of_nat n\<rparr>) (replicate n 0))
      (probe_sizes frag (c_speed_test_bytes c))"
  have "sum_list (map (\<lambda>n. n) (probe_sizes frag (c_speed_test_bytes c))) \<le> sum_list (map length ds)"
    unfolding ds_def map_map o_def
    by (rule sum_list_ge) (metis length_encode_ge length_replicate)
  then have size: "c_speed_test_bytes c \<le> sum_list (map length ds)"
    by (simp add: sum_probe_sizes frag_def)
  have online: "handle_online c e (account_packet e h l, u) = ((m, u), On_peer pk Leaf LOnline (h_client_id h) # map (Sendto a) ds)"
    using m u(2) assms(7)
    by (simp add: handle_online_def set_state_def m_def [symmetric] fire_peer_event_def send_speed_test_def
        ds_def frag_def Let_def o_def)
  define w where "w = snd (send_ack_packet (h_sequence h) e pk (m, u))"
  have w: "send_ack_packet (h_sequence h) e pk (m, u) = (m, w)" "t_peers w = t_peers u"
    by (simp_all add: w_def send_ack_packet_def prod_eq_iff)
  have "packet_on_peer c e pk h payload (l, u) = Some ((m, w), On_peer pk Leaf LOnline (h_client_id h) # map (Sendto a) ds)"
    using assms(1,2) by (simp add: packet_on_peer_def open_payload_def dispatch_def acked_def online w)
  then have "handle_packet c e rand a h payload t =
      Some (w\<lparr>t_peers := om_set pk m (t_peers u)\<rparr>, On_peer pk Leaf LOnline (h_client_id h) # map (Sendto a) ds)"
    by (simp add: handle_packet_def u with_peer_def l w)
  moreover have "om_find (om_set pk m (t_peers u)) pk = Some m" using u(4) by (simp add: om_find_set)
  ultimately show ?thesis using size m(3) unfolding pk_def [symmetric]
    by (intro exI [of _ "w\<lparr>t_peers := om_set pk m (t_peers u)\<rparr>"] exI [of _ ds] exI [of _ m]) simp
qed

lemma online_needs_no_token_witness:
  "\<exists>t' ds l. handle_packet (default_config\<lparr>c_token := [1, 2, 3]\<rparr>) ex_env 4 (AddrKey 1 2) (header0\<lparr>h_type := Online\<rparr>) [] ex_transport =
      Some (t', On_peer (anon_id (AddrKey 1 2) 4) Leaf LOnline 0 # map (Sendto (AddrKey 1 2)) ds) \<and>
    om_find (t_peers t') (anon_id (AddrKey 1 2) 4) = Some l \<and> l_state l = LOnline \<and> 102400 \<le> sum_list (map length ds)"
  using online_needs_no_token [of "header0\<lparr>h_type := Online\<rparr>" ex_transport "AddrKey 1 2" 4
      "default_config\<lparr>c_token := [1, 2, 3]\<rparr>" ex_env "[]"]
  by (simp add: header0_def ex_transport_def new_transport_def Let_def default_config_def)

section \<open>The numbers of commands start again\<close>

lemma ack_restarts:
  "l_session (fst (fst (handle_handshake_ack c e pk h [] s))) = l_session (fst s)"
  "m_cmd_seq_out (l_cmd (fst (fst (handle_handshake_ack c e pk h [] s)))) = 1"
  by (simp_all add: handle_handshake_ack_def Let_def split_beta fst_and_then cmd_reset_def)

text \<open>The ciphertext of a sealed packet, and the key stream it was made with.\<close>

lemma sealed_wire:
  assumes "m_crypto_ready s" "length payload + 16 < 65536"
  shows "get_at (build_wire_packet True s h payload) 48 (length payload) =
    gcm_crypt (aes_expand (m_crypto_key s)) (gcm_j0 (build_nonce (wire_header h payload))) payload"
proof -
  define w where "w = wire_header h payload"
  have "sealed s w payload = gcm_crypt (aes_expand (m_crypto_key s)) (gcm_j0 (build_nonce w)) payload @
      gcm_compute_tag (aes_expand (m_crypto_key s)) (gcm_j0 (build_nonce w)) (header_fields w)
        (gcm_crypt (aes_expand (m_crypto_key s)) (gcm_j0 (build_nonce w)) payload)"
    by (simp add: sealed_def aes256_gcm_encrypt_def Let_def)
  then show ?thesis
    using build_wire_packet_encrypted [OF assms, of h]
    by (simp add: w_def [symmetric] encode_block get_at_def)
qed

lemma xor_streams:
  "length xs = n \<Longrightarrow> length ys = n \<Longrightarrow> length ks = n \<Longrightarrow>
    map2 (XOR) (map2 (XOR) xs ks) (map2 (XOR) ys ks) = (map2 (XOR) xs ys :: bytes)"
proof -
  have "(a XOR k) XOR (b XOR k) = a XOR b" for a b k :: u8
    by (rule bit_word_eqI) (auto simp add: bit_simps)
  then show "length xs = n \<Longrightarrow> length ys = n \<Longrightarrow> length ks = n \<Longrightarrow> ?thesis"
    by (intro nth_equalityI) simp_all
qed

lemma take_map2: "take n (map2 f xs ys) = map2 f (take n xs) (take n ys)"
  by (simp add: take_map take_zip)

lemma crypt_prefixes:
  assumes "n \<le> length p" "n \<le> length q"
  shows "map2 (XOR) (take n (gcm_crypt rk ctr p)) (take n (gcm_crypt rk ctr q)) = map2 (XOR) (take n p) (take n q)"
proof -
  define N where "N = length p + length q"
  have k: "gcm_crypt rk ctr p = map2 (XOR) p (keystream rk ctr N)" "gcm_crypt rk ctr q = map2 (XOR) q (keystream rk ctr N)"
    by (rule gcm_crypt_xor; simp add: N_def)+
  have "length (take n (keystream rk ctr N)) = n" using assms by (simp add: N_def)
  then show ?thesis unfolding k take_map2 using assms by (intro xor_streams) simp_all
qed

text \<open>
  C26: whoever can send a datagram can break the secrecy of commands.  An acknowledgement of a
  handshake, with no payload and no proof of anything, starts the numbers of commands again while
  the key stays; the first command after it is then sealed with the nonce of the first command
  before it, and the two ciphertexts give away the exclusive or of the two plaintexts.
\<close>

theorem forged_ack_reuses_nonce:
  assumes ready: "m_crypto_ready (l_session l)" and first: "m_cmd_seq_out (l_cmd l) = 1"
    and later: "l_session l1 = l_session l" "t_ident t1 = t_ident t" "t_ident t2 = t_ident t"
    and forged: "l2 = fst (fst (handle_handshake_ack c e pk h [] (l1, t1)))"
    and sizes: "n \<le> length p" "n \<le> length q" "length p + 16 < 65536" "length q + 16 < 65536"
  shows "build_nonce (command_header e1 t l p) = build_nonce (command_header e2 t2 l2 q) \<and>
    map2 (XOR) (get_at (build_wire_packet True (l_session l) (command_header e1 t l p) p) 48 n)
      (get_at (build_wire_packet True (l_session l2) (command_header e2 t2 l2 q) q) 48 n)
    = map2 (XOR) (take n p) (take n q)"
proof -
  have l2: "l_session l2 = l_session l" "m_cmd_seq_out (l_cmd l2) = 1"
    using ack_restarts [of c e pk h "(l1, t1)"] later(1) by (simp_all add: forged)
  define h1 where "h1 = command_header e1 t l p"
  define h2 where "h2 = command_header e2 t2 l2 q"
  have nonces: "build_nonce h1 = build_nonce h2" "build_nonce (wire_header h1 p) = build_nonce h1"
    "build_nonce (wire_header h2 q) = build_nonce h2"
    using first l2(2) later(3)
    by (simp_all add: h1_def h2_def command_header_def control_header_def wire_header_def build_nonce_command header0_def)
  have prefix: "get_at d 48 n = take n (get_at d 48 m)" if "n \<le> m" for d :: bytes and m
    using that by (simp add: get_at_def)
  have c1: "get_at (build_wire_packet True (l_session l) h1 p) 48 n
      = take n (get_at (build_wire_packet True (l_session l) h1 p) 48 (length p))"
    by (rule prefix [OF sizes(1)])
  have c2: "get_at (build_wire_packet True (l_session l2) h2 q) 48 n
      = take n (get_at (build_wire_packet True (l_session l) h2 q) 48 (length q))"
    unfolding l2(1) by (rule prefix [OF sizes(2)])
  show ?thesis
    using crypt_prefixes [OF sizes(1,2)] nonces ready
    unfolding h1_def [symmetric] h2_def [symmetric] c1 c2
    by (simp add: sealed_wire sizes(3,4))
qed

definition ex_keyed :: link where
  "ex_keyed = link0\<lparr>l_session := \<lparr> m_crypto_ready = True, m_crypto_key = replicate 32 7 \<rparr>\<rparr>"

lemma forged_ack_reuses_nonce_witness:
  "map2 (XOR) (get_at (build_wire_packet True (l_session ex_keyed) (command_header ex_env ex_transport ex_keyed [1, 2]) [1, 2]) 48 2)
     (get_at (build_wire_packet True (l_session ex_keyed)
        (command_header ex_env ex_transport
          (fst (fst (handle_handshake_ack default_config ex_env [1] header0 [] (ex_keyed, ex_transport)))) [5, 4]) [5, 4]) 48 2)
   = [4, 6]"
  using forged_ack_reuses_nonce [of ex_keyed ex_keyed ex_transport ex_transport ex_transport _ default_config ex_env "[1]"
      header0 2 "[1, 2]" "[5, 4]" ex_env ex_env]
    ack_restarts(1) [of default_config ex_env "[1]" header0 "(ex_keyed, ex_transport)"]
  by (simp add: ex_keyed_def link0_def cmd_new_def)

end
