(* ===== verification/Edge_Cases.thy ===== *)
theory Edge_Cases
  imports Transport_Laws
begin

text \<open>
  Behaviour at the edges of the send path and of the life of a transport: an encoding queue that
  refuses a task, a transport that is stopped and started again, and the video profile of the lite
  mode.
\<close>

section \<open>A refused task\<close>

definition refuses :: "'a bqueue \<Rightarrow> bool" where
  "refuses q \<longleftrightarrow> m_closed q \<or> bq_full q"

lemma find_peer_same: "t_peers u = t_peers t \<Longrightarrow> find_peer p u = find_peer p t"
  unfolding find_peer_def by (rule subst [of "t_peers t" "t_peers u"]) simp_all

lemma om_find_set_same [simp]: "om_find (om_set k v m) k = Some v"
  by (induction k v m rule: om_set.induct) auto

lemma try_push_refused: "refuses q \<Longrightarrow> bq_try_push x q = (False, q)"
  by (simp add: refuses_def bq_try_push_def)

lemma try_push_accepted:
  assumes "bq_inv q" "\<not> refuses q"
  shows "fst (bq_try_push x q)" "items (snd (bq_try_push x q)) = items q @ [x]"
  using assms bq_push_cases [of q x] by (auto simp add: refuses_def bq_try_push_def)

lemma process_msg_refused:
  assumes "find_peer (qm_peer m) t = Some (pk, l)" "live l" "\<not> drained e (qm_channel m) (t_queues t)"
    and "refuses (q_encode (t_queues t))" "queued_total (t_queues t) < queue_limit c t"
  shows "process_msg c e p m t = set_queues (enqueue_msg 0 (m\<lparr>qm_payload := []\<rparr>)) t"
  using assms by (simp add: process_msg_def try_push_refused set_queues_def)

lemma process_msg_accepted:
  assumes "find_peer (qm_peer m) t = Some (pk, l)" "live l" "\<not> drained e (qm_channel m) (t_queues t)"
    and "bq_inv (q_encode (t_queues t))" "\<not> refuses (q_encode (t_queues t))"
  shows "items (q_encode (t_queues (process_msg c e p m t))) =
    items (q_encode (t_queues t)) @ [\<lparr> et_peer = pk, et_payload = qm_payload m, et_channel = qm_channel m \<rparr>]"
  using assms try_push_accepted [of "q_encode (t_queues t)"]
  by (simp add: process_msg_def split_beta Let_def)

text \<open>
  A message whose task the encoding queue refuses is replaced by an empty one.  The task was moved
  into the call, so what is put back has no payload and priority 0; when the queue has room again
  the encoder gets an empty message for the peer instead of the one that was accepted.
\<close>

theorem refused_message_sent_empty:
  assumes m: "find_peer (qm_peer m) t = Some (pk, l)" "live l" "\<not> drained e (qm_channel m) (t_queues t)"
    and full: "refuses (q_encode (t_queues t))" "queued_total (t_queues t) < queue_limit c t"
    and later: "t' = set_queues (\<lambda>q. q\<lparr>q_encode := room\<rparr>) (process_msg c e p m t)" "bq_inv room" "\<not> refuses room"
      "\<not> drained e' (qm_channel m) (t_queues t)"
  shows "om_find (q_send (t_queues (process_msg c e p m t))) 0 =
      Some ((case om_find (q_send (t_queues t)) 0 of None \<Rightarrow> [] | Some ms \<Rightarrow> ms) @ [m\<lparr>qm_payload := []\<rparr>]) \<and>
    items (q_encode (t_queues (process_msg c e' 0 (m\<lparr>qm_payload := []\<rparr>) t'))) =
      items room @ [\<lparr> et_peer = pk, et_payload = [], et_channel = qm_channel m \<rparr>]"
proof -
  note refused = process_msg_refused [OF m full, of p]
  have "find_peer (qm_peer m) t' = Some (pk, l)" "t_queues t' = (enqueue_msg 0 (m\<lparr>qm_payload := []\<rparr>) (t_queues t))\<lparr>q_encode := room\<rparr>"
    using m(1) find_peer_same [of t' t] by (simp_all add: later(1) refused set_queues_def)
  then show ?thesis
    using later(2-4) m(2) process_msg_accepted [of "m\<lparr>qm_payload := []\<rparr>" t' pk l e' c 0]
    by (simp add: refused set_queues_def enqueue_msg_def drained_def)
qed

definition ex_live :: link where
  "ex_live = link0\<lparr>l_id := [1], l_state := LOnline\<rparr>"

definition ex_full :: transport where
  "ex_full = ex_transport\<lparr>t_peers := [([1], ex_live)],
     t_queues := (t_queues ex_transport)\<lparr>q_encode := bq_close (bq_new 2)\<rparr>\<rparr>"

definition ex_msg :: send_msg where
  "ex_msg = \<lparr> qm_peer = [1], qm_payload = [9, 9], qm_channel = 0 \<rparr>"

lemma ex_refuses [simp]: "refuses (bq_close (bq_new 2))" "\<not> refuses (bq_new 2)" "bq_inv (bq_new n)"
  by (simp_all add: refuses_def bq_close_def bq_full_def bq_new_def bq_new_inv(1) [unfolded bq_new_def])

lemma ex_full_facts [simp]:
  "find_peer [1] ex_full = Some ([1], ex_live)" "live ex_live" "q_encode (t_queues ex_full) = bq_close (bq_new 2)"
  "\<not> drained ex_env 0 (t_queues ex_full)" "queued_total (t_queues ex_full) < queue_limit ex_config ex_full"
  "q_send (t_queues ex_full) = []"
  by (simp_all add: ex_full_def find_peer_def ex_live_def live_def drained_def ex_env_def ex_transport_def new_transport_def
      Let_def queued_total_def bq_close_def bq_new_def queue_limit_def ex_config_def default_config_def)

lemma refused_message_sent_empty_witness:
  "items (q_encode (t_queues (process_msg ex_config ex_env 0 (ex_msg\<lparr>qm_payload := []\<rparr>)
     (set_queues (\<lambda>q. q\<lparr>q_encode := bq_new 2\<rparr>) (process_msg ex_config ex_env 3 ex_msg ex_full))))) =
   items (bq_new 2 :: encode_task bqueue) @ [\<lparr> et_peer = [1], et_payload = [], et_channel = 0 \<rparr>]"
  using refused_message_sent_empty [of ex_msg ex_full "[1]" ex_live ex_env ex_config
      "set_queues (\<lambda>q. q\<lparr>q_encode := bq_new 2\<rparr>) (process_msg ex_config ex_env 3 ex_msg ex_full)" "bq_new 2" 3 ex_env]
  by (simp add: ex_msg_def)

section \<open>Stop and start\<close>

text \<open>
  A transport that is stopped and started again accepts messages and sends none of them.  Stopping
  closes the queues and starting does not open them again, so every message for a peer that is
  online is refused by the encoding queue and put back without its content.
\<close>

theorem restart_empties_messages:
  assumes "t_running t" "u = snd (snd (start c True (stop (th, t))))"
    and "find_peer (qm_peer m) t = Some (pk, l)" "live l" "\<not> drained e (qm_channel m) (t_queues t)"
    and "queued_total (t_queues t) < queue_limit c t"
  shows "t_running u \<and> t_sock u \<and> process_msg c e p m u = set_queues (enqueue_msg 0 (m\<lparr>qm_payload := []\<rparr>)) u"
proof -
  have u: "t_running u" "t_sock u" "t_peers u = t_peers t" "t_lite_mode u = t_lite_mode t"
      "t_queues u = (t_queues t)\<lparr>q_encode := bq_close (q_encode (t_queues t)), q_outbound := bq_close (q_outbound (t_queues t))\<rparr>"
    using assms(1) by (simp_all add: assms(2) stop_def start_def set_queues_def set_capacity_def Let_def)
  have "find_peer (qm_peer m) u = Some (pk, l)" "\<not> drained e (qm_channel m) (t_queues u)"
      "refuses (q_encode (t_queues u))" "queued_total (t_queues u) < queue_limit c u"
    using assms(3,5,6) find_peer_same [OF u(3)] by (simp_all add: u drained_def refuses_def bq_close_def queued_total_def queue_limit_def)
  then show ?thesis using u(1,2) process_msg_refused [OF _ assms(4)] by blast
qed

lemma restart_empties_messages_witness:
  "process_msg ex_config ex_env 3 ex_msg (snd (snd (start ex_config True (stop (all_threads, ex_full))))) =
   set_queues (enqueue_msg 0 (ex_msg\<lparr>qm_payload := []\<rparr>)) (snd (snd (start ex_config True (stop (all_threads, ex_full)))))"
  using restart_empties_messages [of ex_full "snd (snd (start ex_config True (stop (all_threads, ex_full))))" ex_config
      all_threads ex_msg "[1]" ex_live ex_env 3]
  by (simp add: ex_msg_def) (simp add: ex_full_def ex_transport_def)

section \<open>The video profile of the lite mode\<close>

text \<open>
  With the video profile, a transport that is started in the lite mode receives, one that is switched
  to the lite mode while it runs does not: the switch ends the receiver thread, and in this profile
  the reactor leaves receiving to that thread.
\<close>

theorem lite_switch_stops_receiving:
  assumes "c_lite_profile c = Video" "\<not> t_lite_mode t" "t_running t"
  shows "\<exists>s. set_lite_mode c True (th, t) = Some (s, []) \<and> t_running (snd s) \<and> t_lite_mode (snd s) \<and> \<not> receives c s \<and>
    receives c (snd (start c True (stop s)))"
  using assms
  by (simp add: set_lite_mode_def receives_def no_threads_def start_def stop_def set_queues_def set_capacity_def Let_def)

lemma lite_switch_stops_receiving_witness:
  "\<exists>s. set_lite_mode (ex_config\<lparr>c_lite_profile := Video\<rparr>) True (all_threads, ex_transport) = Some (s, []) \<and>
     t_running (snd s) \<and> t_lite_mode (snd s) \<and> \<not> receives (ex_config\<lparr>c_lite_profile := Video\<rparr>) s \<and>
     receives (ex_config\<lparr>c_lite_profile := Video\<rparr>) (snd (start (ex_config\<lparr>c_lite_profile := Video\<rparr>) True (stop s)))"
  by (rule lite_switch_stops_receiving)
    (simp_all add: ex_transport_def new_transport_def Let_def ex_config_def default_config_def)

end
