(* ===== verification/Routing.thy ===== *)
theory Routing
  imports Ordered_Map "HOL-Library.List_Lexorder" "HOL-Library.Char_ord"
begin

text \<open>
  The directory of endpoints and the sticky balancer of \<open>creek/src/routing.cpp\<close>.  A hash map is the
  list of its entries in key order; the code does not depend on the order it is walked in, except for
  the choice between entries of the same age, where the first one is taken.
\<close>

section \<open>Endpoints\<close>

record endpoint =
  ep_id :: string
  ep_service :: string
  ep_owner_leaf :: string
  ep_owner_node :: string
  ep_target :: string
  ep_version :: u64
  ep_updated_ms :: u64
  ep_alive :: bool

definition endpoint0 :: endpoint where
  "endpoint0 = \<lparr> ep_id = [], ep_service = [], ep_owner_leaf = [], ep_owner_node = [], ep_target = [],
     ep_version = 0, ep_updated_ms = 0, ep_alive = False \<rparr>"

record tombstone =
  ts_version :: u64
  ts_updated_ms :: u64
  ts_removed_ms :: u64

record directory =
  d_endpoints :: "(string, endpoint) omap"
  d_tombstones :: "(string, tombstone) omap"
  d_version :: u64

record snapshot =
  sn_source_id :: string
  sn_version :: u64
  sn_generated_ms :: u64
  sn_endpoints :: "endpoint list"
  sn_removed :: "endpoint list"

definition kTombstoneTtlMs :: u64 where "kTombstoneTtlMs = 60000"

definition directory0 :: directory where
  "directory0 = \<lparr> d_endpoints = [], d_tombstones = [], d_version = 0 \<rparr>"

section \<open>The directory\<close>

text \<open>\<open>EndpointDirectory::merge\<close> of one endpoint.\<close>

definition put_endpoint :: "endpoint \<Rightarrow> directory \<Rightarrow> directory" where
  "put_endpoint e d = d\<lparr>d_endpoints := om_set (ep_id e) e (d_endpoints d), d_version := d_version d + 1\<rparr>"

definition merge_endpoint :: "endpoint \<Rightarrow> directory \<Rightarrow> bool \<times> directory" where
  "merge_endpoint e d =
    (if ep_id e = [] then (False, d)
     else if (case om_find (d_tombstones d) (ep_id e) of Some t \<Rightarrow> ep_version e \<le> ts_version t | None \<Rightarrow> False)
     then (False, d)
     else case om_find (d_endpoints d) (ep_id e) of
            None \<Rightarrow> (True, put_endpoint e d)
          | Some old \<Rightarrow>
              if ep_version e > ep_version old then (True, put_endpoint e d)
              else if ep_version e = ep_version old \<and> ep_updated_ms e > ep_updated_ms old then (True, put_endpoint e d)
              else (False, d))"

definition apply_removal :: "u64 \<Rightarrow> string \<Rightarrow> u64 \<Rightarrow> u64 \<Rightarrow> directory \<Rightarrow> bool \<times> directory" where
  "apply_removal now_ms i version updated_ms d =
    (if i = [] then (False, d)
     else
       let (changed, d) = (case om_find (d_endpoints d) i of
              Some old \<Rightarrow> if ep_version old \<le> version
                          then (True, d\<lparr>d_endpoints := om_erase i (d_endpoints d), d_version := d_version d + 1\<rparr>)
                          else (False, d)
            | None \<Rightarrow> (False, d));
           fresh = (case om_find (d_tombstones d) i of None \<Rightarrow> True | Some t \<Rightarrow> ts_version t < version)
       in (changed,
           if fresh
           then d\<lparr>d_tombstones := om_set i \<lparr> ts_version = version, ts_updated_ms = updated_ms, ts_removed_ms = now_ms \<rparr>
                                   (d_tombstones d)\<rparr>
           else d))"

definition merge_snapshot :: "u64 \<Rightarrow> snapshot \<Rightarrow> directory \<Rightarrow> bool \<times> directory" where
  "merge_snapshot now_ms s d =
    (let (c, d) = foldl (\<lambda>(c, d) e. let (x, d) = merge_endpoint e d in (c \<or> x, d)) (False, d) (sn_endpoints s)
     in foldl (\<lambda>(c, d) r. let (x, d) = apply_removal now_ms (ep_id r) (ep_version r) (ep_updated_ms r) d in (c \<or> x, d))
          (c, d) (sn_removed s))"

definition upsert_local :: "u64 \<Rightarrow> endpoint \<Rightarrow> directory \<Rightarrow> directory" where
  "upsert_local now_ms e d =
    (if ep_id e = [] then d
     else
       let e = (case om_find (d_endpoints d) (ep_id e) of
                  None \<Rightarrow> if ep_version e = 0 then e\<lparr>ep_version := 1\<rparr> else e
                | Some old \<Rightarrow> e\<lparr>ep_version := ep_version old + 1\<rparr>);
           e = (if ep_updated_ms e = 0 then e\<lparr>ep_updated_ms := now_ms\<rparr> else e)
       in put_endpoint e (d\<lparr>d_tombstones := om_erase (ep_id e) (d_tombstones d)\<rparr>))"

definition remove_local :: "u64 \<Rightarrow> string \<Rightarrow> directory \<Rightarrow> bool \<times> directory" where
  "remove_local now_ms i d =
    (case om_find (d_endpoints d) i of
       None \<Rightarrow> (False, d)
     | Some old \<Rightarrow>
         (True, d\<lparr>d_endpoints := om_erase i (d_endpoints d),
                  d_tombstones := om_set i \<lparr> ts_version = ep_version old, ts_updated_ms = ep_updated_ms old,
                                              ts_removed_ms = now_ms \<rparr> (d_tombstones d),
                  d_version := d_version d + 1\<rparr>))"

definition find_endpoint :: "string \<Rightarrow> directory \<Rightarrow> endpoint option" where
  "find_endpoint i d = om_find (d_endpoints d) i"

definition service :: "string \<Rightarrow> directory \<Rightarrow> endpoint list" where
  "service name d = filter (\<lambda>e. ep_service e = name) (map snd (d_endpoints d))"

definition expired :: "u64 \<Rightarrow> tombstone \<Rightarrow> bool" where
  "expired now_ms t \<longleftrightarrow> now_ms - ts_removed_ms t \<ge> kTombstoneTtlMs"

definition shell :: "string \<Rightarrow> tombstone \<Rightarrow> endpoint" where
  "shell i t = endpoint0\<lparr>ep_id := i, ep_version := ts_version t, ep_updated_ms := ts_updated_ms t\<rparr>"

text \<open>A snapshot drops the tombstones that are too old.\<close>

definition take_snapshot :: "u64 \<Rightarrow> string \<Rightarrow> directory \<Rightarrow> snapshot \<times> directory" where
  "take_snapshot now_ms source d =
    (let live = filter (\<lambda>(i, t). \<not> expired now_ms t) (d_tombstones d)
     in (\<lparr> sn_source_id = source, sn_version = d_version d, sn_generated_ms = now_ms,
           sn_endpoints = map snd (d_endpoints d), sn_removed = map (\<lambda>(i, t). shell i t) live \<rparr>,
         d\<lparr>d_tombstones := live\<rparr>))"

definition live_tombstones :: "u64 \<Rightarrow> directory \<Rightarrow> endpoint list" where
  "live_tombstones now_ms d = map (\<lambda>(i, t). shell i t) (filter (\<lambda>(i, t). \<not> expired now_ms t) (d_tombstones d))"

section \<open>The sticky balancer\<close>

type_synonym metadata = "(string, string) omap"

record sticky_entry =
  se_endpoint_id :: string
  se_last_used :: time
  se_lru_since :: time
  se_lru :: bool

record balancer =
  b_entries :: "(string, sticky_entry) omap"
  b_capacity :: nat
  b_ttl :: time
  b_round_robin :: u64

definition balancer0 :: "nat \<Rightarrow> time \<Rightarrow> balancer" where
  "balancer0 capacity ttl = \<lparr> b_entries = [], b_capacity = capacity, b_ttl = ttl, b_round_robin = 0 \<rparr>"

definition is_sticky_value :: "string \<Rightarrow> bool" where
  "is_sticky_value v \<longleftrightarrow> v = ''true'' \<or> v = ''1''"

definition metadata_sticky :: "metadata \<Rightarrow> bool" where
  "metadata_sticky m = (case om_find m ''sticky'' of None \<Rightarrow> False | Some v \<Rightarrow> is_sticky_value v)"

definition nonempty_entry :: "metadata \<Rightarrow> string \<Rightarrow> string option" where
  "nonempty_entry m k = (case om_find m k of None \<Rightarrow> None | Some v \<Rightarrow> if v = [] then None else Some v)"

definition metadata_sid :: "metadata \<Rightarrow> string option" where
  "metadata_sid m = nonempty_entry m ''sid''"

definition metadata_shard_key :: "metadata \<Rightarrow> string option" where
  "metadata_shard_key m =
    (case nonempty_entry m ''shard_key'' of Some v \<Rightarrow> Some v | None \<Rightarrow> nonempty_entry m ''tenant_id'')"

text \<open>The first endpoint with the name, if it is alive.\<close>

definition find_live_endpoint :: "endpoint list \<Rightarrow> string \<Rightarrow> endpoint option" where
  "find_live_endpoint es i =
    (case find (\<lambda>e. ep_id e = i) es of None \<Rightarrow> None | Some e \<Rightarrow> if ep_alive e then Some e else None)"

definition age_entry :: "time \<Rightarrow> time \<Rightarrow> sticky_entry \<Rightarrow> sticky_entry" where
  "age_entry ttl now e =
    (if \<not> se_lru e \<and> now - se_last_used e \<ge> ttl then e\<lparr>se_lru := True, se_lru_since := now\<rparr> else e)"

definition lru_size :: "balancer \<Rightarrow> nat" where
  "lru_size b = length (filter (\<lambda>(k, e). se_lru e) (b_entries b))"

definition active_size :: "balancer \<Rightarrow> nat" where
  "active_size b = length (filter (\<lambda>(k, e). \<not> se_lru e) (b_entries b))"

text \<open>The key of the entry that has been marked longest.\<close>

fun oldest_lru :: "(string, sticky_entry) omap \<Rightarrow> (string \<times> sticky_entry) option \<Rightarrow> (string \<times> sticky_entry) option" where
  "oldest_lru [] best = best"
| "oldest_lru ((k, e) # m) best =
    oldest_lru m
      (if se_lru e \<and> (case best of None \<Rightarrow> True | Some (_, o') \<Rightarrow> se_lru_since e < se_lru_since o') then Some (k, e) else best)"

text \<open>One entry goes in each round until the marked ones fit.\<close>

fun evict_n :: "nat \<Rightarrow> nat \<Rightarrow> (string, sticky_entry) omap \<Rightarrow> (string, sticky_entry) omap" where
  "evict_n 0 capacity m = m"
| "evict_n (Suc n) capacity m =
    (if length (filter (\<lambda>(k, e). se_lru e) m) \<le> capacity then m
     else case oldest_lru m None of None \<Rightarrow> m | Some (k, _) \<Rightarrow> evict_n n capacity (om_erase k m))"

definition evict :: "nat \<Rightarrow> (string, sticky_entry) omap \<Rightarrow> (string, sticky_entry) omap" where
  "evict capacity m = evict_n (length m) capacity m"

definition do_pick :: "endpoint list \<Rightarrow> balancer \<Rightarrow> endpoint \<times> balancer" where
  "do_pick es b =
    (es ! (unat (b_round_robin b) mod length es), b\<lparr>b_round_robin := b_round_robin b + 1\<rparr>)"

definition sticky_key :: "string \<Rightarrow> string \<Rightarrow> string" where
  "sticky_key svc sid = svc @ ''|'' @ sid"

text \<open>What the call asks for: a shard, no session, or a session.\<close>

definition new_entry :: "endpoint \<Rightarrow> time \<Rightarrow> sticky_entry" where
  "new_entry e now = \<lparr> se_endpoint_id = ep_id e, se_last_used = now, se_lru_since = 0, se_lru = False \<rparr>"

definition pick_session :: "string \<Rightarrow> endpoint list \<Rightarrow> time \<Rightarrow> balancer \<Rightarrow> endpoint \<times> balancer" where
  "pick_session key es now b =
    (case om_find (b_entries b) key of
       Some e \<Rightarrow>
         (case (if se_lru e then None else find_live_endpoint es (se_endpoint_id e)) of
            Some ep \<Rightarrow> (ep, b\<lparr>b_entries := om_set key (e\<lparr>se_last_used := now\<rparr>) (b_entries b)\<rparr>)
          | None \<Rightarrow>
              let (ep, b) = do_pick es b
              in (ep, b\<lparr>b_entries := om_set key (new_entry ep now) (b_entries b)\<rparr>))
     | None \<Rightarrow>
         let (ep, b) = do_pick es b
         in (ep, b\<lparr>b_entries := om_set key (new_entry ep now) (b_entries b)\<rparr>))"

text \<open>\<open>hash\<close> is \<open>std::hash\<close> of a string.\<close>

definition pick :: "(string \<Rightarrow> u64) \<Rightarrow> string \<Rightarrow> metadata \<Rightarrow> endpoint list \<Rightarrow> time \<Rightarrow> balancer \<Rightarrow> endpoint option \<times> balancer" where
  "pick hash svc m es now b =
    (if es = [] then (None, b)
     else
       let b = b\<lparr>b_entries := evict (b_capacity b) (map (\<lambda>(k, e). (k, age_entry (b_ttl b) now e)) (b_entries b))\<rparr>
       in case metadata_shard_key m of
            Some s \<Rightarrow> (Some (es ! (unat (hash s) mod length es)), b)
          | None \<Rightarrow>
              let (ep, b) = (case (if metadata_sticky m then metadata_sid m else None) of
                    None \<Rightarrow> do_pick es b
                  | Some sid \<Rightarrow> pick_session (sticky_key svc sid) es now b)
              in (Some ep, b))"

definition invalidate :: "string \<Rightarrow> balancer \<Rightarrow> balancer" where
  "invalidate i b = b\<lparr>b_entries := filter (\<lambda>(k, e). se_endpoint_id e \<noteq> i) (b_entries b)\<rparr>"

definition set_ttl :: "time \<Rightarrow> balancer \<Rightarrow> balancer" where
  "set_ttl ttl b = b\<lparr>b_ttl := ttl, b_entries := []\<rparr>"

definition set_shard_key :: "string \<Rightarrow> balancer \<Rightarrow> balancer" where
  "set_shard_key key b = b"

end
