(* ===== verification/Routing_Laws.thy ===== *)
theory Routing_Laws
  imports Routing
begin

text \<open>
  What the directory and the balancer promise: replicas that have seen the same news agree whatever
  the order it came in, and a session stays with its endpoint while both live.
\<close>

section \<open>Replicas\<close>

text \<open>
  The interface of a replica: news of type \<open>'u\<close> is applied to a state at some time, and \<open>rep\<close> says
  that a state stands for a set of news.
\<close>

locale replica =
  fixes apply_news :: "'t \<Rightarrow> 'u \<Rightarrow> 's \<Rightarrow> 's" and rep :: "'u set \<Rightarrow> 's \<Rightarrow> bool" and start :: 's and view :: "'s \<Rightarrow> 'v"
    and agreed :: "'u set \<Rightarrow> bool"
  assumes rep_start: "rep {} start"
    and rep_apply: "rep U s \<Longrightarrow> rep (insert u U) (apply_news t u s)"
    and rep_view: "rep U s \<Longrightarrow> rep U s' \<Longrightarrow> agreed U \<Longrightarrow> view s = view s'"
begin

lemma rep_run: "rep U s \<Longrightarrow> rep (U \<union> snd ` set us) (foldl (\<lambda>s (t, u). apply_news t u s) s us)"
proof (induction us arbitrary: U s)
  case (Cons x us)
  obtain t u where x: "x = (t, u)" by (cases x)
  show ?case using Cons.IH [OF rep_apply [OF Cons.prems]] by (simp add: x)
qed simp

lemma converge:
  assumes "snd ` set us = snd ` set vs" "agreed (snd ` set us)"
  shows "view (foldl (\<lambda>s (t, u). apply_news t u s) start us) = view (foldl (\<lambda>s (t, u). apply_news t u s) start vs)"
  using rep_view [OF rep_run [OF rep_start, of us, simplified] _ assms(2)] rep_run [OF rep_start, of vs] assms(1) by simp

end

section \<open>The directory as a replica\<close>

datatype news = Alive endpoint | Gone string u64 u64

definition apply_news :: "u64 \<Rightarrow> news \<Rightarrow> directory \<Rightarrow> directory" where
  "apply_news now_ms u d =
    (case u of Alive e \<Rightarrow> snd (merge_endpoint e d) | Gone i v m \<Rightarrow> snd (apply_removal now_ms i v m d))"

definition news_of :: "snapshot \<Rightarrow> news list" where
  "news_of s = map Alive (sn_endpoints s) @ map (\<lambda>r. Gone (ep_id r) (ep_version r) (ep_updated_ms r)) (sn_removed s)"

definition not_later :: "endpoint \<Rightarrow> endpoint \<Rightarrow> bool" where
  "not_later e f \<longleftrightarrow> ep_version e < ep_version f \<or> ep_version e = ep_version f \<and> ep_updated_ms e \<le> ep_updated_ms f"

definition alive_in :: "news set \<Rightarrow> string \<Rightarrow> endpoint set" where
  "alive_in U i = {e. Alive e \<in> U \<and> ep_id e = i}"

definition gone_in :: "news set \<Rightarrow> string \<Rightarrow> u64 set" where
  "gone_in U i = {v. \<exists>m. Gone i v m \<in> U}"

text \<open>An endpoint that the news make current: the latest of its name, and not removed since.\<close>

definition current :: "news set \<Rightarrow> string \<Rightarrow> endpoint \<Rightarrow> bool" where
  "current U i e \<longleftrightarrow> i \<noteq> [] \<and> e \<in> alive_in U i \<and> (\<forall>f\<in>alive_in U i. not_later f e) \<and> (\<forall>v\<in>gone_in U i. v < ep_version e)"

definition buried :: "news set \<Rightarrow> string \<Rightarrow> endpoint \<Rightarrow> bool" where
  "buried U i e \<longleftrightarrow> (\<exists>v\<in>gone_in U i. ep_version e \<le> v)"

definition stands_for :: "news set \<Rightarrow> directory \<Rightarrow> bool" where
  "stands_for U d \<longleftrightarrow> om_ok (d_endpoints d) \<and> om_ok (d_tombstones d) \<and>
    (\<forall>i. case om_find (d_endpoints d) i of
           None \<Rightarrow> i = [] \<or> (\<forall>e\<in>alive_in U i. buried U i e)
         | Some e \<Rightarrow> current U i e) \<and>
    (\<forall>i. case om_find (d_tombstones d) i of
           None \<Rightarrow> i = [] \<or> gone_in U i = {}
         | Some t \<Rightarrow> i \<noteq> [] \<and> ts_version t \<in> gone_in U i \<and> (\<forall>v\<in>gone_in U i. v \<le> ts_version t))"

text \<open>Two endpoints with the same name, version and time are the same.\<close>

definition agreed :: "news set \<Rightarrow> bool" where
  "agreed U \<longleftrightarrow> (\<forall>i. \<forall>e\<in>alive_in U i. \<forall>f\<in>alive_in U i. not_later e f \<longrightarrow> not_later f e \<longrightarrow> e = f)"

definition dir_view :: "directory \<Rightarrow> (string \<Rightarrow> endpoint option) \<times> (string \<Rightarrow> u64 option)" where
  "dir_view d = (om_find (d_endpoints d), \<lambda>i. map_option ts_version (om_find (d_tombstones d) i))"

lemma alive_insert: "alive_in (insert (Alive e) U) i = (if i = ep_id e then insert e (alive_in U i) else alive_in U i)"
  "alive_in (insert (Gone j v m) U) i = alive_in U i"
  by (auto simp add: alive_in_def)

lemma gone_insert: "gone_in (insert (Gone j v m) U) i = (if i = j then insert v (gone_in U i) else gone_in U i)"
  "gone_in (insert (Alive e) U) i = gone_in U i"
  by (auto simp add: gone_in_def)

lemma not_later_trans: "not_later e f \<Longrightarrow> not_later f g \<Longrightarrow> not_later e g"
  by (auto simp add: not_later_def)

lemma not_later_refl [simp]: "not_later e e"
  by (simp add: not_later_def)

lemma not_later_total: "\<not> not_later e f \<Longrightarrow> not_later f e"
  by (auto simp add: not_later_def)

lemma not_later_version: "not_later e f \<Longrightarrow> ep_version e \<le> ep_version f"
  by (auto simp add: not_later_def)

lemma not_later_less: "ep_version e < ep_version f \<Longrightarrow> not_later e f"
  by (simp add: not_later_def)

text \<open>The code's comparison.\<close>

lemma later_iff:
  "(ep_version e > ep_version old \<or> ep_version e = ep_version old \<and> ep_updated_ms e > ep_updated_ms old) \<longleftrightarrow> \<not> not_later e old"
  by (auto simp add: not_later_def)

lemma merge_endpoint_cases:
  "snd (merge_endpoint e d) =
    (if ep_id e = [] \<or> (\<exists>t. om_find (d_tombstones d) (ep_id e) = Some t \<and> ep_version e \<le> ts_version t) \<or>
        (\<exists>old. om_find (d_endpoints d) (ep_id e) = Some old \<and> not_later e old)
     then d else put_endpoint e d)"
  by (auto simp add: merge_endpoint_def not_later_def split: option.split)

lemma stands_for_alive:
  assumes d: "stands_for U d"
  shows "stands_for (insert (Alive e) U) (snd (merge_endpoint e d))"
proof -
  let ?i = "ep_id e"
  have ok: "om_ok (d_endpoints d)" "om_ok (d_tombstones d)" using d by (simp_all add: stands_for_def)
  have E: "case om_find (d_endpoints d) i of None \<Rightarrow> i = [] \<or> (\<forall>e\<in>alive_in U i. buried U i e) | Some e \<Rightarrow> current U i e" for i
    using d by (simp add: stands_for_def)
  have T: "case om_find (d_tombstones d) i of None \<Rightarrow> i = [] \<or> gone_in U i = {}
      | Some t \<Rightarrow> i \<noteq> [] \<and> ts_version t \<in> gone_in U i \<and> (\<forall>v\<in>gone_in U i. v \<le> ts_version t)" for i
    using d by (simp add: stands_for_def)
  have other: "case om_find (d_endpoints d) i of
      None \<Rightarrow> i = [] \<or> (\<forall>f\<in>alive_in (insert (Alive e) U) i. buried (insert (Alive e) U) i f)
    | Some f \<Rightarrow> current (insert (Alive e) U) i f" if "i \<noteq> ?i" for i
    using E [of i] that by (simp add: alive_insert gone_insert buried_def current_def split: option.splits)
  have tombs: "case om_find (d_tombstones d) i of None \<Rightarrow> i = [] \<or> gone_in (insert (Alive e) U) i = {}
      | Some t \<Rightarrow> i \<noteq> [] \<and> ts_version t \<in> gone_in (insert (Alive e) U) i \<and>
          (\<forall>v\<in>gone_in (insert (Alive e) U) i. v \<le> ts_version t)" for i
    using T [of i] by (simp add: gone_insert split: option.splits)
  have keep: "stands_for (insert (Alive e) U) d"
    if here: "case om_find (d_endpoints d) ?i of None \<Rightarrow> ?i = [] \<or> buried U ?i e | Some f \<Rightarrow> not_later e f"
  proof -
    have "case om_find (d_endpoints d) i of
        None \<Rightarrow> i = [] \<or> (\<forall>f\<in>alive_in (insert (Alive e) U) i. buried (insert (Alive e) U) i f)
      | Some f \<Rightarrow> current (insert (Alive e) U) i f" for i
    proof (cases "i = ?i")
      case True
      then show ?thesis using E [of ?i] here
        by (auto simp add: alive_insert gone_insert buried_def current_def split: option.splits)
    qed (rule other)
    then show ?thesis using ok tombs by (simp add: stands_for_def)
  qed
  have put: "stands_for (insert (Alive e) U) (put_endpoint e d)"
    if "?i \<noteq> []" and fresh: "\<forall>v\<in>gone_in U ?i. v < ep_version e"
      and later: "\<forall>f\<in>alive_in U ?i. not_later f e"
  proof -
    have "case om_find (d_endpoints (put_endpoint e d)) i of
        None \<Rightarrow> i = [] \<or> (\<forall>f\<in>alive_in (insert (Alive e) U) i. buried (insert (Alive e) U) i f)
      | Some f \<Rightarrow> current (insert (Alive e) U) i f" for i
    proof (cases "i = ?i")
      case True
      then show ?thesis using that
        by (simp add: put_endpoint_def om_find_set [OF ok(1)] alive_insert gone_insert current_def)
    next
      case False
      then show ?thesis using other [OF False] by (simp add: put_endpoint_def om_find_set [OF ok(1)])
    qed
    then show ?thesis using ok tombs by (simp add: stands_for_def put_endpoint_def)
  qed
  show ?thesis
  proof (cases "?i = []")
    case True
    then show ?thesis using keep E [of ?i] by (auto simp add: merge_endpoint_cases current_def split: option.splits)
  next
    case name: False
    show ?thesis
    proof (cases "\<exists>t. om_find (d_tombstones d) ?i = Some t \<and> ep_version e \<le> ts_version t")
      case True
      then obtain t where t: "om_find (d_tombstones d) ?i = Some t" "ep_version e \<le> ts_version t" by blast
      have "ts_version t \<in> gone_in U ?i" using T [of ?i] t(1) by simp
      then have "case om_find (d_endpoints d) ?i of None \<Rightarrow> ?i = [] \<or> buried U ?i e | Some f \<Rightarrow> not_later e f"
        using t(2) E [of ?i]
        by (cases "om_find (d_endpoints d) ?i") (auto simp add: buried_def current_def intro!: not_later_less intro: le_less_trans)
      then show ?thesis using keep True by (simp add: merge_endpoint_cases)
    next
      case False
      then have fresh: "\<forall>v\<in>gone_in U ?i. v < ep_version e"
        using T [of ?i] name by (fastforce simp add: not_le split: option.splits)
      show ?thesis
      proof (cases "\<exists>old. om_find (d_endpoints d) ?i = Some old \<and> not_later e old")
        case True
        then show ?thesis using keep by (auto simp add: merge_endpoint_cases)
      next
        case none: False
        have "\<forall>f\<in>alive_in U ?i. not_later f e"
        proof (cases "om_find (d_endpoints d) ?i")
          case None
          then show ?thesis using E [of ?i] name fresh by (force simp add: buried_def not_later_def)
        next
          case (Some old)
          then show ?thesis using E [of ?i] none not_later_trans not_later_total
            by (metis (mono_tags, lifting) current_def option.simps(5))
        qed
        then show ?thesis using put [OF name fresh] none False name by (auto simp add: merge_endpoint_cases)
      qed
    qed
  qed
qed


lemma stands_for_gone:
  assumes d: "stands_for U d"
  shows "stands_for (insert (Gone j v m) U) (snd (apply_removal now_ms j v m d))"
proof -
  let ?V = "insert (Gone j v m) U" and ?d = "snd (apply_removal now_ms j v m d)"
  have ok: "om_ok (d_endpoints d)" "om_ok (d_tombstones d)" using d by (simp_all add: stands_for_def)
  have E: "case om_find (d_endpoints d) i of None \<Rightarrow> i = [] \<or> (\<forall>e\<in>alive_in U i. buried U i e) | Some e \<Rightarrow> current U i e" for i
    using d by (simp add: stands_for_def)
  have T: "case om_find (d_tombstones d) i of None \<Rightarrow> i = [] \<or> gone_in U i = {}
      | Some t \<Rightarrow> i \<noteq> [] \<and> ts_version t \<in> gone_in U i \<and> (\<forall>v\<in>gone_in U i. v \<le> ts_version t)" for i
    using d by (simp add: stands_for_def)
  have ends: "om_find (d_endpoints ?d) i =
      (if i = j \<and> j \<noteq> [] \<and> (\<exists>old. om_find (d_endpoints d) j = Some old \<and> ep_version old \<le> v) then None
       else om_find (d_endpoints d) i)" for i
    by (auto simp add: apply_removal_def Let_def split: option.split prod.split)
  have tombs: "om_find (d_tombstones ?d) i =
      (if i = j \<and> j \<noteq> [] \<and> (case om_find (d_tombstones d) j of None \<Rightarrow> True | Some t \<Rightarrow> ts_version t < v)
       then Some \<lparr> ts_version = v, ts_updated_ms = m, ts_removed_ms = now_ms \<rparr> else om_find (d_tombstones d) i)" for i
    using ok by (auto simp add: apply_removal_def Let_def om_find_set split: option.split prod.split)
  have "om_ok (d_endpoints ?d)" "om_ok (d_tombstones ?d)"
    using ok by (auto simp add: apply_removal_def Let_def split: option.split prod.split)
  moreover have "case om_find (d_endpoints ?d) i of None \<Rightarrow> i = [] \<or> (\<forall>e\<in>alive_in ?V i. buried ?V i e)
      | Some e \<Rightarrow> current ?V i e" for i
  proof (cases "i = j")
    case False
    then show ?thesis using E [of i]
      by (simp add: ends alive_insert gone_insert buried_def current_def split: option.splits)
  next
    case True
    then show ?thesis using E [of i] ends [of i]
      by (auto simp add: alive_insert gone_insert buried_def current_def not_le split: option.splits
          intro: order_trans [OF not_later_version])
  qed
  moreover have "case om_find (d_tombstones ?d) i of None \<Rightarrow> i = [] \<or> gone_in ?V i = {}
      | Some t \<Rightarrow> i \<noteq> [] \<and> ts_version t \<in> gone_in ?V i \<and> (\<forall>v\<in>gone_in ?V i. v \<le> ts_version t)" for i
    using T [of i] tombs [of i]
    by (auto simp add: gone_insert split: option.splits if_splits)
  ultimately show ?thesis by (simp add: stands_for_def)
qed


lemma stands_for_unique:
  assumes d: "stands_for U d" "stands_for U d'" and U: "agreed U"
  shows "dir_view d = dir_view d'"
proof -
  have "om_find (d_endpoints d) i = om_find (d_endpoints d') i" for i
  proof -
    have E: "case om_find (d_endpoints x) i of None \<Rightarrow> i = [] \<or> (\<forall>e\<in>alive_in U i. buried U i e) | Some e \<Rightarrow> current U i e"
      if "stands_for U x" for x
      using that by (simp add: stands_for_def)
    have "current U i e \<Longrightarrow> current U i f \<Longrightarrow> e = f" for e f
      using U by (auto simp add: agreed_def current_def)
    moreover have "\<not> (current U i e \<and> (i = [] \<or> (\<forall>e\<in>alive_in U i. buried U i e)))" for e
      by (force simp add: current_def buried_def)
    ultimately show ?thesis using E [OF d(1)] E [OF d(2)] by (fastforce split: option.splits)
  qed
  moreover have "map_option ts_version (om_find (d_tombstones d) i) = map_option ts_version (om_find (d_tombstones d') i)" for i
  proof -
    have T: "case om_find (d_tombstones x) i of None \<Rightarrow> i = [] \<or> gone_in U i = {}
        | Some t \<Rightarrow> i \<noteq> [] \<and> ts_version t \<in> gone_in U i \<and> (\<forall>v\<in>gone_in U i. v \<le> ts_version t)"
      if "stands_for U x" for x
      using that by (simp add: stands_for_def)
    show ?thesis using T [OF d(1)] T [OF d(2)] by (auto split: option.splits intro: antisym)
  qed
  ultimately show ?thesis by (simp add: dir_view_def fun_eq_iff)
qed

lemma stands_for_start: "stands_for {} directory0"
  by (simp add: stands_for_def directory0_def alive_in_def gone_in_def)

interpretation dir: replica apply_news stands_for directory0 dir_view agreed
proof unfold_locales
  show "stands_for {} directory0" by (rule stands_for_start)
  show "stands_for (insert u U) (apply_news t u s)" if "stands_for U s" for U s t u
    using that by (cases u) (simp_all add: apply_news_def stands_for_alive stands_for_gone)
qed (rule stands_for_unique)

text \<open>Merging a snapshot applies its news one after the other.\<close>

lemma merge_snapshot_news:
  "snd (merge_snapshot now_ms s d) = foldl (\<lambda>d (t, u). apply_news t u d) d (map (Pair now_ms) (news_of s))"
proof -
  have a: "snd (foldl (\<lambda>(c, d) e. let (x, d) = merge_endpoint e d in (c \<or> x, d)) (c, d) es) =
      foldl (\<lambda>d (t, u). apply_news t u d) d (map (Pair now_ms) (map Alive es))" for c d es
    by (induction es arbitrary: c d) (simp_all add: apply_news_def split_beta)
  have b: "snd (foldl (\<lambda>(c, d) r. let (x, d) = apply_removal now_ms (ep_id r) (ep_version r) (ep_updated_ms r) d in (c \<or> x, d)) (c, d) rs) =
      foldl (\<lambda>d (t, u). apply_news t u d) d (map (Pair now_ms) (map (\<lambda>r. Gone (ep_id r) (ep_version r) (ep_updated_ms r)) rs))" for c d and rs :: "endpoint list"
    by (induction rs arbitrary: c d) (simp_all add: apply_news_def split_beta)
  obtain c1 d1 where one: "foldl (\<lambda>(c, d) e. let (x, d) = merge_endpoint e d in (c \<or> x, d)) (False, d) (sn_endpoints s) = (c1, d1)"
    by fastforce
  then have "d1 = foldl (\<lambda>d (t, u). apply_news t u d) d (map (Pair now_ms) (map Alive (sn_endpoints s)))"
    using a [of False d "sn_endpoints s"] by simp
  then show ?thesis
    unfolding merge_snapshot_def news_of_def map_append foldl_append one by (simp only: Let_def prod.case b [unfolded Let_def])
qed

definition merge_all :: "(u64 \<times> snapshot) list \<Rightarrow> directory \<Rightarrow> directory" where
  "merge_all ss d = foldl (\<lambda>d (t, s). snd (merge_snapshot t s d)) d ss"

definition all_news :: "(u64 \<times> snapshot) list \<Rightarrow> news set" where
  "all_news ss = (\<Union>(t, s)\<in>set ss. set (news_of s))"

lemma merge_all_news:
  "merge_all ss d = foldl (\<lambda>d (t, u). apply_news t u d) d (concat (map (\<lambda>(t, s). map (Pair t) (news_of s)) ss))"
  by (induction ss arbitrary: d) (auto simp add: merge_all_def merge_snapshot_news)

lemma all_news_concat: "snd ` set (concat (map (\<lambda>(t, s). map (Pair t) (news_of s)) ss)) = all_news ss"
  by (force simp add: all_news_def image_iff)

lemma merge_all_stands_for: "stands_for (all_news ss) (merge_all ss directory0)"
  using dir.rep_run [OF dir.rep_start, of "concat (map (\<lambda>(t, s). map (Pair t) (news_of s)) ss)"]
  unfolding merge_all_news all_news_concat by (simp only: Un_empty_left)

lemma stands_for_find:
  assumes "stands_for U d" "agreed U"
  shows "find_endpoint i d = Some e \<longleftrightarrow> current U i e"
proof -
  have E: "case om_find (d_endpoints d) i of None \<Rightarrow> i = [] \<or> (\<forall>e\<in>alive_in U i. buried U i e) | Some e \<Rightarrow> current U i e"
    using assms(1) by (simp add: stands_for_def)
  have "\<not> current U i e" if "i = [] \<or> (\<forall>e\<in>alive_in U i. buried U i e)"
    using that by (force simp add: current_def buried_def)
  moreover have "current U i e \<Longrightarrow> current U i f \<Longrightarrow> e = f" for f
    using assms(2) by (auto simp add: agreed_def current_def)
  ultimately show ?thesis using E by (auto simp add: find_endpoint_def split: option.splits)
qed

text \<open>
  C28: directories converge.  Two nodes that have merged snapshots with the same news, in any order,
  split and repeated in any way and at any times, hold the same endpoints and the same tombstones, as
  long as no two different endpoints carry the same name, version and time.  What a directory holds
  for a name is its latest endpoint, unless a removal of at least that version is among the news.
\<close>

theorem directories_converge:
  assumes "all_news ss = all_news ss'" "agreed (all_news ss)"
  shows "dir_view (merge_all ss directory0) = dir_view (merge_all ss' directory0) \<and>
    (\<forall>i e. find_endpoint i (merge_all ss directory0) = Some e \<longleftrightarrow> current (all_news ss) i e)"
  using stands_for_unique [OF merge_all_stands_for [of ss] _ assms(2)] merge_all_stands_for [of ss'] assms(1)
    stands_for_find [OF merge_all_stands_for [of ss] assms(2)] by simp

definition ex_endpoint :: "u64 \<Rightarrow> endpoint" where
  "ex_endpoint v = endpoint0\<lparr>ep_id := ''a'', ep_version := v, ep_alive := True\<rparr>"

definition ex_snapshot :: "endpoint list \<Rightarrow> endpoint list \<Rightarrow> snapshot" where
  "ex_snapshot es rs = \<lparr> sn_source_id = ''n'', sn_version = 0, sn_generated_ms = 0, sn_endpoints = es, sn_removed = rs \<rparr>"

lemma ex_news:
  "all_news [(1, ex_snapshot [ex_endpoint 1] []), (2, ex_snapshot [] [ex_endpoint 1]), (3, ex_snapshot [ex_endpoint 2] [])] =
     {Alive (ex_endpoint 1), Alive (ex_endpoint 2), Gone ''a'' 1 0}"
  "all_news [(7, ex_snapshot [ex_endpoint 2, ex_endpoint 1] [ex_endpoint 1])] =
     {Alive (ex_endpoint 1), Alive (ex_endpoint 2), Gone ''a'' 1 0}"
  "agreed {Alive (ex_endpoint 1), Alive (ex_endpoint 2), Gone ''a'' 1 0}"
  by (auto simp add: all_news_def news_of_def ex_snapshot_def ex_endpoint_def endpoint0_def agreed_def alive_in_def not_later_def)

lemma directories_converge_witness:
  "dir_view (merge_all [(1, ex_snapshot [ex_endpoint 1] []), (2, ex_snapshot [] [ex_endpoint 1]), (3, ex_snapshot [ex_endpoint 2] [])]
     directory0) =
   dir_view (merge_all [(7, ex_snapshot [ex_endpoint 2, ex_endpoint 1] [ex_endpoint 1])] directory0)"
  by (rule conjunct1 [OF directories_converge]) (simp_all add: ex_news)

section \<open>The balancer\<close>

lemma om_ok_map [simp]: "om_ok (map (\<lambda>(k, e). (k, g k e)) m) = om_ok m"
  by (simp add: om_ok_def o_def split_beta)

lemma om_find_map: "om_find (map (\<lambda>(k, e). (k, g k e)) m) k = map_option (g k) (om_find m k)"
  by (induction m) auto

lemma oldest_lru_in:
  "oldest_lru m best = Some (k, e) \<Longrightarrow> (k, e) \<in> set m \<and> se_lru e \<or> best = Some (k, e)"
  by (induction m best rule: oldest_lru.induct) (auto split: if_splits)

lemma oldest_lru_none: "oldest_lru m best = None \<Longrightarrow> best = None \<and> filter (\<lambda>(k, e). se_lru e) m = []"
proof (induction m best rule: oldest_lru.induct)
  case (2 k e m best)
  then show ?case by (cases best) (auto split: if_splits)
qed simp

lemma evict_n_ok: "om_ok m \<Longrightarrow> om_ok (evict_n n c m)"
  by (induction n c m rule: evict_n.induct) (auto split: option.split)

lemma evict_n_keeps: "om_ok m \<Longrightarrow> om_find m k = Some e \<Longrightarrow> \<not> se_lru e \<Longrightarrow> om_find (evict_n n c m) k = Some e"
proof (induction n c m rule: evict_n.induct)
  case (2 n c m)
  show ?case
  proof (cases "oldest_lru m None")
    case (Some x)
    then obtain k' e' where x: "oldest_lru m None = Some (k', e')" by (cases x) simp
    then have "om_find m k' = Some e'" "se_lru e'"
      using oldest_lru_in [OF x] om_find_mem [OF 2(2), of k' e'] by simp_all
    then have "k \<noteq> k'" using 2(3,4) by auto
    then show ?thesis using 2 x by simp
  qed (use 2 in simp)
qed simp

lemma evict_n_bound: "om_ok m \<Longrightarrow> length m \<le> n + c \<Longrightarrow> length (filter (\<lambda>(k, e). se_lru e) (evict_n n c m)) \<le> c"
proof (induction n c m rule: evict_n.induct)
  case (1 c m)
  then show ?case by (simp add: le_trans [OF length_filter_le])
next
  case (2 n c m)
  show ?case
  proof (cases "oldest_lru m None")
    case None
    then show ?thesis using oldest_lru_none [OF None] by simp
  next
    case (Some x)
    then obtain k' e' where x: "oldest_lru m None = Some (k', e')" by (cases x) simp
    then have "om_find m k' = Some e'" using oldest_lru_in [OF x] om_find_mem [OF 2(2), of k' e'] by simp
    then have "length (om_erase k' m) < length m" by (intro length_om_erase) simp
    then show ?thesis using 2 x by simp
  qed
qed

text \<open>What a pick does before it chooses.\<close>

definition refreshed :: "time \<Rightarrow> balancer \<Rightarrow> balancer" where
  "refreshed now b = b\<lparr>b_entries := evict (b_capacity b) (map (\<lambda>(k, e). (k, age_entry (b_ttl b) now e)) (b_entries b))\<rparr>"

lemma refreshed_ok: "om_ok (b_entries b) \<Longrightarrow> om_ok (b_entries (refreshed now b))"
  by (simp add: refreshed_def evict_def evict_n_ok)

lemma refreshed_bound: "om_ok (b_entries b) \<Longrightarrow> lru_size (refreshed now b) \<le> b_capacity b"
  using evict_n_bound [of "map (\<lambda>(k, e). (k, age_entry (b_ttl b) now e)) (b_entries b)" "length (b_entries b)" "b_capacity b"]
  by (simp add: refreshed_def lru_size_def evict_def)

text \<open>An entry in use, not older than the time to live.\<close>

definition holds :: "string \<Rightarrow> string \<Rightarrow> time \<Rightarrow> balancer \<Rightarrow> bool" where
  "holds key i t b \<longleftrightarrow> om_ok (b_entries b) \<and>
    (\<exists>e. om_find (b_entries b) key = Some e \<and> \<not> se_lru e \<and> se_endpoint_id e = i \<and> se_last_used e = t)"

lemma refreshed_holds: "holds key i t b \<Longrightarrow> now - t < b_ttl b \<Longrightarrow> holds key i t (refreshed now b)"
  unfolding holds_def
  by (auto simp add: refreshed_def evict_def evict_n_ok om_find_map age_entry_def intro!: evict_n_keeps)

lemma do_pick_entries [simp]: "b_entries (snd (do_pick es b)) = b_entries b" "b_ttl (snd (do_pick es b)) = b_ttl b"
  "b_capacity (snd (do_pick es b)) = b_capacity b"
  by (simp_all add: do_pick_def)

lemma refreshed_fields [simp]: "b_ttl (refreshed now b) = b_ttl b" "b_capacity (refreshed now b) = b_capacity b"
  by (simp_all add: refreshed_def)

lemma pick_session_entries:
  "\<exists>e. b_entries (snd (pick_session key es now b)) = om_set key e (b_entries b) \<and> \<not> se_lru e \<and>
     se_endpoint_id e = ep_id (fst (pick_session key es now b)) \<and> se_last_used e = now \<or>
   (\<exists>e' ep. om_find (b_entries b) key = Some e' \<and> \<not> se_lru e' \<and> find_live_endpoint es (se_endpoint_id e') = Some ep \<and>
     b_entries (snd (pick_session key es now b)) = om_set key (e'\<lparr>se_last_used := now\<rparr>) (b_entries b) \<and>
     fst (pick_session key es now b) = ep)"
  by (auto simp add: pick_session_def new_entry_def Let_def split_beta split: option.splits if_splits)


lemma pick_cases:
  assumes "es \<noteq> []" "pick hash svc m es now b = (r, b')"
  obtains s where "metadata_shard_key m = Some s" "r = Some (es ! (unat (hash s) mod length es))" "b' = refreshed now b"
  | "metadata_shard_key m = None" "\<not> metadata_sticky m \<or> metadata_sid m = None"
    "r = Some (fst (do_pick es (refreshed now b)))" "b' = snd (do_pick es (refreshed now b))"
  | sid where "metadata_shard_key m = None" "metadata_sticky m" "metadata_sid m = Some sid"
    "r = Some (fst (pick_session (sticky_key svc sid) es now (refreshed now b)))"
    "b' = snd (pick_session (sticky_key svc sid) es now (refreshed now b))"
  using assms unfolding pick_def refreshed_def [symmetric]
  by (cases "metadata_shard_key m"; cases "metadata_sticky m"; cases "metadata_sid m") (auto simp add: Let_def split_beta)

text \<open>Whose session a call belongs to.\<close>

definition session_of :: "string \<Rightarrow> metadata \<Rightarrow> string option" where
  "session_of svc m =
    (if metadata_shard_key m \<noteq> None \<or> \<not> metadata_sticky m then None else map_option (sticky_key svc) (metadata_sid m))"

datatype balancer_op =
    Pick string metadata "endpoint list" time
  | Invalidate string

fun balancer_step :: "(string \<Rightarrow> u64) \<Rightarrow> balancer \<Rightarrow> balancer_op \<Rightarrow> balancer" where
  "balancer_step hash b (Pick svc m es now) = snd (pick hash svc m es now b)"
| "balancer_step hash b (Invalidate i) = invalidate i b"

text \<open>What does not concern the session: calls of others within the time to live, and other endpoints.\<close>

fun elsewhere :: "string \<Rightarrow> string \<Rightarrow> time \<Rightarrow> time \<Rightarrow> balancer_op \<Rightarrow> bool" where
  "elsewhere key i t ttl (Pick svc m es now) \<longleftrightarrow> session_of svc m \<noteq> Some key \<and> now - t < ttl"
| "elsewhere key i t ttl (Invalidate j) \<longleftrightarrow> j \<noteq> i"

lemma holds_om_set:
  assumes "holds key i t b" "k \<noteq> key" "b_entries b' = om_set k e (b_entries b)"
  shows "holds key i t b'"
  using assms by (auto simp add: holds_def om_find_set)

lemma holds_same: "holds key i t b \<Longrightarrow> b_entries b' = b_entries b \<Longrightarrow> holds key i t b'"
  by (simp add: holds_def)

lemma pick_session_fields [simp]: "b_ttl (snd (pick_session k es now b)) = b_ttl b"
  "b_capacity (snd (pick_session k es now b)) = b_capacity b"
  by (simp_all add: pick_session_def Let_def split_beta split: option.split)

lemma balancer_step_holds:
  assumes h: "holds key i t b" and op: "elsewhere key i t (b_ttl b) op"
  shows "holds key i t (balancer_step hash b op) \<and> b_ttl (balancer_step hash b op) = b_ttl b"
proof (cases op)
  case (Invalidate j)
  then show ?thesis using h op
    by (auto simp add: holds_def invalidate_def om_find_filter om_ok_def sorted_wrt_map sorted_wrt_filter)
next
  case (Pick svc m es now)
  show ?thesis
  proof (cases "es = []")
    case True
    then show ?thesis using h by (simp add: Pick pick_def)
  next
    case False
    have r: "holds key i t (refreshed now b)" using h op by (simp add: Pick refreshed_holds)
    obtain x b' where p: "pick hash svc m es now b = (x, b')" by fastforce
    show ?thesis
    proof (rule pick_cases [OF False p])
      fix sid
      assume a: "metadata_shard_key m = None" "metadata_sticky m" "metadata_sid m = Some sid"
        "b' = snd (pick_session (sticky_key svc sid) es now (refreshed now b))"
      then have "sticky_key svc sid \<noteq> key" using op by (simp add: Pick session_of_def)
      then show ?thesis
        using pick_session_entries [of "sticky_key svc sid" es now "refreshed now b"] holds_om_set [OF r] a(4)
        by (auto simp add: Pick p)
    qed (use r holds_same [OF r] in \<open>auto simp add: Pick p\<close>)
  qed
qed

lemma balancer_run_holds:
  "holds key i t b \<Longrightarrow> list_all (elsewhere key i t (b_ttl b)) ops \<Longrightarrow>
     holds key i t (foldl (balancer_step hash) b ops) \<and> b_ttl (foldl (balancer_step hash) b ops) = b_ttl b"
proof (induction ops arbitrary: b)
  case (Cons op ops)
  then show ?case using balancer_step_holds [OF Cons.prems(1), of op hash] by simp
qed simp

lemma pick_holds:
  assumes "om_ok (b_entries b)" "session_of svc m = Some key" "pick hash svc m es now b = (Some ep, b')"
  shows "\<exists>i. holds key i now b' \<and> (i = ep_id ep) \<and> b_ttl b' = b_ttl b"
proof -
  have ne: "es \<noteq> []" using assms(3) by (auto simp add: pick_def)
  have ok: "om_ok (b_entries (refreshed now b))" by (rule refreshed_ok [OF assms(1)])
  show ?thesis
  proof (rule pick_cases [OF ne assms(3)])
    fix sid
    assume a: "metadata_sid m = Some sid" "Some ep = Some (fst (pick_session (sticky_key svc sid) es now (refreshed now b)))"
      "b' = snd (pick_session (sticky_key svc sid) es now (refreshed now b))"
    then have key: "key = sticky_key svc sid" using assms(2) by (simp add: session_of_def split: if_splits)
    have live: "find_live_endpoint es j = Some e \<Longrightarrow> ep_id e = j" for j e
      by (auto simp add: find_live_endpoint_def find_Some_iff split: option.splits if_splits)
    show ?thesis
      using pick_session_entries [of key es now "refreshed now b"] a(2,3) ok live
      by (auto simp add: holds_def key om_find_set)
  qed (use assms(2) in \<open>auto simp add: session_of_def split: if_splits\<close>)
qed

text \<open>
  C29: a session stays with its endpoint.  After a call of a session has been given an endpoint, the next
  call of the session within the time to live gets the endpoint with that name again if it is alive,
  whatever calls of other sessions, unsticky calls and invalidations of other endpoints come between.
\<close>

theorem session_sticks:
  assumes "om_ok (b_entries b)" "session_of svc m = Some key" "pick hash svc m es t b = (Some ep, b1)"
    and others: "list_all (elsewhere key (ep_id ep) t (b_ttl b)) ops"
    and again: "session_of svc m' = Some key" "now - t < b_ttl b" "find_live_endpoint es' (ep_id ep) = Some ep'"
  shows "fst (pick hash svc m' es' now (foldl (balancer_step hash) b1 ops)) = Some ep' \<and> ep_id ep' = ep_id ep \<and> ep_alive ep'"
proof -
  let ?b = "foldl (balancer_step hash) b1 ops"
  have h: "holds key (ep_id ep) t ?b" "b_ttl ?b = b_ttl b"
    using pick_holds [OF assms(1-3)] balancer_run_holds [of key "ep_id ep" t b1 ops hash] others by auto
  have r: "holds key (ep_id ep) t (refreshed now ?b)"
    using refreshed_holds [OF h(1), of now] again(2) by (simp add: h(2))
  have ne: "es' \<noteq> []" using again(3) by (auto simp add: find_live_endpoint_def)
  have ep': "ep_id ep' = ep_id ep" "ep_alive ep'"
    using again(3) by (auto simp add: find_live_endpoint_def find_Some_iff split: option.splits if_splits)
  obtain x b' where p: "pick hash svc m' es' now ?b = (x, b')" by fastforce
  show ?thesis
  proof (rule pick_cases [OF ne p])
    fix sid
    assume a: "metadata_sid m' = Some sid" "x = Some (fst (pick_session (sticky_key svc sid) es' now (refreshed now ?b)))"
    then have "key = sticky_key svc sid" using again(1) by (simp add: session_of_def split: if_splits)
    then show ?thesis using r a(2) again(3) ep' by (auto simp add: p holds_def pick_session_def)
  qed (use again(1) in \<open>auto simp add: session_of_def split: if_splits\<close>)
qed

definition ex_session :: metadata where
  "ex_session = [(''sid'', ''u''), (''sticky'', ''1'')]"

lemma session_sticks_witness:
  "fst (pick (\<lambda>_. 0) ''s'' ex_session [ex_endpoint 5] 10
     (foldl (balancer_step (\<lambda>_. 0)) (snd (pick (\<lambda>_. 0) ''s'' ex_session [ex_endpoint 1] 0 (balancer0 4 60))) [Pick ''s'' [] [ex_endpoint 2] 5]))
   = Some (ex_endpoint 5) \<and> ep_id (ex_endpoint 5) = ep_id (ex_endpoint 1) \<and> ep_alive (ex_endpoint 5)"
  by (rule session_sticks [where b = "balancer0 4 60" and svc = "''s''" and m = ex_session and es = "[ex_endpoint 1]" and t = 0])
    (simp_all add: ex_session_def ex_endpoint_def endpoint0_def balancer0_def pick_def evict_def metadata_shard_key_def
      nonempty_entry_def metadata_sticky_def is_sticky_value_def metadata_sid_def pick_session_def do_pick_def
      new_entry_def session_of_def find_live_endpoint_def)

text \<open>The marked entries never outgrow the capacity; the entries in use are not bounded.\<close>

lemma lru_om_set: "\<not> se_lru e \<Longrightarrow> length (filter (\<lambda>(k, e). se_lru e) (om_set k e m)) \<le> length (filter (\<lambda>(k, e). se_lru e) m)"
  by (induction k e m rule: om_set.induct) auto

lemma pick_session_in_use:
  "\<exists>e. \<not> se_lru e \<and> b_entries (snd (pick_session key es now b)) = om_set key e (b_entries b)"
proof (cases "\<exists>e ep. om_find (b_entries b) key = Some e \<and> \<not> se_lru e \<and> find_live_endpoint es (se_endpoint_id e) = Some ep")
  case True
  then obtain e ep where "om_find (b_entries b) key = Some e" "\<not> se_lru e" "find_live_endpoint es (se_endpoint_id e) = Some ep"
    by blast
  then show ?thesis by (intro exI [of _ "e\<lparr>se_last_used := now\<rparr>"]) (simp add: pick_session_def)
next
  case False
  then show ?thesis
    by (intro exI [of _ "new_entry (fst (do_pick es b)) now"])
      (auto simp add: pick_session_def new_entry_def Let_def split_beta split: option.split)
qed

lemma pick_lru_bound:
  assumes "om_ok (b_entries b)" "es \<noteq> []"
  shows "lru_size (snd (pick hash svc m es now b)) \<le> b_capacity b"
proof -
  obtain r b' where p: "pick hash svc m es now b = (r, b')" by fastforce
  show ?thesis
  proof (rule pick_cases [OF assms(2) p])
    fix sid
    assume "b' = snd (pick_session (sticky_key svc sid) es now (refreshed now b))"
    moreover have "\<exists>e. \<not> se_lru e \<and> b_entries (snd (pick_session (sticky_key svc sid) es now (refreshed now b))) =
        om_set (sticky_key svc sid) e (b_entries (refreshed now b))"
      by (rule pick_session_in_use)
    ultimately show ?thesis
      using refreshed_bound [OF assms(1), of now] by (auto simp add: p lru_size_def intro: order_trans [OF lru_om_set])
  qed (use refreshed_bound [OF assms(1), of now] in \<open>auto simp add: p lru_size_def\<close>)
qed

end
