(* ===== verification/Circuit_Breaker.thy ===== *)
theory Circuit_Breaker
  imports Ordered_Map Float64 "HOL-Library.List_Lexorder" "HOL-Library.Char_ord"
begin

text \<open>
  The circuit breaker of \<open>creek/src/circuit_breaker.cpp\<close>: per endpoint a state machine that stops
  calls to an endpoint that fails, and lets a few probes through after a pause.  The laws say how
  many calls an endpoint can get while its circuit is not closed, and what happens to a probe whose
  outcome is never reported.
\<close>

section \<open>State\<close>

record circuit_config =
  cb_cooldown :: time
  cb_latency_threshold_us :: u64
  cb_error_rate_threshold :: f64
  cb_consecutive_failure_threshold :: u64
  cb_min_samples :: u64
  cb_half_open_max :: u64

definition circuit_defaults :: circuit_config where
  "circuit_defaults = \<lparr> cb_cooldown = milliseconds 30000, cb_latency_threshold_us = 500000,
     cb_error_rate_threshold = 1 / 2, cb_consecutive_failure_threshold = 5, cb_min_samples = 10, cb_half_open_max = 1 \<rparr>"

datatype circuit_state = Closed | Open | HalfOpen

record endpoint_stats =
  s_total_calls :: u64
  s_errors :: u64
  s_latency_sum_us :: u64
  s_consecutive_failures :: u64
  s_opened_at :: time
  s_last_call :: time
  s_state :: circuit_state
  s_half_open_count :: u64

definition stats0 :: endpoint_stats where
  "stats0 = \<lparr> s_total_calls = 0, s_errors = 0, s_latency_sum_us = 0, s_consecutive_failures = 0,
     s_opened_at = 0, s_last_call = 0, s_state = Closed, s_half_open_count = 0 \<rparr>"

type_synonym breaker = "(string, endpoint_stats) omap"

section \<open>Operations\<close>

text \<open>\<open>endpoints_[id]\<close>.\<close>

definition entry :: "breaker \<Rightarrow> string \<Rightarrow> endpoint_stats" where
  "entry b i = (case om_find b i of None \<Rightarrow> stats0 | Some s \<Rightarrow> s)"

definition allow_probe :: "circuit_config \<Rightarrow> endpoint_stats \<Rightarrow> bool \<times> endpoint_stats" where
  "allow_probe c s =
    (if s_half_open_count s < cb_half_open_max c
     then (True, s\<lparr>s_half_open_count := s_half_open_count s + 1\<rparr>) else (False, s))"

definition allow_stats :: "circuit_config \<Rightarrow> time \<Rightarrow> endpoint_stats \<Rightarrow> bool \<times> endpoint_stats" where
  "allow_stats c now s =
    (let s = s\<lparr>s_last_call := now\<rparr>
     in case s_state s of
          Closed \<Rightarrow> (True, s)
        | Open \<Rightarrow>
            if now - s_opened_at s \<ge> cb_cooldown c
            then allow_probe c (s\<lparr>s_state := HalfOpen, s_half_open_count := 0\<rparr>) else (False, s)
        | HalfOpen \<Rightarrow> allow_probe c s)"

definition success_stats :: "u64 \<Rightarrow> endpoint_stats \<Rightarrow> endpoint_stats" where
  "success_stats latency_us s =
    (let s = s\<lparr>s_total_calls := s_total_calls s + 1, s_latency_sum_us := s_latency_sum_us s + latency_us,
               s_consecutive_failures := 0\<rparr>
     in if s_state s = HalfOpen then s\<lparr>s_state := Closed\<rparr> else s)"

definition trip :: "time \<Rightarrow> endpoint_stats \<Rightarrow> endpoint_stats" where
  "trip now s = s\<lparr>s_state := Open, s_opened_at := now\<rparr>"

definition failure_stats :: "circuit_config \<Rightarrow> time \<Rightarrow> endpoint_stats \<Rightarrow> endpoint_stats" where
  "failure_stats c now s =
    (let s = s\<lparr>s_total_calls := s_total_calls s + 1, s_errors := s_errors s + 1,
               s_consecutive_failures := s_consecutive_failures s + 1, s_last_call := now\<rparr>
     in if s_state s \<noteq> Closed then trip now s
        else if s_consecutive_failures s \<ge> cb_consecutive_failure_threshold c then trip now s
        else if s_total_calls s \<ge> cb_min_samples c
        then if fdiv (f64_of_u64 (s_errors s)) (f64_of_u64 (s_total_calls s)) \<ge> cb_error_rate_threshold c then trip now s
             else if s_total_calls s > 0 \<and> s_latency_sum_us s div s_total_calls s \<ge> cb_latency_threshold_us c then trip now s
             else s
        else s)"

definition allow :: "circuit_config \<Rightarrow> time \<Rightarrow> string \<Rightarrow> breaker \<Rightarrow> bool \<times> breaker" where
  "allow c now i b = (let (ok, s) = allow_stats c now (entry b i) in (ok, om_set i s b))"

definition record_success :: "string \<Rightarrow> u64 \<Rightarrow> breaker \<Rightarrow> breaker" where
  "record_success i latency_us b = om_set i (success_stats latency_us (entry b i)) b"

definition record_failure :: "circuit_config \<Rightarrow> time \<Rightarrow> string \<Rightarrow> breaker \<Rightarrow> breaker" where
  "record_failure c now i b = om_set i (failure_stats c now (entry b i)) b"

definition circuit_of :: "string \<Rightarrow> breaker \<Rightarrow> circuit_state" where
  "circuit_of i b = (case om_find b i of None \<Rightarrow> Closed | Some s \<Rightarrow> s_state s)"

definition stats :: "string \<Rightarrow> breaker \<Rightarrow> endpoint_stats" where
  "stats i b = (case om_find b i of None \<Rightarrow> stats0 | Some s \<Rightarrow> s)"

definition reset :: "string \<Rightarrow> breaker \<Rightarrow> breaker" where
  "reset i b = om_erase i b"

definition reset_all :: "breaker \<Rightarrow> breaker" where
  "reset_all b = []"

section \<open>Runs\<close>

datatype breaker_op = Allow time string | Success string u64 | Failure time string

fun breaker_step :: "circuit_config \<Rightarrow> breaker_op \<Rightarrow> breaker \<Rightarrow> bool \<times> breaker" where
  "breaker_step c (Allow now i) b = allow c now i b"
| "breaker_step c (Success i latency_us) b = (False, record_success i latency_us b)"
| "breaker_step c (Failure now i) b = (False, record_failure c now i b)"

text \<open>The calls of an endpoint that are let through.\<close>

fun admitted :: "circuit_config \<Rightarrow> string \<Rightarrow> breaker_op list \<Rightarrow> breaker \<Rightarrow> nat" where
  "admitted c i [] b = 0"
| "admitted c i (op # ops) b =
    (let (ok, b) = breaker_step c op b
     in (case op of Allow _ j \<Rightarrow> if j = i \<and> ok then 1 else 0 | _ \<Rightarrow> 0) + admitted c i ops b)"

fun target_of :: "breaker_op \<Rightarrow> string" where
  "target_of (Allow now i) = i"
| "target_of (Success i latency_us) = i"
| "target_of (Failure now i) = i"

text \<open>An operation in the window from \<open>T\<close> that is no success of the endpoint.\<close>

fun in_window :: "string \<Rightarrow> time \<Rightarrow> time \<Rightarrow> breaker_op \<Rightarrow> bool" where
  "in_window i T d (Allow now j) \<longleftrightarrow> j = i \<longrightarrow> T \<le> now \<and> now < T + d"
| "in_window i T d (Success j latency_us) \<longleftrightarrow> j \<noteq> i"
| "in_window i T d (Failure now j) \<longleftrightarrow> j = i \<longrightarrow> T \<le> now \<and> now < T + d"

text \<open>How many calls an endpoint can still get before \<open>T\<close> and the pause are over.\<close>

definition budget :: "circuit_config \<Rightarrow> time \<Rightarrow> endpoint_stats \<Rightarrow> nat" where
  "budget c T s =
    (case s_state s of
       Closed \<Rightarrow> 0
     | Open \<Rightarrow> if T \<le> s_opened_at s then 0 else unat (cb_half_open_max c)
     | HalfOpen \<Rightarrow> unat (cb_half_open_max c) - unat (s_half_open_count s))"

lemma step_entry:
  assumes "om_ok b"
  shows "om_ok (snd (breaker_step c op b))"
    and "j \<noteq> target_of op \<Longrightarrow> entry (snd (breaker_step c op b)) j = entry b j"
  using assms
  by (cases op; auto simp add: allow_def record_success_def record_failure_def entry_def om_find_set split_beta)+

lemma admitted_other:
  "breaker_step c op b = (ok, b') \<Longrightarrow> target_of op \<noteq> i \<Longrightarrow> admitted c i (op # ops) b = admitted c i ops b'"
  by (cases op) auto

lemma entry_set: "om_ok b \<Longrightarrow> entry (om_set i s b) i = s"
  by (simp add: entry_def om_find_set)

lemma probe_budget:
  assumes "s_state s = HalfOpen"
  shows "(if fst (allow_probe c s) then 1 else 0) + budget c T (snd (allow_probe c s)) \<le> budget c T s \<and>
    s_state (snd (allow_probe c s)) = HalfOpen"
proof (cases "s_half_open_count s < cb_half_open_max c")
  case True
  have "unat (cb_half_open_max c) < 2 ^ 64" by (rule order_less_le_trans [OF unsigned_less]) simp
  then have "unat (s_half_open_count s + 1) = unat (s_half_open_count s) + 1"
    using True by (simp add: word_less_nat_alt unat_word_ariths)
  then show ?thesis using assms True by (simp add: allow_probe_def budget_def word_less_nat_alt)
qed (simp add: allow_probe_def assms budget_def)

lemma allow_budget:
  assumes "s_state s \<noteq> Closed" "T \<le> now" "now < T + cb_cooldown c"
  shows "(if fst (allow_stats c now s) then 1 else 0) + budget c T (snd (allow_stats c now s)) \<le> budget c T s \<and>
    s_state (snd (allow_stats c now s)) \<noteq> Closed"
proof (cases "s_state s")
  case Open
  show ?thesis
  proof (cases "now - s_opened_at s \<ge> cb_cooldown c")
    case True
    then have "\<not> T \<le> s_opened_at s" using assms(3) by linarith
    then show ?thesis
      using probe_budget [of "s\<lparr>s_last_call := now, s_state := HalfOpen, s_half_open_count := 0\<rparr>" c T] True
      by (auto simp add: allow_stats_def Open budget_def)
  qed (simp add: allow_stats_def Open budget_def)
next
  case HalfOpen
  then show ?thesis using probe_budget [of "s\<lparr>s_last_call := now\<rparr>" c T] by (auto simp add: allow_stats_def budget_def)
qed (use assms(1) in simp)

lemma failure_budget:
  "s_state s \<noteq> Closed \<Longrightarrow> T \<le> now \<Longrightarrow> budget c T (failure_stats c now s) = 0 \<and> s_state (failure_stats c now s) \<noteq> Closed"
  by (simp add: failure_stats_def Let_def trip_def budget_def)

lemma admitted_budget:
  "om_ok b \<Longrightarrow> s_state (entry b i) \<noteq> Closed \<Longrightarrow> list_all (in_window i T (cb_cooldown c)) ops \<Longrightarrow>
    admitted c i ops b \<le> budget c T (entry b i)"
proof (induction ops arbitrary: b)
  case (Cons op ops)
  obtain ok b' where s: "breaker_step c op b = (ok, b')" by fastforce
  have b': "om_ok b'" using step_entry(1) [OF Cons.prems(1), of c op] by (simp add: s)
  have IH: "s_state (entry b' i) \<noteq> Closed \<Longrightarrow> admitted c i ops b' \<le> budget c T (entry b' i)"
    using Cons.IH [OF b'] Cons.prems(3) by simp
  show ?case
  proof (cases "target_of op = i")
    case False
    then have "entry b' i = entry b i" using step_entry(2) [OF Cons.prems(1), of i op c] by (simp add: s)
    then show ?thesis using IH Cons.prems(2) admitted_other [OF s False, of ops] by simp
  next
    case True
    then show ?thesis
    proof (cases op)
      case (Allow now j)
      then show ?thesis
        using True s IH Cons.prems allow_budget [of "entry b i" T now c]
        by (auto simp add: allow_def split_beta entry_set split: if_splits)
    next
      case (Failure now j)
      then show ?thesis
        using True s IH Cons.prems failure_budget [of "entry b i" T now c] by (auto simp add: record_failure_def entry_set)
    qed (use Cons.prems(3) in simp)
  qed
qed simp

text \<open>
  C30: while the circuit of an endpoint is not closed, at most \<open>half_open_max\<close> calls to it are let
  through in any period as long as the pause, whatever is reported meanwhile except a success, and
  whatever happens to other endpoints.
\<close>

theorem probes_limited:
  assumes "om_ok b" "circuit_of i b \<noteq> Closed" "list_all (in_window i T (cb_cooldown c)) ops"
  shows "admitted c i ops b \<le> unat (cb_half_open_max c)"
proof -
  have e: "s_state (entry b i) \<noteq> Closed" using assms(2) by (auto simp add: circuit_of_def entry_def split: option.splits)
  show ?thesis
    using admitted_budget [OF assms(1) e assms(3)] by (auto simp add: budget_def split: circuit_state.splits if_splits)
qed

lemma probes_limited_witness:
  "admitted circuit_defaults ''e'' [Allow (seconds 40) ''e'', Allow (seconds 41) ''e'', Failure (seconds 42) ''e'', Allow (seconds 60) ''e'']
     [(''e'', trip 0 stats0)] \<le> 1"
  using probes_limited [of "[(''e'', trip 0 stats0)]" "''e''" "seconds 40" circuit_defaults
      "[Allow (seconds 40) ''e'', Allow (seconds 41) ''e'', Failure (seconds 42) ''e'', Allow (seconds 60) ''e'']"]
  by (simp add: om_ok_Cons circuit_of_def trip_def circuit_defaults_def seconds_def milliseconds_def)

text \<open>
  A probe whose outcome is not reported blocks the endpoint for good.  Once the pause is over and
  the only probe has been let through, every later call to the endpoint is refused, however late it
  comes and whatever happens to other endpoints, until its outcome is reported or the circuit reset.
\<close>

theorem lost_probe_blocks:
  assumes "om_ok b" "circuit_of i b = Open" "s_opened_at (stats i b) + cb_cooldown c \<le> now" "cb_half_open_max c = 1"
    and "list_all (\<lambda>op. target_of op \<noteq> i \<or> (\<exists>t. op = Allow t i)) ops"
  shows "fst (allow c now i b) \<and> admitted c i ops (snd (allow c now i b)) = 0 \<and>
    circuit_of i (foldl (\<lambda>b op. snd (breaker_step c op b)) (snd (allow c now i b)) ops) = HalfOpen"
proof -
  have stuck: "admitted c i ops b = 0 \<and> circuit_of i (foldl (\<lambda>b op. snd (breaker_step c op b)) b ops) = HalfOpen"
    if "om_ok b" "om_find b i = Some s" "s_state s = HalfOpen" "s_half_open_count s = 1" for b s
    using that assms(5)
  proof (induction ops arbitrary: b s)
    case Nil
    then show ?case by (simp add: circuit_of_def)
  next
    case (Cons op ops)
    obtain ok b' where st: "breaker_step c op b = (ok, b')" by fastforce
    have b': "om_ok b'" using step_entry(1) [OF Cons.prems(1), of c op] by (simp add: st)
    show ?case
    proof (cases "target_of op = i")
      case False
      then have "om_find b' i = om_find b i"
        using st Cons.prems(1)
        by (cases op) (auto simp add: allow_def record_success_def record_failure_def om_find_set split_beta)
      then show ?thesis using Cons.IH [OF b', of s] Cons.prems(2-5) admitted_other [OF st False, of ops] by (simp add: st)
    next
      case True
      then obtain t where op: "op = Allow t i" using Cons.prems(5) by auto
      have r: "\<not> ok \<and> om_find b' i = Some (s\<lparr>s_last_call := t\<rparr>)"
        using st Cons.prems(1-4) assms(4)
        by (auto simp add: op allow_def allow_stats_def allow_probe_def entry_def om_find_set split_beta)
      show ?thesis using Cons.IH [OF b', of "s\<lparr>s_last_call := t\<rparr>"] r Cons.prems(3-5) st by (simp add: op)
    qed
  qed
  obtain s where s: "om_find b i = Some s" "s_state s = Open" using assms(2) by (auto simp add: circuit_of_def split: option.splits)
  then have "fst (allow c now i b)" "om_find (snd (allow c now i b)) i =
      Some (s\<lparr>s_last_call := now, s_state := HalfOpen, s_half_open_count := 1\<rparr>)" "om_ok (snd (allow c now i b))"
    using assms(1,3,4) by (simp_all add: allow_def allow_stats_def allow_probe_def entry_def om_find_set stats_def split_beta)
  then show ?thesis using stuck by simp
qed

lemma lost_probe_blocks_witness:
  "fst (allow circuit_defaults (seconds 30) ''e'' [(''e'', trip 0 stats0)]) \<and>
   admitted circuit_defaults ''e'' [Allow (seconds 1000) ''e'', Success ''f'' 3] (snd (allow circuit_defaults (seconds 30) ''e'' [(''e'', trip 0 stats0)])) = 0"
  using lost_probe_blocks [of "[(''e'', trip 0 stats0)]" "''e''" circuit_defaults "seconds 30" "[Allow (seconds 1000) ''e'', Success ''f'' 3]"]
  by (simp add: om_ok_Cons circuit_of_def trip_def circuit_defaults_def seconds_def milliseconds_def stats_def)

end
