(* ===== verification/Mesh_Types.thy ===== *)
theory Mesh_Types
  imports Routing
begin

text \<open>
  What the runtimes of nodes and leaves exchange: the messages of \<open>creek/proto/creek.proto\<close> as the
  code fills them in, the addresses of \<open>creek/types.hpp\<close>, and the effects of a runtime on its
  transport and its metrics.  The encoding of a message as bytes is protobuf's: \<open>ser\<close> and \<open>parse\<close>
  are parameters of the operations that use them.
\<close>

record address =
  a_host :: string
  a_port :: u16

record remote_peer =
  rp_id :: string
  rp_address :: address

record routed_request =
  rq_request_id :: string
  rq_origin_leaf :: string
  rq_origin_node :: string
  rq_destination_leaf :: string
  rq_destination_node :: string
  rq_endpoint_id :: string
  rq_rpc_name :: string
  rq_metadata :: metadata
  rq_body :: bytes
  rq_deadline_ms :: u64
  rq_hop_limit :: u32

record routed_response =
  rs_request_id :: string
  rs_origin_leaf :: string
  rs_origin_node :: string
  rs_destination_leaf :: string
  rs_destination_node :: string
  rs_body :: bytes
  rs_status :: int
  rs_error :: string
  rs_hop_limit :: u32

record stream_open =
  so_request_id :: string
  so_origin_leaf :: string
  so_origin_node :: string
  so_destination_leaf :: string
  so_destination_node :: string
  so_endpoint_id :: string
  so_rpc_name :: string
  so_metadata :: metadata
  so_deadline_ms :: u64
  so_hop_limit :: u32

record stream_frame =
  sf_request_id :: string
  sf_payload :: bytes
  sf_half_close :: bool
  sf_from_origin :: bool
  sf_origin_leaf :: string
  sf_origin_node :: string
  sf_destination_leaf :: string
  sf_destination_node :: string
  sf_hop_limit :: u32

record stream_close =
  sc_request_id :: string
  sc_status :: int
  sc_error :: string
  sc_from_origin :: bool
  sc_origin_leaf :: string
  sc_origin_node :: string
  sc_destination_leaf :: string
  sc_destination_node :: string
  sc_hop_limit :: u32

datatype wire_message =
    No_body
  | Directory snapshot
  | Request routed_request
  | Response routed_response
  | Stream_open stream_open
  | Stream_frame stream_frame
  | Stream_close stream_close

text \<open>A state of a peer as the transport reports it.\<close>

datatype peer_role = Role_node | Role_leaf

datatype peer_state = Peer_closed | Peer_handshake | Peer_established | Peer_online

record peer_event =
  pe_id :: string
  pe_role :: peer_role
  pe_state :: peer_state

text \<open>Effects: a message for a peer, with its priority, a connection, and a record of the metrics.\<close>

datatype mesh_effect =
    Send string wire_message
  | Send_priority string wire_message int
  | Connect string address
  | Metric string string nat u64 bool metadata

fun sends :: "mesh_effect list \<Rightarrow> (string \<times> wire_message) list" where
  "sends [] = []"
| "sends (Send p m # es) = (p, m) # sends es"
| "sends (Send_priority p m pr # es) = (p, m) # sends es"
| "sends (Connect p a # es) = sends es"
| "sends (Metric d r n l s m # es) = sends es"

lemma sends_append [simp]: "sends (es @ fs) = sends es @ sends fs"
  by (induction es rule: sends.induct) simp_all

definition kDefaultHopLimit :: u32 where "kDefaultHopLimit = 16"
definition kDefaultBackendHopLimit :: u32 where "kDefaultBackendHopLimit = 16"

text \<open>One hop less, or none.\<close>

definition less_hop :: "u32 \<Rightarrow> u32" where
  "less_hop h = (if h > 0 then h - 1 else 0)"

lemma unat_less_hop: "unat (less_hop h) = unat h - 1"
  by (cases "h = 0") (simp_all add: less_hop_def unat_minus_one word_neq_0_conv)

end
