(* ===== verification/Node.thy ===== *)
theory Node
  imports Mesh_Types
begin

text \<open>
  The node of the mesh, \<open>creek/src/node/node_runtime.cpp\<close>: it keeps the directory, the leaves mounted
  on it and the nodes it knows, routes requests, responses and stream messages by their destination,
  and spreads directory snapshots.  Every handler takes the lock of the node and is one step of the
  model; \<open>handle_directory\<close> and \<open>do_redis_sync_work\<close> take it several times, and the model runs their
  parts without interruption.
\<close>

section \<open>State\<close>

record node =
  n_id :: string
  n_peers :: "remote_peer list"
  n_directory :: directory
  n_leaves :: "(string, time) omap"
  n_known_node_peers :: "string list"
  n_leaf_endpoints :: "(string, string list) omap"
  n_version_counter :: u64

definition new_node :: "string \<Rightarrow> remote_peer list \<Rightarrow> u64 \<Rightarrow> node" where
  "new_node i peers now_ms = \<lparr> n_id = i, n_peers = peers, n_directory = directory0, n_leaves = [],
     n_known_node_peers = [], n_leaf_endpoints = [], n_version_counter = now_ms \<rparr>"

definition knows :: "node \<Rightarrow> string \<Rightarrow> bool" where
  "knows n i \<longleftrightarrow> i \<in> set (n_known_node_peers n)"

definition has_leaf :: "node \<Rightarrow> string \<Rightarrow> bool" where
  "has_leaf n i \<longleftrightarrow> om_find (n_leaves n) i \<noteq> None"

text \<open>The part of \<open>start\<close> that fills the state: the configured peers are connected and known.\<close>

definition connect_peers :: "node \<Rightarrow> node \<times> mesh_effect list" where
  "connect_peers n =
    (let peers = filter (\<lambda>p. rp_id p \<noteq> []) (n_peers n)
     in (n\<lparr>n_known_node_peers := foldl (\<lambda>ks p. List.insert (rp_id p) ks) (n_known_node_peers n) peers\<rparr>,
         map (\<lambda>p. Connect (rp_id p) (rp_address p)) peers))"

definition stop_node :: "node \<Rightarrow> node" where
  "stop_node n = n\<lparr>n_known_node_peers := [], n_leaves := [], n_leaf_endpoints := []\<rparr>"

text \<open>A sign of life of a leaf.\<close>

definition touch_leaf :: "time \<Rightarrow> string \<Rightarrow> node \<Rightarrow> node" where
  "touch_leaf now p n = (if has_leaf n p then n\<lparr>n_leaves := om_set p now (n_leaves n)\<rparr> else n)"

section \<open>Routing\<close>

text \<open>Sending a message and recording its size.\<close>

definition send_metric :: "(wire_message \<Rightarrow> bytes) \<Rightarrow> string \<Rightarrow> wire_message \<Rightarrow> string \<Rightarrow> string \<Rightarrow> metadata \<Rightarrow> mesh_effect list" where
  "send_metric ser dest m direction rpc md = [Send dest m, Metric direction rpc (length (ser m)) 0 True md]"

definition route_response :: "(wire_message \<Rightarrow> bytes) \<Rightarrow> node \<Rightarrow> routed_response \<Rightarrow> mesh_effect list" where
  "route_response ser n r =
    (let dest_node = rs_destination_node r; dest_leaf = rs_destination_leaf r
     in if dest_node = [] \<or> dest_node = n_id n
        then if \<not> has_leaf n dest_leaf then []
             else send_metric ser dest_leaf (Response (r\<lparr>rs_destination_node := n_id n\<rparr>)) ''node_to_leaf'' ''RoutedResponse'' []
        else if rs_hop_limit r = 0 then []
        else if \<not> knows n dest_node then []
        else send_metric ser dest_node (Response (r\<lparr>rs_hop_limit := rs_hop_limit r - 1\<rparr>)) ''node_to_node'' ''RoutedResponse'' [])"

definition error_response :: "routed_request \<Rightarrow> string \<Rightarrow> routed_response" where
  "error_response q err =
    \<lparr> rs_request_id = rq_request_id q, rs_origin_leaf = rq_destination_leaf q, rs_origin_node = rq_destination_node q,
      rs_destination_leaf = rq_origin_leaf q, rs_destination_node = rq_origin_node q, rs_body = [], rs_status = -1,
      rs_error = err, rs_hop_limit = less_hop (rq_hop_limit q) \<rparr>"

definition send_error_response :: "(wire_message \<Rightarrow> bytes) \<Rightarrow> node \<Rightarrow> routed_request \<Rightarrow> string \<Rightarrow> mesh_effect list" where
  "send_error_response ser n q err = route_response ser n (error_response q err)"

definition route_request :: "(wire_message \<Rightarrow> bytes) \<Rightarrow> node \<Rightarrow> routed_request \<Rightarrow> mesh_effect list" where
  "route_request ser n q =
    (let dest_node = rq_destination_node q; dest_leaf = rq_destination_leaf q
     in if dest_node = [] \<or> dest_node = n_id n
        then if \<not> has_leaf n dest_leaf then send_error_response ser n q ''leaf_not_found''
             else send_metric ser dest_leaf (Request (q\<lparr>rq_destination_node := n_id n\<rparr>)) ''node_to_leaf'' ''RoutedRequest''
                    (rq_metadata q)
        else if rq_hop_limit q = 0 then send_error_response ser n q ''hop_limit_exceeded''
        else if \<not> knows n dest_node then send_error_response ser n q ''node_not_found''
        else send_metric ser dest_node (Request (q\<lparr>rq_hop_limit := rq_hop_limit q - 1\<rparr>)) ''node_to_node'' ''RoutedRequest''
               (rq_metadata q))"

definition route_stream_frame :: "(wire_message \<Rightarrow> bytes) \<Rightarrow> node \<Rightarrow> stream_frame \<Rightarrow> mesh_effect list" where
  "route_stream_frame ser n f =
    (let dest_node = sf_destination_node f; dest_leaf = sf_destination_leaf f
     in if dest_node = [] \<or> dest_node = n_id n
        then if \<not> has_leaf n dest_leaf then []
             else send_metric ser dest_leaf (Stream_frame (f\<lparr>sf_destination_node := n_id n\<rparr>)) ''node_to_leaf'' ''RoutedStreamFrame'' []
        else if sf_hop_limit f = 0 then []
        else if \<not> knows n dest_node then []
        else send_metric ser dest_node (Stream_frame (f\<lparr>sf_hop_limit := sf_hop_limit f - 1\<rparr>)) ''node_to_node'' ''RoutedStreamFrame'' [])"

definition route_stream_close :: "(wire_message \<Rightarrow> bytes) \<Rightarrow> node \<Rightarrow> stream_close \<Rightarrow> mesh_effect list" where
  "route_stream_close ser n c =
    (let dest_node = sc_destination_node c; dest_leaf = sc_destination_leaf c
     in if dest_node = [] \<or> dest_node = n_id n
        then if \<not> has_leaf n dest_leaf then []
             else send_metric ser dest_leaf (Stream_close (c\<lparr>sc_destination_node := n_id n\<rparr>)) ''node_to_leaf'' ''RoutedStreamClose'' []
        else if sc_hop_limit c = 0 then []
        else if \<not> knows n dest_node then []
        else send_metric ser dest_node (Stream_close (c\<lparr>sc_hop_limit := sc_hop_limit c - 1\<rparr>)) ''node_to_node'' ''RoutedStreamClose'' [])"

definition refusal :: "stream_open \<Rightarrow> string \<Rightarrow> stream_close" where
  "refusal s err =
    \<lparr> sc_request_id = so_request_id s, sc_status = -1, sc_error = err, sc_from_origin = False,
      sc_origin_leaf = so_destination_leaf s, sc_origin_node = so_destination_node s,
      sc_destination_leaf = so_origin_leaf s, sc_destination_node = so_origin_node s,
      sc_hop_limit = less_hop (so_hop_limit s) \<rparr>"

definition send_stream_close :: "(wire_message \<Rightarrow> bytes) \<Rightarrow> node \<Rightarrow> stream_open \<Rightarrow> string \<Rightarrow> mesh_effect list" where
  "send_stream_close ser n s err = route_stream_close ser n (refusal s err)"

definition route_stream_open :: "(wire_message \<Rightarrow> bytes) \<Rightarrow> node \<Rightarrow> stream_open \<Rightarrow> mesh_effect list" where
  "route_stream_open ser n s =
    (let dest_node = so_destination_node s; dest_leaf = so_destination_leaf s
     in if dest_node = [] \<or> dest_node = n_id n
        then if \<not> has_leaf n dest_leaf then send_stream_close ser n s ''leaf_not_found''
             else send_metric ser dest_leaf (Stream_open (s\<lparr>so_destination_node := n_id n\<rparr>)) ''node_to_leaf'' ''RoutedStreamOpen'' []
        else if so_hop_limit s = 0 then send_stream_close ser n s ''hop_limit_exceeded''
        else if \<not> knows n dest_node then send_stream_close ser n s ''node_not_found''
        else send_metric ser dest_node (Stream_open (s\<lparr>so_hop_limit := so_hop_limit s - 1\<rparr>)) ''node_to_node'' ''RoutedStreamOpen'' [])"

section \<open>Handlers\<close>

definition direction_of :: "node \<Rightarrow> string \<Rightarrow> string" where
  "direction_of n p = (if has_leaf n p then ''leaf_to_node'' else ''node_to_node'')"

definition handle_request :: "(wire_message \<Rightarrow> bytes) \<Rightarrow> time \<Rightarrow> string \<Rightarrow> routed_request \<Rightarrow> nat \<Rightarrow> node \<Rightarrow> node \<times> mesh_effect list" where
  "handle_request ser now p q raw_size n =
    (touch_leaf now p n,
     route_request ser (touch_leaf now p n) q @ [Metric (direction_of n p) (rq_rpc_name q) raw_size 0 True (rq_metadata q)])"

definition handle_response :: "(wire_message \<Rightarrow> bytes) \<Rightarrow> routed_response \<Rightarrow> nat \<Rightarrow> node \<Rightarrow> node \<times> mesh_effect list" where
  "handle_response ser r raw_size n =
    (n, route_response ser n r @ [Metric ''node_to_node'' ''RoutedResponse'' raw_size 0 True []])"

definition handle_stream_open :: "(wire_message \<Rightarrow> bytes) \<Rightarrow> time \<Rightarrow> string \<Rightarrow> stream_open \<Rightarrow> nat \<Rightarrow> node \<Rightarrow> node \<times> mesh_effect list" where
  "handle_stream_open ser now p s raw_size n =
    (touch_leaf now p n,
     route_stream_open ser (touch_leaf now p n) s @ [Metric (direction_of n p) (so_rpc_name s) raw_size 0 True []])"

definition handle_stream_frame :: "(wire_message \<Rightarrow> bytes) \<Rightarrow> time \<Rightarrow> string \<Rightarrow> stream_frame \<Rightarrow> nat \<Rightarrow> node \<Rightarrow> node \<times> mesh_effect list" where
  "handle_stream_frame ser now p f raw_size n =
    (touch_leaf now p n,
     route_stream_frame ser (touch_leaf now p n) f @ [Metric ''node_to_node'' ''RoutedStreamFrame'' raw_size 0 True []])"

definition handle_stream_close :: "(wire_message \<Rightarrow> bytes) \<Rightarrow> time \<Rightarrow> string \<Rightarrow> stream_close \<Rightarrow> nat \<Rightarrow> node \<Rightarrow> node \<times> mesh_effect list" where
  "handle_stream_close ser now p c raw_size n =
    (touch_leaf now p n,
     route_stream_close ser (touch_leaf now p n) c @ [Metric ''node_to_node'' ''RoutedStreamClose'' raw_size 0 True []])"

section \<open>The directory\<close>

definition push_to_leaves :: "(wire_message \<Rightarrow> bytes) \<Rightarrow> u64 \<Rightarrow> node \<Rightarrow> node \<times> mesh_effect list" where
  "push_to_leaves ser now_ms n =
    (let (s, d) = take_snapshot now_ms (n_id n) (n_directory n)
     in (n\<lparr>n_directory := d\<rparr>,
         concat (map (\<lambda>(l, t). send_metric ser l (Directory s) ''node_to_leaf'' ''DirectorySnapshot'' []) (n_leaves n))))"

definition broadcast_snapshot :: "(wire_message \<Rightarrow> bytes) \<Rightarrow> u64 \<Rightarrow> node \<Rightarrow> node \<times> mesh_effect list" where
  "broadcast_snapshot ser now_ms n =
    (let (s, d) = take_snapshot now_ms (n_id n) (n_directory n);
         configured = filter (\<lambda>i. i \<noteq> []) (map rp_id (n_peers n));
         others = filter (\<lambda>i. i \<noteq> n_id n \<and> i \<notin> set (map rp_id (n_peers n))) (n_known_node_peers n)
     in (n\<lparr>n_directory := d\<rparr>,
         concat (map (\<lambda>i. send_metric ser i (Directory s) ''node_to_node'' ''DirectorySnapshot'' []) (configured @ others)) @
         concat (map (\<lambda>(l, t). send_metric ser l (Directory s) ''node_to_leaf'' ''DirectorySnapshot'' []) (n_leaves n))))"

text \<open>The endpoints of the leaf get versions of this node, in the order of the snapshot.\<close>

fun adopt :: "string \<Rightarrow> string \<Rightarrow> u64 \<Rightarrow> endpoint list \<Rightarrow> u64 \<Rightarrow> endpoint list \<times> string list \<times> u64" where
  "adopt me p now_ms [] v = ([], [], v)"
| "adopt me p now_ms (e # es) v =
    (if ep_owner_leaf e = p
     then let (es, ids, v') = adopt me p now_ms es (v + 1)
          in (e\<lparr>ep_owner_node := me, ep_version := v + 1, ep_updated_ms := now_ms\<rparr> # es, List.insert (ep_id e) ids, v')
     else let (es, ids, v') = adopt me p now_ms es v in (e # es, ids, v'))"

text \<open>What the leaf no longer lists is removed with versions of this node.\<close>

fun vanished :: "u64 \<Rightarrow> string list \<Rightarrow> string list \<Rightarrow> u64 \<Rightarrow> endpoint list \<times> u64" where
  "vanished now_ms now_there [] v = ([], v)"
| "vanished now_ms now_there (i # is) v =
    (if i \<in> set now_there then vanished now_ms now_there is v
     else let (rs, v') = vanished now_ms now_there is (v + 1)
          in (endpoint0\<lparr>ep_id := i, ep_version := v + 1, ep_updated_ms := now_ms\<rparr> # rs, v'))"

definition adopt_snapshot :: "u64 \<Rightarrow> string \<Rightarrow> snapshot \<Rightarrow> node \<Rightarrow> snapshot \<times> node" where
  "adopt_snapshot now_ms p s n =
    (let (es, ids, v) = adopt (n_id n) p now_ms (sn_endpoints s) (n_version_counter n);
         (rs, v) = (case om_find (n_leaf_endpoints n) p of None \<Rightarrow> ([], v) | Some old \<Rightarrow> vanished now_ms ids old v)
     in (s\<lparr>sn_endpoints := es, sn_removed := sn_removed s @ rs\<rparr>,
         n\<lparr>n_version_counter := v, n_leaf_endpoints := om_set p ids (n_leaf_endpoints n)\<rparr>))"

definition handle_directory :: "(wire_message \<Rightarrow> bytes) \<Rightarrow> time \<Rightarrow> u64 \<Rightarrow> string \<Rightarrow> snapshot \<Rightarrow> nat \<Rightarrow> node \<Rightarrow> node \<times> mesh_effect list" where
  "handle_directory ser now now_ms p s raw_size n =
    (let from_leaf = has_leaf n p; from_node = \<not> from_leaf \<and> knows n p;
         n = touch_leaf now p n;
         (s, n) = (if from_leaf then adopt_snapshot now_ms p s n else (s, n));
         n = n\<lparr>n_directory := snd (merge_snapshot now_ms s (n_directory n))\<rparr>;
         (n, es) = (if from_leaf then broadcast_snapshot ser now_ms n
                    else if from_node then push_to_leaves ser now_ms n else (n, []))
     in (n, es @ (if from_leaf \<or> from_node then [Metric ''node_to_node'' ''DirectorySnapshot'' raw_size 0 True []] else [])))"

text \<open>The endpoints of a leaf that went away are marked dead with new versions.\<close>

fun kill_owned :: "string \<Rightarrow> u64 \<Rightarrow> endpoint list \<Rightarrow> u64 \<Rightarrow> endpoint list \<times> bool \<times> u64" where
  "kill_owned l now_ms [] v = ([], False, v)"
| "kill_owned l now_ms (e # es) v =
    (if ep_owner_leaf e = l
     then let (es, c, v') = kill_owned l now_ms es (v + 1)
          in (e\<lparr>ep_alive := False, ep_version := v + 1, ep_updated_ms := now_ms\<rparr> # es, True, v')
     else let (es, c, v') = kill_owned l now_ms es v in (e # es, c, v'))"

definition revoke_leaf :: "(wire_message \<Rightarrow> bytes) \<Rightarrow> u64 \<Rightarrow> string \<Rightarrow> node \<Rightarrow> node \<times> mesh_effect list" where
  "revoke_leaf ser now_ms l n =
    (let (s, d) = take_snapshot now_ms (n_id n) (n_directory n);
         (es, changed, v) = kill_owned l now_ms (sn_endpoints s) (n_version_counter n);
         n = n\<lparr>n_directory := d, n_version_counter := v\<rparr>
     in if changed
        then broadcast_snapshot ser now_ms
               (n\<lparr>n_directory := snd (merge_snapshot now_ms (s\<lparr>sn_endpoints := es\<rparr>) d),
                  n_leaf_endpoints := om_erase l (n_leaf_endpoints n)\<rparr>)
        else (n\<lparr>n_leaf_endpoints := om_erase l (n_leaf_endpoints n)\<rparr>, []))"

definition on_peer_event :: "(wire_message \<Rightarrow> bytes) \<Rightarrow> time \<Rightarrow> u64 \<Rightarrow> peer_event \<Rightarrow> node \<Rightarrow> node \<times> mesh_effect list" where
  "on_peer_event ser now now_ms ev n =
    (if pe_role ev = Role_leaf
     then if pe_state ev = Peer_closed
          then if has_leaf n (pe_id ev)
               then revoke_leaf ser now_ms (pe_id ev) (n\<lparr>n_leaves := om_erase (pe_id ev) (n_leaves n)\<rparr>)
               else (n, [])
          else (n\<lparr>n_leaves := om_set (pe_id ev) now (n_leaves n)\<rparr>, [])
     else if pe_state ev = Peer_closed
     then (n\<lparr>n_known_node_peers := removeAll (pe_id ev) (n_known_node_peers n)\<rparr>, [])
     else (n\<lparr>n_known_node_peers := List.insert (pe_id ev) (n_known_node_peers n)\<rparr>, []))"

definition do_sync_work :: "(wire_message \<Rightarrow> bytes) \<Rightarrow> u64 \<Rightarrow> node \<Rightarrow> node \<times> mesh_effect list" where
  "do_sync_work = broadcast_snapshot"

text \<open>\<open>nodes\<close> and \<open>leaves\<close> are what Redis returned, with their addresses parsed (\<open>None\<close>: not an address).\<close>

definition discover_node :: "string \<times> address option \<Rightarrow> node \<times> mesh_effect list \<Rightarrow> node \<times> mesh_effect list" where
  "discover_node x b =
    (let (i, addr) = x; (n, es) = b
     in if i = n_id n \<or> knows n i then (n, es)
        else case addr of
               None \<Rightarrow> (n, es)
             | Some a \<Rightarrow> (n\<lparr>n_known_node_peers := List.insert i (n_known_node_peers n)\<rparr>, es @ [Connect i a]))"

definition discover_leaf :: "time \<Rightarrow> string \<times> address option \<Rightarrow> node \<times> mesh_effect list \<Rightarrow> node \<times> mesh_effect list" where
  "discover_leaf now x b =
    (let (i, addr) = x; (n, es) = b
     in if has_leaf n i then (n, es)
        else case addr of
               None \<Rightarrow> (n, es)
             | Some a \<Rightarrow> (n\<lparr>n_leaves := om_set i now (n_leaves n)\<rparr>, es @ [Connect i a]))"

definition do_redis_sync_work ::
  "time \<Rightarrow> (string \<times> address option) list \<Rightarrow> (string \<Rightarrow> (string \<times> address option) list) \<Rightarrow> node \<Rightarrow> node \<times> mesh_effect list" where
  "do_redis_sync_work now nodes leaves n =
    (let b = foldl (\<lambda>b x. discover_node x b) (n, []) nodes
     in foldl (\<lambda>b (i, a). if i = n_id n then b else foldl (\<lambda>b x. discover_leaf now x b) b (leaves i)) b nodes)"

section \<open>Messages\<close>

definition dispatch :: "(wire_message \<Rightarrow> bytes) \<Rightarrow> time \<Rightarrow> u64 \<Rightarrow> string \<Rightarrow> wire_message \<Rightarrow> nat \<Rightarrow> node \<Rightarrow> node \<times> mesh_effect list" where
  "dispatch ser now now_ms p m raw_size n =
    (case m of
       No_body \<Rightarrow> (n, [])
     | Directory s \<Rightarrow> handle_directory ser now now_ms p s raw_size n
     | Request q \<Rightarrow> handle_request ser now p q raw_size n
     | Response r \<Rightarrow> handle_response ser r raw_size n
     | Stream_open s \<Rightarrow> handle_stream_open ser now p s raw_size n
     | Stream_frame f \<Rightarrow> handle_stream_frame ser now p f raw_size n
     | Stream_close c \<Rightarrow> handle_stream_close ser now p c raw_size n)"

definition on_message ::
  "(wire_message \<Rightarrow> bytes) \<Rightarrow> (bytes \<Rightarrow> wire_message option) \<Rightarrow> time \<Rightarrow> u64 \<Rightarrow> string \<Rightarrow> bytes \<Rightarrow> node \<Rightarrow> node \<times> mesh_effect list" where
  "on_message ser parse now now_ms p payload n =
    (if payload = [] then (n, [])
     else case parse payload of
            None \<Rightarrow> (n, [])
          | Some m \<Rightarrow> dispatch ser now now_ms p m (length payload) n)"

text \<open>A message of a batch: a datagram with its source, a notice of a peer, or something else.\<close>

datatype batch_message = Udp_datagram string bytes | Peer_notice peer_event | Other_message

definition process_batch ::
  "(wire_message \<Rightarrow> bytes) \<Rightarrow> (bytes \<Rightarrow> wire_message option) \<Rightarrow> time \<Rightarrow> u64 \<Rightarrow> batch_message list \<Rightarrow> node \<Rightarrow> node \<times> mesh_effect list" where
  "process_batch ser parse now now_ms batch n =
    foldl (\<lambda>(n, es) m.
      let (n, fs) = (case m of
            Udp_datagram p payload \<Rightarrow>
              (case parse payload of None \<Rightarrow> (n, []) | Some w \<Rightarrow> dispatch ser now now_ms p w (length payload) n)
          | Peer_notice ev \<Rightarrow> on_peer_event ser now now_ms ev n
          | Other_message \<Rightarrow> (n, []))
      in (n, es @ fs)) (n, []) batch"

end
