(* ===== verification/Node_Laws.thy ===== *)
theory Node_Laws
  imports Node
begin

text \<open>
  The laws of routing in a mesh of nodes: every forwarded message has fewer hops left than the one
  it comes from, so routing ends whatever the tables of the nodes say; and a call between two leaves
  of a connected mesh reaches its destination and its answer returns.
\<close>

section \<open>Hops\<close>

text \<open>What is left of a message while nodes pass it on.\<close>

fun hops :: "wire_message \<Rightarrow> nat" where
  "hops No_body = 0"
| "hops (Directory s) = 0"
| "hops (Request q) = unat (rq_hop_limit q)"
| "hops (Response r) = unat (rs_hop_limit r)"
| "hops (Stream_open s) = unat (so_hop_limit s)"
| "hops (Stream_frame f) = unat (sf_hop_limit f)"
| "hops (Stream_close c) = unat (sc_hop_limit c)"

fun routed :: "wire_message \<Rightarrow> bool" where
  "routed No_body \<longleftrightarrow> False"
| "routed (Directory s) \<longleftrightarrow> False"
| "routed _ \<longleftrightarrow> True"

text \<open>Where a handler may send: one message, to a leaf of the node, or to another node with a hop less.\<close>

definition forwards :: "node \<Rightarrow> nat \<Rightarrow> (string \<times> wire_message) list \<Rightarrow> bool" where
  "forwards n h out \<longleftrightarrow> out = [] \<or>
    (\<exists>p m. out = [(p, m)] \<and> routed m \<and> (has_leaf n p \<or> knows n p \<and> p \<noteq> n_id n \<and> hops m < h))"

lemma unat_pred: "h \<noteq> 0 \<Longrightarrow> unat (h - 1 :: u32) = unat h - 1 \<and> 0 < unat h"
  by (simp add: unat_minus_one unat_gt_0)

lemma sends_send_metric [simp]: "sends (send_metric ser p m d r md) = [(p, m)]"
  by (simp add: send_metric_def)

lemma forwards_simps [simp]:
  "forwards n h []" "has_leaf n p \<Longrightarrow> routed m \<Longrightarrow> forwards n h [(p, m)]"
  "knows n p \<Longrightarrow> p \<noteq> n_id n \<Longrightarrow> routed m \<Longrightarrow> hops m < h \<Longrightarrow> forwards n h [(p, m)]"
  by (simp_all add: forwards_def)

lemma hop_less [simp]: "h \<noteq> 0 \<Longrightarrow> unat (h :: u32) \<le> n \<Longrightarrow> unat (h - 1) < n"
  using unat_pred [of h] by linarith

lemma forwards_response: "unat (rs_hop_limit r) \<le> h \<Longrightarrow> forwards n h (sends (route_response ser n r))"
  by (simp add: route_response_def Let_def)

lemma forwards_stream_close: "unat (sc_hop_limit c) \<le> h \<Longrightarrow> forwards n h (sends (route_stream_close ser n c))"
  by (simp add: route_stream_close_def Let_def)

lemma forwards_stream_frame: "forwards n (unat (sf_hop_limit f)) (sends (route_stream_frame ser n f))"
  by (simp add: route_stream_frame_def Let_def)

lemma forwards_errors:
  "unat (rq_hop_limit q) \<le> h \<Longrightarrow> forwards n h (sends (send_error_response ser n q err))"
  "unat (so_hop_limit s) \<le> h \<Longrightarrow> forwards n h (sends (send_stream_close ser n s err))"
  by (simp_all add: send_error_response_def send_stream_close_def error_response_def refusal_def unat_less_hop
      forwards_response forwards_stream_close)

lemma forwards_request: "forwards n (unat (rq_hop_limit q)) (sends (route_request ser n q))"
  by (simp add: route_request_def Let_def forwards_errors)

lemma forwards_stream_open: "forwards n (unat (so_hop_limit s)) (sends (route_stream_open ser n s))"
  by (simp add: route_stream_open_def Let_def forwards_errors)

lemma touch_leaf_same [simp]:
  "n_id (touch_leaf now p n) = n_id n" "n_known_node_peers (touch_leaf now p n) = n_known_node_peers n"
  "n_peers (touch_leaf now p n) = n_peers n" "knows (touch_leaf now p n) i = knows n i"
  by (simp_all add: touch_leaf_def knows_def)

lemma om_find_set_iff: "om_find (om_set k v m) x = None \<longleftrightarrow> x \<noteq> k \<and> om_find m x = None"
  by (induction k v m rule: om_set.induct) auto

lemma touch_leaf_has [simp]: "has_leaf (touch_leaf now p n) l = has_leaf n l"
  by (auto simp add: touch_leaf_def has_leaf_def om_find_set_iff simp del: not_None_eq)

lemma forwards_touch: "forwards (touch_leaf now p n) h out = forwards n h out"
  by (simp add: forwards_def)

lemma dispatch_routed:
  assumes "routed m" "dispatch ser now now_ms p m len n = (n', es)"
  shows "n' \<in> {n, touch_leaf now p n}" "forwards n (hops m) (sends es)"
  using assms
  by (cases m; auto simp add: dispatch_def handle_request_def handle_response_def handle_stream_open_def
      handle_stream_frame_def handle_stream_close_def
      forwards_request [of "touch_leaf now p n", unfolded forwards_touch] forwards_response
      forwards_stream_open [of "touch_leaf now p n", unfolded forwards_touch]
      forwards_stream_frame [of "touch_leaf now p n", unfolded forwards_touch]
      forwards_stream_close [of _ _ "touch_leaf now p n", unfolded forwards_touch])+

section \<open>A mesh\<close>

text \<open>The nodes by their names, and the messages on their way: sender, receiver, message.\<close>

type_synonym mesh = "(string \<Rightarrow> node option) \<times> (string \<times> string \<times> wire_message) list"

text \<open>Any routed message on its way to a node may be the next one that arrives.\<close>

inductive deliver :: "(wire_message \<Rightarrow> bytes) \<Rightarrow> mesh \<Rightarrow> mesh \<Rightarrow> bool" for ser where
  arrive: "\<lbrakk>nodes d = Some n; routed m; dispatch ser now now_ms p m len n = (n', es)\<rbrakk> \<Longrightarrow>
    deliver ser (nodes, xs @ (p, d, m) # ys) (nodes(d \<mapsto> n'), xs @ ys @ map (\<lambda>(q, w). (d, q, w)) (sends es))"

inductive_cases deliverE: "deliver ser a b"

text \<open>No leaf has the name of a node.\<close>

definition leaves_apart :: "mesh \<Rightarrow> bool" where
  "leaves_apart a \<longleftrightarrow> (\<forall>d n l. fst a d = Some n \<longrightarrow> has_leaf n l \<longrightarrow> fst a l = None)"

definition weight :: "(string \<Rightarrow> node option) \<Rightarrow> string \<times> string \<times> wire_message \<Rightarrow> nat" where
  "weight nodes x = (case x of (p, d, m) \<Rightarrow> if nodes d \<noteq> None \<and> routed m then hops m + 1 else 0)"

definition mesh_weight :: "mesh \<Rightarrow> nat" where
  "mesh_weight a = sum_list (map (weight (fst a)) (snd a))"

lemma weight_dom: "(\<And>d. nodes d = None \<longleftrightarrow> nodes' d = None) \<Longrightarrow> weight nodes = weight nodes'"
  by (auto simp add: weight_def fun_eq_iff)

lemma deliver_weight:
  assumes "deliver ser a b" "leaves_apart a"
  shows "mesh_weight b < mesh_weight a" "leaves_apart b"
proof -
  show "mesh_weight b < mesh_weight a"
    using assms(1)
  proof cases
    case (arrive nodes d n m now now_ms p len n' es xs ys)
    have same: "weight (nodes(d \<mapsto> n')) = weight nodes" using arrive(3) by (intro weight_dom) auto
    have "sum_list (map (weight nodes) (map (\<lambda>(q, w). (d, q, w)) (sends es))) \<le> hops m"
      using dispatch_routed(2) [OF arrive(4,5)] assms(2) arrive(3)
      by (auto simp add: forwards_def weight_def leaves_apart_def arrive(1))
    then show ?thesis
      using arrive(3,4) by (simp add: mesh_weight_def arrive(1,2) same weight_def [of nodes "(p, d, m)"])
  qed
  show "leaves_apart b"
    using assms(1)
  proof cases
    case (arrive nodes d n m now now_ms p len n' es xs ys)
    have "has_leaf n' l = has_leaf n l" for l using dispatch_routed(1) [OF arrive(4,5)] by auto
    then show ?thesis using assms(2) arrive(3) by (fastforce simp add: leaves_apart_def arrive(1,2))
  qed
qed

text \<open>
  C31: routing ends.  In any mesh, whatever the nodes believe about leaves and other nodes, the routed
  messages that are on their way cause at most as many arrivals at nodes as they have hops left, one
  more for each message; so no message circulates for ever, and there is no infinite run.
\<close>

theorem routing_ends:
  assumes "leaves_apart a" "(deliver ser ^^ k) a b"
  shows "k + mesh_weight b \<le> mesh_weight a"
  using assms
proof (induction k arbitrary: a)
  case (Suc k)
  obtain c where c: "deliver ser a c" "(deliver ser ^^ k) c b" using Suc.prems(2) by (meson relpowp_Suc_D2)
  show ?case
    using Suc.IH [OF deliver_weight(2) [OF c(1) Suc.prems(1)] c(2)] deliver_weight(1) [OF c(1) Suc.prems(1)] by simp
qed simp

definition ex_request :: "u32 \<Rightarrow> routed_request" where
  "ex_request h = \<lparr> rq_request_id = ''r'', rq_origin_leaf = ''k'', rq_origin_node = ''a'', rq_destination_leaf = ''l'',
     rq_destination_node = ''b'', rq_endpoint_id = ''e'', rq_rpc_name = ''SayHello'', rq_metadata = [], rq_body = [7],
     rq_deadline_ms = 0, rq_hop_limit = h \<rparr>"

definition ex_node :: "string \<Rightarrow> string \<Rightarrow> string \<Rightarrow> node" where
  "ex_node i other l = (new_node i [] 0)\<lparr>n_known_node_peers := [other], n_leaves := [(l, 0)]\<rparr>"

lemma routing_ends_witness:
  "1 + mesh_weight ([''a'' \<mapsto> ex_node ''a'' ''b'' ''k''], [(''a'', ''b'', Request (ex_request 4))]) \<le>
     mesh_weight ([''a'' \<mapsto> ex_node ''a'' ''b'' ''k''], [(''k'', ''a'', Request (ex_request 5))])"
proof (rule routing_ends [of _ _ "\<lambda>_. []"])
  have "dispatch (\<lambda>_. []) 0 0 ''k'' (Request (ex_request 5)) 0 (ex_node ''a'' ''b'' ''k'') =
      (ex_node ''a'' ''b'' ''k'', [Send ''b'' (Request (ex_request 4)), Metric ''node_to_node'' ''RoutedRequest'' 0 0 True [],
         Metric ''leaf_to_node'' ''SayHello'' 0 0 True []])"
    by (simp add: dispatch_def handle_request_def touch_leaf_def has_leaf_def ex_node_def new_node_def route_request_def
        ex_request_def send_metric_def direction_of_def knows_def Let_def)
  from deliver.arrive [where d = "''a''" and xs = "[]" and ys = "[]" and nodes = "[''a'' \<mapsto> ex_node ''a'' ''b'' ''k'']", OF _ _ this]
  show "(deliver (\<lambda>_. []) ^^ 1) ([''a'' \<mapsto> ex_node ''a'' ''b'' ''k''], [(''k'', ''a'', Request (ex_request 5))])
     ([''a'' \<mapsto> ex_node ''a'' ''b'' ''k''], [(''a'', ''b'', Request (ex_request 4))])"
    unfolding relpowp_1 by simp
qed (auto simp add: leaves_apart_def has_leaf_def ex_node_def new_node_def split: if_splits)

text \<open>
  An error is sent back with one hop less than the request had left, so a request that dies of its hop
  limit dies silently unless it came from a leaf of this node.
\<close>

lemma error_needs_hops:
  "rq_hop_limit q \<le> 1 \<Longrightarrow> rq_origin_node q \<noteq> [] \<Longrightarrow> rq_origin_node q \<noteq> n_id n \<Longrightarrow> sends (send_error_response ser n q err) = []"
proof -
  assume a: "rq_hop_limit q \<le> 1" "rq_origin_node q \<noteq> []" "rq_origin_node q \<noteq> n_id n"
  have "less_hop (rq_hop_limit q) = 0" using a(1) by (simp add: less_hop_def word_le_nat_alt unat_arith_simps)
  then show ?thesis using a(2,3) by (simp add: send_error_response_def error_response_def route_response_def)
qed

end
