(* ===== verification/Text.thy ===== *)
theory Text
  imports Mesh_Types
begin

text \<open>
  Text as the sources handle it: searching, numbers as \<open>std::to_string\<close> prints and \<open>std::stoul\<close> and
  \<open>std::stoi\<close> scan them, and on top of these the addresses, peers and metadata of
  \<open>creek/src/types.cpp\<close> and \<open>creek/src/runtime_wire.hpp\<close>.
\<close>

section \<open>Searching\<close>

text \<open>\<open>s.find(c)\<close> and \<open>s.rfind(c)\<close>.\<close>

fun find_char :: "char \<Rightarrow> string \<Rightarrow> nat option" where
  "find_char c [] = None"
| "find_char c (x # s) = (if x = c then Some 0 else map_option Suc (find_char c s))"

definition rfind_char :: "char \<Rightarrow> string \<Rightarrow> nat option" where
  "rfind_char c s = map_option (\<lambda>i. length s - 1 - i) (find_char c (rev s))"

text \<open>\<open>s.substr(a, n)\<close> and \<open>s.substr(a)\<close>.\<close>

definition substr :: "nat \<Rightarrow> nat \<Rightarrow> string \<Rightarrow> string" where
  "substr a n s = take n (drop a s)"

lemma find_char_append: "c \<notin> set s \<Longrightarrow> find_char c (s @ c # t) = Some (length s)"
  by (induction s) auto

lemma find_char_none [simp]: "find_char c s = None \<longleftrightarrow> c \<notin> set s"
  by (induction s) auto

lemma rfind_char_append: "c \<notin> set t \<Longrightarrow> rfind_char c (s @ c # t) = Some (length s)"
  using find_char_append [of c "rev t" "rev s"] by (simp add: rfind_char_def)

section \<open>Numbers\<close>

definition digit :: "nat \<Rightarrow> char" where
  "digit n = char_of (48 + n)"

text \<open>\<open>std::to_string\<close>, and a number written to a stream.\<close>

fun show_nat :: "nat \<Rightarrow> string" where
  "show_nat n = (if n < 10 then [digit n] else show_nat (n div 10) @ [digit (n mod 10)])"

declare show_nat.simps [simp del]

definition show_int :: "int \<Rightarrow> string" where
  "show_int n = (if n < 0 then ''-'' @ show_nat (nat (- n)) else show_nat (nat n))"

text \<open>\<open>isspace\<close>, and the value of a digit or letter.\<close>

definition is_space :: "char \<Rightarrow> bool" where
  "is_space c \<longleftrightarrow> (let n = of_char c :: nat in n = 32 \<or> 9 \<le> n \<and> n \<le> 13)"

definition digit_value :: "nat \<Rightarrow> char \<Rightarrow> nat option" where
  "digit_value base c =
    (let n = of_char c :: nat;
         v = (if 48 \<le> n \<and> n \<le> 57 then Some (n - 48)
              else if 97 \<le> n \<and> n \<le> 122 then Some (n - 87)
              else if 65 \<le> n \<and> n \<le> 90 then Some (n - 55) else None)
     in case v of None \<Rightarrow> None | Some d \<Rightarrow> if d < base then Some d else None)"

text \<open>The value of the leading digits, and how many there are.\<close>

fun scan_digits :: "nat \<Rightarrow> nat \<Rightarrow> string \<Rightarrow> nat \<times> nat" where
  "scan_digits base acc [] = (acc, 0)"
| "scan_digits base acc (c # s) =
    (case digit_value base c of
       None \<Rightarrow> (acc, 0)
     | Some d \<Rightarrow> let (v, n) = scan_digits base (acc * base + d) s in (v, Suc n))"

text \<open>\<open>strtoul\<close> and its kin: blanks, a sign, a prefix \<open>0x\<close> in base 16, digits.  The result is the sign, the
  magnitude and the number of characters read; \<open>None\<close> when there are no digits.\<close>

definition scan_number :: "nat \<Rightarrow> string \<Rightarrow> (bool \<times> nat \<times> nat) option" where
  "scan_number base s =
    (let blanks = length (takeWhile is_space s); s = drop blanks s;
         neg = (s \<noteq> [] \<and> hd s = CHR ''-''); signed = (s \<noteq> [] \<and> (hd s = CHR ''-'' \<or> hd s = CHR ''+''));
         s = (if signed then tl s else s);
         prefix = (base = 16 \<and> length s > 2 \<and> s ! 0 = CHR ''0'' \<and> (s ! 1 = CHR ''x'' \<or> s ! 1 = CHR ''X'') \<and>
                   digit_value 16 (s ! 2) \<noteq> None);
         s = (if prefix then drop 2 s else s);
         (v, n) = scan_digits base 0 s
     in if n = 0 then None else Some (neg, v, blanks + (if signed then 1 else 0) + (if prefix then 2 else 0) + n))"

text \<open>\<open>std::stoul\<close> and \<open>std::stoi\<close>; \<open>None\<close> is the exception.\<close>

definition stoul :: "string \<Rightarrow> (nat \<times> nat) option" where
  "stoul s =
    (case scan_number 10 s of
       None \<Rightarrow> None
     | Some (neg, v, n) \<Rightarrow>
         if v \<ge> 2 ^ 64 then None else Some (if neg \<and> v \<noteq> 0 then 2 ^ 64 - v else v, n))"

definition stoi :: "nat \<Rightarrow> string \<Rightarrow> int option" where
  "stoi base s =
    (case scan_number base s of
       None \<Rightarrow> None
     | Some (neg, v, n) \<Rightarrow>
         let x = (if neg then - int v else int v) in if - (2 ^ 31) \<le> x \<and> x < 2 ^ 31 then Some x else None)"

lemma of_char_digit: "n < 10 \<Longrightarrow> (of_char (digit n) :: nat) = 48 + n"
  by (simp add: digit_def)

lemma digit_value_digit: "n < 10 \<Longrightarrow> 10 \<le> base \<Longrightarrow> digit_value base (digit n) = Some n"
  by (simp add: digit_value_def of_char_digit)

lemma digits: "map digit [0..<10] = ''0123456789''"
  by code_simp

lemma digit_in: "n < 10 \<Longrightarrow> digit n \<in> set ''0123456789''"
  unfolding digits [symmetric] set_map by (rule imageI) simp

lemma show_nat_digits: "set (show_nat n) \<subseteq> set ''0123456789''"
proof (induction n rule: show_nat.induct)
  case (1 n)
  show ?case
  proof (cases "n < 10")
    case True
    then show ?thesis using digit_in [of n] by (simp add: show_nat.simps [of n])
  next
    case False
    then show ?thesis using 1 digit_in [of "n mod 10"] by (simp add: show_nat.simps [of n])
  qed
qed

lemma show_nat_nonempty [simp]: "show_nat n \<noteq> []"
  by (simp add: show_nat.simps [of n])

lemma scan_digits_append:
  "scan_digits base acc s = (v, length s) \<Longrightarrow> scan_digits base acc (s @ t) = (let (w, n) = scan_digits base v t in (w, length s + n))"
proof (induction base acc s rule: scan_digits.induct)
  case (2 base acc c s)
  then show ?case by (auto simp add: split_beta Let_def prod_eq_iff split: option.splits)
qed (simp add: split_beta)

text \<open>A number in decimal is read back; in base 16 its digits are taken for hexadecimal ones.\<close>

lemma scan_show_10: "scan_digits 10 0 (show_nat n) = (n, length (show_nat n))"
proof (induction n rule: show_nat.induct)
  case (1 n)
  show ?case
  proof (cases "n < 10")
    case True
    then show ?thesis by (simp add: show_nat.simps [of n] digit_value_digit)
  next
    case False
    then show ?thesis
      using 1 scan_digits_append [of 10 0 "show_nat (n div 10)" "n div 10" "[digit (n mod 10)]"]
      by (simp add: show_nat.simps [of n] digit_value_digit)
  qed
qed

lemma scan_number_digits:
  assumes "scan_digits base 0 s = (v, length s)" "s \<noteq> []" "set s \<subseteq> set ''0123456789''"
  shows "scan_number base s = Some (False, v, length s)"
proof -
  obtain c t where s: "s = c # t" using assms(2) by (cases s) simp_all
  have c: "c \<in> set ''0123456789''" "set t \<subseteq> set ''0123456789''" using assms(3) by (simp_all add: s)
  have "\<not> is_space c" "c \<noteq> CHR ''-''" "c \<noteq> CHR ''+''" using c(1) by (auto simp add: is_space_def Let_def)
  moreover have "\<not> (length (c # t) > 2 \<and> ((c # t) ! 1 = CHR ''x'' \<or> (c # t) ! 1 = CHR ''X''))"
    using c(2) by (cases t) auto
  ultimately have "scan_number base (c # t) = (case scan_digits base 0 (c # t) of (v, n) \<Rightarrow>
      if n = 0 then None else Some (False, v, n))"
    unfolding scan_number_def Let_def by (auto split: prod.splits)
  then show ?thesis using assms(1) by (simp add: s del: scan_digits.simps)
qed

lemmas scan_number_show = scan_number_digits [OF _ show_nat_nonempty show_nat_digits]

section \<open>Addresses and peers\<close>

definition parse_address :: "string \<Rightarrow> address option" where
  "parse_address value =
    (case rfind_char CHR '':'' value of
       None \<Rightarrow> None
     | Some colon \<Rightarrow>
         let host = take colon value; port_str = drop (colon + 1) value
         in if host = [] \<or> port_str = [] then None
            else
              let host = (if length host \<ge> 2 \<and> hd host = CHR ''['' \<and> last host = CHR '']''
                          then substr 1 (length host - 2) host else host)
              in case stoul port_str of
                   None \<Rightarrow> None
                 | Some (port, pos) \<Rightarrow>
                     if pos \<noteq> length port_str \<or> port = 0 \<or> port > 65535 then None
                     else Some \<lparr> a_host = host, a_port = of_nat port \<rparr>)"

definition parse_remote :: "string \<Rightarrow> remote_peer option" where
  "parse_remote value =
    (case find_char CHR ''@'' value of
       None \<Rightarrow> None
     | Some at \<Rightarrow>
         case parse_address (drop (at + 1) value) of
           None \<Rightarrow> None
         | Some a \<Rightarrow> Some \<lparr> rp_id = take at value, rp_address = a \<rparr>)"

definition format_address :: "address \<Rightarrow> string" where
  "format_address a = a_host a @ '':'' @ show_nat (unat (a_port a))"

definition bracketed :: "string \<Rightarrow> bool" where
  "bracketed s \<longleftrightarrow> length s \<ge> 2 \<and> hd s = CHR ''['' \<and> last s = CHR '']''"

text \<open>
  Addresses survive their text form.  What \<open>format_address\<close> prints for an address with a host, which is
  not in brackets, and a port other than 0 is parsed as that address, also when the host contains
  colons; and a peer written as its name, \<open>@\<close> and the address is parsed as that peer.
\<close>

theorem address_roundtrip:
  assumes "a_host a \<noteq> []" "\<not> bracketed (a_host a)" "a_port a \<noteq> 0"
  shows "parse_address (format_address a) = Some a \<and>
    (CHR ''@'' \<notin> set i \<longrightarrow> parse_remote (i @ ''@'' @ format_address a) = Some \<lparr> rp_id = i, rp_address = a \<rparr>)"
proof -
  let ?p = "show_nat (unat (a_port a))"
  have "CHR '':'' \<notin> set ?p" using show_nat_digits [of "unat (a_port a)"] by auto
  then have colon: "rfind_char CHR '':'' (format_address a) = Some (length (a_host a))"
    by (simp add: format_address_def rfind_char_append)
  have p: "unat (a_port a) < 65536" by (rule order_less_le_trans [OF unsigned_less]) simp
  have "stoul ?p = Some (unat (a_port a), length ?p)"
    using scan_number_show [OF scan_show_10, of "unat (a_port a)"] p by (simp add: stoul_def)
  then have "parse_address (format_address a) = Some a"
    using assms p unfolding parse_address_def colon
    by (auto simp add: format_address_def Let_def bracketed_def unat_eq_zero)
  then show ?thesis by (simp add: parse_remote_def find_char_append)
qed

lemma address_roundtrip_witness:
  "parse_address (format_address \<lparr> a_host = ''::1'', a_port = 443 \<rparr>) = Some \<lparr> a_host = ''::1'', a_port = 443 \<rparr>"
  using address_roundtrip [of "\<lparr> a_host = ''::1'', a_port = 443 \<rparr>" "[]"] by (simp add: bracketed_def)

section \<open>Metadata\<close>

fun metadata_string :: "metadata \<Rightarrow> string" where
  "metadata_string [] = []"
| "metadata_string [(k, v)] = k @ ''='' @ v"
| "metadata_string ((k, v) # m) = k @ ''='' @ v @ '';'' @ metadata_string m"

end
