(* ===== verification/Trace_Context.thy ===== *)
theory Trace_Context
  imports Text
begin

text \<open>
  The W3C trace headers of \<open>creek/src/trace_context.cpp\<close>: printing and parsing of \<open>traceparent\<close>, and the
  spans made from them.  The random identifiers are arguments.
\<close>

record trace_span =
  tr_trace_id :: string
  tr_span_id :: string
  tr_parent_span_id :: string
  tr_trace_state :: string
  tr_flags :: int

definition no_span :: trace_span where
  "no_span = \<lparr> tr_trace_id = [], tr_span_id = [], tr_parent_span_id = [], tr_trace_state = [], tr_flags = 0 \<rparr>"

definition span_valid :: "trace_span \<Rightarrow> bool" where
  "span_valid s \<longleftrightarrow> length (tr_trace_id s) = 32 \<and> length (tr_span_id s) = 16"

definition is_hex :: "string \<Rightarrow> bool" where
  "is_hex s \<longleftrightarrow> list_all (\<lambda>c. digit_value 16 c \<noteq> None) s"

definition show_flags :: "int \<Rightarrow> string" where
  "show_flags f = (if f < 10 then ''0'' else []) @ show_int f"

definition traceparent :: "trace_span \<Rightarrow> string" where
  "traceparent s = ''00-'' @ tr_trace_id s @ ''-'' @ tr_span_id s @ ''-'' @ show_flags (tr_flags s)"

definition traceparent_swapped :: "trace_span \<Rightarrow> string" where
  "traceparent_swapped s = ''00-'' @ tr_trace_id s @ ''-'' @ tr_parent_span_id s @ ''-'' @ show_flags (tr_flags s)"

definition strip_blanks :: "string \<Rightarrow> string" where
  "strip_blanks s = rev (dropWhile (\<lambda>c. c = CHR '' '') (rev s))"

text \<open>The span is filled in as the header is read, and returned as it is at the first fault.\<close>

definition parse_traceparent :: "string \<Rightarrow> trace_span" where
  "parse_traceparent h =
    (if length h < 55 then no_span
     else if h ! 0 \<noteq> CHR ''0'' \<or> h ! 1 \<noteq> CHR ''0'' \<or> h ! 2 \<noteq> CHR ''-'' then no_span
     else
       let s = no_span\<lparr>tr_trace_id := substr 3 32 h\<rparr>
       in if \<not> is_hex (tr_trace_id s) \<or> h ! 35 \<noteq> CHR ''-'' then s
          else
            let s = s\<lparr>tr_span_id := substr 36 16 h\<rparr>
            in if \<not> is_hex (tr_span_id s) \<or> h ! 52 \<noteq> CHR ''-'' then s
               else s\<lparr>tr_flags := (case stoi 16 (strip_blanks (drop 53 h)) of None \<Rightarrow> 0 | Some f \<Rightarrow> f)\<rparr>)"

definition create_child :: "string \<Rightarrow> trace_span \<Rightarrow> trace_span" where
  "create_child new_id parent =
    \<lparr> tr_trace_id = tr_trace_id parent, tr_span_id = new_id, tr_parent_span_id = tr_span_id parent,
      tr_trace_state = tr_trace_state parent, tr_flags = tr_flags parent \<rparr>"

definition root_span :: "string \<Rightarrow> string \<Rightarrow> string \<Rightarrow> trace_span" where
  "root_span trace span tracestate =
    no_span\<lparr>tr_trace_id := trace, tr_span_id := span, tr_trace_state := tracestate\<rparr>"

definition extract_or_create :: "string \<Rightarrow> string \<Rightarrow> string \<Rightarrow> string \<Rightarrow> trace_span" where
  "extract_or_create trace span header tracestate =
    (if header \<noteq> [] \<and> span_valid (parse_traceparent header)
     then (parse_traceparent header)\<lparr>tr_trace_state := tracestate\<rparr>
     else root_span trace span tracestate)"

section \<open>Reading back\<close>

text \<open>What two decimal digits mean in base 16.\<close>

lemma scan_show_16:
  assumes "n < 100"
  shows "scan_digits 16 0 (show_nat n) = (n + 6 * (n div 10), length (show_nat n))"
proof (cases "n < 10")
  case True
  then show ?thesis by (simp add: show_nat.simps [of n] digit_value_digit)
next
  case False
  have "n div 10 < 10" using assms by simp
  moreover have "n div 10 * 16 + n mod 10 = n + 6 * (n div 10)" by presburger
  ultimately show ?thesis using False
    by (simp add: show_nat.simps [of n] show_nat.simps [of "n div 10"] digit_value_digit)
qed

lemma strip_digits: "strip_blanks (s @ show_nat n) = s @ show_nat n"
proof -
  obtain t c where c: "show_nat n = t @ [c]" using show_nat_nonempty by (meson rev_exhaust)
  then have "c \<noteq> CHR '' ''" using show_nat_digits [of n] by auto
  then show ?thesis by (simp add: strip_blanks_def c)
qed

lemma read_flags:
  assumes "0 \<le> f" "f < 100"
  shows "stoi 16 (strip_blanks (show_flags f)) = Some (f + 6 * (f div 10))"
proof -
  define n where "n = nat f"
  have f: "f = int n" "n < 100" using assms by (simp_all add: n_def)
  show ?thesis
  proof (cases "n < 10")
    case True
    then have "show_flags f = ''0'' @ show_nat n" by (simp add: show_flags_def show_int_def f)
    moreover have "scan_digits 16 0 (''0'' @ show_nat n) = (n, length (''0'' @ show_nat n))"
    proof -
      have "digit_value 16 CHR ''0'' = Some 0" by code_simp
      then show ?thesis using scan_show_16 [OF f(2)] True by simp
    qed
    ultimately show ?thesis
      using scan_number_digits [of 16 "''0'' @ show_nat n" n] show_nat_digits [of n] True
      by (simp add: strip_digits stoi_def f del: append.simps)
  next
    case False
    then have "show_flags f = show_nat n" by (simp add: show_flags_def show_int_def f)
    then show ?thesis
      using strip_digits [of "[]" n] scan_number_show [OF scan_show_16 [OF f(2)]] f
      by (simp add: stoi_def zdiv_int)
  qed
qed

lemma parse_layout:
  assumes "length a = 32" "length b = 16" "is_hex a" "length f \<ge> 2"
  shows "parse_traceparent (''00-'' @ a @ ''-'' @ b @ ''-'' @ f) =
    (if is_hex b then no_span\<lparr>tr_trace_id := a, tr_span_id := b, tr_flags := (case stoi 16 (strip_blanks f) of None \<Rightarrow> 0 | Some x \<Rightarrow> x)\<rparr>
     else no_span\<lparr>tr_trace_id := a, tr_span_id := b\<rparr>)"
proof -
  let ?h = "''00-'' @ a @ ''-'' @ b @ ''-'' @ f"
  have "?h ! 35 = CHR ''-''" "?h ! 52 = CHR ''-''" "substr 3 32 ?h = a" "substr 36 16 ?h = b" "drop 53 ?h = f"
    using assms(1,2) by (simp_all add: substr_def nth_append nth_Cons')
  moreover have "?h ! 0 = CHR ''0''" "?h ! 1 = CHR ''0''" "?h ! 2 = CHR ''-''" "\<not> length ?h < 55"
    using assms by simp_all
  ultimately show ?thesis using assms(3) unfolding parse_traceparent_def by (simp only: Let_def) simp
qed

lemma length_show_flags: "0 \<le> f \<Longrightarrow> length (show_flags f) \<ge> 2"
proof -
  assume "0 \<le> f"
  then show ?thesis
    by (cases "f < 10")
      (auto simp add: show_flags_def show_int_def show_nat.simps [of "nat f"] Suc_le_eq numeral_2_eq_2 nat_less_iff)
qed

text \<open>
  The trace header is printed in decimal and read in hexadecimal.  A span with hexadecimal
  identifiers is read back from its header with its flags as long as they are below 10; from 10 on each
  ten of them comes back as sixteen.
\<close>

theorem traceparent_read_back:
  assumes "span_valid s" "is_hex (tr_trace_id s)" "is_hex (tr_span_id s)" "0 \<le> tr_flags s" "tr_flags s < 100"
  shows "parse_traceparent (traceparent s) =
    s\<lparr>tr_parent_span_id := [], tr_trace_state := [], tr_flags := tr_flags s + 6 * (tr_flags s div 10)\<rparr>"
  using assms parse_layout [of "tr_trace_id s" "tr_span_id s" "show_flags (tr_flags s)"] read_flags [OF assms(4,5)]
    length_show_flags [OF assms(4)]
  by (simp add: traceparent_def span_valid_def no_span_def)

definition ex_span :: trace_span where
  "ex_span = \<lparr> tr_trace_id = replicate 32 CHR ''a'', tr_span_id = replicate 16 CHR ''b'', tr_parent_span_id = [],
     tr_trace_state = [], tr_flags = 10 \<rparr>"

lemma traceparent_read_back_witness:
  "parse_traceparent (traceparent ex_span) = ex_span\<lparr>tr_flags := 16\<rparr>"
  using traceparent_read_back [of ex_span]
  by (simp add: ex_span_def span_valid_def is_hex_def digit_value_def list_all_iff)

text \<open>
  A header whose span identifier is not hexadecimal is taken for valid: the fault is noticed after the
  identifier has been stored, and validity only looks at lengths.
\<close>

lemma malformed_span_accepted:
  assumes "length a = 32" "length b = 16" "is_hex a" "\<not> is_hex b" "length f \<ge> 2"
  shows "span_valid (parse_traceparent (''00-'' @ a @ ''-'' @ b @ ''-'' @ f))"
    and "tr_span_id (extract_or_create t s (''00-'' @ a @ ''-'' @ b @ ''-'' @ f) st) = b"
  using parse_layout [OF assms(1-3,5)] assms(1,2,4) by (simp_all add: span_valid_def extract_or_create_def)

end
