(* ===== verification/Work_Queue.thy ===== *)
theory Work_Queue
  imports Prelude
begin

text \<open>
  The queue of \<open>creek/include/creek/blocking_queue.hpp\<close> that hands work to the threads of a runtime.  A
  wait of a condition variable is the guard of an atomic step: \<open>Waits\<close> says that the caller sleeps.
\<close>

record 'a work_queue =
  wq_items :: "'a list"
  wq_capacity :: nat
  wq_closed :: bool

definition work_queue0 :: "nat \<Rightarrow> 'a work_queue" where
  "work_queue0 capacity = \<lparr> wq_items = [], wq_capacity = capacity, wq_closed = False \<rparr>"

datatype 'a taken = Item 'a | Nothing | Waits

text \<open>\<open>push\<close> waits for room; after \<open>close\<close> it drops the item.\<close>

definition wq_push :: "'a \<Rightarrow> 'a work_queue \<Rightarrow> 'a work_queue option" where
  "wq_push x q =
    (if wq_closed q then Some q
     else if length (wq_items q) < wq_capacity q then Some (q\<lparr>wq_items := wq_items q @ [x]\<rparr>) else None)"

definition wq_try_push :: "'a \<Rightarrow> 'a work_queue \<Rightarrow> bool \<times> 'a work_queue" where
  "wq_try_push x q =
    (if wq_closed q \<or> length (wq_items q) \<ge> wq_capacity q then (False, q)
     else (True, q\<lparr>wq_items := wq_items q @ [x]\<rparr>))"

definition wq_take :: "'a work_queue \<Rightarrow> 'a taken \<times> 'a work_queue" where
  "wq_take q =
    (case wq_items q of
       x # xs \<Rightarrow> (Item x, q\<lparr>wq_items := xs\<rparr>)
     | [] \<Rightarrow> ((if wq_closed q then Nothing else Waits), q))"

text \<open>\<open>take_for\<close> after its timeout.\<close>

definition wq_take_for :: "'a work_queue \<Rightarrow> 'a option \<times> 'a work_queue" where
  "wq_take_for q = (case wq_items q of x # xs \<Rightarrow> (Some x, q\<lparr>wq_items := xs\<rparr>) | [] \<Rightarrow> (None, q))"

definition wq_poll :: "'a work_queue \<Rightarrow> 'a option \<times> 'a work_queue" where
  "wq_poll q = (case wq_items q of x # xs \<Rightarrow> (Some x, q\<lparr>wq_items := xs\<rparr>) | [] \<Rightarrow> (None, q))"

definition wq_close :: "'a work_queue \<Rightarrow> 'a work_queue" where
  "wq_close q = q\<lparr>wq_closed := True\<rparr>"

end
