(* ===== verification/Leaf_State.thy ===== *)
theory Leaf_State
  imports Node Text Circuit_Breaker Trace_Context Work_Queue
begin

text \<open>
  The state of a leaf of the mesh (\<open>creek/src/leaf/leaf_runtime_impl.hpp\<close>), with the calls it proxies
  (\<open>generic_proxy.hpp\<close>), and the way its messages leave: \<open>send_to_mesh\<close>.  A call object of gRPC is what
  the code asks of it, one effect for each request; the events it reports back are arguments of the
  handlers.  \<open>m_peer_targets\<close> is left out: nothing ever enters it.
\<close>

section \<open>Status of a call\<close>

record status =
  g_code :: int
  g_message :: string

definition ok_status :: status where "ok_status = \<lparr> g_code = 0, g_message = [] \<rparr>"
definition status_ok :: "status \<Rightarrow> bool" where "status_ok s \<longleftrightarrow> g_code s = 0"

abbreviation CANCELLED :: int where "CANCELLED \<equiv> 1"
abbreviation DEADLINE_EXCEEDED :: int where "DEADLINE_EXCEEDED \<equiv> 4"
abbreviation RESOURCE_EXHAUSTED :: int where "RESOURCE_EXHAUSTED \<equiv> 8"
abbreviation INTERNAL :: int where "INTERNAL \<equiv> 13"
abbreviation UNAVAILABLE :: int where "UNAVAILABLE \<equiv> 14"

definition status_of :: "int \<Rightarrow> string \<Rightarrow> status" where
  "status_of c m = \<lparr> g_code = c, g_message = m \<rparr>"

section \<open>Proxied calls\<close>

definition kStreamIdleTimeout :: time where "kStreamIdleTimeout = seconds 120"
definition kStreamOpenTimeout :: time where "kStreamOpenTimeout = seconds 15"
definition kMaxIngressWriteQueue :: nat where "kMaxIngressWriteQueue = 256"
definition kMaxBackendWriteQueue :: nat where "kMaxBackendWriteQueue = 1024"
definition kClassifyWindowMs :: nat where "kClassifyWindowMs = 50"

text \<open>A call of a client on the leaf it entered.\<close>

record ingress =
  i_phase :: nat
  i_read_outstanding :: bool
  i_read_stopped :: bool
  i_write_outstanding :: bool
  i_finishing :: bool
  i_finish_pending :: bool
  i_finish_status :: status
  i_buffered :: "bytes list"
  i_write_queue :: "bytes list"
  i_method :: string
  i_request_id :: string
  i_metadata :: metadata
  i_remote :: bool
  i_dest_leaf :: string
  i_dest_node :: string
  i_last_activity :: time
  i_open_sent_at :: time
  i_backend_confirmed :: bool
  i_dead :: bool
  i_dead_since :: time

text \<open>A call to a backend, and who gets what it says: a call on this leaf or one on another leaf.\<close>

datatype sink = To_ingress | To_mesh string string

record backend =
  k_request_id :: string
  k_write_queue :: "bytes list"
  k_started :: bool
  k_write_outstanding :: bool
  k_half_close_requested :: bool
  k_writes_done_sent :: bool
  k_finished :: bool
  k_sink :: sink

section \<open>The leaf\<close>

record local_endpoint =
  le_endpoint :: endpoint
  le_last_heartbeat :: time

datatype stream_task = Task_open stream_open | Task_frame stream_frame | Task_close stream_close

record leaf =
  l_id :: string
  l_parents :: "remote_peer list"
  l_directory :: directory
  l_balancer :: balancer
  l_breaker :: breaker
  l_running :: bool
  l_local_endpoints :: "(string, local_endpoint) omap"
  l_local_tombstones :: "(string, endpoint \<times> u64) omap"
  l_pending :: "string list"
  l_answers :: "(string, routed_response) omap"
  l_known_leaves :: "(string, address) omap"
  l_parent_ids :: "string list"
  l_active_parent :: string
  l_all_parents_down :: bool
  l_wasm_ids :: "u32 list"
  l_version_counter :: u64
  l_request_queue :: "(routed_request \<times> nat) work_queue"
  l_stream_queue :: "stream_task work_queue"
  l_streams :: "(string, ingress) omap"
  l_backends :: "(nat, backend) omap"
  l_next_backend :: nat
  l_backend_streams :: "(string, nat) omap"
  l_unknown_stream_replies :: "(string, time) omap"

definition new_leaf :: "string \<Rightarrow> remote_peer list \<Rightarrow> u64 \<Rightarrow> leaf" where
  "new_leaf i parents now_ms =
    \<lparr> l_id = i, l_parents = parents, l_directory = directory0, l_balancer = balancer0 4096 (seconds 60), l_breaker = [],
      l_running = False, l_local_endpoints = [], l_local_tombstones = [], l_pending = [], l_answers = [],
      l_known_leaves = [], l_parent_ids = [], l_active_parent = [], l_all_parents_down = True, l_wasm_ids = [],
      l_version_counter = now_ms, l_request_queue = work_queue0 256, l_stream_queue = work_queue0 1024, l_streams = [], l_backends = [],
      l_next_backend = 0, l_backend_streams = [], l_unknown_stream_replies = [] \<rparr>"

section \<open>Effects\<close>

datatype ingress_call = Read | Write bytes | Finish status | Set_alarm | Cancel_alarm | Cancel_call

datatype backend_call =
    B_start string metadata
  | B_read
  | B_write bytes
  | B_writes_done
  | B_finish
  | B_cancel

datatype leaf_effect =
    Mesh mesh_effect
  | On_call string ingress_call
  | On_backend nat backend_call

text \<open>One operation after the other.\<close>

definition after :: "'s \<times> 'e list \<Rightarrow> ('s \<Rightarrow> 's \<times> 'e list) \<Rightarrow> 's \<times> 'e list" where
  "after r f = (let (s, es) = r; (s', fs) = f s in (s', es @ fs))"

definition after_opt :: "'s \<times> 'e list \<Rightarrow> ('s \<Rightarrow> ('s \<times> 'e list) option) \<Rightarrow> ('s \<times> 'e list) option" where
  "after_opt r f = (let (s, es) = r in map_option (\<lambda>(s', fs). (s', es @ fs)) (f s))"

section \<open>Towards the mesh\<close>

text \<open>
  What the leaf needs to know of its transport and of protobuf: whether a message for a peer is accepted,
  before and after a \<open>connect\<close>, and the encoding of a message.
\<close>

record mesh_env =
  v_accepts :: "string \<Rightarrow> bool"
  v_accepts_connected :: "string \<Rightarrow> bool"
  v_ser :: "wire_message \<Rightarrow> bytes"

definition current_node_id :: "leaf \<Rightarrow> string" where
  "current_node_id l =
    (if l_active_parent l = [] then (case l_parents l of [] \<Rightarrow> [] | p # _ \<Rightarrow> rp_id p) else l_active_parent l)"

definition emit :: "int \<Rightarrow> wire_message \<Rightarrow> string \<Rightarrow> mesh_effect" where
  "emit priority m p = (if priority > 0 then Send_priority p m priority else Send p m)"

text \<open>The parents in the order they are tried: the active one first.\<close>

definition parents_in_turn :: "leaf \<Rightarrow> string list" where
  "parents_in_turn l =
    (if l_active_parent l = [] then [] else [l_active_parent l]) @ filter (\<lambda>p. p \<noteq> l_active_parent l) (l_parent_ids l)"

definition send_to_mesh :: "mesh_env \<Rightarrow> string \<Rightarrow> string \<Rightarrow> wire_message \<Rightarrow> int \<Rightarrow> leaf \<Rightarrow> bool \<times> leaf_effect list" where
  "send_to_mesh v dest_node dest_leaf m priority l =
    (case find (v_accepts v) (parents_in_turn l) of
       Some p \<Rightarrow> (True, [Mesh (emit priority m p)])
     | None \<Rightarrow>
         (case om_find (l_known_leaves l) dest_leaf of
            None \<Rightarrow> (False, [])
          | Some a \<Rightarrow>
              (case parse_address (format_address a) of
                 None \<Rightarrow> (False, [])
               | Some a \<Rightarrow>
                   if v_accepts_connected v dest_node
                   then (True, [Mesh (Connect dest_node a), Mesh (emit priority m dest_node)])
                   else (False, [Mesh (Connect dest_node a)]))))"

section \<open>Metadata\<close>

definition is_bin_key :: "string \<Rightarrow> bool" where
  "is_bin_key key \<longleftrightarrow> length key \<ge> 4 \<and> drop (length key - 4) key = ''-bin''"

definition forwardable_metadata_key :: "string \<Rightarrow> bool" where
  "forwardable_metadata_key key \<longleftrightarrow>
    key \<noteq> [] \<and> hd key \<noteq> CHR '':'' \<and> take 5 key \<noteq> ''grpc-'' \<and> \<not> is_bin_key key \<and>
    key \<notin> set [''user-agent'', ''content-type'', ''te'', ''authority'', ''host'']"

definition forwardable :: "metadata \<Rightarrow> metadata" where
  "forwardable m = filter (\<lambda>(k, x). forwardable_metadata_key k) m"

definition service_from_method :: "string \<Rightarrow> string" where
  "service_from_method m =
    (if m = [] \<or> hd m \<noteq> CHR ''/'' then []
     else case rfind_char CHR ''/'' m of
            None \<Rightarrow> []
          | Some slash \<Rightarrow> if slash = 0 then [] else substr 1 (slash - 1) m)"

text \<open>The identifiers drawn for a new trace, a new span and its child.\<close>

record trace_ids =
  tid_trace :: string
  tid_span :: string
  tid_child :: string

definition entry_or_empty :: "metadata \<Rightarrow> string \<Rightarrow> string" where
  "entry_or_empty m k = (case om_find m k of None \<Rightarrow> [] | Some x \<Rightarrow> x)"

definition child_span :: "trace_ids \<Rightarrow> metadata \<Rightarrow> trace_span" where
  "child_span t m =
    create_child (tid_child t)
      (extract_or_create (tid_trace t) (tid_span t) (entry_or_empty m ''traceparent'') (entry_or_empty m ''tracestate''))"

definition put_trace :: "trace_span \<Rightarrow> metadata \<Rightarrow> metadata" where
  "put_trace s m =
    (let m = om_set ''traceparent'' (traceparent_swapped s) m
     in if tr_trace_state s \<noteq> [] then om_set ''tracestate'' (tr_trace_state s) m else m)"

end
