(* ===== verification/Leaf_Stream.thy ===== *)
theory Leaf_Stream
  imports Leaf_State
begin

text \<open>
  The generic proxy of a leaf, \<open>creek/src/leaf/leaf_generic.cpp\<close>: calls of clients that are forwarded
  to a backend of this leaf or, as open, frames and close, to another leaf.  The handlers of one call run
  one after the other, as the completion queues and the stream worker run them; a handler that locks
  a mutex it holds already never returns, which is \<open>None\<close>.
\<close>

section \<open>The call to a backend\<close>

definition new_backend :: "string \<Rightarrow> sink \<Rightarrow> backend" where
  "new_backend rid to = \<lparr> k_request_id = rid, k_write_queue = [], k_started = False, k_write_outstanding = False,
     k_half_close_requested = False, k_writes_done_sent = False, k_finished = False, k_sink = to \<rparr>"

definition drive_writes :: "backend \<Rightarrow> backend \<times> backend_call list" where
  "drive_writes b =
    (if \<not> k_started b \<or> k_write_outstanding b \<or> k_finished b then (b, [])
     else case k_write_queue b of
            w # ws \<Rightarrow> (b\<lparr>k_write_queue := ws, k_write_outstanding := True\<rparr>, [B_write w])
          | [] \<Rightarrow>
              if k_half_close_requested b \<and> \<not> k_writes_done_sent b
              then (b\<lparr>k_writes_done_sent := True\<rparr>, [B_writes_done]) else (b, []))"

definition client_message :: "bytes \<Rightarrow> backend \<Rightarrow> backend \<times> backend_call list" where
  "client_message w b =
    (if k_finished b then (b, [])
     else if length (k_write_queue b) \<ge> kMaxBackendWriteQueue then (b, [B_cancel])
     else drive_writes (b\<lparr>k_write_queue := k_write_queue b @ [w]\<rparr>))"

definition client_half_close :: "backend \<Rightarrow> backend \<times> backend_call list" where
  "client_half_close b = (if k_finished b then (b, []) else drive_writes (b\<lparr>k_half_close_requested := True\<rparr>))"

text \<open>The events of its completion queue; the message of a read is \<open>None\<close> when the read failed.\<close>

datatype backend_event = K_start bool | K_read "bytes option" | K_write | K_writes_done | K_finish status

text \<open>The call objects of one event and the message handed on.\<close>

definition backend_event_step :: "backend_event \<Rightarrow> backend \<Rightarrow> backend \<times> backend_call list \<times> bytes option" where
  "backend_event_step e b =
    (case e of
       K_start ok \<Rightarrow>
         if ok then let (b, cs) = drive_writes (b\<lparr>k_started := True\<rparr>) in (b, cs @ [B_read], None)
         else (b, [B_finish], None)
     | K_read (Some w) \<Rightarrow> (b, [B_read], Some w)
     | K_read None \<Rightarrow> (b, [B_finish], None)
     | K_write \<Rightarrow> let (b, cs) = drive_writes (b\<lparr>k_write_outstanding := False\<rparr>) in (b, cs, None)
     | K_writes_done \<Rightarrow> (b, [], None)
     | K_finish st \<Rightarrow> (b\<lparr>k_finished := True\<rparr>, [], None))"

section \<open>The call of a client\<close>

definition new_ingress :: "string \<Rightarrow> string \<Rightarrow> metadata \<Rightarrow> time \<Rightarrow> ingress" where
  "new_ingress rid method m now =
    \<lparr> i_phase = 1, i_read_outstanding = True, i_read_stopped = False, i_write_outstanding = False, i_finishing = False,
      i_finish_pending = False, i_finish_status = ok_status, i_buffered = [], i_write_queue = [], i_method = method,
      i_request_id = rid, i_metadata = m, i_remote = False, i_dest_leaf = [], i_dest_node = [], i_last_activity = now,
      i_open_sent_at = 0, i_backend_confirmed = False, i_dead = False, i_dead_since = 0 \<rparr>"

text \<open>\<open>ingress_try_finish\<close>: the call is finished once nothing is outstanding.\<close>

definition try_finish :: "ingress \<Rightarrow> ingress \<times> ingress_call list" where
  "try_finish s =
    (if i_dead s \<or> i_finishing s then (s, [])
     else if i_write_outstanding s \<or> i_write_queue s \<noteq> [] then (s\<lparr>i_finish_pending := True\<rparr>, [])
     else if i_read_outstanding s then (s\<lparr>i_finish_pending := True, i_read_stopped := True\<rparr>, [])
     else (s\<lparr>i_finishing := True\<rparr>, [Cancel_alarm, Finish (i_finish_status s)]))"

text \<open>\<open>ingress_queue_write\<close>: the last component says that the queue is full and the call has to be torn down.\<close>

definition stall_status :: status where "stall_status = status_of RESOURCE_EXHAUSTED ''client_read_stall''"

definition queue_write :: "time \<Rightarrow> bytes \<Rightarrow> ingress \<Rightarrow> ingress \<times> ingress_call list \<times> bool" where
  "queue_write now w s =
    (if i_dead s \<or> i_finishing s then (s, [], False)
     else
       let s = s\<lparr>i_last_activity := now\<rparr>
       in if i_write_outstanding s then
            (if length (i_write_queue s) \<ge> kMaxIngressWriteQueue
             then (s\<lparr>i_finish_status := stall_status, i_read_stopped := True\<rparr>, [], True)
             else (s\<lparr>i_write_queue := i_write_queue s @ [w]\<rparr>, [], False))
          else (s\<lparr>i_write_outstanding := True\<rparr>, [Write w], False))"

text \<open>The part of \<open>ingress_backend_closed\<close> before \<open>ingress_try_finish\<close>.\<close>

definition backend_closed :: "time \<Rightarrow> status \<Rightarrow> ingress \<Rightarrow> ingress \<times> ingress_call list" where
  "backend_closed now st s =
    (if i_dead s \<or> i_finishing s then (s, [])
     else try_finish (s\<lparr>i_last_activity := now, i_backend_confirmed := True, i_finish_status := st, i_read_stopped := True\<rparr>))"

text \<open>The part of \<open>generic_on_write\<close> after a write that succeeded.\<close>

definition write_done :: "time \<Rightarrow> ingress \<Rightarrow> ingress \<times> ingress_call list" where
  "write_done now s =
    (let s = s\<lparr>i_last_activity := now, i_write_outstanding := False\<rparr>
     in if i_write_queue s \<noteq> [] \<and> \<not> i_finishing s \<and> \<not> i_finish_pending s
        then (s\<lparr>i_write_queue := tl (i_write_queue s), i_write_outstanding := True\<rparr>, [Write (hd (i_write_queue s))])
        else if i_finish_pending s then try_finish s else (s, []))"

section \<open>On the leaf\<close>

definition put_stream :: "ingress \<Rightarrow> leaf \<Rightarrow> leaf" where
  "put_stream s l = l\<lparr>l_streams := om_set (i_request_id s) s (l_streams l)\<rparr>"

text \<open>A change of the call of that name, if there is one.\<close>

definition on_stream :: "string \<Rightarrow> (ingress \<Rightarrow> ingress \<times> ingress_call list) \<Rightarrow> leaf \<Rightarrow> leaf \<times> leaf_effect list" where
  "on_stream rid f l =
    (case om_find (l_streams l) rid of
       None \<Rightarrow> (l, [])
     | Some s \<Rightarrow> let (s, cs) = f s in (l\<lparr>l_streams := om_set rid s (l_streams l)\<rparr>, map (On_call rid) cs))"

definition ingress_try_finish :: "string \<Rightarrow> leaf \<Rightarrow> leaf \<times> leaf_effect list" where
  "ingress_try_finish rid = on_stream rid try_finish"

definition on_backend :: "nat \<Rightarrow> (backend \<Rightarrow> backend \<times> backend_call list) \<Rightarrow> leaf \<Rightarrow> leaf \<times> leaf_effect list" where
  "on_backend h f l =
    (case om_find (l_backends l) h of
       None \<Rightarrow> (l, [])
     | Some b \<Rightarrow> let (b, cs) = f b in (l\<lparr>l_backends := om_set h b (l_backends l)\<rparr>, map (On_backend h) cs))"

definition send_stream_close_to ::
  "mesh_env \<Rightarrow> string \<Rightarrow> string \<Rightarrow> string \<Rightarrow> bool \<Rightarrow> int \<Rightarrow> string \<Rightarrow> leaf \<Rightarrow> leaf_effect list" where
  "send_stream_close_to v rid dest_leaf dest_node from_origin st err l =
    snd (send_to_mesh v dest_node dest_leaf
      (Stream_close \<lparr> sc_request_id = rid, sc_status = st, sc_error = err, sc_from_origin = from_origin, sc_origin_leaf = l_id l,
         sc_origin_node = current_node_id l, sc_destination_leaf = dest_leaf, sc_destination_node = dest_node,
         sc_hop_limit = kDefaultBackendHopLimit \<rparr>) 1 l)"

definition stream_frame_to :: "string \<Rightarrow> string \<Rightarrow> string \<Rightarrow> bytes \<Rightarrow> bool \<Rightarrow> bool \<Rightarrow> leaf \<Rightarrow> stream_frame" where
  "stream_frame_to rid dest_leaf dest_node payload half_close from_origin l =
    \<lparr> sf_request_id = rid, sf_payload = payload, sf_half_close = half_close, sf_from_origin = from_origin,
      sf_origin_leaf = l_id l, sf_origin_node = current_node_id l, sf_destination_leaf = dest_leaf,
      sf_destination_node = dest_node, sf_hop_limit = kDefaultBackendHopLimit \<rparr>"

definition ingress_teardown :: "mesh_env \<Rightarrow> status \<Rightarrow> string \<Rightarrow> leaf \<Rightarrow> leaf \<times> leaf_effect list" where
  "ingress_teardown v st rid l =
    (let cancel = (case om_find (l_backend_streams l) rid of None \<Rightarrow> [] | Some h \<Rightarrow> [On_backend h B_cancel])
     in case om_find (l_streams l) rid of
          None \<Rightarrow> (l, cancel)
        | Some s \<Rightarrow>
            if i_dead s \<or> i_finishing s then (l, cancel)
            else
              let l = l\<lparr>l_streams := om_set rid (s\<lparr>i_finish_status := st, i_read_stopped := True\<rparr>) (l_streams l)\<rparr>;
                  close = (if i_remote s \<and> i_dest_leaf s \<noteq> []
                           then send_stream_close_to v rid (i_dest_leaf s) (i_dest_node s) True (g_code st) (g_message st) l else [])
              in after (l, cancel @ close) (ingress_try_finish rid))"

definition ingress_queue_write :: "mesh_env \<Rightarrow> time \<Rightarrow> string \<Rightarrow> bytes \<Rightarrow> leaf \<Rightarrow> leaf \<times> leaf_effect list" where
  "ingress_queue_write v now rid w l =
    (case om_find (l_streams l) rid of
       None \<Rightarrow> (l, [])
     | Some s \<Rightarrow>
         let (s, cs, full) = queue_write now w s; l = l\<lparr>l_streams := om_set rid s (l_streams l)\<rparr>
         in if full then after (l, map (On_call rid) cs) (ingress_teardown v stall_status rid) else (l, map (On_call rid) cs))"

definition ingress_backend_message :: "mesh_env \<Rightarrow> time \<Rightarrow> string \<Rightarrow> bytes \<Rightarrow> leaf \<Rightarrow> leaf \<times> leaf_effect list" where
  "ingress_backend_message v now rid w l =
    after (on_stream rid (\<lambda>s. (s\<lparr>i_backend_confirmed := True\<rparr>, [])) l) (ingress_queue_write v now rid w)"

definition ingress_backend_closed :: "time \<Rightarrow> string \<Rightarrow> status \<Rightarrow> leaf \<Rightarrow> leaf \<times> leaf_effect list" where
  "ingress_backend_closed now rid st = on_stream rid (backend_closed now st)"

text \<open>A message of the client, or the end of its messages, goes where the call went.\<close>

definition ingress_forward_frame :: "mesh_env \<Rightarrow> time \<Rightarrow> string \<Rightarrow> bytes \<Rightarrow> bool \<Rightarrow> leaf \<Rightarrow> leaf \<times> leaf_effect list" where
  "ingress_forward_frame v now rid w half_close l =
    (case om_find (l_streams l) rid of
       None \<Rightarrow> (l, [])
     | Some s \<Rightarrow>
         if i_dead s \<or> i_finishing s then (l, [])
         else
           let l = l\<lparr>l_streams := om_set rid (s\<lparr>i_last_activity := now\<rparr>) (l_streams l)\<rparr>
           in if i_remote s then
                (l, snd (send_to_mesh v (i_dest_node s) (i_dest_leaf s)
                      (Stream_frame (stream_frame_to rid (i_dest_leaf s) (i_dest_node s) w half_close True l)) 1 l))
              else (case om_find (l_backend_streams l) rid of
                      None \<Rightarrow> (l, [])
                    | Some h \<Rightarrow> on_backend h (if half_close then client_half_close else client_message w) l))"

fun forward_all :: "mesh_env \<Rightarrow> time \<Rightarrow> string \<Rightarrow> bytes list \<Rightarrow> leaf \<Rightarrow> leaf \<times> leaf_effect list" where
  "forward_all v now rid [] l = (l, [])"
| "forward_all v now rid (w # ws) l = after (ingress_forward_frame v now rid w False l) (forward_all v now rid ws)"

text \<open>A backend call enters the registry; a call of that name already there is no longer found.\<close>

definition register_backend :: "string \<Rightarrow> sink \<Rightarrow> string \<Rightarrow> metadata \<Rightarrow> leaf \<Rightarrow> leaf \<times> leaf_effect list" where
  "register_backend rid to method m l =
    (let h = l_next_backend l
     in (l\<lparr>l_backends := om_set h (new_backend rid to) (l_backends l), l_next_backend := h + 1,
           l_backend_streams := om_set rid h (l_backend_streams l)\<rparr>,
         [On_backend h (B_start method (forwardable m))]))"

section \<open>Opening\<close>

definition open_message :: "string \<Rightarrow> u64 \<Rightarrow> ingress \<Rightarrow> endpoint \<Rightarrow> leaf \<Rightarrow> stream_open" where
  "open_message rid now_ms s ep l =
    \<lparr> so_request_id = rid, so_origin_leaf = l_id l, so_origin_node = current_node_id l,
      so_destination_leaf = ep_owner_leaf ep, so_destination_node = ep_owner_node ep, so_endpoint_id = ep_id ep,
      so_rpc_name = i_method s, so_metadata = i_metadata s, so_deadline_ms = now_ms + 120 * 1000,
      so_hop_limit = kDefaultBackendHopLimit \<rparr>"

text \<open>
  The choice of an endpoint, with its error.  The breaker is asked only when there is one; \<open>hash\<close> is
  \<open>std::hash\<close>.
\<close>

definition choose_endpoint ::
  "(string \<Rightarrow> u64) \<Rightarrow> time \<Rightarrow> string \<Rightarrow> metadata \<Rightarrow> leaf \<Rightarrow> (status + endpoint) \<times> leaf" where
  "choose_endpoint hash now svc m l =
    (let (ep, b) = pick hash svc m (service svc (l_directory l)) now (l_balancer l); l = l\<lparr>l_balancer := b\<rparr>
     in case ep of
          None \<Rightarrow> (Inl (status_of UNAVAILABLE ''no_endpoint''), l)
        | Some ep \<Rightarrow>
            let (ok, br) = allow circuit_defaults now (ep_id ep) (l_breaker l); l = l\<lparr>l_breaker := br\<rparr>
            in (if ok then Inr ep else Inl (status_of UNAVAILABLE ''circuit_open''), l))"

text \<open>
  \<open>generic_begin_stream\<close>.  \<open>prepared\<close> says whether gRPC could make the call to a backend of this leaf; if
  not, the handler calls \<open>ingress_try_finish\<close> while it holds the lock of the call, and hangs.
\<close>

definition generic_begin_stream ::
  "mesh_env \<Rightarrow> (string \<Rightarrow> u64) \<Rightarrow> bool \<Rightarrow> time \<Rightarrow> u64 \<Rightarrow> string \<Rightarrow> leaf \<Rightarrow> (leaf \<times> leaf_effect list) option" where
  "generic_begin_stream v hash prepared now now_ms rid l =
    (case om_find (l_streams l) rid of
       None \<Rightarrow> Some (l, [])
     | Some s \<Rightarrow>
         let (choice, l) = choose_endpoint hash now (service_from_method (i_method s)) (i_metadata s) l
         in case choice of
              Inl st \<Rightarrow>
                (let es = [Mesh (Metric ''client_to_leaf'' (i_method s) 0 0 False (i_metadata s))]
                 in if i_dead s \<or> i_finishing s then Some (l, es)
                    else Some (after (l\<lparr>l_streams := om_set rid (s\<lparr>i_finish_status := st\<rparr>) (l_streams l)\<rparr>, es)
                           (ingress_try_finish rid)))
            | Inr ep \<Rightarrow>
                (let opened =
                   (if ep_owner_leaf ep = l_id l then
                      (if prepared
                       then Some (register_backend rid To_ingress (i_method s) (i_metadata s)
                              (l\<lparr>l_streams := om_set rid (s\<lparr>i_remote := False, i_open_sent_at := now\<rparr>) (l_streams l)\<rparr>))
                       else None)
                    else
                      let l = l\<lparr>l_streams := om_set rid (s\<lparr>i_remote := True, i_dest_leaf := ep_owner_leaf ep,
                                 i_dest_node := ep_owner_node ep, i_open_sent_at := now\<rparr>) (l_streams l)\<rparr>;
                          m = Stream_open (open_message rid now_ms s ep l)
                      in Some (l, snd (send_to_mesh v (ep_owner_node ep) (ep_owner_leaf ep) m 1 l) @
                            [Mesh (Metric ''leaf_to_node'' ''RoutedStreamOpen'' (length (v_ser v m)) 0 True (i_metadata s))]))
                 in case opened of
                      None \<Rightarrow> None
                    | Some (l, es) \<Rightarrow>
                        Some (after (l\<lparr>l_streams := om_set rid ((the (om_find (l_streams l) rid))\<lparr>i_buffered := []\<rparr>) (l_streams l)\<rparr>,
                                es @ [Mesh (Metric ''client_to_leaf'' (i_method s) 0 0 True (i_metadata s))])
                               (forward_all v now rid (i_buffered s)))))"

section \<open>Events of the call of a client\<close>

text \<open>
  The metadata of a call: the forwardable entries of the client, in the order they come, a session key
  from \<open>x-session-id\<close> or \<open>sid\<close>, and a child of the client's trace.
\<close>

definition session_metadata :: "metadata \<Rightarrow> metadata" where
  "session_metadata m =
    (let sid = entry_or_empty m ''x-session-id'';
         sid = (if sid = [] then entry_or_empty m ''sid'' else sid)
     in if sid = [] then m
        else
          let m = om_set ''x-sid'' sid (om_set ''sid'' sid m)
          in if om_find m ''sticky'' = None then om_set ''sticky'' ''true'' m else m)"

definition call_metadata :: "trace_ids \<Rightarrow> (string \<times> string) list \<Rightarrow> metadata" where
  "call_metadata t client =
    (let m = foldl (\<lambda>m (k, x). if forwardable_metadata_key k then om_set k x m else m) [] client;
         m = session_metadata m
     in put_trace (child_span t m) m)"

definition generic_on_new_call ::
  "trace_ids \<Rightarrow> time \<Rightarrow> string \<Rightarrow> string \<Rightarrow> (string \<times> string) list \<Rightarrow> leaf \<Rightarrow> leaf \<times> leaf_effect list" where
  "generic_on_new_call t now rid method client l =
    (put_stream (new_ingress rid method (call_metadata t client) now) l, [On_call rid Read])"

text \<open>The data of a read is \<open>None\<close> when it failed: the client is through, or gone.\<close>

definition generic_on_read ::
  "mesh_env \<Rightarrow> (string \<Rightarrow> u64) \<Rightarrow> bool \<Rightarrow> time \<Rightarrow> u64 \<Rightarrow> string \<Rightarrow> bytes option \<Rightarrow> leaf \<Rightarrow> (leaf \<times> leaf_effect list) option" where
  "generic_on_read v hash prepared now now_ms rid data l =
    (case om_find (l_streams l) rid of
       None \<Rightarrow> Some (l, [])
     | Some s \<Rightarrow>
         if i_dead s then Some (l, [])
         else
           let s = s\<lparr>i_last_activity := now, i_read_outstanding := False\<rparr>; keep = (\<lambda>s. l\<lparr>l_streams := om_set rid s (l_streams l)\<rparr>)
           in if i_finish_pending s \<or> i_finishing s then Some (after (keep s, []) (ingress_try_finish rid))
              else if i_phase s = 1 then
                (case data of
                   Some w \<Rightarrow>
                     Some (keep (s\<lparr>i_buffered := i_buffered s @ [w], i_phase := 2, i_read_outstanding := True\<rparr>),
                           [On_call rid Read, On_call rid Set_alarm])
                 | None \<Rightarrow>
                     map_option (\<lambda>r. after r (ingress_forward_frame v now rid [] True))
                       (generic_begin_stream v hash prepared now now_ms rid (keep (s\<lparr>i_phase := 3\<rparr>))))
              else if i_phase s = 2 then
                (case data of
                   Some w \<Rightarrow>
                     after_opt (keep (s\<lparr>i_buffered := i_buffered s @ [w], i_phase := 3, i_read_outstanding := True\<rparr>),
                                [On_call rid Cancel_alarm, On_call rid Read])
                       (generic_begin_stream v hash prepared now now_ms rid)
                 | None \<Rightarrow>
                     map_option (\<lambda>r. after r (ingress_forward_frame v now rid [] True))
                       (after_opt (keep (s\<lparr>i_phase := 3\<rparr>), [On_call rid Cancel_alarm])
                         (generic_begin_stream v hash prepared now now_ms rid)))
              else if i_phase s = 3 then
                (if i_read_stopped s then Some (keep s, [])
                 else (case data of
                         Some w \<Rightarrow>
                           Some (after (keep (s\<lparr>i_read_outstanding := True\<rparr>), [On_call rid Read])
                             (ingress_forward_frame v now rid w False))
                       | None \<Rightarrow>
                           Some (after (keep (s\<lparr>i_read_stopped := True\<rparr>), []) (ingress_forward_frame v now rid [] True))))
              else Some (keep s, []))"

definition generic_on_write :: "mesh_env \<Rightarrow> time \<Rightarrow> string \<Rightarrow> bool \<Rightarrow> leaf \<Rightarrow> leaf \<times> leaf_effect list" where
  "generic_on_write v now rid ok l =
    (case om_find (l_streams l) rid of
       None \<Rightarrow> (l, [])
     | Some s \<Rightarrow>
         if i_dead s then (l, [])
         else if \<not> ok then
           after (l\<lparr>l_streams := om_set rid (s\<lparr>i_last_activity := now, i_write_outstanding := False\<rparr>) (l_streams l)\<rparr>, [])
             (ingress_teardown v (status_of CANCELLED ''write_failed'') rid)
         else on_stream rid (write_done now) l)"

definition generic_on_finish :: "time \<Rightarrow> string \<Rightarrow> leaf \<Rightarrow> leaf \<times> leaf_effect list" where
  "generic_on_finish now rid = on_stream rid (\<lambda>s. (s\<lparr>i_dead := True, i_dead_since := now\<rparr>, []))"

definition generic_on_alarm ::
  "mesh_env \<Rightarrow> (string \<Rightarrow> u64) \<Rightarrow> bool \<Rightarrow> time \<Rightarrow> u64 \<Rightarrow> string \<Rightarrow> bool \<Rightarrow> leaf \<Rightarrow> (leaf \<times> leaf_effect list) option" where
  "generic_on_alarm v hash prepared now now_ms rid ok l =
    (case om_find (l_streams l) rid of
       None \<Rightarrow> Some (l, [])
     | Some s \<Rightarrow>
         if i_dead s \<or> \<not> ok \<or> i_phase s \<noteq> 2 then Some (l, [])
         else generic_begin_stream v hash prepared now now_ms rid
                (l\<lparr>l_streams := om_set rid (s\<lparr>i_phase := 3\<rparr>) (l_streams l)\<rparr>))"

section \<open>Events of the call to a backend\<close>

definition backend_on_message :: "mesh_env \<Rightarrow> time \<Rightarrow> backend \<Rightarrow> bytes \<Rightarrow> leaf \<Rightarrow> leaf \<times> leaf_effect list" where
  "backend_on_message v now b w l =
    (case k_sink b of
       To_ingress \<Rightarrow> ingress_backend_message v now (k_request_id b) w l
     | To_mesh dest_leaf dest_node \<Rightarrow>
         (l, snd (send_to_mesh v dest_node dest_leaf
               (Stream_frame (stream_frame_to (k_request_id b) dest_leaf dest_node w False False l)) 1 l)))"

text \<open>The end of a call: out of the registry, unless another call has its place, and then the close.\<close>

definition backend_stream_finished :: "mesh_env \<Rightarrow> time \<Rightarrow> nat \<Rightarrow> backend \<Rightarrow> status \<Rightarrow> leaf \<Rightarrow> leaf \<times> leaf_effect list" where
  "backend_stream_finished v now h b st l =
    (let rid = k_request_id b;
         l = (if om_find (l_backend_streams l) rid = Some h
              then l\<lparr>l_backend_streams := om_erase rid (l_backend_streams l)\<rparr> else l);
         l = l\<lparr>l_backends := om_erase h (l_backends l)\<rparr>
     in case k_sink b of
          To_ingress \<Rightarrow> ingress_backend_closed now rid st l
        | To_mesh dest_leaf dest_node \<Rightarrow>
            (l, send_stream_close_to v rid dest_leaf dest_node False (g_code st) (g_message st) l))"

definition on_backend_event :: "mesh_env \<Rightarrow> time \<Rightarrow> nat \<Rightarrow> backend_event \<Rightarrow> leaf \<Rightarrow> leaf \<times> leaf_effect list" where
  "on_backend_event v now h e l =
    (case om_find (l_backends l) h of
       None \<Rightarrow> (l, [])
     | Some b \<Rightarrow>
         let (b, cs, msg) = backend_event_step e b;
             l = l\<lparr>l_backends := om_set h b (l_backends l)\<rparr>;
             r = (case msg of None \<Rightarrow> (l, []) | Some w \<Rightarrow> backend_on_message v now b w l);
             r = after r (\<lambda>l. (l, map (On_backend h) cs))
         in case e of K_finish st \<Rightarrow> after r (backend_stream_finished v now h b st) | _ \<Rightarrow> r)"

section \<open>Messages of the mesh\<close>

definition process_stream_open :: "mesh_env \<Rightarrow> bool \<Rightarrow> stream_open \<Rightarrow> leaf \<Rightarrow> leaf \<times> leaf_effect list" where
  "process_stream_open v prepared q l =
    (let refuse = (\<lambda>err. (l, send_stream_close_to v (so_request_id q) (so_origin_leaf q) (so_origin_node q) False (-1) err l))
     in if so_destination_leaf q \<noteq> l_id l then refuse ''wrong_destination_leaf''
        else case find_endpoint (so_endpoint_id q) (l_directory l) of
               None \<Rightarrow> refuse ''endpoint_not_found''
             | Some ep \<Rightarrow>
                 if \<not> ep_alive ep then refuse ''endpoint_not_found''
                 else if \<not> prepared then refuse ''backend_call_create_failed''
                 else after (register_backend (so_request_id q) (To_mesh (so_origin_leaf q) (so_origin_node q))
                          (so_rpc_name q) (so_metadata q) l)
                        (\<lambda>l. (l, [Mesh (Metric ''leaf_to_backend'' (so_rpc_name q) 0 0 True (so_metadata q))])))"

definition reply_unknown :: "mesh_env \<Rightarrow> time \<Rightarrow> stream_frame \<Rightarrow> leaf \<Rightarrow> leaf \<times> leaf_effect list" where
  "reply_unknown v now f l =
    (let rid = sf_request_id f;
         reply = (case om_find (l_unknown_stream_replies l) rid of None \<Rightarrow> True | Some t \<Rightarrow> now - t > seconds 5)
     in if reply then
          let l = l\<lparr>l_unknown_stream_replies := om_set rid now (l_unknown_stream_replies l)\<rparr>
          in (l, send_stream_close_to v rid (sf_origin_leaf f) (sf_origin_node f) False (-1) ''unknown_stream'' l)
        else (l, []))"

definition process_stream_frame :: "mesh_env \<Rightarrow> time \<Rightarrow> stream_frame \<Rightarrow> leaf \<Rightarrow> leaf \<times> leaf_effect list" where
  "process_stream_frame v now f l =
    (if sf_from_origin f then
       (case om_find (l_backend_streams l) (sf_request_id f) of
          Some h \<Rightarrow>
            if sf_half_close f then on_backend h client_half_close l
            else if sf_payload f \<noteq> [] then on_backend h (client_message (sf_payload f)) l
            else (l, [])
        | None \<Rightarrow> reply_unknown v now f l)
     else if om_find (l_streams l) (sf_request_id f) = None
       then (l, send_stream_close_to v (sf_request_id f) (sf_origin_leaf f) (sf_origin_node f) True 1 ''unknown_stream'' l)
     else if sf_payload f = [] then (l, [])
     else ingress_backend_message v now (sf_request_id f) (sf_payload f) l)"

definition process_stream_close :: "time \<Rightarrow> stream_close \<Rightarrow> leaf \<Rightarrow> leaf \<times> leaf_effect list" where
  "process_stream_close now c l =
    (if sc_from_origin c then
       (case om_find (l_backend_streams l) (sc_request_id c) of
          None \<Rightarrow> (l, [])
        | Some h \<Rightarrow> (l, [On_backend h B_cancel]))
     else
       let code = (if sc_status c > 0 then sc_status c else if sc_status c = 0 then 0 else UNAVAILABLE)
       in ingress_backend_closed now (sc_request_id c) (status_of code (sc_error c)) l)"

section \<open>The sweeper\<close>

text \<open>One round of \<open>stream_sweep_loop\<close> in which every lock is free: who is idle, who waits for a sign of life too
  long, and who is dead for two seconds.\<close>

definition idle :: "time \<Rightarrow> ingress \<Rightarrow> bool" where
  "idle now s \<longleftrightarrow> \<not> i_dead s \<and> \<not> i_finishing s \<and> now - i_last_activity s > kStreamIdleTimeout"

definition open_timed_out :: "time \<Rightarrow> ingress \<Rightarrow> bool" where
  "open_timed_out now s \<longleftrightarrow> \<not> i_dead s \<and> \<not> i_finishing s \<and> \<not> idle now s \<and> \<not> i_backend_confirmed s \<and> i_open_sent_at s \<noteq> 0 \<and>
     now - i_open_sent_at s > kStreamOpenTimeout"

fun teardown_all :: "mesh_env \<Rightarrow> status \<Rightarrow> string list \<Rightarrow> leaf \<Rightarrow> leaf \<times> leaf_effect list" where
  "teardown_all v st [] l = (l, [])"
| "teardown_all v st (rid # rids) l = after (ingress_teardown v st rid l) (teardown_all v st rids)"

definition stream_sweep :: "mesh_env \<Rightarrow> time \<Rightarrow> leaf \<Rightarrow> leaf \<times> leaf_effect list" where
  "stream_sweep v now l =
    (let victims = map fst (filter (\<lambda>(rid, s). idle now s) (l_streams l));
         late = map fst (filter (\<lambda>(rid, s). open_timed_out now s) (l_streams l));
         l = l\<lparr>l_streams := filter (\<lambda>(rid, s). \<not> (i_dead s \<and> now - i_dead_since s > seconds 2)) (l_streams l),
               l_unknown_stream_replies := filter (\<lambda>(rid, t). \<not> now - t > seconds 60) (l_unknown_stream_replies l)\<rparr>
     in after (teardown_all v (status_of CANCELLED ''stream_cancelled_or_idle'') victims l)
          (teardown_all v (status_of UNAVAILABLE ''stream_open_timeout'') late))"

section \<open>Everything that happens to the calls of a leaf\<close>

datatype leaf_event =
    New_call trace_ids string string "(string \<times> string) list"
  | Client_read string "bytes option"
  | Client_write string bool
  | Client_finish string
  | Client_alarm string bool
  | Backend_event nat backend_event
  | Stream_task stream_task
  | Sweep_streams

text \<open>What a step needs besides: whether gRPC can make a call, and the two clocks.\<close>

record leaf_env =
  w_prepared :: bool
  w_now :: time
  w_now_ms :: u64

definition run_task :: "mesh_env \<Rightarrow> leaf_env \<Rightarrow> stream_task \<Rightarrow> leaf \<Rightarrow> leaf \<times> leaf_effect list" where
  "run_task v w t =
    (case t of
       Task_open q \<Rightarrow> process_stream_open v (w_prepared w) q
     | Task_frame f \<Rightarrow> process_stream_frame v (w_now w) f
     | Task_close c \<Rightarrow> process_stream_close (w_now w) c)"

definition leaf_step ::
  "mesh_env \<Rightarrow> (string \<Rightarrow> u64) \<Rightarrow> leaf_env \<Rightarrow> leaf_event \<Rightarrow> leaf \<Rightarrow> (leaf \<times> leaf_effect list) option" where
  "leaf_step v hash w e l =
    (case e of
       New_call t rid method client \<Rightarrow> Some (generic_on_new_call t (w_now w) rid method client l)
     | Client_read rid data \<Rightarrow> generic_on_read v hash (w_prepared w) (w_now w) (w_now_ms w) rid data l
     | Client_write rid ok \<Rightarrow> Some (generic_on_write v (w_now w) rid ok l)
     | Client_finish rid \<Rightarrow> Some (generic_on_finish (w_now w) rid l)
     | Client_alarm rid ok \<Rightarrow> generic_on_alarm v hash (w_prepared w) (w_now w) (w_now_ms w) rid ok l
     | Backend_event h ev \<Rightarrow> Some (on_backend_event v (w_now w) h ev l)
     | Stream_task t \<Rightarrow> Some (run_task v w t l)
     | Sweep_streams \<Rightarrow> Some (stream_sweep v (w_now w) l))"

fun leaf_run ::
  "mesh_env \<Rightarrow> (string \<Rightarrow> u64) \<Rightarrow> (leaf_env \<times> leaf_event) list \<Rightarrow> leaf \<Rightarrow> (leaf \<times> leaf_effect list) option" where
  "leaf_run v hash [] l = Some (l, [])"
| "leaf_run v hash ((w, e) # es) l =
    (case leaf_step v hash w e l of None \<Rightarrow> None | Some r \<Rightarrow> after_opt r (leaf_run v hash es))"

end
