(* ===== verification/Leaf_Stream_Laws.thy ===== *)
theory Leaf_Stream_Laws
  imports Leaf_Stream Node_Laws
begin

text \<open>
  Laws of the generic proxy.  What a client is told depends on \<open>Finish\<close>, and \<open>ingress_try_finish\<close>
  waits for the outstanding read and for the queue of writes; the locale collects what keeps a call from
  ever being finished.
\<close>

section \<open>Effects on one call\<close>

definition told :: "string \<Rightarrow> leaf_effect list \<Rightarrow> bool" where
  "told rid es \<longleftrightarrow> (\<exists>st. On_call rid (Finish st) \<in> set es)"

lemma told_simps [simp]:
  "told rid [] = False" "told rid (es @ fs) \<longleftrightarrow> told rid es \<or> told rid fs" "told rid (Mesh m # es) = told rid es"
  "told rid (On_backend h b # es) = told rid es"
  "told rid (On_call r c # es) \<longleftrightarrow> (r = rid \<and> (\<exists>st. c = Finish st)) \<or> told rid es"
  by (auto simp add: told_def)

lemma told_map [simp]: "\<not> told rid (map (On_backend h) bs)" "told rid (map (On_call r) cs) \<longleftrightarrow> r = rid \<and> (\<exists>st. Finish st \<in> set cs)"
  by (auto simp add: told_def)

lemma told_mesh [simp]: "\<not> told rid (snd (send_to_mesh v n d m p l))"
  by (auto simp add: send_to_mesh_def told_def split: option.splits if_splits)

lemma told_close [simp]: "\<not> told rid (send_stream_close_to v r d n b s e l)"
  by (simp add: send_stream_close_to_def)

text \<open>The part of a call that decides about its end.\<close>

definition core :: "ingress \<Rightarrow> bool \<times> bool \<times> bytes list \<times> bool \<times> bool \<times> bool" where
  "core s = (i_read_outstanding s, i_write_outstanding s, i_write_queue s, i_finishing s, i_finish_pending s, i_dead s)"

text \<open>
  What may happen while a call waits for its end: all but a new call of the same name and the end of the
  call, which gRPC reports only after it was asked for it.  \<open>reads\<close> says whether the client may send.
\<close>

definition other_event :: "bool \<Rightarrow> string \<Rightarrow> leaf_event \<Rightarrow> bool" where
  "other_event reads rid e \<longleftrightarrow>
    (case e of
       New_call t r method client \<Rightarrow> r \<noteq> rid
     | Client_read r data \<Rightarrow> r = rid \<longrightarrow> reads
     | Client_finish r \<Rightarrow> r \<noteq> rid
     | _ \<Rightarrow> True)"

text \<open>
  \<open>P\<close> blocks the end of a call: it is not being finished, \<open>ingress_try_finish\<close> does nothing that ends it,
  neither does a completed write or a new message, and \<open>P\<close> is kept.  \<open>reads\<close> says whether this holds for
  completed reads too.
\<close>

locale call_blocked =
  fixes P :: "ingress \<Rightarrow> bool" and reads :: bool
  assumes alive: "P s \<Longrightarrow> \<not> i_dead s \<and> \<not> i_finishing s"
    and core: "core s = core s' \<Longrightarrow> P s \<Longrightarrow> P s'"
    and fin: "P s \<Longrightarrow> P (fst (try_finish s)) \<and> snd (try_finish s) = []"
    and wdone: "P s \<Longrightarrow> P (s\<lparr>i_write_outstanding := False\<rparr>) \<and> P (fst (write_done now s)) \<and> Finish st \<notin> set (snd (write_done now s))"
    and msg: "P s \<Longrightarrow> P (fst (queue_write now w s)) \<and> Finish st \<notin> set (fst (snd (queue_write now w s)))"
    and read: "reads \<Longrightarrow> P s \<Longrightarrow> i_finish_pending s \<and> P (s\<lparr>i_read_outstanding := False\<rparr>)"
begin

definition blocked :: "string \<Rightarrow> leaf \<Rightarrow> bool" where
  "blocked rid l \<longleftrightarrow> (\<exists>s. om_find (l_streams l) rid = Some s \<and> P s)"

definition silent :: "string \<Rightarrow> leaf \<times> leaf_effect list \<Rightarrow> bool" where
  "silent rid r \<longleftrightarrow> blocked rid (fst r) \<and> \<not> told rid (snd r)"

lemma silent_pair [simp]: "silent rid (l, es) \<longleftrightarrow> blocked rid l \<and> \<not> told rid es"
  by (simp add: silent_def)

lemma blocked_frame [simp]:
  "blocked rid (l\<lparr>l_backends := x\<rparr>) = blocked rid l" "blocked rid (l\<lparr>l_backend_streams := y\<rparr>) = blocked rid l"
  "blocked rid (l\<lparr>l_next_backend := n\<rparr>) = blocked rid l" "blocked rid (l\<lparr>l_balancer := b\<rparr>) = blocked rid l"
  "blocked rid (l\<lparr>l_breaker := c\<rparr>) = blocked rid l" "blocked rid (l\<lparr>l_unknown_stream_replies := u\<rparr>) = blocked rid l"
  by (simp_all add: blocked_def)

lemma silent_after: "silent rid r \<Longrightarrow> (\<And>l. blocked rid l \<Longrightarrow> silent rid (f l)) \<Longrightarrow> silent rid (after r f)"
  by (fastforce simp add: after_def silent_def split_beta)

lemma blocked_set: "blocked rid l \<Longrightarrow> (r = rid \<Longrightarrow> P s) \<Longrightarrow> blocked rid (l\<lparr>l_streams := om_set r s (l_streams l)\<rparr>)"
  by (auto simp add: blocked_def om_find_set_any)

lemma blocked_core:
  assumes "blocked rid l" "om_find (l_streams l) r = Some s" "core s' = core s"
  shows "blocked rid (l\<lparr>l_streams := om_set r s' (l_streams l)\<rparr>)"
  using assms core [of s s'] by (auto simp add: blocked_def om_find_set_any)

lemma silent_on_stream:
  assumes "blocked rid l" "\<And>s. P s \<Longrightarrow> P (fst (f s)) \<and> (\<forall>st. Finish st \<notin> set (snd (f s)))"
  shows "silent rid (on_stream r f l)"
  using assms
  by (auto simp add: on_stream_def split_beta blocked_def om_find_set_any split: option.splits) 

lemma silent_try: "blocked rid l \<Longrightarrow> silent rid (ingress_try_finish r l)"
  unfolding ingress_try_finish_def by (rule silent_on_stream) (auto dest: fin)

lemma silent_on_backend: "blocked rid l \<Longrightarrow> silent rid (on_backend h f l)"
  by (auto simp add: on_backend_def split_beta split: option.splits)

lemma silent_teardown: "blocked rid l \<Longrightarrow> silent rid (ingress_teardown v st r l)"
  unfolding ingress_teardown_def Let_def
  by (auto intro!: silent_after silent_try blocked_core split: option.splits simp add: core_def)

lemma silent_queue_write: "blocked rid l \<Longrightarrow> silent rid (ingress_queue_write v now r w l)"
  unfolding ingress_queue_write_def Let_def
proof (cases "om_find (l_streams l) r")
  case (Some s)
  assume b: "blocked rid l"
  obtain s' cs full where q: "queue_write now w s = (s', cs, full)" by (cases "queue_write now w s") auto
  have "r = rid \<Longrightarrow> P s"  using b Some by (simp add: blocked_def)
  then have "r = rid \<Longrightarrow> P s' \<and> (\<forall>st. Finish st \<notin> set cs)" using msg [of s now w] by (auto simp add: q)
  then have "silent rid (l\<lparr>l_streams := om_set r s' (l_streams l)\<rparr>, map (On_call r) cs)"
    using b by (auto intro: blocked_set)
  then show "silent rid (case om_find (l_streams l) r of None \<Rightarrow> (l, [])
     | Some s \<Rightarrow> case queue_write now w s of (s, cs, full) \<Rightarrow>
         if full then after (l\<lparr>l_streams := om_set r s (l_streams l)\<rparr>, map (On_call r) cs) (ingress_teardown v stall_status r)
         else (l\<lparr>l_streams := om_set r s (l_streams l)\<rparr>, map (On_call r) cs))"
    by (auto simp add: Some q intro!: silent_after silent_teardown simp del: silent_pair)
qed simp

lemma silent_backend_message: "blocked rid l \<Longrightarrow> silent rid (ingress_backend_message v now r w l)"
  unfolding ingress_backend_message_def
  by (intro silent_after silent_on_stream silent_queue_write) (auto simp add: core_def intro: core)

lemma silent_backend_closed: "blocked rid l \<Longrightarrow> silent rid (ingress_backend_closed now r st l)"
  unfolding ingress_backend_closed_def
proof (rule silent_on_stream)
  fix s assume p: "P s"
  let ?s = "s\<lparr>i_last_activity := now, i_backend_confirmed := True, i_finish_status := st, i_read_stopped := True\<rparr>"
  have "P ?s" by (rule core [OF _ p]) (simp add: core_def)
  then show "P (fst (backend_closed now st s)) \<and> (\<forall>sta. Finish sta \<notin> set (snd (backend_closed now st s)))"
    using fin [of ?s] alive [OF p] by (simp add: backend_closed_def)
qed

lemma silent_forward: "blocked rid l \<Longrightarrow> silent rid (ingress_forward_frame v now r w hc l)"
  unfolding ingress_forward_frame_def Let_def
  by (auto intro!: silent_on_backend blocked_core split: option.splits simp add: core_def)

lemma silent_forward_all: "blocked rid l \<Longrightarrow> silent rid (forward_all v now r ws l)"
  by (induction ws arbitrary: l) (auto intro!: silent_after silent_forward)

definition silent_opt :: "string \<Rightarrow> (leaf \<times> leaf_effect list) option \<Rightarrow> bool" where
  "silent_opt rid r \<longleftrightarrow> (\<forall>x. r = Some x \<longrightarrow> silent rid x)"

lemma silent_opt_simps [simp]: "silent_opt rid None" "silent_opt rid (Some x) \<longleftrightarrow> silent rid x"
  by (simp_all add: silent_opt_def)

lemma silent_opt_map: "silent_opt rid r \<Longrightarrow> (\<And>l. blocked rid l \<Longrightarrow> silent rid (f l)) \<Longrightarrow> silent_opt rid (map_option (\<lambda>r. after r f) r)"
  by (cases r) (auto intro: silent_after)

lemma silent_opt_after: "silent rid r \<Longrightarrow> (\<And>l. blocked rid l \<Longrightarrow> silent_opt rid (f l)) \<Longrightarrow> silent_opt rid (after_opt r f)"
  by (fastforce simp add: after_opt_def silent_def silent_opt_def split_beta)

lemma silent_register: "blocked rid l \<Longrightarrow> silent rid (register_backend r to m md l)"
  by (simp add: register_backend_def Let_def)

lemma silent_begin:
  assumes "blocked rid l"
  shows "silent_opt rid (generic_begin_stream v hash prepared now now_ms r l)"
proof (cases "om_find (l_streams l) r")
  case (Some s)
  obtain c l1 where c: "choose_endpoint hash now (service_from_method (i_method s)) (i_metadata s) l = (c, l1)" by fastforce
  have l1: "l_streams l1 = l_streams l"
    using c by (auto simp add: choose_endpoint_def Let_def split_beta split: option.splits if_splits)
  then have b: "blocked rid l1" using assms by (simp add: blocked_def)
  have set: "blocked rid (l1\<lparr>l_streams := om_set r s' (l_streams l1)\<rparr>)" if "core s' = core s" for s'
    using that b Some by (intro blocked_core [of rid l1 r s]) (simp_all add: l1)
  have clear: "blocked rid (l2\<lparr>l_streams := om_set r ((the (om_find (l_streams l2) r))\<lparr>i_buffered := []\<rparr>) (l_streams l2)\<rparr>)"
    if "blocked rid l2" "om_find (l_streams l2) r \<noteq> None" for l2
    using that by (auto intro!: blocked_core simp add: core_def)
  show ?thesis
  proof (cases c)
    case (Inl st)
    have "silent rid (after (l1\<lparr>l_streams := om_set r (s\<lparr>i_finish_status := st\<rparr>) (l_streams l1)\<rparr>, [Mesh m])
        (ingress_try_finish r))" for m
      by (rule silent_after) (auto intro!: set silent_try simp add: core_def)
    then show ?thesis using b by (simp add: generic_begin_stream_def Some c Inl Let_def)
  next
    case (Inr ep)
    have flush: "silent_opt rid (case opened of None \<Rightarrow> None
        | Some (l, es) \<Rightarrow> Some (after (l\<lparr>l_streams := om_set r ((the (om_find (l_streams l) r))\<lparr>i_buffered := []\<rparr>) (l_streams l)\<rparr>,
            es @ [Mesh m]) (forward_all v now r ws)))"
      if o: "\<And>l2 es. opened = Some (l2, es) \<Longrightarrow> blocked rid l2 \<and> \<not> told rid es \<and> om_find (l_streams l2) r \<noteq> None" for opened m ws
    proof (cases opened)
      case (Some x)
      obtain l2 es where x: "opened = Some (l2, es)" using Some by (cases x) auto
      have "silent rid (after (l2\<lparr>l_streams := om_set r ((the (om_find (l_streams l2) r))\<lparr>i_buffered := []\<rparr>) (l_streams l2)\<rparr>,
            es @ [Mesh m]) (forward_all v now r ws))"
      proof (rule silent_after)
        show "silent rid (l2\<lparr>l_streams := om_set r ((the (om_find (l_streams l2) r))\<lparr>i_buffered := []\<rparr>) (l_streams l2)\<rparr>, es @ [Mesh m])"
          using clear [of l2] o [OF x] by simp
      qed (rule silent_forward_all)
      then show ?thesis by (simp add: x)
    qed simp
    show ?thesis
      unfolding generic_begin_stream_def Some option.case c Let_def prod.case Inr sum.case
      by (rule flush)
        (auto split: if_splits simp add: register_backend_def Let_def om_find_set_any intro!: set, simp_all add: core_def)
  qed
qed (use assms in \<open>simp add: generic_begin_stream_def\<close>)

lemma silent_read:
  assumes "blocked rid l" "r = rid \<Longrightarrow> reads"
  shows "silent_opt rid (generic_on_read v hash prepared now now_ms r data l)"
proof (cases "om_find (l_streams l) r")
  case (Some s)
  let ?s = "s\<lparr>i_last_activity := now, i_read_outstanding := False\<rparr>"
  have P: "i_finish_pending s \<and> P ?s" if "r = rid"
  proof -
    have "P s" using assms(1) that Some by (simp add: blocked_def)
    then have "i_finish_pending s \<and> P (s\<lparr>i_read_outstanding := False\<rparr>)" using read assms(2) that by blast
    then show ?thesis using core [of "s\<lparr>i_read_outstanding := False\<rparr>" ?s] by (simp add: core_def)
  qed
  show ?thesis
  proof (cases "r = rid")
    case True
    then have "blocked rid (l\<lparr>l_streams := om_set r ?s (l_streams l)\<rparr>)" using P assms(1) by (intro blocked_set) simp_all
    then have "silent rid (after (l\<lparr>l_streams := om_set r ?s (l_streams l)\<rparr>, []) (ingress_try_finish r))"
      by (auto intro!: silent_after silent_try)
    then show ?thesis using P [OF True] assms(1) Some by (auto simp add: generic_on_read_def Let_def simp del: silent_pair) simp_all
  next
    case False
    have b: "blocked rid (l\<lparr>l_streams := om_set r s' (l_streams l)\<rparr>)" for s'
      using assms(1) False by (auto intro: blocked_set)
    show ?thesis
      using assms(1) False
      by (auto simp add: generic_on_read_def Some Let_def b split: option.split simp del: silent_pair
          intro!: silent_after silent_try silent_opt_map silent_opt_after silent_begin silent_forward) (simp_all add: b)
  qed
qed (use assms in \<open>simp add: generic_on_read_def\<close>)

lemma silent_write: "blocked rid l \<Longrightarrow> silent rid (generic_on_write v now r ok l)"
proof (cases "om_find (l_streams l) r")
  case (Some s)
  assume b: "blocked rid l"
  let ?s = "s\<lparr>i_last_activity := now, i_write_outstanding := False\<rparr>"
  have "P ?s" if "r = rid"
  proof -
    have "P (s\<lparr>i_write_outstanding := False\<rparr>)" using b that Some wdone by (auto simp add: blocked_def)
    then show ?thesis by (rule core [rotated]) (simp add: core_def)
  qed
  then have "blocked rid (l\<lparr>l_streams := om_set r ?s (l_streams l)\<rparr>)" using b by (intro blocked_set)
  then have "silent rid (after (l\<lparr>l_streams := om_set r ?s (l_streams l)\<rparr>, []) (ingress_teardown v st r))" for st
    by (auto intro!: silent_after silent_teardown)
  moreover have "silent rid (on_stream r (write_done now) l)" by (rule silent_on_stream [OF b]) (use wdone in blast)
  ultimately show ?thesis using b by (simp add: generic_on_write_def Some)
qed (simp add: generic_on_write_def)

lemma silent_finish: "blocked rid l \<Longrightarrow> r \<noteq> rid \<Longrightarrow> silent rid (generic_on_finish now r l)"
  by (auto simp add: generic_on_finish_def on_stream_def blocked_def om_find_set_any split: option.splits)

lemma silent_alarm: "blocked rid l \<Longrightarrow> silent_opt rid (generic_on_alarm v hash prepared now now_ms r ok l)"
  unfolding generic_on_alarm_def
  by (auto intro!: silent_begin blocked_core split: option.splits simp add: core_def)

lemma silent_finished: "blocked rid l \<Longrightarrow> silent rid (backend_stream_finished v now h b st l)"
  unfolding backend_stream_finished_def Let_def
  by (auto intro!: silent_backend_closed split: sink.split simp del: silent_pair) (simp_all split: if_splits)

lemma silent_message: "blocked rid l \<Longrightarrow> silent rid (backend_on_message v now b w l)"
  unfolding backend_on_message_def by (auto intro!: silent_backend_message split: sink.split simp del: silent_pair) simp

lemma silent_on_backend_event: "blocked rid l \<Longrightarrow> silent rid (on_backend_event v now h e l)"
  unfolding on_backend_event_def Let_def
  by (auto intro!: silent_after silent_finished silent_message split: option.splits backend_event.split prod.splits)

lemma silent_reply_unknown: "blocked rid l \<Longrightarrow> silent rid (reply_unknown v now f l)"
  by (auto simp add: reply_unknown_def Let_def)

lemma silent_task: "blocked rid l \<Longrightarrow> silent rid (run_task v w t l)"
  unfolding run_task_def process_stream_open_def process_stream_frame_def process_stream_close_def Let_def
  by (auto intro!: silent_after silent_register silent_on_backend silent_reply_unknown silent_backend_message silent_backend_closed
      split: stream_task.split option.split)

lemma silent_teardown_all: "blocked rid l \<Longrightarrow> silent rid (teardown_all v st rs l)"
  by (induction rs arbitrary: l) (auto intro!: silent_after silent_teardown)

lemma silent_sweep: "blocked rid l \<Longrightarrow> silent rid (stream_sweep v now l)"
proof -
  assume b: "blocked rid l"
  have keep: "om_find m k = Some s \<Longrightarrow> Q (k, s) \<Longrightarrow> om_find (filter Q m) k = Some s" for m Q and k :: string and s :: ingress
    by (induction m) (auto split: if_splits)
  have "blocked rid (l\<lparr>l_streams := filter (\<lambda>(rid, s). \<not> (i_dead s \<and> now - i_dead_since s > seconds 2)) (l_streams l),
      l_unknown_stream_replies := u\<rparr>)" for u
    using b alive by (auto simp add: blocked_def intro!: keep)
  then show ?thesis unfolding stream_sweep_def Let_def by (auto intro!: silent_after silent_teardown_all)
qed

lemma silent_new: "blocked rid l \<Longrightarrow> r \<noteq> rid \<Longrightarrow> silent rid (generic_on_new_call t now r method client l)"
  by (auto simp add: generic_on_new_call_def put_stream_def new_ingress_def intro!: blocked_set)

lemma silent_step: "blocked rid l \<Longrightarrow> other_event reads rid e \<Longrightarrow> silent_opt rid (leaf_step v hash w e l)"
  by (cases e)
    (auto simp add: leaf_step_def other_event_def simp del: silent_pair
      intro!: silent_new silent_read silent_write silent_finish silent_alarm silent_on_backend_event silent_task silent_sweep)

lemma never_told:
  "blocked rid l \<Longrightarrow> list_all (\<lambda>(w, e). other_event reads rid e) es \<Longrightarrow> leaf_run v hash es l = Some (l', fs) \<Longrightarrow>
     blocked rid l' \<and> \<not> told rid fs"
proof (induction es arbitrary: l fs)
  case (Cons x es)
  obtain w e where x: "x = (w, e)" by fastforce
  obtain l1 es1 fs2 where s: "leaf_step v hash w e l = Some (l1, es1)" "leaf_run v hash es l1 = Some (l', fs2)" "fs = es1 @ fs2"
    using Cons.prems(3) by (auto simp add: x after_opt_def split: option.splits)
  have "silent rid (l1, es1)" using silent_step [of rid l e v hash w] Cons.prems(1,2) by (simp add: x s(1))
  then show ?case using Cons.IH [OF _ _ s(2)] Cons.prems(2) by (simp add: s(3))
qed simp

end

section \<open>Calls that are never finished\<close>

definition jammed :: "bytes list \<Rightarrow> ingress \<Rightarrow> bool" where
  "jammed q s \<longleftrightarrow> \<not> i_dead s \<and> \<not> i_finishing s \<and> i_finish_pending s \<and> q \<noteq> [] \<and> (\<exists>r. i_write_queue s = q @ r)"

definition unread :: "ingress \<Rightarrow> bool" where
  "unread s \<longleftrightarrow> \<not> i_dead s \<and> \<not> i_finishing s \<and> i_read_outstanding s"

interpretation jam: call_blocked "jammed q" True for q
proof (unfold_locales, goal_cases)
  case (2 s s') then show ?case by (simp add: core_def jammed_def)
qed (auto simp add: jammed_def try_finish_def write_done_def queue_write_def Let_def)

interpretation idle: call_blocked unread False
proof (unfold_locales, goal_cases)
  case (2 s s') then show ?case by (simp add: core_def unread_def)
qed (auto simp add: unread_def try_finish_def write_done_def queue_write_def Let_def)

text \<open>
  C34: When the backend of a call closes while messages for the client are still queued behind the write
  in progress, the call is never finished: whatever happens on the leaf afterwards, reads and writes of
  this client included, the client is not told the end, and the queued messages stay queued.
\<close>

theorem queued_writes_jam_call:
  assumes "om_find (l_streams l) rid = Some s" "\<not> i_dead s" "\<not> i_finishing s" "i_write_queue s \<noteq> []"
    and "ingress_backend_closed now rid st l = (l1, fs1)"
    and "list_all (\<lambda>(w, e). other_event True rid e) es"
    and "leaf_run v hash es l1 = Some (l2, fs2)"
  shows "\<not> told rid (fs1 @ fs2) \<and>
    (\<exists>s2 r. om_find (l_streams l2) rid = Some s2 \<and> i_write_queue s2 = i_write_queue s @ r)"
proof -
  have c: "jam.blocked (i_write_queue s) rid l1 \<and> \<not> told rid fs1"
    using assms(1-5)
    by (auto simp add: ingress_backend_closed_def on_stream_def backend_closed_def try_finish_def jam.blocked_def
        jammed_def om_find_set_any)
  then have "jam.blocked (i_write_queue s) rid l2 \<and> \<not> told rid fs2" using jam.never_told assms(6,7) by blast
  then show ?thesis using c by (auto simp add: jam.blocked_def jammed_def)
qed

definition waiting_leaf :: "bytes list \<Rightarrow> leaf" where
  "waiting_leaf q = (new_leaf ''a'' [] 0)\<lparr>l_streams := [(''r'', (new_ingress ''r'' ''/s/m'' [] 0)
     \<lparr>i_phase := 3, i_write_outstanding := q \<noteq> [], i_write_queue := q\<rparr>)]\<rparr>"

definition no_mesh :: mesh_env where
  "no_mesh = \<lparr> v_accepts = (\<lambda>p. False), v_accepts_connected = (\<lambda>p. False), v_ser = (\<lambda>m. []) \<rparr>"

definition at_time :: "time \<Rightarrow> leaf_env" where
  "at_time t = \<lparr> w_prepared = True, w_now = t, w_now_ms = 0 \<rparr>"

lemmas leaf_eval = waiting_leaf_def no_mesh_def at_time_def new_leaf_def new_ingress_def leaf_step_def on_stream_def after_def after_opt_def
  Let_def other_event_def

theorem queued_writes_jam_call_witness:
  "\<exists>l2 fs2. leaf_run no_mesh (\<lambda>k. 0) [(at_time 0, Client_write ''r'' True), (at_time 0, Client_read ''r'' None)]
       (fst (ingress_backend_closed 0 ''r'' ok_status (waiting_leaf [[1], [2]]))) = Some (l2, fs2) \<and>
     \<not> told ''r'' (snd (ingress_backend_closed 0 ''r'' ok_status (waiting_leaf [[1], [2]])) @ fs2)"
proof -
  let ?l = "waiting_leaf [[1], [2]]"
  let ?es = "[(at_time 0, Client_write ''r'' True), (at_time 0, Client_read ''r'' None)]"
  obtain l2 fs2 where run: "leaf_run no_mesh (\<lambda>k. 0) ?es (fst (ingress_backend_closed 0 ''r'' ok_status ?l)) = Some (l2, fs2)"
    by (simp add: leaf_eval ingress_backend_closed_def backend_closed_def try_finish_def generic_on_write_def write_done_def
        generic_on_read_def ingress_try_finish_def)
  have "\<not> told ''r'' (snd (ingress_backend_closed 0 ''r'' ok_status ?l) @ fs2)"
    using queued_writes_jam_call [OF _ _ _ _ prod.collapse [symmetric] _ run]
    by (simp add: leaf_eval)
  then show ?thesis using run by blast
qed

text \<open>
  C35: A client that has a read outstanding is not told that its call ended, neither when the backend
  closes, nor after the timeouts of the sweeper: as long as it neither sends nor half-closes, no event
  makes the leaf finish the call.
\<close>

theorem silent_client_never_told:
  assumes "om_find (l_streams l) rid = Some s" "\<not> i_dead s" "\<not> i_finishing s" "i_read_outstanding s"
    and "list_all (\<lambda>(w, e). other_event False rid e) es"
    and "leaf_run v hash es l = Some (l2, fs)"
  shows "\<not> told rid fs"
proof -
  have "idle.blocked rid l" using assms(1-4) by (auto simp add: idle.blocked_def unread_def)
  then show ?thesis using idle.never_told assms(5,6) by blast
qed

theorem silent_client_never_told_witness:
  "\<exists>l2 fs. leaf_run no_mesh (\<lambda>k. 0) [(at_time (seconds 200), Sweep_streams)] (waiting_leaf []) = Some (l2, fs) \<and> \<not> told ''r'' fs"
proof -
  obtain l2 fs where run: "leaf_run no_mesh (\<lambda>k. 0) [(at_time (seconds 200), Sweep_streams)] (waiting_leaf []) = Some (l2, fs)"
    by (fastforce simp add: leaf_step_def after_opt_def split_beta)
  have "\<not> told ''r'' fs"
    using silent_client_never_told [OF _ _ _ _ _ run, of "''r''"] by (simp add: leaf_eval)
  then show ?thesis using run by blast
qed

section \<open>Messages to a backend\<close>

text \<open>What happens to one call to a backend: messages and the half close of the client, and its own events.\<close>

datatype backend_input = Message bytes | Half_close | Event backend_event

definition backend_input_step :: "backend_input \<Rightarrow> backend \<Rightarrow> backend \<times> backend_call list" where
  "backend_input_step i b =
    (case i of
       Message w \<Rightarrow> client_message w b
     | Half_close \<Rightarrow> client_half_close b
     | Event e \<Rightarrow> let (b, cs, msg) = backend_event_step e b in (b, cs))"

fun backend_run :: "backend_input list \<Rightarrow> backend \<Rightarrow> backend \<times> backend_call list" where
  "backend_run [] b = (b, [])"
| "backend_run (i # is) b = after (backend_input_step i b) (backend_run is)"

definition writes :: "backend_call list \<Rightarrow> bytes list" where
  "writes cs = concat (map (\<lambda>c. case c of B_write w \<Rightarrow> [w] | _ \<Rightarrow> []) cs)"

definition messages :: "backend_input list \<Rightarrow> bytes list" where
  "messages is = concat (map (\<lambda>i. case i of Message w \<Rightarrow> [w] | _ \<Rightarrow> []) is)"

lemma writes_simps [simp]: "writes [] = []" "writes (cs @ ds) = writes cs @ writes ds"
  "writes (c # cs) = (case c of B_write w \<Rightarrow> w # writes cs | _ \<Rightarrow> writes cs)"
  by (simp_all add: writes_def split: backend_call.split)

lemma messages_simps [simp]: "messages [] = []"
  "messages (i # is) = (case i of Message w \<Rightarrow> w # messages is | _ \<Rightarrow> messages is)"
  by (simp_all add: messages_def split: backend_input.split)

definition finishes :: "backend_input list \<Rightarrow> bool" where
  "finishes is \<longleftrightarrow> (\<exists>st. Event (K_finish st) \<in> set is)"

lemma drive_writes_queue:
  "drive_writes b = (b', cs) \<Longrightarrow> writes cs @ k_write_queue b' = k_write_queue b \<and> k_finished b' = k_finished b"
  by (auto simp add: drive_writes_def split: if_splits list.splits)

lemma backend_input_queue:
  "backend_input_step i b = (b', cs) \<Longrightarrow> \<not> k_finished b \<Longrightarrow> length (k_write_queue b) < kMaxBackendWriteQueue \<Longrightarrow>
     writes cs @ k_write_queue b' = k_write_queue b @ messages [i]"
  by (auto simp add: backend_input_step_def client_message_def client_half_close_def backend_event_step_def Let_def
      split: backend_input.splits backend_event.splits option.splits prod.splits if_splits dest!: drive_writes_queue)

text \<open>A call that runs and has no write outstanding has nothing left to send.\<close>

definition settled :: "backend \<Rightarrow> bool" where
  "settled b \<longleftrightarrow> \<not> k_finished b \<and>
     (k_started b \<and> \<not> k_write_outstanding b \<longrightarrow> k_write_queue b = [] \<and> (k_half_close_requested b \<longrightarrow> k_writes_done_sent b))"

lemma drive_writes_settles:
  "drive_writes b = (b', cs) \<Longrightarrow> \<not> k_finished b \<Longrightarrow>
     settled b' \<and> k_half_close_requested b' = k_half_close_requested b \<and>
     (k_writes_done_sent b' \<longleftrightarrow> k_writes_done_sent b \<or> B_writes_done \<in> set cs)"
  by (auto simp add: drive_writes_def settled_def split: if_splits list.splits)

lemma backend_input_settles:
  "backend_input_step i b = (b', cs) \<Longrightarrow> settled b \<Longrightarrow> \<not> finishes [i] \<Longrightarrow>
     settled b' \<and> (k_half_close_requested b' \<longleftrightarrow> k_half_close_requested b \<or> i = Half_close) \<and>
     (k_writes_done_sent b' \<longleftrightarrow> k_writes_done_sent b \<or> B_writes_done \<in> set cs)"
  by (cases "k_finished b")
    (auto simp add: backend_input_step_def client_message_def client_half_close_def backend_event_step_def Let_def finishes_def
      split: backend_input.splits backend_event.splits option.splits prod.splits if_splits dest!: drive_writes_settles,
      auto simp add: settled_def)

lemma finishes_simps [simp]: "\<not> finishes []" "finishes (i # is) \<longleftrightarrow> (\<exists>st. i = Event (K_finish st)) \<or> finishes is"
  by (auto simp add: finishes_def)

lemma backend_run_laws:
  assumes "backend_run is b = (b', cs)" "settled b" "\<not> finishes is" "length (k_write_queue b) + length (messages is) \<le> kMaxBackendWriteQueue"
  shows "writes cs @ k_write_queue b' = k_write_queue b @ messages is \<and> settled b' \<and>
     (k_half_close_requested b' \<longleftrightarrow> k_half_close_requested b \<or> Half_close \<in> set is) \<and>
     (k_writes_done_sent b' \<longleftrightarrow> k_writes_done_sent b \<or> B_writes_done \<in> set cs)"
  using assms
proof (induction "is" arbitrary: b cs)
  case (Cons i "is")
  obtain b1 cs1 where s1: "backend_input_step i b = (b1, cs1)" by fastforce
  obtain cs2 where s2: "backend_run is b1 = (b', cs2)" and cs: "cs = cs1 @ cs2"
    using Cons.prems(1) by (cases \<open>backend_run is b1\<close>) (simp add: after_def s1)
  have st: "settled b1 \<and> (k_half_close_requested b1 \<longleftrightarrow> k_half_close_requested b \<or> i = Half_close) \<and>
      (k_writes_done_sent b1 \<longleftrightarrow> k_writes_done_sent b \<or> B_writes_done \<in> set cs1)"
    using backend_input_settles [OF s1] Cons.prems(2,3) by simp
  have q: "writes cs1 @ k_write_queue b1 = k_write_queue b @ messages [i]"
  proof (cases "\<exists>w. i = Message w")
    case True
    then show ?thesis using backend_input_queue [OF s1] Cons.prems(2,4) by (auto simp add: settled_def)
  next
    case False
    then show ?thesis
      using s1 Cons.prems(2)
      by (auto simp add: settled_def backend_input_step_def client_half_close_def backend_event_step_def Let_def
          split: backend_input.splits backend_event.splits option.splits prod.splits if_splits dest!: drive_writes_queue)
  qed
  have "length (k_write_queue b1) \<le> length (k_write_queue b) + length (messages [i])"
    using arg_cong [OF q, of length] by simp
  then have "length (k_write_queue b1) + length (messages is) \<le> kMaxBackendWriteQueue"
    using Cons.prems(4) by (simp split: backend_input.splits)
  then have "writes cs2 @ k_write_queue b' = k_write_queue b1 @ messages is \<and> settled b' \<and>
     (k_half_close_requested b' \<longleftrightarrow> k_half_close_requested b1 \<or> Half_close \<in> set is) \<and>
     (k_writes_done_sent b' \<longleftrightarrow> k_writes_done_sent b1 \<or> B_writes_done \<in> set cs2)"
    using Cons.IH [OF s2] st Cons.prems(3) by simp
  moreover have "messages (i # is) = messages [i] @ messages is" by (simp split: backend_input.splits)
  ultimately show ?case using q st by (simp add: cs) (metis append_assoc)
qed (simp add: after_def)



section \<open>Empty messages\<close>

text \<open>
  An empty message of a client reaches a backend of the leaf it entered, and is dropped on the way to
  a backend of another leaf: the frame that carries it is ignored there, in both directions.
\<close>

theorem empty_message_depends_on_the_way:
  assumes "om_find (l_streams l) rid = Some s" "\<not> i_dead s" "\<not> i_finishing s" "\<not> i_remote s"
    and "om_find (l_backend_streams l) rid = Some h" "om_find (l_backends l) h = Some b"
    and "k_started b" "\<not> k_write_outstanding b" "\<not> k_finished b" "k_write_queue b = []"
  shows "On_backend h (B_write []) \<in> set (snd (ingress_forward_frame v now rid [] False l)) \<and>
    process_stream_frame v now (stream_frame_to rid d n [] False True l') l = (l, []) \<and>
    process_stream_frame v now (stream_frame_to rid d n [] False False l') l = (l, [])"
  using assms
  by (simp_all add: ingress_forward_frame_def on_backend_def client_message_def drive_writes_def kMaxBackendWriteQueue_def
      process_stream_frame_def stream_frame_to_def)

theorem empty_message_depends_on_the_way_witness:
  "\<exists>l h. On_backend h (B_write []) \<in> set (snd (ingress_forward_frame no_mesh 0 ''r'' [] False l)) \<and>
     process_stream_frame no_mesh 0 (stream_frame_to ''r'' ''a'' ''n'' [] False True l) l = (l, [])"
proof -
  let ?l = "(waiting_leaf [])\<lparr>l_backend_streams := [(''r'', 0)],
    l_backends := [(0, (new_backend ''r'' To_ingress)\<lparr>k_started := True\<rparr>)]\<rparr>"
  have "On_backend 0 (B_write []) \<in> set (snd (ingress_forward_frame no_mesh 0 ''r'' [] False ?l)) \<and>
    process_stream_frame no_mesh 0 (stream_frame_to ''r'' ''a'' ''n'' [] False True ?l) ?l = (?l, []) \<and>
    process_stream_frame no_mesh 0 (stream_frame_to ''r'' ''a'' ''n'' [] False False ?l) ?l = (?l, [])"
    by (rule empty_message_depends_on_the_way) (simp_all add: leaf_eval new_backend_def, simp_all)
  then show ?thesis by blast
qed

end
