(* ===== verification/Leaf.thy ===== *)
theory Leaf
  imports Leaf_Stream
begin

text \<open>
  The runtime of a leaf, \<open>creek/src/leaf/leaf_runtime.cpp\<close>: its endpoints with their heartbeats, the
  snapshots it sends its parents, the requests that are routed to it and those it routes.  A handler
  that takes the lock of the leaf several times runs without interruption; where it waits for another
  machine, what happens meanwhile is an argument.
\<close>

definition kEndpointDeadMs :: int where "kEndpointDeadMs = 3000"
definition kEndpointRemoveMs :: int where "kEndpointRemoveMs = 10000"
definition kLocalTombstoneTtlMs :: u64 where "kLocalTombstoneTtlMs = 60000"

section \<open>Snapshots of the own endpoints\<close>

text \<open>The snapshot a leaf sends has its own endpoints and the removals that are young enough.\<close>

definition own_snapshot :: "u64 \<Rightarrow> leaf \<Rightarrow> snapshot \<times> leaf" where
  "own_snapshot now_ms l =
    (let live = filter (\<lambda>(i, e, removed_ms). \<not> now_ms - removed_ms \<ge> kLocalTombstoneTtlMs) (l_local_tombstones l)
     in (\<lparr> sn_source_id = l_id l, sn_version = 0, sn_generated_ms = now_ms,
           sn_endpoints = map (\<lambda>(i, e). le_endpoint e) (l_local_endpoints l), sn_removed = map (\<lambda>(i, e, t). e) live \<rparr>,
         l\<lparr>l_local_tombstones := live\<rparr>))"

definition send_snapshot_to_parent :: "mesh_env \<Rightarrow> u64 \<Rightarrow> leaf \<Rightarrow> leaf \<times> leaf_effect list" where
  "send_snapshot_to_parent v now_ms l =
    (let (s, l) = own_snapshot now_ms l; m = Directory s
     in (l, map (\<lambda>p. Mesh (Send p m)) (l_parent_ids l) @
            [Mesh (Metric ''leaf_to_node'' ''DirectorySnapshot'' (length (v_ser v m)) 0 True [])]))"

section \<open>Parents\<close>

text \<open>The part of \<open>start\<close> that connects the configured parents; a \<open>std::set\<close> keeps their names in order.\<close>

definition connect_parents :: "leaf \<Rightarrow> leaf \<times> leaf_effect list" where
  "connect_parents l =
    (let parents = filter (\<lambda>p. rp_id p \<noteq> []) (l_parents l)
     in (l\<lparr>l_parent_ids := foldl (\<lambda>ps p. insort_insert (rp_id p) ps) (l_parent_ids l) parents\<rparr>,
         map (\<lambda>p. Mesh (Connect (rp_id p) (rp_address p))) parents))"

text \<open>
  The node a leaf registers with in Redis: the first configured parent, which has to be there, or any
  node, the \<open>i\<close>-th.
\<close>

definition registration_node :: "remote_peer list \<Rightarrow> (string, string) omap \<Rightarrow> nat \<Rightarrow> string option" where
  "registration_node parents nodes i =
    (if nodes = [] then None
     else case parents of
            p # _ \<Rightarrow>
              if rp_id p \<noteq> [] then (if om_find nodes (rp_id p) = None then None else Some (rp_id p))
              else Some (fst (nodes ! i))
          | [] \<Rightarrow> Some (fst (nodes ! i)))"

text \<open>
  \<open>start\<close>.  \<open>redis\<close> is \<open>None\<close> without Redis, and otherwise what it answered (\<open>None\<close>: it failed) and the
  draw of a node; \<open>transport\<close> and \<open>servers\<close> say whether the transport and the servers came up.
\<close>

definition start_leaf ::
  "((string, string) omap option \<times> nat) option \<Rightarrow> bool \<Rightarrow> bool \<Rightarrow> leaf \<Rightarrow> bool \<times> leaf \<times> leaf_effect list" where
  "start_leaf redis transport servers l =
    (if l_running l then (True, l, [])
     else if (case redis of
                None \<Rightarrow> False
              | Some (None, _) \<Rightarrow> True
              | Some (Some nodes, i) \<Rightarrow> registration_node (l_parents l) nodes i = None)
     then (False, l, [])
     else if \<not> transport then (False, l, [])
     else
       let (l, es) = connect_parents l
       in if servers then (True, l\<lparr>l_running := True\<rparr>, es) else (False, l, es))"

text \<open>The first and the last part of \<open>stop\<close>: between them the threads work off what the queues hold.\<close>

definition stop_begin :: "leaf \<Rightarrow> leaf" where
  "stop_begin l =
    (if \<not> l_running l then l
     else l\<lparr>l_running := False, l_request_queue := wq_close (l_request_queue l), l_stream_queue := wq_close (l_stream_queue l)\<rparr>)"

definition cancel_all :: "leaf \<Rightarrow> leaf_effect list" where
  "cancel_all l =
    map (\<lambda>(rid, s). On_call rid Cancel_call) (filter (\<lambda>(rid, s). \<not> i_dead s \<and> \<not> i_finishing s) (l_streams l)) @
    map (\<lambda>(rid, h). On_backend h B_cancel) (l_backend_streams l)"

definition stop_end :: "leaf \<Rightarrow> leaf" where
  "stop_end l = l\<lparr>l_streams := [], l_pending := [], l_local_endpoints := [], l_local_tombstones := []\<rparr>"

text \<open>The first parent that is online.\<close>

definition is_online :: "(string \<times> peer_state) list \<Rightarrow> string \<Rightarrow> bool" where
  "is_online peers p \<longleftrightarrow> (p, Peer_online) \<in> set peers"

definition leaf_on_peer_event ::
  "mesh_env \<Rightarrow> u64 \<Rightarrow> (string \<times> peer_state) list \<Rightarrow> peer_event \<Rightarrow> leaf \<Rightarrow> leaf \<times> leaf_effect list" where
  "leaf_on_peer_event v now_ms peers ev l =
    (if pe_id ev \<notin> set (l_parent_ids l) then (l, [])
     else if pe_state ev = Peer_online then
       (if l_active_parent l = []
        then send_snapshot_to_parent v now_ms (l\<lparr>l_active_parent := pe_id ev, l_all_parents_down := False\<rparr>)
        else (l, []))
     else if pe_state ev = Peer_closed \<and> pe_id ev = l_active_parent l then
       (case find (\<lambda>p. p \<noteq> pe_id ev \<and> is_online peers p) (l_parent_ids l) of
          Some p \<Rightarrow> (l\<lparr>l_active_parent := p\<rparr>, [])
        | None \<Rightarrow> (l\<lparr>l_active_parent := [], l_all_parents_down := True\<rparr>, []))
     else (l, []))"

definition leaf_do_sync_work :: "mesh_env \<Rightarrow> u64 \<Rightarrow> (string \<times> peer_state) list \<Rightarrow> leaf \<Rightarrow> leaf \<times> leaf_effect list" where
  "leaf_do_sync_work v now_ms peers l =
    send_snapshot_to_parent v now_ms
      (if l_active_parent l \<noteq> [] then l
       else case find (is_online peers) (l_parent_ids l) of
              None \<Rightarrow> l
            | Some p \<Rightarrow> l\<lparr>l_active_parent := p, l_all_parents_down := False\<rparr>)"

text \<open>\<open>nodes\<close> and \<open>leaves\<close> are what Redis returned.\<close>

definition learn_leaf :: "string \<times> string \<Rightarrow> leaf \<Rightarrow> leaf" where
  "learn_leaf x l =
    (let (i, addr) = x
     in if om_find (l_known_leaves l) i \<noteq> None then l
        else case parse_address addr of None \<Rightarrow> l | Some a \<Rightarrow> l\<lparr>l_known_leaves := om_set i a (l_known_leaves l)\<rparr>)"

definition leaf_do_redis_sync_work :: "string list \<Rightarrow> (string \<Rightarrow> (string \<times> string) list) \<Rightarrow> leaf \<Rightarrow> leaf" where
  "leaf_do_redis_sync_work nodes leaves l =
    foldl (\<lambda>l n. if n = l_id l then l else foldl (\<lambda>l x. learn_leaf x l) l (leaves n)) l nodes"

section \<open>Endpoints of this leaf\<close>

definition bump :: "bool \<Rightarrow> u64 \<Rightarrow> local_endpoint \<Rightarrow> leaf \<Rightarrow> endpoint \<times> leaf" where
  "bump live now_ms e l =
    (let version = l_version_counter l + 1
     in ((le_endpoint e)\<lparr>ep_alive := live, ep_version := version, ep_updated_ms := now_ms\<rparr>, l\<lparr>l_version_counter := version\<rparr>))"

text \<open>\<open>handle_register\<close>: accepted or not, with the error.\<close>

definition handle_register ::
  "mesh_env \<Rightarrow> time \<Rightarrow> u64 \<Rightarrow> endpoint option \<Rightarrow> leaf \<Rightarrow> (bool \<times> string) \<times> leaf \<times> leaf_effect list" where
  "handle_register v now now_ms request l =
    (case request of
       None \<Rightarrow> ((False, ''invalid_endpoint''), l, [])
     | Some ep \<Rightarrow>
         if ep_id ep = [] \<or> ep_service ep = [] \<or> ep_target ep = [] then ((False, ''invalid_endpoint''), l, [])
         else
           let ep = ep\<lparr>ep_owner_leaf := l_id l, ep_owner_node := current_node_id l\<rparr>;
               (ep, l) = (if ep_version ep = 0
                          then (ep\<lparr>ep_version := l_version_counter l + 1\<rparr>, l\<lparr>l_version_counter := l_version_counter l + 1\<rparr>)
                          else (ep, l));
               ep = ep\<lparr>ep_alive := True, ep_updated_ms := now_ms\<rparr>;
               l = l\<lparr>l_directory := upsert_local now_ms ep (l_directory l),
                     l_local_endpoints := om_set (ep_id ep) \<lparr> le_endpoint = ep, le_last_heartbeat = now \<rparr> (l_local_endpoints l),
                     l_local_tombstones := om_erase (ep_id ep) (l_local_tombstones l)\<rparr>
           in ((True, []), send_snapshot_to_parent v now_ms l))"

definition handle_heartbeat ::
  "mesh_env \<Rightarrow> time \<Rightarrow> u64 \<Rightarrow> string \<Rightarrow> leaf \<Rightarrow> bool \<times> leaf \<times> leaf_effect list" where
  "handle_heartbeat v now now_ms i l =
    (case om_find (l_local_endpoints l) i of
       None \<Rightarrow> (False, l, [])
     | Some e \<Rightarrow>
         if ep_alive (le_endpoint e)
         then (True, l\<lparr>l_local_endpoints := om_set i (e\<lparr>le_last_heartbeat := now\<rparr>) (l_local_endpoints l)\<rparr>, [])
         else
           let (ep, l) = bump True now_ms e l
           in (True, send_snapshot_to_parent v now_ms
                (l\<lparr>l_local_endpoints := om_set i \<lparr> le_endpoint = ep, le_last_heartbeat = now \<rparr> (l_local_endpoints l),
                   l_directory := upsert_local now_ms ep (l_directory l),
                   l_local_tombstones := om_erase i (l_local_tombstones l)\<rparr>)))"

definition handle_deregister ::
  "mesh_env \<Rightarrow> u64 \<Rightarrow> string \<Rightarrow> leaf \<Rightarrow> bool \<times> leaf \<times> leaf_effect list" where
  "handle_deregister v now_ms i l =
    (case om_find (l_local_endpoints l) i of
       None \<Rightarrow> (False, l, [])
     | Some e \<Rightarrow>
         let (ep, l) = bump False now_ms e l
         in (True, send_snapshot_to_parent v now_ms
              (l\<lparr>l_local_endpoints := om_set i (e\<lparr>le_endpoint := ep\<rparr>) (l_local_endpoints l),
                 l_directory := upsert_local now_ms ep (l_directory l)\<rparr>)))"

text \<open>
  One endpoint in \<open>do_heartbeat_work\<close>: removed after ten seconds without a heartbeat, dead after three.
  The dead ones enter the directory after the walk.
\<close>

definition sweep_endpoint ::
  "time \<Rightarrow> u64 \<Rightarrow> string \<times> local_endpoint \<Rightarrow> leaf \<times> endpoint list \<times> bool \<Rightarrow> leaf \<times> endpoint list \<times> bool" where
  "sweep_endpoint now now_ms x r =
    (let (i, e) = x; (l, dead, removed) = r; age = now - le_last_heartbeat e; ep = le_endpoint e
     in if age \<ge> milliseconds kEndpointRemoveMs then
          (let (ok, d) = remove_local now_ms i (l_directory l);
               l = l\<lparr>l_directory := d, l_local_endpoints := om_erase i (l_local_endpoints l)\<rparr>
           in if ok
              then (l\<lparr>l_local_tombstones :=
                       om_set i (endpoint0\<lparr>ep_id := ep_id ep, ep_version := ep_version ep, ep_updated_ms := ep_updated_ms ep\<rparr>, now_ms)
                         (l_local_tombstones l)\<rparr>, dead, True)
              else (l, dead, removed))
        else if age \<ge> milliseconds kEndpointDeadMs \<and> ep_alive ep then
          (let (ep, l) = bump False now_ms e l
           in (l\<lparr>l_local_endpoints := om_set i (e\<lparr>le_endpoint := ep\<rparr>) (l_local_endpoints l)\<rparr>, dead @ [ep], removed))
        else r)"

definition do_heartbeat_work :: "mesh_env \<Rightarrow> time \<Rightarrow> u64 \<Rightarrow> leaf \<Rightarrow> leaf \<times> leaf_effect list" where
  "do_heartbeat_work v now now_ms l =
    (let (l, dead, removed) = foldl (\<lambda>r x. sweep_endpoint now now_ms x r) (l, [], False) (l_local_endpoints l);
         l = l\<lparr>l_directory := foldl (\<lambda>d ep. upsert_local now_ms ep d) (l_directory l) dead\<rparr>
     in if dead \<noteq> [] \<or> removed then send_snapshot_to_parent v now_ms l else (l, []))"

end
