(* ===== verification/Leaf_Calls.thy ===== *)
theory Leaf_Calls
  imports Leaf
begin

text \<open>
  The calls of a leaf, \<open>creek/src/leaf/leaf_runtime.cpp\<close>: requests that reach it through the mesh, the
  requests it routes itself with the answers they get, and \<open>SayHello\<close>, which picks an endpoint and asks
  the circuit breaker.  What a backend answers and what happens on the leaf while a call waits are
  arguments.
\<close>

section \<open>Messages of the greeter\<close>

record hello_request =
  hq_name :: string
  hq_sid :: string
  hq_sticky :: bool

record hello_reply =
  hr_message :: string
  hr_backend_id :: string

text \<open>Protobuf's encoding of them.\<close>

record hello_codec =
  hc_ser_request :: "hello_request \<Rightarrow> bytes"
  hc_parse_request :: "bytes \<Rightarrow> hello_request option"
  hc_ser_reply :: "hello_reply \<Rightarrow> bytes"
  hc_parse_reply :: "bytes \<Rightarrow> hello_reply option"

text \<open>What a call to a backend comes to: its status, what it answered and how long it took.\<close>

record 'a outcome =
  oc_status :: status
  oc_reply :: 'a
  oc_latency_us :: u64

section \<open>Routed requests that arrive\<close>

definition make_error_response :: "routed_request \<Rightarrow> string \<Rightarrow> leaf \<Rightarrow> routed_response" where
  "make_error_response q err l =
    \<lparr> rs_request_id = rq_request_id q, rs_origin_leaf = l_id l, rs_origin_node = current_node_id l,
      rs_destination_leaf = rq_origin_leaf q, rs_destination_node = rq_origin_node q, rs_body = [], rs_status = -1,
      rs_error = err, rs_hop_limit = less_hop (rq_hop_limit q) \<rparr>"

definition send_response_to_parent :: "mesh_env \<Rightarrow> routed_response \<Rightarrow> leaf \<Rightarrow> leaf_effect list" where
  "send_response_to_parent v r l =
    (if l_active_parent l = [] then [] else [Mesh (Send (l_active_parent l) (Response r))]) @
    [Mesh (Metric ''leaf_to_node'' ''RoutedResponse'' (length (v_ser v (Response r))) 0 True [])]"

text \<open>The answer to a request: the body when the call went well, otherwise its status.\<close>

definition answer :: "routed_request \<Rightarrow> status \<Rightarrow> bytes \<Rightarrow> leaf \<Rightarrow> routed_response" where
  "answer q st body l =
    \<lparr> rs_request_id = rq_request_id q, rs_origin_leaf = l_id l, rs_origin_node = current_node_id l,
      rs_destination_leaf = rq_origin_leaf q, rs_destination_node = rq_origin_node q,
      rs_body = (if status_ok st then body else []), rs_status = (if status_ok st then 0 else g_code st),
      rs_error = (if status_ok st then [] else g_message st), rs_hop_limit = less_hop (rq_hop_limit q) \<rparr>"

definition live_endpoint :: "string \<Rightarrow> leaf \<Rightarrow> endpoint option" where
  "live_endpoint i l =
    (case find_endpoint i (l_directory l) of None \<Rightarrow> None | Some ep \<Rightarrow> if ep_alive ep then Some ep else None)"

text \<open>
  \<open>process_inbound_generic\<close>; \<open>unary\<close> is a unary call of gRPC to the target of an endpoint, with its
  method, the metadata that may be forwarded and the body.
\<close>

definition process_inbound_generic ::
  "mesh_env \<Rightarrow> trace_ids \<Rightarrow> (string \<Rightarrow> string \<Rightarrow> metadata \<Rightarrow> bytes \<Rightarrow> bytes outcome) \<Rightarrow> routed_request \<Rightarrow> leaf \<Rightarrow> leaf_effect list" where
  "process_inbound_generic v t unary q l =
    (case live_endpoint (rq_endpoint_id q) l of
       None \<Rightarrow> send_response_to_parent v (make_error_response q ''endpoint_not_found'' l) l
     | Some ep \<Rightarrow>
         let m = put_trace (child_span t (rq_metadata q)) (rq_metadata q);
             r = unary (ep_target ep) (rq_rpc_name q) (forwardable m) (rq_body q)
         in Mesh (Metric ''leaf_to_backend'' (rq_rpc_name q) (length (rq_body q)) (oc_latency_us r) (status_ok (oc_status r)) m) #
            send_response_to_parent v (answer q (oc_status r) (oc_reply r) l) l)"

text \<open>\<open>process_inbound_request\<close>; \<open>say_hello\<close> is the call of the greeter at a target.\<close>

definition process_inbound_request ::
  "mesh_env \<Rightarrow> trace_ids \<Rightarrow> hello_codec \<Rightarrow> (string \<Rightarrow> string \<Rightarrow> metadata \<Rightarrow> bytes \<Rightarrow> bytes outcome) \<Rightarrow>
     (string \<Rightarrow> hello_request \<Rightarrow> hello_reply outcome) \<Rightarrow> routed_request \<Rightarrow> leaf \<Rightarrow> leaf_effect list" where
  "process_inbound_request v t c unary say_hello q l =
    (if rq_destination_leaf q \<noteq> l_id l
     then send_response_to_parent v (make_error_response q ''wrong_destination_leaf'' l) l
     else if rq_rpc_name q \<noteq> [] \<and> hd (rq_rpc_name q) = CHR ''/'' then process_inbound_generic v t unary q l
     else case hc_parse_request c (rq_body q) of
            None \<Rightarrow> send_response_to_parent v (make_error_response q ''bad_request_body'' l) l
          | Some hello \<Rightarrow>
              (case live_endpoint (rq_endpoint_id q) l of
                 None \<Rightarrow> send_response_to_parent v (make_error_response q ''endpoint_not_found'' l) l
               | Some ep \<Rightarrow>
                   let r = say_hello (ep_target ep) hello
                   in Mesh (Metric ''leaf_to_backend'' (rq_rpc_name q) (length (rq_body q)) (oc_latency_us r)
                              (status_ok (oc_status r)) (rq_metadata q)) #
                      send_response_to_parent v
                        (answer q (oc_status r) (hc_ser_reply c ((oc_reply r)\<lparr>hr_backend_id := ep_id ep\<rparr>)) l) l))"

definition handle_inbound_request :: "mesh_env \<Rightarrow> routed_request \<Rightarrow> nat \<Rightarrow> leaf \<Rightarrow> leaf \<times> leaf_effect list" where
  "handle_inbound_request v q raw_size l =
    (let (ok, queue) = wq_try_push (q, raw_size) (l_request_queue l); l = l\<lparr>l_request_queue := queue\<rparr>
     in (l, if ok then [] else send_response_to_parent v (make_error_response q ''overloaded'' l) l))"

text \<open>One round of \<open>worker_loop\<close>, and one of \<open>stream_worker_loop\<close>.\<close>

definition worker_round ::
  "mesh_env \<Rightarrow> trace_ids \<Rightarrow> hello_codec \<Rightarrow> (string \<Rightarrow> string \<Rightarrow> metadata \<Rightarrow> bytes \<Rightarrow> bytes outcome) \<Rightarrow>
     (string \<Rightarrow> hello_request \<Rightarrow> hello_reply outcome) \<Rightarrow> leaf \<Rightarrow> leaf \<times> leaf_effect list" where
  "worker_round v t c unary say_hello l =
    (case wq_take_for (l_request_queue l) of
       (None, queue) \<Rightarrow> (l\<lparr>l_request_queue := queue\<rparr>, [])
     | (Some (q, raw_size), queue) \<Rightarrow>
         let l = l\<lparr>l_request_queue := queue\<rparr> in (l, process_inbound_request v t c unary say_hello q l))"

definition stream_worker_round :: "mesh_env \<Rightarrow> leaf_env \<Rightarrow> leaf \<Rightarrow> leaf \<times> leaf_effect list" where
  "stream_worker_round v w l =
    (case wq_take_for (l_stream_queue l) of
       (None, queue) \<Rightarrow> (l\<lparr>l_stream_queue := queue\<rparr>, [])
     | (Some t, queue) \<Rightarrow> run_task v w t (l\<lparr>l_stream_queue := queue\<rparr>))"

section \<open>Messages of the mesh\<close>

definition leaf_handle_directory :: "u64 \<Rightarrow> snapshot \<Rightarrow> nat \<Rightarrow> leaf \<Rightarrow> leaf \<times> leaf_effect list" where
  "leaf_handle_directory now_ms s raw_size l =
    (l\<lparr>l_directory := snd (merge_snapshot now_ms s (l_directory l))\<rparr>,
     [Mesh (Metric ''leaf_to_node'' ''DirectorySnapshot'' raw_size 0 True [])])"

text \<open>An answer nobody waits for is dropped.\<close>

definition handle_inbound_response :: "routed_response \<Rightarrow> leaf \<Rightarrow> leaf" where
  "handle_inbound_response r l =
    (if rs_request_id r \<notin> set (l_pending l) then l
     else l\<lparr>l_pending := removeAll (rs_request_id r) (l_pending l), l_answers := om_set (rs_request_id r) r (l_answers l)\<rparr>)"

definition queue_stream_task :: "mesh_env \<Rightarrow> stream_task \<Rightarrow> leaf \<Rightarrow> leaf \<times> leaf_effect list" where
  "queue_stream_task v t l =
    (let (ok, queue) = wq_try_push t (l_stream_queue l); l = l\<lparr>l_stream_queue := queue\<rparr>
     in (l, case t of
              Task_open q \<Rightarrow>
                if ok then []
                else send_stream_close_to v (so_request_id q) (so_origin_leaf q) (so_origin_node q) False (-1) ''overloaded'' l
            | _ \<Rightarrow> []))"

definition leaf_dispatch :: "mesh_env \<Rightarrow> u64 \<Rightarrow> wire_message \<Rightarrow> nat \<Rightarrow> leaf \<Rightarrow> leaf \<times> leaf_effect list" where
  "leaf_dispatch v now_ms m raw_size l =
    (case m of
       No_body \<Rightarrow> (l, [])
     | Directory s \<Rightarrow> leaf_handle_directory now_ms s raw_size l
     | Request q \<Rightarrow> handle_inbound_request v q raw_size l
     | Response r \<Rightarrow> (handle_inbound_response r l, [])
     | Stream_open q \<Rightarrow> queue_stream_task v (Task_open q) l
     | Stream_frame f \<Rightarrow> queue_stream_task v (Task_frame f) l
     | Stream_close c \<Rightarrow> queue_stream_task v (Task_close c) l)"

definition leaf_on_message ::
  "mesh_env \<Rightarrow> (bytes \<Rightarrow> wire_message option) \<Rightarrow> u64 \<Rightarrow> string \<Rightarrow> bytes \<Rightarrow> leaf \<Rightarrow> leaf \<times> leaf_effect list" where
  "leaf_on_message v parse now_ms p payload l =
    (if p \<notin> set (l_parent_ids l) \<or> payload = [] then (l, [])
     else case parse payload of None \<Rightarrow> (l, []) | Some m \<Rightarrow> leaf_dispatch v now_ms m (length payload) l)"

definition leaf_process_batch ::
  "mesh_env \<Rightarrow> (bytes \<Rightarrow> wire_message option) \<Rightarrow> u64 \<Rightarrow> (string \<times> peer_state) list \<Rightarrow> batch_message list \<Rightarrow> leaf \<Rightarrow>
     leaf \<times> leaf_effect list" where
  "leaf_process_batch v parse now_ms peers batch l =
    foldl (\<lambda>r m. after r (\<lambda>l.
      case m of
        Udp_datagram p payload \<Rightarrow>
          (case parse payload of None \<Rightarrow> (l, []) | Some w \<Rightarrow> leaf_dispatch v now_ms w (length payload) l)
      | Peer_notice ev \<Rightarrow> leaf_on_peer_event v now_ms peers ev l
      | Other_message \<Rightarrow> (l, []))) (l, []) batch"

section \<open>Routed requests that leave\<close>

definition routed_request_to ::
  "hello_codec \<Rightarrow> string \<Rightarrow> u64 \<Rightarrow> u64 \<Rightarrow> endpoint \<Rightarrow> hello_request \<Rightarrow> metadata \<Rightarrow> leaf \<Rightarrow> routed_request" where
  "routed_request_to c rid now_ms rpc_timeout_ms ep hello m l =
    \<lparr> rq_request_id = rid, rq_origin_leaf = l_id l, rq_origin_node = current_node_id l,
      rq_destination_leaf = ep_owner_leaf ep, rq_destination_node = ep_owner_node ep, rq_endpoint_id = ep_id ep,
      rq_rpc_name = ''SayHello'', rq_metadata = m, rq_body = hc_ser_request c hello,
      rq_deadline_ms = now_ms + rpc_timeout_ms, rq_hop_limit = kDefaultBackendHopLimit \<rparr>"

text \<open>\<open>send_routed_request\<close> up to its wait, and after it.\<close>

definition send_routed_begin :: "mesh_env \<Rightarrow> routed_request \<Rightarrow> leaf \<Rightarrow> leaf \<times> leaf_effect list" where
  "send_routed_begin v q l =
    (let l = l\<lparr>l_pending := List.insert (rq_request_id q) (l_pending l)\<rparr>; m = Request q
     in (l, snd (send_to_mesh v (rq_destination_node q) (rq_destination_leaf q) m 1 l) @
            [Mesh (Metric ''leaf_to_node'' ''RoutedRequest'' (length (v_ser v m)) 0 True (rq_metadata q))]))"

definition send_routed_end :: "hello_codec \<Rightarrow> string \<Rightarrow> endpoint \<Rightarrow> leaf \<Rightarrow> (status \<times> hello_reply option) \<times> leaf" where
  "send_routed_end c rid ep l =
    (case om_find (l_answers l) rid of
       None \<Rightarrow> ((status_of DEADLINE_EXCEEDED ''rpc_timeout'', None), l\<lparr>l_pending := removeAll rid (l_pending l)\<rparr>)
     | Some r \<Rightarrow>
         (if rs_status r = 0 then
            (case hc_parse_reply c (rs_body r) of
               None \<Rightarrow> (status_of INTERNAL ''bad_reply_body'', None)
             | Some reply \<Rightarrow> (ok_status, Some (reply\<lparr>hr_backend_id := ep_id ep\<rparr>)))
          else (status_of (if rs_status r > 0 then rs_status r else UNAVAILABLE) (rs_error r), None),
          l\<lparr>l_answers := om_erase rid (l_answers l)\<rparr>))"

text \<open>\<open>call_backend\<close>: the reply carries the endpoint whatever the status.\<close>

definition call_backend ::
  "hello_codec \<Rightarrow> (string \<Rightarrow> hello_request \<Rightarrow> hello_reply outcome) \<Rightarrow> endpoint \<Rightarrow> hello_request \<Rightarrow> metadata \<Rightarrow>
     hello_reply outcome \<times> leaf_effect list" where
  "call_backend c say_hello ep hello m =
    (let r = say_hello (ep_target ep) hello
     in (r\<lparr>oc_reply := (oc_reply r)\<lparr>hr_backend_id := ep_id ep\<rparr>\<rparr>,
         [Mesh (Metric ''leaf_to_backend'' ''SayHello'' (length (hc_ser_request c hello)) (oc_latency_us r) (status_ok (oc_status r)) m)]))"

section \<open>SayHello\<close>

definition greeter_service :: string where "greeter_service = ''creek.v1.Greeter''"

text \<open>The failures that are not the endpoint's.\<close>

definition blames_endpoint :: "status \<Rightarrow> bool" where
  "blames_endpoint st \<longleftrightarrow> g_code st \<noteq> UNAVAILABLE \<or>
     g_message st \<notin> set [''no_endpoint'', ''no_backend'', ''leaf_not_found'', ''circuit_open'']"

text \<open>
  A call to an endpoint, local or routed: its outcome, the leaf after it (others ran while it waited),
  its effects and the time when it returned.
\<close>

type_synonym performed = "hello_reply outcome \<times> leaf \<times> leaf_effect list \<times> time"

definition settle_success :: "endpoint \<Rightarrow> u64 \<Rightarrow> leaf \<Rightarrow> leaf" where
  "settle_success ep latency_us l = l\<lparr>l_breaker := record_success (ep_id ep) latency_us (l_breaker l)\<rparr>"

definition settle_failure :: "time \<Rightarrow> endpoint \<Rightarrow> status \<Rightarrow> leaf \<Rightarrow> leaf" where
  "settle_failure now ep st l =
    l\<lparr>l_breaker := (if blames_endpoint st then record_failure circuit_defaults now (ep_id ep) (l_breaker l) else l_breaker l),
      l_balancer := invalidate (ep_id ep) (l_balancer l)\<rparr>"

text \<open>
  The loop of \<open>invoke_for_hello\<close> over its attempts; \<open>perform\<close> gets the time, the endpoint and the leaf.
  The result is the last status with the reply of a call that went well.
\<close>

fun hello_attempts ::
  "(string \<Rightarrow> u64) \<Rightarrow> (time \<Rightarrow> endpoint \<Rightarrow> leaf \<Rightarrow> performed) \<Rightarrow> metadata \<Rightarrow> endpoint list \<Rightarrow> nat \<Rightarrow> string list \<Rightarrow> status \<Rightarrow>
     time \<Rightarrow> leaf \<Rightarrow> (status \<times> hello_reply option) \<times> leaf \<times> leaf_effect list" where
  "hello_attempts hash perform m es 0 tried err now l = ((err, None), l, [])"
| "hello_attempts hash perform m es (Suc n) tried err now l =
    (let (choice, b) = pick hash greeter_service m es now (l_balancer l); l = l\<lparr>l_balancer := b\<rparr>
     in case choice of
          None \<Rightarrow> ((err, None), l, [])
        | Some ep \<Rightarrow>
            if ep_id ep \<in> set tried then ((err, None), l, [])
            else
              let (ok, br) = allow circuit_defaults now (ep_id ep) (l_breaker l); l = l\<lparr>l_breaker := br\<rparr>;
                  tried = ep_id ep # tried
              in if \<not> ok
                 then hello_attempts hash perform m es n tried (status_of UNAVAILABLE ''circuit_open'') now l
                 else
                   let (r, l, fs, now) = perform now ep l
                   in if status_ok (oc_status r)
                      then ((oc_status r, Some (oc_reply r)), settle_success ep (oc_latency_us r) l, fs)
                      else let (res, l, gs) = hello_attempts hash perform m es n tried (oc_status r) now
                                                 (settle_failure now ep (oc_status r) l)
                           in (res, l, fs @ gs))"

definition invoke_for_hello ::
  "hello_codec \<Rightarrow> (string \<Rightarrow> u64) \<Rightarrow> (time \<Rightarrow> endpoint \<Rightarrow> leaf \<Rightarrow> performed) \<Rightarrow> time \<Rightarrow> hello_request \<Rightarrow> metadata \<Rightarrow> leaf \<Rightarrow>
     (status \<times> hello_reply option) \<times> leaf \<times> leaf_effect list" where
  "invoke_for_hello c hash perform now hello m l =
    (let es = service greeter_service (l_directory l);
         metric = (\<lambda>ok. Mesh (Metric ''client_to_leaf'' ''SayHello'' (length (hc_ser_request c hello)) 0 ok m))
     in if es = [] then ((status_of UNAVAILABLE ''no_endpoint'', None), l, [metric False])
        else
          let (res, l, fs) = hello_attempts hash perform m es 2 [] (status_of UNAVAILABLE ''no_attempt'') now l
          in (res, l, fs @ [metric (status_ok (fst res))]))"

text \<open>The metadata of a call of the greeter.\<close>

definition shard_header :: "string \<Rightarrow> bool" where
  "shard_header k \<longleftrightarrow> k \<in> set [''x-creek-shard'', ''shard_key'', ''tenant_id'']"

definition hello_metadata :: "trace_ids \<Rightarrow> (string \<times> string) list \<Rightarrow> hello_request \<Rightarrow> metadata" where
  "hello_metadata t client hello =
    (let m = foldl (\<lambda>m (k, x). let m = om_set k x m in if shard_header k then om_set ''shard_key'' x m else m) [] client;
         m = om_set ''sid'' (hq_sid hello) m;
         m = om_set ''sticky'' (if hq_sticky hello then ''true'' else ''false'') m;
         m = om_set ''x-sid'' (hq_sid hello) m
     in put_trace (child_span t m) m)"

definition handle_say_hello ::
  "hello_codec \<Rightarrow> trace_ids \<Rightarrow> (string \<Rightarrow> u64) \<Rightarrow> (time \<Rightarrow> endpoint \<Rightarrow> leaf \<Rightarrow> performed) \<Rightarrow> time \<Rightarrow> (string \<times> string) list \<Rightarrow>
     hello_request \<Rightarrow> leaf \<Rightarrow> (status \<times> hello_reply option) \<times> leaf \<times> leaf_effect list" where
  "handle_say_hello c t hash perform now client hello l =
    invoke_for_hello c hash perform now hello (hello_metadata t client hello) l"

section \<open>Administration\<close>

text \<open>\<open>handle_directory_query\<close>: the leaf, its node and all endpoints.\<close>

definition handle_directory_query :: "u64 \<Rightarrow> leaf \<Rightarrow> (string \<times> string \<times> endpoint list) \<times> leaf" where
  "handle_directory_query now_ms l =
    (let (s, d) = take_snapshot now_ms (l_id l) (l_directory l)
     in ((l_id l, current_node_id l, sn_endpoints s), l\<lparr>l_directory := d\<rparr>))"

definition handle_set_sticky :: "int \<Rightarrow> int \<Rightarrow> leaf \<Rightarrow> leaf" where
  "handle_set_sticky strategy ttl_ms l =
    (let b = (if strategy = 0 then set_shard_key [] (l_balancer l) else l_balancer l)
     in l\<lparr>l_balancer := (if ttl_ms > 0 then set_ttl (milliseconds ttl_ms) b else b)\<rparr>)"

definition handle_set_breaker :: "string \<Rightarrow> leaf \<Rightarrow> leaf" where
  "handle_set_breaker i l = l\<lparr>l_breaker := (if i \<noteq> [] then reset i (l_breaker l) else reset_all (l_breaker l))\<rparr>"

text \<open>\<open>loaded\<close> is the module the WebAssembly runtime made of the bytes, or its error.\<close>

definition handle_push_wasm :: "string + u32 \<Rightarrow> leaf \<Rightarrow> (string + u32) \<times> leaf" where
  "handle_push_wasm loaded l =
    (case loaded of Inl err \<Rightarrow> (Inl err, l) | Inr i \<Rightarrow> (Inr i, l\<lparr>l_wasm_ids := l_wasm_ids l @ [i]\<rparr>))"

definition handle_list_wasm :: "leaf \<Rightarrow> (u32 \<times> string \<times> nat) list" where
  "handle_list_wasm l = map (\<lambda>i. (i, ''wasm_'' @ show_nat (unat i), 0)) (l_wasm_ids l)"

definition handle_unload_wasm :: "u32 \<Rightarrow> leaf \<Rightarrow> bool \<times> leaf" where
  "handle_unload_wasm i l =
    (if i \<in> set (l_wasm_ids l) then (True, l\<lparr>l_wasm_ids := remove1 i (l_wasm_ids l)\<rparr>) else (False, l))"

end
