(* ===== verification/Leaf_Laws.thy ===== *)
theory Leaf_Laws
  imports Leaf_Calls Routing_Laws Node_Laws
begin

text \<open>
  Laws of the leaf: what becomes of an endpoint whose backend falls silent, what the directory of a leaf
  says of its own endpoints, and what a leaf does after it was stopped.
\<close>

section \<open>One endpoint among others\<close>

lemma find_upsert:
  "ep_id e \<noteq> [] \<Longrightarrow> om_find (d_endpoints (upsert_local now_ms e d)) i =
     (if i = ep_id e
      then Some (let e = (case om_find (d_endpoints d) (ep_id e) of
                            None \<Rightarrow> if ep_version e = 0 then e\<lparr>ep_version := 1\<rparr> else e
                          | Some old \<Rightarrow> e\<lparr>ep_version := ep_version old + 1\<rparr>)
                 in if ep_updated_ms e = 0 then e\<lparr>ep_updated_ms := now_ms\<rparr> else e)
      else om_find (d_endpoints d) i)"
  by (simp add: upsert_local_def put_endpoint_def om_find_set_any Let_def split: option.split)

lemma find_remove: "om_find (d_endpoints (snd (remove_local now_ms i d))) j = (if j = i then None else om_find (d_endpoints d) j)"
  by (auto simp add: remove_local_def split: option.split)

text \<open>What a leaf says of an endpoint: in its own table, in its directory, and among its removals.\<close>

definition says :: "string \<Rightarrow> leaf \<Rightarrow> local_endpoint option \<times> endpoint option \<times> (endpoint \<times> u64) option" where
  "says i l = (om_find (l_local_endpoints l) i, om_find (d_endpoints (l_directory l)) i, om_find (l_local_tombstones l) i)"

lemma sweep_elsewhere: "i \<noteq> fst x \<Longrightarrow> says i (fst (sweep_endpoint now now_ms x r)) = says i (fst r)"
  by (auto simp add: sweep_endpoint_def says_def bump_def Let_def split_beta om_find_set_any find_remove)

lemma sweep_dead_same:
  "ep_id (le_endpoint (snd x)) \<noteq> i \<Longrightarrow>
     filter (\<lambda>d. ep_id d = i) (fst (snd (sweep_endpoint now now_ms x r))) = filter (\<lambda>d. ep_id d = i) (fst (snd r))"
  by (auto simp add: sweep_endpoint_def bump_def Let_def split_beta)

lemma sweep_all_dead_same:
  "\<forall>x\<in>set xs. ep_id (le_endpoint (snd x)) \<noteq> i \<Longrightarrow>
     filter (\<lambda>d. ep_id d = i) (fst (snd (foldl (\<lambda>r x. sweep_endpoint now now_ms x r) r xs))) = filter (\<lambda>d. ep_id d = i) (fst (snd r))"
  by (induction xs arbitrary: r) (simp_all add: sweep_dead_same)

lemma sweep_removed: "snd (snd r) \<Longrightarrow> snd (snd (sweep_endpoint now now_ms x r))"
  by (auto simp add: sweep_endpoint_def Let_def split_beta)

lemma sweep_all_removed: "snd (snd r) \<Longrightarrow> snd (snd (foldl (\<lambda>r x. sweep_endpoint now now_ms x r) r xs))"
  by (induction xs arbitrary: r) (simp_all add: sweep_removed)

lemma sweep_all_elsewhere:
  "i \<notin> fst ` set xs \<Longrightarrow> says i (fst (foldl (\<lambda>r x. sweep_endpoint now now_ms x r) r xs)) = says i (fst r)"
  by (induction xs arbitrary: r) (simp_all add: sweep_elsewhere)

lemma upsert_all_elsewhere:
  "\<forall>e\<in>set es. ep_id e \<noteq> i \<Longrightarrow>
     om_find (d_endpoints (foldl (\<lambda>d ep. upsert_local now_ms ep d) d es)) i = om_find (d_endpoints d) i"
proof (induction es arbitrary: d)
  case (Cons e es)
  have "om_find (d_endpoints (upsert_local now_ms e d)) i = om_find (d_endpoints d) i"
    using Cons.prems by (cases "ep_id e = []") (auto simp add: find_upsert, simp add: upsert_local_def)
  then show ?case using Cons by simp
qed simp

text \<open>The table of a leaf: in order, by the names of its endpoints, and all of them its own.\<close>

definition table_ok :: "leaf \<Rightarrow> bool" where
  "table_ok l \<longleftrightarrow> om_ok (l_local_endpoints l) \<and>
     (\<forall>i e. om_find (l_local_endpoints l) i = Some e \<longrightarrow> ep_id (le_endpoint e) = i \<and> i \<noteq> [] \<and> ep_owner_leaf (le_endpoint e) = l_id l)"

lemma own_snapshot_says: "says i (snd (own_snapshot now_ms l)) = (om_find (l_local_endpoints l) i, om_find (d_endpoints (l_directory l)) i,
    om_find (filter (\<lambda>(i, e, removed_ms). \<not> now_ms - removed_ms \<ge> kLocalTombstoneTtlMs) (l_local_tombstones l)) i)"
  by (simp add: says_def own_snapshot_def Let_def)

lemma snapshot_frame:
  "l_local_endpoints (fst (send_snapshot_to_parent v now_ms l)) = l_local_endpoints l"
  "l_directory (fst (send_snapshot_to_parent v now_ms l)) = l_directory l"
  "l_id (fst (send_snapshot_to_parent v now_ms l)) = l_id l"
  by (simp_all add: send_snapshot_to_parent_def own_snapshot_def Let_def)

text \<open>
  The walk over the endpoints treats each as if it were alone.
\<close>

lemma sweep_one:
  assumes "table_ok l" "om_find (l_local_endpoints l) i = Some e"
  obtains r where "says i (fst r) = says i l" "filter (\<lambda>d. ep_id d = i) (fst (snd r)) = []"
    and "\<And>l' dead removed. foldl (\<lambda>r x. sweep_endpoint now now_ms x r) (l, [], False) (l_local_endpoints l) = (l', dead, removed) \<Longrightarrow>
       says i l' = says i (fst (sweep_endpoint now now_ms (i, e) r)) \<and>
       filter (\<lambda>d. ep_id d = i) dead = filter (\<lambda>d. ep_id d = i) (fst (snd (sweep_endpoint now now_ms (i, e) r))) \<and>
       (snd (snd (sweep_endpoint now now_ms (i, e) r)) \<longrightarrow> removed)"
proof -
  have ok: "om_ok (l_local_endpoints l)" using assms(1) by (simp add: table_ok_def)
  obtain xs ys where split: "l_local_endpoints l = xs @ (i, e) # ys"
    using assms(2) by (meson map_of_SomeD split_list)
  have out: "i \<notin> fst ` set xs" "i \<notin> fst ` set ys"
    using ok by (auto simp add: split om_ok_def sorted_wrt_append)
  have ids: "ep_id (le_endpoint (snd x)) \<noteq> i" if "x \<in> set xs \<union> set ys" for x
  proof -
    have "om_find (l_local_endpoints l) (fst x) = Some (snd x)"
      using that om_find_mem [OF ok, of "fst x" "snd x"] by (auto simp add: split)
    then have "ep_id (le_endpoint (snd x)) = fst x" using assms(1) by (simp add: table_ok_def)
    then show ?thesis using that out by auto
  qed
  let ?f = "\<lambda>r x. sweep_endpoint now now_ms x r"
  let ?r = "foldl ?f (l, [], False) xs"
  have "says i (fst ?r) = says i l" using sweep_all_elsewhere [OF out(1), of now now_ms "(l, [], False)"] by simp
  moreover have "filter (\<lambda>d. ep_id d = i) (fst (snd ?r)) = []"
    using sweep_all_dead_same [of xs i now now_ms "(l, [], False)"] ids by simp
  moreover have "says i l' = says i (fst (sweep_endpoint now now_ms (i, e) ?r)) \<and>
       filter (\<lambda>d. ep_id d = i) dead = filter (\<lambda>d. ep_id d = i) (fst (snd (sweep_endpoint now now_ms (i, e) ?r))) \<and>
       (snd (snd (sweep_endpoint now now_ms (i, e) ?r)) \<longrightarrow> removed)"
    if f: "foldl ?f (l, [], False) (l_local_endpoints l) = (l', dead, removed)" for l' dead removed
  proof -
    let ?s = "sweep_endpoint now now_ms (i, e) ?r"
    have last: "foldl ?f ?s ys = (l', dead, removed)" using f by (simp add: split)
    show ?thesis using sweep_all_elsewhere [OF out(2), of now now_ms ?s] sweep_all_dead_same [of ys i now now_ms ?s] ids
      sweep_all_removed [of ?s now now_ms ys] by (simp add: last)
  qed
  ultimately show thesis by (rule that)
qed

lemma upsert_one:
  assumes "filter (\<lambda>d. ep_id d = i) es = [e]" "i \<noteq> []"
  shows "\<exists>d'. om_find (d_endpoints (foldl (\<lambda>d ep. upsert_local now_ms ep d) d es)) i = Some d' \<and>
    ep_alive d' = ep_alive e \<and> ep_target d' = ep_target e \<and> ep_service d' = ep_service e"
proof -
  obtain xs ys where es: "es = xs @ e # ys" "ep_id e = i" "\<forall>x\<in>set xs. ep_id x \<noteq> i" "\<forall>x\<in>set ys. ep_id x \<noteq> i"
    using assms(1) by (auto simp add: filter_eq_Cons_iff filter_empty_conv eq_commute [of "[]"])
  then have "om_find (d_endpoints (foldl (\<lambda>d ep. upsert_local now_ms ep d) d es)) i =
      om_find (d_endpoints (upsert_local now_ms e (foldl (\<lambda>d ep. upsert_local now_ms ep d) d xs))) i"
    by (simp add: upsert_all_elsewhere)
  then show ?thesis using assms(2) es(2) by (auto simp add: find_upsert Let_def split: option.split)
qed

lemma tombstone_rides:
  assumes "om_find (l_local_tombstones l) i = Some (x, now_ms)" "ep_id x = i"
    and "\<forall>k e. (k, e) \<in> set (l_local_endpoints l) \<longrightarrow> ep_id (le_endpoint e) \<noteq> i" "p \<in> set (l_parent_ids l)"
  shows "\<exists>s. Mesh (Send p (Directory s)) \<in> set (snd (send_snapshot_to_parent v now_ms l)) \<and>
    i \<in> ep_id ` set (sn_removed s) \<and> i \<notin> ep_id ` set (sn_endpoints s)"
proof (intro exI conjI)
  let ?s = "fst (own_snapshot now_ms l)"
  show "Mesh (Send p (Directory ?s)) \<in> set (snd (send_snapshot_to_parent v now_ms l))"
    using assms(4) by (simp add: send_snapshot_to_parent_def own_snapshot_def Let_def)
  have "(i, x, now_ms) \<in> set (l_local_tombstones l)" using assms(1) by (rule map_of_SomeD)
  then have "x \<in> set (sn_removed ?s)"
    by (force simp add: own_snapshot_def Let_def kLocalTombstoneTtlMs_def)
  then show "i \<in> ep_id ` set (sn_removed ?s)" using assms(2) by blast
  show "i \<notin> ep_id ` set (sn_endpoints ?s)" using assms(3) by (auto simp add: own_snapshot_def Let_def)
qed

section \<open>Endpoints that fall silent\<close>

text \<open>What a round of the heartbeat task leaves of the parents and of the names in the table.\<close>

lemma sweep_frame:
  "l_parent_ids (fst (sweep_endpoint now now_ms x r)) = l_parent_ids (fst r)"
  "l_id (fst (sweep_endpoint now now_ms x r)) = l_id (fst r)"
  by (auto simp add: sweep_endpoint_def bump_def Let_def split_beta)

lemma sweep_all_frame:
  "l_parent_ids (fst (foldl (\<lambda>r x. sweep_endpoint now now_ms x r) r xs)) = l_parent_ids (fst r)"
  "l_id (fst (foldl (\<lambda>r x. sweep_endpoint now now_ms x r) r xs)) = l_id (fst r)"
  by (induction xs arbitrary: r) (simp_all add: sweep_frame)

lemma sweep_table_ok:
  "table_ok (fst r) \<Longrightarrow> ep_id (le_endpoint (snd x)) = fst x \<Longrightarrow> fst x \<noteq> [] \<Longrightarrow> ep_owner_leaf (le_endpoint (snd x)) = l_id (fst r) \<Longrightarrow>
     table_ok (fst (sweep_endpoint now now_ms x r))"
  by (auto simp add: table_ok_def sweep_endpoint_def bump_def Let_def split_beta om_find_set_any)

lemma sweep_all_table_ok:
  "table_ok (fst r) \<Longrightarrow>
     \<forall>x\<in>set xs. ep_id (le_endpoint (snd x)) = fst x \<and> fst x \<noteq> [] \<and> ep_owner_leaf (le_endpoint (snd x)) = l_id (fst r) \<Longrightarrow>
     table_ok (fst (foldl (\<lambda>r x. sweep_endpoint now now_ms x r) r xs))"
  by (induction xs arbitrary: r) (simp_all add: sweep_table_ok sweep_frame)

lemma table_entries:
  "table_ok l \<Longrightarrow> x \<in> set (l_local_endpoints l) \<Longrightarrow>
     ep_id (le_endpoint (snd x)) = fst x \<and> fst x \<noteq> [] \<and> ep_owner_leaf (le_endpoint (snd x)) = l_id l"
  using om_find_mem [of "l_local_endpoints l" "fst x" "snd x"] by (auto simp add: table_ok_def)

lemma sweep_whole_table_ok:
  "table_ok l \<Longrightarrow> table_ok (fst (foldl (\<lambda>r x. sweep_endpoint now now_ms x r) (l, [], False) (l_local_endpoints l)))"
  by (rule sweep_all_table_ok) (use table_entries in auto)

lemma thresholds:
  "milliseconds kEndpointRemoveMs = milliseconds 10000" "milliseconds kEndpointDeadMs = milliseconds 3000"
  "milliseconds 3000 < milliseconds 10000"
  by (simp_all add: kEndpointRemoveMs_def kEndpointDeadMs_def milliseconds_def)

text \<open>One endpoint in its step of the walk.\<close>

lemma sweep_young: "now - le_last_heartbeat e < milliseconds 3000 \<Longrightarrow> sweep_endpoint now now_ms (i, e) r = r"
  using thresholds by (simp add: sweep_endpoint_def split_beta Let_def)

lemma sweep_dead:
  "\<not> ep_alive (le_endpoint e) \<Longrightarrow> now - le_last_heartbeat e < milliseconds 10000 \<Longrightarrow> sweep_endpoint now now_ms (i, e) r = r"
  using thresholds by (simp add: sweep_endpoint_def split_beta Let_def)

lemma sweep_dying:
  assumes "ep_alive (le_endpoint e)" "milliseconds 3000 \<le> now - le_last_heartbeat e" "now - le_last_heartbeat e < milliseconds 10000"
  obtains e' where "om_find (l_local_endpoints (fst (sweep_endpoint now now_ms (i, e) r))) i = Some e'" "\<not> ep_alive (le_endpoint e')"
    "fst (snd (sweep_endpoint now now_ms (i, e) r)) = fst (snd r) @ [le_endpoint e']" "ep_id (le_endpoint e') = ep_id (le_endpoint e)"
    "ep_target (le_endpoint e') = ep_target (le_endpoint e)" "ep_service (le_endpoint e') = ep_service (le_endpoint e)"
proof (rule that)
  let ?ep = "fst (bump False now_ms e (fst r))"
  show "om_find (l_local_endpoints (fst (sweep_endpoint now now_ms (i, e) r))) i = Some (e\<lparr>le_endpoint := ?ep\<rparr>)"
    "\<not> ep_alive (le_endpoint (e\<lparr>le_endpoint := ?ep\<rparr>))"
    "fst (snd (sweep_endpoint now now_ms (i, e) r)) = fst (snd r) @ [le_endpoint (e\<lparr>le_endpoint := ?ep\<rparr>)]"
    "ep_id (le_endpoint (e\<lparr>le_endpoint := ?ep\<rparr>)) = ep_id (le_endpoint e)"
    "ep_target (le_endpoint (e\<lparr>le_endpoint := ?ep\<rparr>)) = ep_target (le_endpoint e)"
    "ep_service (le_endpoint (e\<lparr>le_endpoint := ?ep\<rparr>)) = ep_service (le_endpoint e)"
    using assms thresholds by (simp_all add: sweep_endpoint_def split_beta Let_def bump_def om_find_set_any)
qed

lemma sweep_gone:
  assumes "milliseconds 10000 \<le> now - le_last_heartbeat e"
  shows "om_find (l_local_endpoints (fst (sweep_endpoint now now_ms (i, e) r))) i = None"
    "om_find (d_endpoints (l_directory (fst (sweep_endpoint now now_ms (i, e) r)))) i = None"
    "fst (snd (sweep_endpoint now now_ms (i, e) r)) = fst (snd r)"
    "om_find (d_endpoints (l_directory (fst r))) i \<noteq> None \<Longrightarrow>
       (\<exists>x. om_find (l_local_tombstones (fst (sweep_endpoint now now_ms (i, e) r))) i = Some (x, now_ms) \<and> ep_id x = ep_id (le_endpoint e)) \<and>
       snd (snd (sweep_endpoint now now_ms (i, e) r))"
  using assms thresholds find_remove [of now_ms i "l_directory (fst r)" i]
  by (auto simp add: sweep_endpoint_def split_beta Let_def remove_local_def om_find_set_any)

lemma heartbeat_run:
  assumes "do_heartbeat_work v now now_ms l = (l', es)" "table_ok l"
  obtains l1 dead removed where
    "foldl (\<lambda>r x. sweep_endpoint now now_ms x r) (l, [], False) (l_local_endpoints l) = (l1, dead, removed)"
    and "l_local_endpoints l' = l_local_endpoints l1" "l_directory l' = foldl (\<lambda>d ep. upsert_local now_ms ep d) (l_directory l1) dead"
    and "l_parent_ids l1 = l_parent_ids l" "table_ok l1" "l_id l1 = l_id l" "l_id l' = l_id l1"
    and "removed \<Longrightarrow> es = snd (send_snapshot_to_parent v now_ms
           (l1\<lparr>l_directory := foldl (\<lambda>d ep. upsert_local now_ms ep d) (l_directory l1) dead\<rparr>))"
proof -
  obtain l1 dead removed where f: "foldl (\<lambda>r x. sweep_endpoint now now_ms x r) (l, [], False) (l_local_endpoints l) = (l1, dead, removed)"
    using prod_cases3 by blast
  let ?l = "l1\<lparr>l_directory := foldl (\<lambda>d ep. upsert_local now_ms ep d) (l_directory l1) dead\<rparr>"
  have run: "(l', es) = (if dead \<noteq> [] \<or> removed then send_snapshot_to_parent v now_ms ?l else (?l, []))"
    using assms(1) by (simp add: do_heartbeat_work_def f Let_def)
  then have "l' = fst (send_snapshot_to_parent v now_ms ?l) \<or> l' = ?l" "removed \<Longrightarrow> es = snd (send_snapshot_to_parent v now_ms ?l)"
    by (auto split: if_splits simp add: prod_eq_iff)
  then show thesis
    using that [OF f] snapshot_frame [of v now_ms ?l] sweep_all_frame [of now now_ms "(l, [], False)" "l_local_endpoints l"]
      sweep_whole_table_ok [OF assms(2), of now now_ms] by (auto simp add: f)
qed

lemma names_not_in_table:
  "table_ok l \<Longrightarrow> om_find (l_local_endpoints l) i = None \<Longrightarrow> (k, e) \<in> set (l_local_endpoints l) \<Longrightarrow> ep_id (le_endpoint e) \<noteq> i"
  using table_entries [of l "(k, e)"] om_find_mem [of "l_local_endpoints l" i e] by (auto simp add: table_ok_def)

text \<open>
  C32: A backend that falls silent disappears.  One round of the heartbeat task leaves an endpoint that was
  heard of in the last three seconds as it is; one that was not is marked dead, in the table of the leaf and
  in its directory; after ten seconds it is in neither, and if the directory still had it every parent is
  sent its removal.
\<close>

theorem silent_backend_disappears:
  assumes "table_ok l" "om_find (l_local_endpoints l) i = Some e" "do_heartbeat_work v now now_ms l = (l', es)"
  defines "age \<equiv> now - le_last_heartbeat e"
  shows "if age < milliseconds 3000
         then om_find (l_local_endpoints l') i = Some e \<and> find_endpoint i (l_directory l') = find_endpoint i (l_directory l)
         else if age < milliseconds 10000
         then (\<exists>e'. om_find (l_local_endpoints l') i = Some e' \<and> \<not> ep_alive (le_endpoint e')) \<and>
              (ep_alive (le_endpoint e) \<longrightarrow> (\<exists>d. find_endpoint i (l_directory l') = Some d \<and> \<not> ep_alive d))
         else om_find (l_local_endpoints l') i = None \<and> find_endpoint i (l_directory l') = None \<and>
              (find_endpoint i (l_directory l) \<noteq> None \<longrightarrow>
                 (\<forall>p\<in>set (l_parent_ids l). \<exists>s. Mesh (Send p (Directory s)) \<in> set es \<and>
                    i \<in> ep_id ` set (sn_removed s) \<and> i \<notin> ep_id ` set (sn_endpoints s)))"
proof -
  obtain r where r: "says i (fst r) = says i l" "filter (\<lambda>d. ep_id d = i) (fst (snd r)) = []"
    and walk: "\<And>l' dead removed. foldl (\<lambda>r x. sweep_endpoint now now_ms x r) (l, [], False) (l_local_endpoints l) = (l', dead, removed) \<Longrightarrow>
       says i l' = says i (fst (sweep_endpoint now now_ms (i, e) r)) \<and>
       filter (\<lambda>d. ep_id d = i) dead = filter (\<lambda>d. ep_id d = i) (fst (snd (sweep_endpoint now now_ms (i, e) r))) \<and>
       (snd (snd (sweep_endpoint now now_ms (i, e) r)) \<longrightarrow> removed)"
    by (rule sweep_one [OF assms(1,2), of now now_ms]) blast
  obtain l1 dead removed where f: "foldl (\<lambda>r x. sweep_endpoint now now_ms x r) (l, [], False) (l_local_endpoints l) = (l1, dead, removed)"
    and l': "l_local_endpoints l' = l_local_endpoints l1" "l_directory l' = foldl (\<lambda>d ep. upsert_local now_ms ep d) (l_directory l1) dead"
    and parents: "l_parent_ids l1 = l_parent_ids l" and ok: "table_ok l1"
    and es: "removed \<Longrightarrow> es = snd (send_snapshot_to_parent v now_ms
           (l1\<lparr>l_directory := foldl (\<lambda>d ep. upsert_local now_ms ep d) (l_directory l1) dead\<rparr>))"
    by (rule heartbeat_run [OF assms(3,1)]) blast
  let ?s = "sweep_endpoint now now_ms (i, e) r"
  note w = walk [OF f]
  have id: "ep_id (le_endpoint e) = i" "i \<noteq> []" using assms(1,2) by (auto simp add: table_ok_def)
  consider (young) "age < milliseconds 3000" | (old) "milliseconds 3000 \<le> age" "age < milliseconds 10000" | (gone) "milliseconds 10000 \<le> age"
    by linarith
  then show ?thesis
  proof cases
    case young
    then have "says i l1 = says i l" "filter (\<lambda>d. ep_id d = i) dead = []" using w r sweep_young [of now e] by (simp_all add: age_def)
    then show ?thesis using young by (simp add: l' says_def find_endpoint_def upsert_all_elsewhere filter_empty_conv assms(2))
  next
    case old
    show ?thesis
    proof (cases "ep_alive (le_endpoint e)")
      case False
      then have "says i l1 = says i l" using w r old sweep_dead [of e now] by (simp add: age_def)
      then show ?thesis using old False by (simp add: l' says_def assms(2))
    next
      case True
      then obtain e' where e': "om_find (l_local_endpoints (fst ?s)) i = Some e'" "\<not> ep_alive (le_endpoint e')"
          "fst (snd ?s) = fst (snd r) @ [le_endpoint e']" "ep_id (le_endpoint e') = i"
        using old id sweep_dying [where e = e and now = now and now_ms = now_ms and i = i and r = r] by (auto simp add: age_def)
      then have "filter (\<lambda>d. ep_id d = i) dead = [le_endpoint e']" using w r(2) by simp
      from upsert_one [OF this id(2), of now_ms "l_directory l1"]
      show ?thesis using old e' w by (auto simp add: l' find_endpoint_def says_def)
    qed
  next
    case gone
    note s = sweep_gone [OF gone [unfolded age_def], where now_ms = now_ms and i = i and r = r]
    have "filter (\<lambda>d. ep_id d = i) dead = []" using w r(2) s(3) by simp
    then have none: "om_find (l_local_endpoints l') i = None" "find_endpoint i (l_directory l') = None"
      using w s(1,2) by (simp_all add: l' says_def upsert_all_elsewhere filter_empty_conv find_endpoint_def)
    have "\<exists>s. Mesh (Send p (Directory s)) \<in> set es \<and> i \<in> ep_id ` set (sn_removed s) \<and> i \<notin> ep_id ` set (sn_endpoints s)"
      if p: "p \<in> set (l_parent_ids l)" and d: "find_endpoint i (l_directory l) \<noteq> None" for p
    proof -
      obtain x where x: "om_find (l_local_tombstones l1) i = Some (x, now_ms)" "ep_id x = i" "removed"
        using s(4) d r(1) w id(1) by (auto simp add: says_def find_endpoint_def)
      show ?thesis unfolding es [OF x(3)]
        by (rule tombstone_rides [where x = x]) (use x p parents names_not_in_table [OF ok] none(1) in \<open>auto simp add: l'\<close>)
    qed
    then show ?thesis using gone thresholds(3) none by auto
  qed
qed

theorem silent_backend_disappears_witness:
  "\<exists>l' es. do_heartbeat_work \<lparr> v_accepts = (\<lambda>p. True), v_accepts_connected = (\<lambda>p. True), v_ser = (\<lambda>m. []) \<rparr> (seconds 20) 20000
       ((new_leaf ''a'' [] 0)\<lparr>l_local_endpoints := [(''e'', \<lparr> le_endpoint = endpoint0\<lparr>ep_id := ''e'', ep_owner_leaf := ''a''\<rparr>,
          le_last_heartbeat = seconds 1 \<rparr>)]\<rparr>) = (l', es) \<and>
     om_find (l_local_endpoints l') ''e'' = None \<and> find_endpoint ''e'' (l_directory l') = None"
proof -
  let ?e = "\<lparr> le_endpoint = endpoint0\<lparr>ep_id := ''e'', ep_owner_leaf := ''a''\<rparr>, le_last_heartbeat = seconds 1 \<rparr>"
  let ?l = "(new_leaf ''a'' [] 0)\<lparr>l_local_endpoints := [(''e'', ?e)]\<rparr>"
  let ?v = "\<lparr> v_accepts = (\<lambda>p. True), v_accepts_connected = (\<lambda>p. True), v_ser = (\<lambda>m. []) \<rparr>"
  obtain l' es where run: "do_heartbeat_work ?v (seconds 20) 20000 ?l = (l', es)" by fastforce
  have "table_ok ?l" by (auto simp add: table_ok_def new_leaf_def om_ok_def)
  from silent_backend_disappears [OF this _ run, of "''e''" ?e]
  show ?thesis using run by (auto simp add: seconds_def milliseconds_def)
qed

section \<open>The directory and the table\<close>

text \<open>What the directory says of the leaf's own endpoints is what its table says.\<close>

definition mirrors_at :: "string \<Rightarrow> local_endpoint option \<Rightarrow> endpoint option \<Rightarrow> bool" where
  "mirrors_at i e d \<longleftrightarrow>
    (case e of
       None \<Rightarrow> d = None
     | Some e \<Rightarrow> (\<exists>x. d = Some x \<and> ep_alive x = ep_alive (le_endpoint e) \<and> ep_target x = ep_target (le_endpoint e) \<and>
                   ep_service x = ep_service (le_endpoint e)))"

definition mirrored :: "leaf \<Rightarrow> bool" where
  "mirrored l \<longleftrightarrow> table_ok l \<and> (\<forall>i. mirrors_at i (om_find (l_local_endpoints l) i) (om_find (d_endpoints (l_directory l)) i))"

text \<open>What a leaf does by itself; snapshots of other machines are left out.\<close>

datatype leaf_op =
    Register time u64 "endpoint option"
  | Heartbeat time u64 string
  | Deregister u64 string
  | Heartbeat_work time u64
  | Sync u64 "(string \<times> peer_state) list"
  | Peer_change u64 "(string \<times> peer_state) list" peer_event
  | Redis_sync "string list" "string \<Rightarrow> (string \<times> string) list"
  | Restart "((string, string) omap option \<times> nat) option" bool bool

definition leaf_op_step :: "mesh_env \<Rightarrow> leaf \<Rightarrow> leaf_op \<Rightarrow> leaf" where
  "leaf_op_step v l x =
    (case x of
       Register now now_ms q \<Rightarrow> fst (snd (handle_register v now now_ms q l))
     | Heartbeat now now_ms i \<Rightarrow> fst (snd (handle_heartbeat v now now_ms i l))
     | Deregister now_ms i \<Rightarrow> fst (snd (handle_deregister v now_ms i l))
     | Heartbeat_work now now_ms \<Rightarrow> fst (do_heartbeat_work v now now_ms l)
     | Sync now_ms peers \<Rightarrow> fst (leaf_do_sync_work v now_ms peers l)
     | Peer_change now_ms peers ev \<Rightarrow> fst (leaf_on_peer_event v now_ms peers ev l)
     | Redis_sync nodes leaves \<Rightarrow> leaf_do_redis_sync_work nodes leaves l
     | Restart redis transport servers \<Rightarrow> fst (snd (start_leaf redis transport servers l)))"

lemma mirrored_cong:
  "l_local_endpoints l' = l_local_endpoints l \<Longrightarrow> l_directory l' = l_directory l \<Longrightarrow> l_id l' = l_id l \<Longrightarrow> mirrored l' = mirrored l"
  by (simp add: mirrored_def table_ok_def)

lemma mirrored_snapshot [simp]: "mirrored (fst (send_snapshot_to_parent v now_ms l)) = mirrored l"
  by (rule mirrored_cong) (simp_all add: snapshot_frame)

text \<open>A new state of one endpoint, in the table and in the directory.\<close>

lemma mirrored_put:
  assumes "mirrored l" "ep_id (le_endpoint e) = i" "i \<noteq> []" "ep_owner_leaf (le_endpoint e) = l_id l"
    and "l_local_endpoints l' = om_set i e (l_local_endpoints l)"
    and "l_directory l' = upsert_local now_ms (le_endpoint e) (l_directory l)" "l_id l' = l_id l"
  shows "mirrored l'"
  using assms
  by (auto simp add: mirrored_def table_ok_def om_find_set_any find_upsert mirrors_at_def Let_def split: option.split)

lemma mirrors_at_same: "mirrors_at i (Some e) d \<Longrightarrow> le_endpoint e' = le_endpoint e \<Longrightarrow> mirrors_at i (Some e') d"
  by (simp add: mirrors_at_def)

lemma mirroredD: "mirrored l \<Longrightarrow> om_find (l_local_endpoints l) i = x \<Longrightarrow> mirrors_at i x (om_find (d_endpoints (l_directory l)) i)"
  by (auto simp add: mirrored_def)

lemma mirrored_touch:
  assumes "mirrored l" "om_find (l_local_endpoints l) i = Some e"
  shows "mirrored (l\<lparr>l_local_endpoints := om_set i (e\<lparr>le_last_heartbeat := now\<rparr>) (l_local_endpoints l)\<rparr>)"
proof -
  have "mirrors_at i (Some (e\<lparr>le_last_heartbeat := now\<rparr>)) (om_find (d_endpoints (l_directory l)) i)"
    by (rule mirrors_at_same [OF mirroredD [OF assms]]) simp
  moreover have "ep_id (le_endpoint e) = i \<and> i \<noteq> [] \<and> ep_owner_leaf (le_endpoint e) = l_id l"
    using assms by (simp add: mirrored_def table_ok_def)
  ultimately show ?thesis
    using assms(1) unfolding mirrored_def table_ok_def by (simp add: om_find_set_any) 
qed

lemma mirrored_register:
  assumes "mirrored l"
  shows "mirrored (fst (snd (handle_register v now now_ms q l)))"
proof (cases q)
  case (Some ep)
  let ?ep = "\<lambda>version. ep\<lparr>ep_owner_leaf := l_id l, ep_owner_node := current_node_id l, ep_version := version, ep_alive := True, ep_updated_ms := now_ms\<rparr>"
  let ?l = "\<lambda>version counter. l\<lparr>l_version_counter := counter, l_directory := upsert_local now_ms (?ep version) (l_directory l),
    l_local_endpoints := om_set (ep_id ep) \<lparr> le_endpoint = ?ep version, le_last_heartbeat = now \<rparr> (l_local_endpoints l),
    l_local_tombstones := om_erase (ep_id ep) (l_local_tombstones l)\<rparr>"
  have "mirrored (?l version counter)" if "ep_id ep \<noteq> []" for version counter
    by (rule mirrored_put [OF assms, of "\<lparr> le_endpoint = ?ep version, le_last_heartbeat = now \<rparr>" "ep_id ep" _ now_ms]) (simp_all add: that)
  from this [of "l_version_counter l + 1" "l_version_counter l + 1"] this [of "ep_version ep" "l_version_counter l"]
  show ?thesis using assms by (auto simp add: handle_register_def Some Let_def)
qed (use assms in \<open>simp add: handle_register_def\<close>)

lemma mirrored_bump:
  assumes "mirrored l" "om_find (l_local_endpoints l) i = Some e" "le_endpoint e' = fst (bump live now_ms e l)"
    and "l_local_endpoints l' = om_set i e' (l_local_endpoints l)"
    and "l_directory l' = upsert_local now_ms (le_endpoint e') (l_directory l)" "l_id l' = l_id l"
  shows "mirrored l'"
proof -
  have "ep_id (le_endpoint e) = i" "i \<noteq> []" "ep_owner_leaf (le_endpoint e) = l_id l"
    using assms(1,2) by (auto simp add: mirrored_def table_ok_def)
  then show ?thesis using assms(1,3-6) by (intro mirrored_put [of l e' i l' now_ms]) (auto simp add: bump_def Let_def)
qed

lemma mirrored_heartbeat:
  assumes "mirrored l"
  shows "mirrored (fst (snd (handle_heartbeat v now now_ms i l)))"
proof (cases "om_find (l_local_endpoints l) i")
  case (Some e)
  then show ?thesis
    using mirrored_touch [OF assms Some, of now] mirrored_bump [OF assms Some, of "\<lparr> le_endpoint = fst (bump True now_ms e l), le_last_heartbeat = now \<rparr>" True now_ms]
    by (simp add: handle_heartbeat_def bump_def Let_def)
qed (use assms in \<open>simp add: handle_heartbeat_def\<close>)

lemma mirrored_deregister:
  assumes "mirrored l"
  shows "mirrored (fst (snd (handle_deregister v now_ms i l)))"
proof (cases "om_find (l_local_endpoints l) i")
  case (Some e)
  then show ?thesis
    using mirrored_bump [OF assms Some, of "e\<lparr>le_endpoint := fst (bump False now_ms e l)\<rparr>" False now_ms]
    by (simp add: handle_deregister_def bump_def Let_def)
qed (use assms in \<open>simp add: handle_deregister_def\<close>)

lemma heartbeat_mirrors_one:
  assumes "mirrored l" "om_find (l_local_endpoints l) i = Some e"
    and f: "foldl (\<lambda>r x. sweep_endpoint now now_ms x r) (l, [], False) (l_local_endpoints l) = (l1, dead, removed)"
  shows "mirrors_at i (om_find (l_local_endpoints l1) i)
    (om_find (d_endpoints (foldl (\<lambda>d ep. upsert_local now_ms ep d) (l_directory l1) dead)) i)"
proof -
  have t: "table_ok l" and m: "mirrors_at i (Some e) (om_find (d_endpoints (l_directory l)) i)"
    using assms(1,2) by (auto simp add: mirrored_def dest: spec [of _ i])
  have id: "ep_id (le_endpoint e) = i" "i \<noteq> []" using t assms(2) by (auto simp add: table_ok_def)
  obtain r where r: "says i (fst r) = says i l" "filter (\<lambda>d. ep_id d = i) (fst (snd r)) = []"
    and w: "says i l1 = says i (fst (sweep_endpoint now now_ms (i, e) r))"
      "filter (\<lambda>d. ep_id d = i) dead = filter (\<lambda>d. ep_id d = i) (fst (snd (sweep_endpoint now now_ms (i, e) r)))"
    using sweep_one [OF t assms(2), of now now_ms] f by metis
  consider (same) "sweep_endpoint now now_ms (i, e) r = r"
    | (dying) "ep_alive (le_endpoint e)" "milliseconds 3000 \<le> now - le_last_heartbeat e" "now - le_last_heartbeat e < milliseconds 10000"
    | (gone) "milliseconds 10000 \<le> now - le_last_heartbeat e"
    using sweep_young [of now e now_ms i r] sweep_dead [of e now now_ms i r] by linarith
  then show ?thesis
  proof cases
    case same
    then have "says i l1 = says i l" "filter (\<lambda>d. ep_id d = i) dead = []" using w r by simp_all
    then show ?thesis using m assms(2) by (simp add: says_def upsert_all_elsewhere filter_empty_conv)
  next
    case dying
    obtain e' where e': "om_find (l_local_endpoints (fst (sweep_endpoint now now_ms (i, e) r))) i = Some e'"
        "fst (snd (sweep_endpoint now now_ms (i, e) r)) = fst (snd r) @ [le_endpoint e']" "ep_id (le_endpoint e') = i"
      by (rule sweep_dying [OF dying, where now_ms = now_ms and i = i and r = r]) (use id in simp)
    then have "filter (\<lambda>d. ep_id d = i) dead = [le_endpoint e']" using w(2) r(2) by simp
    from upsert_one [OF this id(2), of now_ms "l_directory l1"]
    show ?thesis using w(1) e'(1) by (auto simp add: says_def mirrors_at_def)
  next
    case gone
    note s = sweep_gone [OF gone, where now_ms = now_ms and i = i and r = r]
    then have "filter (\<lambda>d. ep_id d = i) dead = []" using w(2) r(2) by simp
    then show ?thesis using s(1,2) w(1) by (simp add: says_def mirrors_at_def upsert_all_elsewhere filter_empty_conv)
  qed
qed

lemma mirrored_heartbeat_work:
  assumes "mirrored l"
  shows "mirrored (fst (do_heartbeat_work v now now_ms l))"
proof -
  have t: "table_ok l" using assms by (simp add: mirrored_def)
  obtain l' es where run: "do_heartbeat_work v now now_ms l = (l', es)" by fastforce
  obtain l1 dead removed where f: "foldl (\<lambda>r x. sweep_endpoint now now_ms x r) (l, [], False) (l_local_endpoints l) = (l1, dead, removed)"
    and l': "l_local_endpoints l' = l_local_endpoints l1" "l_directory l' = foldl (\<lambda>d ep. upsert_local now_ms ep d) (l_directory l1) dead"
    and ok: "table_ok l1" "l_id l' = l_id l1"
    by (rule heartbeat_run [OF run t]) blast
  have "mirrors_at i (om_find (l_local_endpoints l1) i) (om_find (d_endpoints (l_directory l')) i)" for i
  proof (cases "om_find (l_local_endpoints l) i")
    case None
    then have out: "i \<notin> fst ` set (l_local_endpoints l)" by (simp add: map_of_eq_None_iff)
    have "\<forall>x\<in>set (l_local_endpoints l). ep_id (le_endpoint (snd x)) \<noteq> i" using table_entries [OF t] out by force
    then have "filter (\<lambda>d. ep_id d = i) dead = []"
      using sweep_all_dead_same [of "l_local_endpoints l" i now now_ms "(l, [], False)"] by (simp add: f)
    moreover have "says i l1 = says i l" using sweep_all_elsewhere [OF out, of now now_ms "(l, [], False)"] by (simp add: f)
    ultimately show ?thesis
      using mirroredD [OF assms None] None by (simp add: l' says_def upsert_all_elsewhere filter_empty_conv)
  next
    case (Some e)
    show ?thesis by (rule heartbeat_mirrors_one [OF assms Some f, folded l'(2)])
  qed
  then show ?thesis using ok by (simp add: run mirrored_def table_ok_def l')
qed

lemma mirrored_learn: "mirrored (foldl (\<lambda>l x. learn_leaf x l) l xs) = mirrored l"
proof (induction xs arbitrary: l)
  case (Cons x xs)
  have "mirrored (learn_leaf x l) = mirrored l"
    by (rule mirrored_cong) (auto simp add: learn_leaf_def split: prod.split option.split)
  then show ?case using Cons by simp
qed simp

lemma mirrored_redis: "mirrored (leaf_do_redis_sync_work nodes leaves l) = mirrored l"
  unfolding leaf_do_redis_sync_work_def
  by (induction nodes arbitrary: l) (simp_all add: mirrored_learn)

lemma mirrored_frame [simp]:
  "mirrored (l\<lparr>l_active_parent := p\<rparr>) = mirrored l" "mirrored (l\<lparr>l_all_parents_down := b\<rparr>) = mirrored l"
  "mirrored (l\<lparr>l_parent_ids := ps\<rparr>) = mirrored l" "mirrored (l\<lparr>l_running := b\<rparr>) = mirrored l"
  by (simp_all add: mirrored_def table_ok_def)

lemma mirrored_step: "mirrored l \<Longrightarrow> mirrored (leaf_op_step v l x)"
  by (cases x)
    (auto simp add: leaf_op_step_def leaf_do_sync_work_def leaf_on_peer_event_def start_leaf_def connect_parents_def Let_def
      mirrored_redis mirrored_register mirrored_heartbeat mirrored_deregister mirrored_heartbeat_work split: option.split)

lemma mirrored_new: "mirrored (new_leaf i parents now_ms)"
  by (simp add: mirrored_def table_ok_def new_leaf_def directory0_def mirrors_at_def)

lemma mirrored_reads:
  assumes "mirrored l"
  shows "(find_endpoint i (l_directory l) = None \<longleftrightarrow> om_find (l_local_endpoints l) i = None) \<and>
      (\<forall>e. om_find (l_local_endpoints l) i = Some e \<longrightarrow>
         ep_id (le_endpoint e) = i \<and> ep_owner_leaf (le_endpoint e) = l_id l \<and>
         (\<exists>d. find_endpoint i (l_directory l) = Some d \<and> ep_alive d = ep_alive (le_endpoint e) \<and>
              ep_target d = ep_target (le_endpoint e) \<and> ep_service d = ep_service (le_endpoint e)))"
proof (cases "om_find (l_local_endpoints l) i")
  case None
  then show ?thesis using mirroredD [OF assms None] by (simp add: mirrors_at_def find_endpoint_def)
next
  case (Some e)
  have "ep_id (le_endpoint e) = i \<and> ep_owner_leaf (le_endpoint e) = l_id l"
    using assms Some by (simp add: mirrored_def table_ok_def)
  then show ?thesis using mirroredD [OF assms Some] Some by (auto simp add: mirrors_at_def find_endpoint_def)
qed


definition quiet_mesh :: mesh_env where
  "quiet_mesh = \<lparr> v_accepts = (\<lambda>p. True), v_accepts_connected = (\<lambda>p. True), v_ser = (\<lambda>m. []) \<rparr>"


section \<open>Endpoints that leave, leaves that stop\<close>

text \<open>
  A deregistration lasts until the next heartbeat.  It is accepted and marks the endpoint dead, and the
  next heartbeat of the backend makes it alive again, for the leaf and for every parent.
\<close>

theorem heartbeat_undoes_deregistration:
  assumes "table_ok l" "om_find (l_local_endpoints l) i = Some e"
    and "handle_deregister v now_ms i l = (accepted, l1, es1)"
    and "handle_heartbeat v now now_ms' i l1 = (ok, l2, es2)"
  shows "accepted \<and> (\<exists>d. find_endpoint i (l_directory l1) = Some d \<and> \<not> ep_alive d) \<and>
    ok \<and> (\<exists>d. find_endpoint i (l_directory l2) = Some d \<and> ep_alive d) \<and>
    (\<forall>p\<in>set (l_parent_ids l). \<exists>s. Mesh (Send p (Directory s)) \<in> set es2 \<and> (\<exists>x\<in>set (sn_endpoints s). ep_id x = i \<and> ep_alive x))"
proof -
  have id: "ep_id (le_endpoint e) = i" "i \<noteq> []" using assms(1,2) by (auto simp add: table_ok_def)
  have l1: "accepted" "om_find (l_local_endpoints l1) i = Some (e\<lparr>le_endpoint := fst (bump False now_ms e l)\<rparr>)"
    "\<exists>d. find_endpoint i (l_directory l1) = Some d \<and> \<not> ep_alive d" "l_parent_ids l1 = l_parent_ids l"
    using assms(2,3) id
    by (auto simp add: handle_deregister_def bump_def Let_def send_snapshot_to_parent_def own_snapshot_def om_find_set_any
        find_endpoint_def find_upsert split: option.split)
  let ?e = "\<lparr> le_endpoint = fst (bump True now_ms' (e\<lparr>le_endpoint := fst (bump False now_ms e l)\<rparr>) l1), le_last_heartbeat = now \<rparr>"
  have l2: "ok" "om_find (l_local_endpoints l2) i = Some ?e" "\<exists>d. find_endpoint i (l_directory l2) = Some d \<and> ep_alive d"
    "es2 = snd (send_snapshot_to_parent v now_ms' l2)" "l_parent_ids l2 = l_parent_ids l"
    using assms(4) l1(2,4) id
    by (auto simp add: handle_heartbeat_def bump_def Let_def send_snapshot_to_parent_def own_snapshot_def om_find_set_any
        find_endpoint_def find_upsert split: option.split)
  have "(i, ?e) \<in> set (l_local_endpoints l2)" by (rule map_of_SomeD [OF l2(2)])
  then have "le_endpoint ?e \<in> set (sn_endpoints (fst (own_snapshot now_ms' l2)))"
    by (force simp add: own_snapshot_def Let_def)
  moreover have "ep_id (le_endpoint ?e) = i" "ep_alive (le_endpoint ?e)" using id by (simp_all add: bump_def Let_def)
  moreover have "Mesh (Send p (Directory (fst (own_snapshot now_ms' l2)))) \<in> set es2" if "p \<in> set (l_parent_ids l)" for p
    using that l2(5) by (simp add: l2(4) send_snapshot_to_parent_def own_snapshot_def Let_def)
  ultimately show ?thesis using l1 l2 by blast
qed

text \<open>
  A leaf that was stopped and started again serves no routed work.  The queues of its workers stay
  closed, so every request that reaches it is answered with an error and every stream is refused.
\<close>

theorem restarted_leaf_refuses_work:
  assumes "l_running l" "start_leaf redis transport servers (stop_end (stop_begin l)) = (True, l', es)"
  shows "snd (handle_inbound_request v q n l') = send_response_to_parent v (make_error_response q ''overloaded'' l') l' \<and>
    snd (queue_stream_task v (Task_open s) l') =
      send_stream_close_to v (so_request_id s) (so_origin_leaf s) (so_origin_node s) False (-1) ''overloaded'' l'"
proof -
  have "wq_closed (l_request_queue l') \<and> wq_closed (l_stream_queue l')"
    using assms by (auto simp add: start_leaf_def connect_parents_def stop_begin_def stop_end_def wq_close_def Let_def split: if_splits)
  then show ?thesis
    by (simp add: handle_inbound_request_def queue_stream_task_def wq_try_push_def)
qed

theorem heartbeat_undoes_deregistration_witness:
  "\<exists>l i. let l1 = fst (snd (handle_deregister quiet_mesh 7 i l))
     in (\<exists>d. find_endpoint i (l_directory l1) = Some d \<and> \<not> ep_alive d) \<and>
        (\<exists>d. find_endpoint i (l_directory (fst (snd (handle_heartbeat quiet_mesh 8 9 i l1)))) = Some d \<and> ep_alive d)"
proof -
  let ?e = "\<lparr> le_endpoint = endpoint0\<lparr>ep_id := ''e'', ep_owner_leaf := ''a''\<rparr>, le_last_heartbeat = 1 \<rparr>"
  let ?l = "(new_leaf ''a'' [] 0)\<lparr>l_local_endpoints := [(''e'', ?e)]\<rparr>"
  obtain a l1 es1 where d: "handle_deregister quiet_mesh 7 ''e'' ?l = (a, l1, es1)" using prod_cases3 by blast
  obtain b l2 es2 where h: "handle_heartbeat quiet_mesh 8 9 ''e'' l1 = (b, l2, es2)" using prod_cases3 by blast
  have t: "table_ok ?l" and f: "om_find (l_local_endpoints ?l) ''e'' = Some ?e"
    by (auto simp add: table_ok_def new_leaf_def om_ok_def)
  show ?thesis
    using heartbeat_undoes_deregistration [OF t f d h]
    by (intro exI [of _ ?l] exI [of _ "''e''"]) (simp add: Let_def d h)
qed

theorem restarted_leaf_refuses_work_witness:
  "\<exists>l'. snd (start_leaf None True True (stop_end (stop_begin ((new_leaf ''a'' [] 0)\<lparr>l_running := True\<rparr>)))) = (l', []) \<and>
     snd (handle_inbound_request quiet_mesh q n l') = send_response_to_parent quiet_mesh (make_error_response q ''overloaded'' l') l'"
proof -
  let ?l = "(new_leaf ''a'' [] 0)\<lparr>l_running := True\<rparr>"
  obtain l' where s: "start_leaf None True True (stop_end (stop_begin ?l)) = (True, l', [])"
    by (simp add: start_leaf_def stop_begin_def stop_end_def new_leaf_def connect_parents_def)
  have r: "l_running ?l" by simp
  show ?thesis using restarted_leaf_refuses_work [OF r s, of quiet_mesh q n undefined] s by simp
qed

end
