(* ===== verification/Leaf_Call_Laws.thy ===== *)
theory Leaf_Call_Laws
  imports Leaf_Calls Routing_Laws Node_Laws
begin

text \<open>
  Laws of the calls of a leaf: a session whose endpoint has an open circuit, a session that moves when its
  endpoint fails, and the way of a routed call through two nodes and back.
\<close>

section \<open>Sessions and circuits\<close>

lemma evict_n_none: "om_find m k = None \<Longrightarrow> om_find (evict_n n c m) k = None"
  by (induction n c m rule: evict_n.induct) (auto split: option.split)


lemma pick_held:
  assumes "holds key i t b" "now - t < b_ttl b" "session_of svc m = Some key" "find_live_endpoint es i = Some ep"
  obtains b' where "pick hash svc m es now b = (Some ep, b')" "holds key i now b'" "b_ttl b' = b_ttl b"
    "b_round_robin b' = b_round_robin b"
proof -
  have r: "holds key i t (refreshed now b)" by (rule refreshed_holds [OF assms(1,2)])
  have ne: "es \<noteq> []" using assms(4) by (auto simp add: find_live_endpoint_def)
  have id: "ep_id ep = i" using assms(4) by (auto simp add: find_live_endpoint_def find_Some_iff split: option.splits if_splits)
  obtain x b' where p: "pick hash svc m es now b = (x, b')" by fastforce
  show thesis
  proof (rule pick_cases [OF ne p])
    fix sid
    assume a: "metadata_sid m = Some sid" "x = Some (fst (pick_session (sticky_key svc sid) es now (refreshed now b)))"
      "b' = snd (pick_session (sticky_key svc sid) es now (refreshed now b))"
    then have key: "key = sticky_key svc sid" using assms(3) by (simp add: session_of_def split: if_splits)
    have "x = Some ep" "holds key i now b'" "b_ttl b' = b_ttl b" "b_round_robin b' = b_round_robin b"
      using r a assms(4) id by (auto simp add: key holds_def pick_session_def om_find_set refreshed_def)
    then show thesis using that p by simp
  qed (use assms(3) in \<open>auto simp add: session_of_def split: if_splits\<close>)
qed

text \<open>
  C38: A session does not leave an endpoint whose circuit is open.  While the circuit cools down every
  \<open>SayHello\<close> of the session fails with \<open>circuit_open\<close> without any call, however many other endpoints are
  alive: the second attempt picks the same endpoint, which was tried, and the session stays with it.
\<close>

theorem open_circuit_holds_session:
  assumes "session_of greeter_service m = Some key" "holds key (ep_id ep) t (l_balancer l)" "now - t < b_ttl (l_balancer l)"
    and "0 < b_ttl (l_balancer l)" "find_live_endpoint (service greeter_service (l_directory l)) (ep_id ep) = Some ep"
    and "s_state (entry (l_breaker l) (ep_id ep)) = Open"
    and "now - s_opened_at (entry (l_breaker l) (ep_id ep)) < cb_cooldown circuit_defaults"
  shows "\<exists>l'. invoke_for_hello c hash perform now hello m l =
       ((status_of UNAVAILABLE ''circuit_open'', None), l',
        [Mesh (Metric ''client_to_leaf'' ''SayHello'' (length (hc_ser_request c hello)) 0 False m)]) \<and>
     holds key (ep_id ep) now (l_balancer l')"
proof -
  let ?es = "service greeter_service (l_directory l)"
  obtain b1 where p1: "pick hash greeter_service m ?es now (l_balancer l) = (Some ep, b1)" "holds key (ep_id ep) now b1"
      "b_ttl b1 = b_ttl (l_balancer l)"
    by (rule pick_held [OF assms(2,3,1,5), of hash])
  obtain b2 where p2: "pick hash greeter_service m ?es now b1 = (Some ep, b2)" "holds key (ep_id ep) now b2"
    by (rule pick_held [OF p1(2) _ assms(1,5), of now hash]) (use assms(4) p1(3) in simp_all)
  have no: "fst (allow circuit_defaults now (ep_id ep) (l_breaker l)) = False"
    using assms(6,7) by (simp add: allow_def allow_stats_def Let_def)
  obtain br where a: "allow circuit_defaults now (ep_id ep) (l_breaker l) = (False, br)"
    using no by (cases "allow circuit_defaults now (ep_id ep) (l_breaker l)") simp
  have "?es \<noteq> []" using assms(5) by (auto simp add: find_live_endpoint_def)
  then show ?thesis
    using p2(2) by (simp add: invoke_for_hello_def Let_def numeral_2_eq_2 p1(1) p2(1) a status_ok_def status_of_def)
qed

theorem open_circuit_holds_session_witness:
  "\<exists>l' fs. invoke_for_hello \<lparr> hc_ser_request = (\<lambda>q. []), hc_parse_request = (\<lambda>b. None), hc_ser_reply = (\<lambda>r. []), hc_parse_reply = (\<lambda>b. None) \<rparr>
       (\<lambda>s. 0) undefined 10 \<lparr> hq_name = [], hq_sid = ''u'', hq_sticky = True \<rparr> [(''sid'', ''u''), (''sticky'', ''1'')]
       ((new_leaf ''a'' [] 0)\<lparr>
          l_directory := directory0\<lparr>d_endpoints := [(''e'', endpoint0\<lparr>ep_id := ''e'', ep_service := greeter_service, ep_alive := True\<rparr>)]\<rparr>,
          l_balancer := (balancer0 4 60)\<lparr>b_entries := [(sticky_key greeter_service ''u'', \<lparr> se_endpoint_id = ''e'', se_last_used = 0, se_lru_since = 0, se_lru = False \<rparr>)]\<rparr>,
          l_breaker := [(''e'', stats0\<lparr>s_state := Open\<rparr>)]\<rparr>) = ((status_of UNAVAILABLE ''circuit_open'', None), l', fs)"
  (is "\<exists>l' fs. invoke_for_hello ?c ?h ?p 10 ?q ?m ?l = _")
proof -
  let ?ep = "endpoint0\<lparr>ep_id := ''e'', ep_service := greeter_service, ep_alive := True\<rparr>"
  have "\<exists>l'. invoke_for_hello ?c ?h ?p 10 ?q ?m ?l = ((status_of UNAVAILABLE ''circuit_open'', None), l',
        [Mesh (Metric ''client_to_leaf'' ''SayHello'' (length (hc_ser_request ?c ?q)) 0 False ?m)]) \<and>
     holds (sticky_key greeter_service ''u'') (ep_id ?ep) 10 (l_balancer l')"
    by (rule open_circuit_holds_session [where t = 0])
      (simp_all add: session_of_def metadata_shard_key_def metadata_sticky_def metadata_sid_def nonempty_entry_def is_sticky_value_def
        holds_def om_ok_def balancer0_def find_live_endpoint_def service_def directory0_def endpoint0_def entry_def stats0_def
        circuit_defaults_def milliseconds_def)
  then show ?thesis by blast
qed

lemma pick_fresh:
  assumes "om_ok (b_entries b)" "om_find (b_entries b) key = None" "session_of svc m = Some key" "es \<noteq> []"
  defines "ep \<equiv> es ! (unat (b_round_robin b) mod length es)"
  obtains b' where "pick hash svc m es now b = (Some ep, b')" "holds key (ep_id ep) now b'"
proof -
  have gone: "om_find (b_entries (refreshed now b)) key = None"
    using evict_n_none [of "map (\<lambda>(k, e). (k, age_entry (b_ttl b) now e)) (b_entries b)" key] assms(2)
    by (simp add: refreshed_def evict_def om_find_map)
  obtain x b' where p: "pick hash svc m es now b = (x, b')" by fastforce
  show thesis
  proof (rule pick_cases [OF assms(4) p])
    fix sid
    assume a: "metadata_sid m = Some sid" "x = Some (fst (pick_session (sticky_key svc sid) es now (refreshed now b)))"
      "b' = snd (pick_session (sticky_key svc sid) es now (refreshed now b))"
    then have key: "key = sticky_key svc sid" using assms(3) by (simp add: session_of_def split: if_splits)
    have "b_round_robin (refreshed now b) = b_round_robin b" by (simp add: refreshed_def)
    then have "x = Some ep" "holds key (ep_id ep) now b'"
      using gone a refreshed_ok [OF assms(1), of now]
      by (simp_all add: key pick_session_def do_pick_def Let_def ep_def holds_def om_find_set new_entry_def)
    then show thesis using that p by simp
  qed (use assms(3) in \<open>auto simp add: session_of_def split: if_splits\<close>)
qed

lemma allow_closed: "s_state (entry br i) = Closed \<Longrightarrow> fst (allow circuit_defaults now i br)"
  by (simp add: allow_def allow_stats_def Let_def)

lemma entry_other: "i \<noteq> j \<Longrightarrow> entry (om_set j s br) i = entry br i"
  by (simp add: entry_def om_find_set_any)



section \<open>A routed call\<close>

definition leaf_sends :: "leaf_effect list \<Rightarrow> (string \<times> wire_message) list" where
  "leaf_sends es = sends (concat (map (\<lambda>e. case e of Mesh m \<Rightarrow> [m] | _ \<Rightarrow> []) es))"

lemma leaf_sends_simps [simp]:
  "leaf_sends [] = []" "leaf_sends (es @ fs) = leaf_sends es @ leaf_sends fs"
  "leaf_sends (Mesh m # es) = sends [m] @ leaf_sends es" "leaf_sends (On_call r c # es) = leaf_sends es"
  by (simp_all add: leaf_sends_def) (metis append_Cons append_Nil sends_append)

text \<open>A leaf sends to its parent what its transport accepts.\<close>

lemma send_to_parent:
  "l_active_parent l \<noteq> [] \<Longrightarrow> v_accepts v (l_active_parent l) \<Longrightarrow>
     snd (send_to_mesh v dest_node dest_leaf m pr l) = [Mesh (emit pr m (l_active_parent l))]"
  by (simp add: send_to_mesh_def parents_in_turn_def)

text \<open>
  C27: A routed call comes back.  A \<open>SayHello\<close> that a leaf routes to an endpoint of a leaf of another node
  takes the way over the two nodes to that leaf; a worker there calls the backend, and the answer takes the
  way back and completes the call with the reply of the backend and the name of the endpoint.  The two
  nodes know each other, each leaf is mounted on its node, and the transports deliver.
\<close>

theorem routed_call_comes_back:
  assumes leaf_a: "l_active_parent A = n_id N1" "n_id N1 \<noteq> []" "v_accepts v (n_id N1)"
    and leaf_b: "l_active_parent B = n_id N2" "n_id N2 \<noteq> []" "wq_items (l_request_queue B) = []"
      "\<not> wq_closed (l_request_queue B)" "0 < wq_capacity (l_request_queue B)"
    and nodes: "n_id N1 \<noteq> n_id N2" "knows N1 (n_id N2)" "knows N2 (n_id N1)" "has_leaf N1 (l_id A)" "has_leaf N2 (l_id B)"
    and ep: "ep_owner_leaf ep = l_id B" "ep_owner_node ep = n_id N2" "live_endpoint (ep_id ep) B = Some ep'"
    and codec: "hc_parse_request c (hc_ser_request c hello) = Some hello" "hc_parse_reply c (hc_ser_reply c reply) = Some reply"
    and reply: "reply = (oc_reply (say_hello (ep_target ep') hello))\<lparr>hr_backend_id := ep_id ep'\<rparr>"
    and backend: "status_ok (oc_status (say_hello (ep_target ep') hello))"
    and request: "q = routed_request_to c rid now_ms timeout_ms ep hello m A"
  shows "leaf_sends (snd (send_routed_begin v q A)) = [(n_id N1, Request q)] \<and>
    (\<exists>q1 q2 r r1 r2.
       sends (snd (handle_request ser t (l_id A) q len N1)) = [(n_id N2, Request q1)] \<and>
       sends (snd (handle_request ser t (n_id N1) q1 len N2)) = [(l_id B, Request q2)] \<and>
       leaf_sends (snd (worker_round v ids c unary say_hello (fst (leaf_dispatch v now_ms (Request q2) len B)))) = [(n_id N2, Response r)] \<and>
       sends (snd (handle_response ser r len N2)) = [(n_id N1, Response r1)] \<and>
       sends (snd (handle_response ser r1 len N1)) = [(l_id A, Response r2)] \<and>
       fst (send_routed_end c rid ep (fst (leaf_dispatch v now_ms (Response r2) len (fst (send_routed_begin v q A))))) =
         (ok_status, Some (reply\<lparr>hr_backend_id := ep_id ep\<rparr>)))"
proof (intro conjI exI)
  let ?q1 = "q\<lparr>rq_hop_limit := kDefaultBackendHopLimit - 1\<rparr>"
  let ?q2 = "?q1\<lparr>rq_destination_node := n_id N2\<rparr>"
  let ?body = "hc_ser_reply c reply"
  let ?r = "answer ?q2 (oc_status (say_hello (ep_target ep') hello)) ?body B"
  let ?r1 = "?r\<lparr>rs_hop_limit := rs_hop_limit ?r - 1\<rparr>"
  let ?r2 = "?r1\<lparr>rs_destination_node := n_id N1\<rparr>"
  have node_a: "current_node_id A = n_id N1" and node_b: "current_node_id B = n_id N2"
    using leaf_a leaf_b by (simp_all add: current_node_id_def)
  have hops: "kDefaultBackendHopLimit \<noteq> 0" "less_hop (kDefaultBackendHopLimit - 1) \<noteq> 0"
    by (simp_all add: kDefaultBackendHopLimit_def less_hop_def)
  have q: "rq_request_id q = rid" "rq_origin_leaf q = l_id A" "rq_origin_node q = n_id N1" "rq_destination_leaf q = l_id B"
      "rq_destination_node q = n_id N2" "rq_endpoint_id q = ep_id ep" "rq_rpc_name q = ''SayHello''"
      "rq_body q = hc_ser_request c hello" "rq_hop_limit q = kDefaultBackendHopLimit"
    using ep node_a by (simp_all add: request routed_request_to_def)
  show "leaf_sends (snd (send_routed_begin v q A)) = [(n_id N1, Request q)]"
    using leaf_a by (simp add: send_routed_begin_def Let_def send_to_parent emit_def)
  show "sends (snd (handle_request ser t (l_id A) q len N1)) = [(n_id N2, Request ?q1)]"
    using nodes leaf_b hops by (simp add: handle_request_def route_request_def Let_def q send_metric_def)
  show "sends (snd (handle_request ser t (n_id N1) ?q1 len N2)) = [(l_id B, Request ?q2)]"
    using nodes by (simp add: handle_request_def route_request_def Let_def q send_metric_def)
  show "leaf_sends (snd (worker_round v ids c unary say_hello (fst (leaf_dispatch v now_ms (Request ?q2) len B)))) = [(n_id N2, Response ?r)]"
    using leaf_b ep codec backend
    by (simp add: leaf_dispatch_def handle_inbound_request_def wq_try_push_def worker_round_def wq_take_for_def Let_def
        process_inbound_request_def q send_response_to_parent_def live_endpoint_def answer_def current_node_id_def reply)
  show "sends (snd (handle_response ser ?r len N2)) = [(n_id N1, Response ?r1)]"
    using nodes leaf_a hops by (simp add: handle_response_def route_response_def Let_def answer_def q send_metric_def)
  show "sends (snd (handle_response ser ?r1 len N1)) = [(l_id A, Response ?r2)]"
    using nodes by (simp add: handle_response_def route_response_def Let_def answer_def q send_metric_def)
  show "fst (send_routed_end c rid ep (fst (leaf_dispatch v now_ms (Response ?r2) len (fst (send_routed_begin v q A))))) =
         (ok_status, Some (reply\<lparr>hr_backend_id := ep_id ep\<rparr>))"
    using codec backend
    by (simp add: leaf_dispatch_def handle_inbound_response_def send_routed_begin_def Let_def answer_def q send_routed_end_def om_find_set_any)
qed

definition ex_codec :: hello_codec where
  "ex_codec = \<lparr> hc_ser_request = (\<lambda>q. [1]), hc_parse_request = (\<lambda>b. Some \<lparr> hq_name = ''x'', hq_sid = [], hq_sticky = False \<rparr>),
     hc_ser_reply = (\<lambda>r. [2]), hc_parse_reply = (\<lambda>b. Some \<lparr> hr_message = ''hi'', hr_backend_id = ''e'' \<rparr>) \<rparr>"

definition ex_mesh :: mesh_env where
  "ex_mesh = \<lparr> v_accepts = (\<lambda>p. True), v_accepts_connected = (\<lambda>p. True), v_ser = (\<lambda>m. []) \<rparr>"

text \<open>A leaf \<open>a\<close> on a node \<open>m\<close>, and a leaf \<open>b\<close> on a node \<open>n\<close> with an endpoint \<open>e\<close>.\<close>

definition ex_endpoint_b :: endpoint where
  "ex_endpoint_b = endpoint0\<lparr>ep_id := ''e'', ep_owner_leaf := ''b'', ep_owner_node := ''n'', ep_alive := True\<rparr>"

definition ex_leaf :: "string \<Rightarrow> string \<Rightarrow> leaf" where
  "ex_leaf i node = (new_leaf i [] 0)\<lparr>l_active_parent := node, l_directory := directory0\<lparr>d_endpoints := [(''e'', ex_endpoint_b)]\<rparr>\<rparr>"

definition ex_node :: "string \<Rightarrow> string \<Rightarrow> string \<Rightarrow> node" where
  "ex_node i other leaf = (new_node i [] 0)\<lparr>n_known_node_peers := [other], n_leaves := [(leaf, 0)]\<rparr>"

theorem routed_call_comes_back_witness:
  "\<exists>q r2 reply. leaf_sends (snd (send_routed_begin ex_mesh q (ex_leaf ''a'' ''m''))) = [(''m'', Request q)] \<and>
     fst (send_routed_end ex_codec ''id'' ex_endpoint_b (fst (leaf_dispatch ex_mesh 0 (Response r2) 0
       (fst (send_routed_begin ex_mesh q (ex_leaf ''a'' ''m'')))))) = (ok_status, Some reply)"
proof -
  let ?hello = "\<lparr> hq_name = ''x'', hq_sid = [], hq_sticky = False \<rparr>"
  let ?say = "\<lambda>t h. \<lparr> oc_status = ok_status, oc_reply = \<lparr> hr_message = ''hi'', hr_backend_id = [] \<rparr>, oc_latency_us = 0 \<rparr> :: hello_reply outcome"
  note ev = ex_leaf_def ex_node_def new_leaf_def new_node_def ex_mesh_def ex_codec_def ex_endpoint_b_def endpoint0_def directory0_def
    work_queue0_def knows_def has_leaf_def live_endpoint_def find_endpoint_def status_ok_def ok_status_def
  let ?A = "ex_leaf ''a'' ''m''" and ?B = "ex_leaf ''b'' ''n''" and ?M = "ex_node ''m'' ''n'' ''a''" and ?N = "ex_node ''n'' ''m'' ''b''"
  let ?reply = "\<lparr> hr_message = ''hi'', hr_backend_id = ''e'' \<rparr>"
  have p: "l_active_parent ?A = n_id ?M" "n_id ?M \<noteq> []" "v_accepts ex_mesh (n_id ?M)" "l_active_parent ?B = n_id ?N" "n_id ?N \<noteq> []"
    "wq_items (l_request_queue ?B) = []" "\<not> wq_closed (l_request_queue ?B)" "0 < wq_capacity (l_request_queue ?B)"
    "n_id ?M \<noteq> n_id ?N" "knows ?M (n_id ?N)" "knows ?N (n_id ?M)" "has_leaf ?M (l_id ?A)" "has_leaf ?N (l_id ?B)"
    "ep_owner_leaf ex_endpoint_b = l_id ?B" "ep_owner_node ex_endpoint_b = n_id ?N"
    "live_endpoint (ep_id ex_endpoint_b) ?B = Some ex_endpoint_b"
    "hc_parse_request ex_codec (hc_ser_request ex_codec ?hello) = Some ?hello"
    "hc_parse_reply ex_codec (hc_ser_reply ex_codec ?reply) = Some ?reply"
    "?reply = (oc_reply (?say (ep_target ex_endpoint_b) ?hello))\<lparr>hr_backend_id := ep_id ex_endpoint_b\<rparr>"
    "status_ok (oc_status (?say (ep_target ex_endpoint_b) ?hello))"
    by (simp_all add: ev)
  have i: "n_id ?M = ''m''" by (simp add: ev)
  from routed_call_comes_back [where say_hello = ?say, OF p refl, where rid = "''id''" and now_ms = 0 and timeout_ms = 15000 and m = "[]" and len = 0]
  show ?thesis unfolding i by blast
qed

end
