(* ===== verification/Proxy.thy ===== *)
theory Proxy
  imports Float64 Transport "HOL-Library.Multiset"
begin

text \<open>
  The network simulator of \<open>src/src/udp_proxy.cpp\<close>: what happens to a datagram between its arrival and
  its place in the send queue of its direction, the queue itself, and the rescheduling when the
  simulated bandwidth changes.  The random draws of a call are arguments, one for each distribution
  it may ask; so is the sine of the mathematical library.  A duration out of the range of the clock
  is \<open>None\<close>.
\<close>

section \<open>Configuration\<close>

datatype wave = Rect | Sine | Sawtooth | Random

record disturb_config =
  f_loss_rate :: f64
  f_block_rate :: f64
  f_dup_rate :: f64
  f_corrupt_rate :: f64
  f_delay_enabled :: bool
  f_delay_prob :: f64
  f_delay_min_ms :: u32
  f_delay_max_ms :: u32
  f_delay_normal :: bool
  f_delay_mean_ms :: f64
  f_delay_sigma_ms :: f64
  f_delay_tail_prob :: f64
  f_delay_tail_min_ms :: u32
  f_delay_tail_max_ms :: u32
  f_bw_enabled :: bool
  f_wave :: wave
  f_bw_min_bps :: f64
  f_bw_max_bps :: f64
  f_bw_period_ms :: u32
  f_bw_duty :: f64
  f_reorder_enabled :: bool
  f_reorder_prob :: f64
  f_reorder_max_ms :: u32
  f_l4s_enabled :: bool
  f_l4s_threshold_ms :: f64
  f_l4s_reflect :: bool
  f_report_drop_rate :: f64
  f_seed :: u64
  f_queue_cap :: nat
  f_clean_reverse :: bool

definition disturb_defaults :: disturb_config where
  "disturb_defaults = \<lparr> f_loss_rate = 0, f_block_rate = 0, f_dup_rate = 0, f_corrupt_rate = 0,
     f_delay_enabled = False, f_delay_prob = 0, f_delay_min_ms = 0, f_delay_max_ms = 0, f_delay_normal = False,
     f_delay_mean_ms = 10, f_delay_sigma_ms = 1, f_delay_tail_prob = rnd (1 / 100), f_delay_tail_min_ms = 50,
     f_delay_tail_max_ms = 200, f_bw_enabled = False, f_wave = Rect, f_bw_min_bps = 1000000,
     f_bw_max_bps = 10000000, f_bw_period_ms = 1000, f_bw_duty = 1 / 2, f_reorder_enabled = False,
     f_reorder_prob = 0, f_reorder_max_ms = 0, f_l4s_enabled = False, f_l4s_threshold_ms = 1,
     f_l4s_reflect = False, f_report_drop_rate = 0, f_seed = 0x00C0FFEE1234567, f_queue_cap = 4096,
     f_clean_reverse = False \<rparr>"

section \<open>Durations\<close>

text \<open>A duration of \<open>x\<close> nanoseconds, cut off towards zero.\<close>

definition whole :: "f64 \<Rightarrow> int" where
  "whole x = (if x \<ge> 0 then floor x else ceiling x)"

definition duration :: "f64 \<Rightarrow> time option" where
  "duration x = (if - (2 ^ 63) \<le> whole x \<and> whole x < 2 ^ 63 then Some (whole x) else None)"

text \<open>A duration of \<open>x\<close> milliseconds.\<close>

definition duration_ms :: "f64 \<Rightarrow> time option" where
  "duration_ms x = duration (fmul x 1000000)"

section \<open>The send queue\<close>

type_synonym sockaddr = "u32 \<times> u16"

record packet =
  pk_data :: bytes
  pk_dst :: sockaddr
  pk_due :: time

text \<open>
  \<open>std::priority_queue\<close> by the time a packet is due.  Which of several packets due at the same time
  comes first is left to the library; here it is the one that has been in the queue longest.
\<close>

record pkt_queue =
  u_cap :: nat
  u_items :: "packet list"

definition queue_push :: "packet \<Rightarrow> pkt_queue \<Rightarrow> bool \<times> pkt_queue" where
  "queue_push p q = (if length (u_items q) \<ge> u_cap q then (False, q) else (True, q\<lparr>u_items := u_items q @ [p]\<rparr>))"

fun extract_first :: "packet \<Rightarrow> packet list \<Rightarrow> packet \<times> packet list" where
  "extract_first x [] = (x, [])"
| "extract_first x (y # ys) =
    (let (z, zs) = extract_first y ys
     in if pk_due x \<le> pk_due z then (x, y # ys) else (z, x # zs))"

definition queue_top :: "pkt_queue \<Rightarrow> (packet \<times> packet list) option" where
  "queue_top q = (case u_items q of [] \<Rightarrow> None | x # xs \<Rightarrow> Some (extract_first x xs))"

text \<open>One round of \<open>pop_or_wait\<close>: \<open>None\<close> while there is nothing to send yet.\<close>

definition queue_pop :: "time \<Rightarrow> pkt_queue \<Rightarrow> (packet \<times> pkt_queue) option" where
  "queue_pop now q =
    (case queue_top q of
       None \<Rightarrow> None
     | Some (p, rest) \<Rightarrow> if now \<ge> pk_due p then Some (p, q\<lparr>u_items := rest\<rparr>) else None)"

definition top_due_in_ms :: "time \<Rightarrow> pkt_queue \<Rightarrow> int" where
  "top_due_in_ms now q = (case queue_top q of None \<Rightarrow> 0 | Some (p, _) \<Rightarrow> whole (of_int (pk_due p - now) / 1000000))"

text \<open>\<open>now + (t - now) * ratio\<close> for what lies ahead.\<close>

definition scale_time :: "time \<Rightarrow> f64 \<Rightarrow> time \<Rightarrow> time option" where
  "scale_time now ratio t = map_option (\<lambda>d. now + d) (duration (fmul (f64_of_int (t - now)) ratio))"

fun scale_all :: "time \<Rightarrow> f64 \<Rightarrow> packet list \<Rightarrow> packet list option" where
  "scale_all now ratio [] = Some []"
| "scale_all now ratio (p # ps) =
    (case (if pk_due p > now then map_option (\<lambda>t. p\<lparr>pk_due := t\<rparr>) (scale_time now ratio (pk_due p)) else Some p) of
       None \<Rightarrow> None
     | Some p \<Rightarrow> map_option (Cons p) (scale_all now ratio ps))"

definition rescale :: "time \<Rightarrow> f64 \<Rightarrow> pkt_queue \<Rightarrow> pkt_queue option" where
  "rescale now ratio q = map_option (\<lambda>ps. q\<lparr>u_items := ps\<rparr>) (scale_all now ratio (u_items q))"

definition rebase :: "time \<Rightarrow> pkt_queue \<Rightarrow> pkt_queue" where
  "rebase now q = q\<lparr>u_items := map (\<lambda>p. if pk_due p > now then p\<lparr>pk_due := now\<rparr> else p) (u_items q)\<rparr>"

section \<open>The bandwidth\<close>

definition splitmix64 :: "u64 \<Rightarrow> u64" where
  "splitmix64 x =
    (let x = x + 0x9e3779b97f4a7c15;
         x = (x XOR drop_bit 30 x) * 0xbf58476d1ce4e5b9;
         x = (x XOR drop_bit 27 x) * 0x94d049bb133111eb
     in x XOR drop_bit 31 x)"

text \<open>\<open>std::fmod\<close> of a number that is not negative; it is exact.\<close>

definition fmod :: "f64 \<Rightarrow> f64 \<Rightarrow> f64" where
  "fmod x y = x - y * of_int (floor (x / y))"

definition kTwoPi :: f64 where
  "kTwoPi = fmul 2 (rnd (314159265358979323846 / 100000000000000000000))"

text \<open>
  \<open>el\<close> is the time since the start in milliseconds, \<open>u\<close> a draw between the two bounds.  With a period of 0
  the phase is not a number: it is not below the duty cycle, and where it enters the result, 0 stands for
  NaN, which like 0 gives no duration.
\<close>

definition bandwidth :: "(f64 \<Rightarrow> f64) \<Rightarrow> f64 \<Rightarrow> f64 \<Rightarrow> disturb_config \<Rightarrow> f64" where
  "bandwidth fsin el u c =
    (let lo = f_bw_min_bps c; hi = f_bw_max_bps c; period = f64_of_int (uint (f_bw_period_ms c));
         ph = fdiv (fmod el period) period
     in case f_wave c of
          Random \<Rightarrow> u
        | Rect \<Rightarrow> if period \<noteq> 0 \<and> ph < f_bw_duty c then hi else lo
        | Sine \<Rightarrow> if period = 0 then 0 else fadd lo (fmul (fmul (fsub hi lo) (1 / 2)) (fadd 1 (fsin (fmul ph kTwoPi))))
        | Sawtooth \<Rightarrow>
            if period = 0 then 0 else
            let cyc = u64_of_f64 (fdiv el period);
                s = fdiv (f64_of_u64 (splitmix64 (cyc + f_seed c) AND 0x7FFFFFFFFFFFFFFF)) (rnd 9223372036854775800);
                p = fmod (fadd ph s) 1
            in fadd lo (fmul (fsub hi lo) p))"

section \<open>A direction\<close>

record dir_stats =
  w_recv :: u64
  w_sent :: u64
  w_lost :: u64
  w_blocked :: u64
  w_delayed :: u64
  w_dup :: u64
  w_corrupt :: u64
  w_reordered :: u64
  w_qfull :: u64
  w_bytes :: u64
  w_ce_marked :: u64
  w_l4s_seen :: u64
  w_report_dropped :: u64

definition dir_stats0 :: dir_stats where
  "dir_stats0 = \<lparr> w_recv = 0, w_sent = 0, w_lost = 0, w_blocked = 0, w_delayed = 0, w_dup = 0, w_corrupt = 0,
     w_reordered = 0, w_qfull = 0, w_bytes = 0, w_ce_marked = 0, w_l4s_seen = 0, w_report_dropped = 0 \<rparr>"

record direction =
  x_stats :: dir_stats
  x_queue :: pkt_queue
  x_rescale :: bool
  x_drain :: time
  x_bw_drain :: time

definition new_direction :: "nat \<Rightarrow> direction" where
  "new_direction cap = \<lparr> x_stats = dir_stats0, x_queue = \<lparr> u_cap = cap, u_items = [] \<rparr>, x_rescale = False,
     x_drain = 0, x_bw_drain = 0 \<rparr>"

text \<open>The last change of the bandwidth: whether it was and is limited, and the two rates.\<close>

record bw_change =
  z_was :: bool
  z_now :: bool
  z_before :: f64
  z_after :: f64

definition rescale_direction :: "bw_change \<Rightarrow> time \<Rightarrow> direction \<Rightarrow> direction option" where
  "rescale_direction z now x =
    (let x = x\<lparr>x_rescale := False\<rparr>
     in if \<not> z_was z \<or> \<not> z_now z \<or> z_before z \<le> 0 \<or> z_after z \<le> 0
        then Some (x\<lparr>x_queue := rebase now (x_queue x), x_drain := now, x_bw_drain := now\<rparr>)
        else if z_before z = z_after z then Some x
        else
          let ratio = fdiv (z_before z) (z_after z)
          in case rescale now ratio (x_queue x) of
               None \<Rightarrow> None
             | Some q \<Rightarrow>
                 (case (if x_drain x > now then scale_time now ratio (x_drain x) else Some (x_drain x)) of
                    None \<Rightarrow> None
                  | Some drain \<Rightarrow>
                      map_option (\<lambda>bw. x\<lparr>x_queue := q, x_drain := drain, x_bw_drain := bw\<rparr>)
                        (if x_bw_drain x > now then scale_time now ratio (x_bw_drain x) else Some now)))"

section \<open>One datagram\<close>

text \<open>
  The draws of one call, in the order the code may ask for them.  Those without a range of their own are
  between 0 and 1.  A distribution of integers whose bounds are the wrong way round is undefined; the
  code swaps them in one place and not in the other.
\<close>

record draws =
  r_loss :: f64
  r_block :: f64
  r_report :: f64
  r_normal :: f64
  r_tail :: f64
  r_tail_ms :: u32
  r_delay :: f64
  r_delay_ms :: u32
  r_reorder :: f64
  r_reorder_ms :: u32
  r_bandwidth :: f64
  r_dup :: f64
  r_corrupt :: f64
  r_flips :: f64
  r_flip_at :: "(nat \<times> nat) list"

text \<open>What the intake decides: a datagram is dropped for one of three reasons, or goes on.\<close>

datatype fate = Lost | Blocked | Report_dropped | Passed

definition is_report :: "bytes \<Rightarrow> bool" where
  "is_report data \<longleftrightarrow> length data \<ge> 48 \<and> data ! 0 = 0x54 \<and> data ! 1 = 0x47 \<and> data ! 2 = 0x48 \<and> data ! 3 = 0x54
     \<and> data ! 5 = 8"

definition fate_of :: "disturb_config \<Rightarrow> draws \<Rightarrow> bool \<Rightarrow> bytes \<Rightarrow> fate" where
  "fate_of c r disturb data =
    (if disturb \<and> \<not> f_l4s_enabled c \<and> r_loss r < f_loss_rate c then Lost
     else if disturb \<and> \<not> f_l4s_enabled c \<and> r_block r < f_block_rate c then Blocked
     else if disturb \<and> f_report_drop_rate c > 0 \<and> is_report data \<and> r_report r < f_report_drop_rate c then Report_dropped
     else Passed)"

definition note_intake :: "disturb_config \<Rightarrow> fate \<Rightarrow> dir_stats \<Rightarrow> dir_stats" where
  "note_intake c f w =
    (let w = w\<lparr>w_recv := w_recv w + 1\<rparr>;
         w = (if f_l4s_enabled c then w\<lparr>w_l4s_seen := w_l4s_seen w + 1\<rparr> else w)
     in case f of
          Lost \<Rightarrow> w\<lparr>w_lost := w_lost w + 1\<rparr>
        | Blocked \<Rightarrow> w\<lparr>w_blocked := w_blocked w + 1\<rparr>
        | Report_dropped \<Rightarrow> w\<lparr>w_report_dropped := w_report_dropped w + 1\<rparr>
        | Passed \<Rightarrow> w)"

text \<open>The artificial delay in milliseconds; 0 for none.\<close>

definition delay_ms :: "disturb_config \<Rightarrow> draws \<Rightarrow> f64 option" where
  "delay_ms c r =
    (if \<not> f_delay_enabled c then Some 0
     else if f_delay_normal c then
       let v = r_normal r;
           lo = fsub (f_delay_mean_ms c) (fmul 2 (f_delay_sigma_ms c));
           hi = fadd (f_delay_mean_ms c) (fmul 2 (f_delay_sigma_ms c));
           v = (if v < lo then lo else v);
           v = (if v > hi then hi else v)
       in if r_tail r < f_delay_tail_prob c then
            (if f_delay_tail_min_ms c > f_delay_tail_max_ms c then None
             else Some (fadd v (of_int (uint (r_tail_ms r)))))
          else Some v
     else if r_delay r < f_delay_prob c then Some (of_int (uint (r_delay_ms r)))
     else Some 0)"

text \<open>The link: a datagram is sent when those before it are through, and occupies it for its own time.\<close>

definition serial_time :: "f64 \<Rightarrow> nat \<Rightarrow> time option" where
  "serial_time bw n =
    (if bw = 0 then None else duration_ms (fdiv (fmul (fmul (f64_of_nat n) 8) 1000) bw))"

definition serialise :: "time \<Rightarrow> time \<Rightarrow> time \<Rightarrow> direction \<Rightarrow> time \<times> direction" where
  "serialise now due tms x =
    (let due = Orderings.max due (x_drain x) + tms
     in (due, x\<lparr>x_drain := due, x_bw_drain := Orderings.max (x_bw_drain x) now + tms\<rparr>))"

definition ce_mark_due :: "disturb_config \<Rightarrow> time \<Rightarrow> direction \<Rightarrow> bool option" where
  "ce_mark_due c now x = (if f_l4s_enabled c then map_option (\<lambda>t. x_bw_drain x - now > t) (duration_ms (f_l4s_threshold_ms c))
     else Some False)"

fun flip_bits :: "(nat \<times> nat) list \<Rightarrow> bytes \<Rightarrow> bytes" where
  "flip_bits [] buf = buf"
| "flip_bits ((p, b) # fs) buf = flip_bits fs (buf[p := buf ! p XOR push_bit b 1])"

definition corrupted :: "draws \<Rightarrow> bytes \<Rightarrow> bytes" where
  "corrupted r data = flip_bits (take (nat (1 + whole (fmul (r_flips r) 3))) (r_flip_at r)) data"

definition count_delay :: "f64 \<Rightarrow> direction \<Rightarrow> direction" where
  "count_delay dms x =
    (let w = x_stats x in x\<lparr>x_stats := (if dms > 0 then w\<lparr>w_delayed := w_delayed w + 1\<rparr> else w)\<rparr>)"

definition count_reorder :: "bool \<Rightarrow> direction \<Rightarrow> direction" where
  "count_reorder reorder x =
    (let w = x_stats x in x\<lparr>x_stats := (if reorder then w\<lparr>w_reordered := w_reordered w + 1\<rparr> else w)\<rparr>)"

definition count_mark :: "direction \<Rightarrow> direction" where
  "count_mark x = (let w = x_stats x in x\<lparr>x_stats := w\<lparr>w_ce_marked := w_ce_marked w + 1\<rparr>\<rparr>)"

definition count_copies :: "bool \<Rightarrow> bool \<Rightarrow> direction \<Rightarrow> direction" where
  "count_copies corrupt dup x =
    (let w = x_stats x;
         w = (if corrupt then w\<lparr>w_corrupt := w_corrupt w + 1\<rparr> else w);
         w = (if dup then w\<lparr>w_dup := w_dup w + 1\<rparr> else w)
     in x\<lparr>x_stats := w\<rparr>)"

text \<open>Into the queue; a second copy is due 50 microseconds later.\<close>

definition put_packet :: "packet \<Rightarrow> direction \<Rightarrow> bool \<times> direction" where
  "put_packet p x =
    (let (ok, q) = queue_push p (x_queue x); w = x_stats x
     in (ok, x\<lparr>x_queue := q, x_stats := (if ok then w else w\<lparr>w_qfull := w_qfull w + 1\<rparr>)\<rparr>))"

definition put_copies :: "bool \<Rightarrow> packet \<Rightarrow> direction \<Rightarrow> direction" where
  "put_copies dup p x =
    (let (ok, x) = put_packet p x
     in if ok \<and> dup then snd (put_packet (p\<lparr>pk_due := pk_due p + microseconds 50\<rparr>) x) else x)"

text \<open>The simulated link, with the mark it may send at once.\<close>

definition through_link ::
  "(f64 \<Rightarrow> f64) \<Rightarrow> f64 \<Rightarrow> time \<Rightarrow> draws \<Rightarrow> disturb_config \<Rightarrow> nat \<Rightarrow> sockaddr \<Rightarrow> sockaddr \<Rightarrow> time \<Rightarrow> direction \<Rightarrow>
     (time \<times> direction \<times> (sockaddr \<times> bytes) list) option" where
  "through_link fsin el now r c n dst reflect due x =
    (case serial_time (bandwidth fsin el (r_bandwidth r) c) n of
       None \<Rightarrow> None
     | Some tms \<Rightarrow>
         (case ce_mark_due c now x of
            None \<Rightarrow> None
          | Some ce \<Rightarrow>
              let (due, x) = serialise now due tms x
              in if ce then Some (due, count_mark x, [(if f_l4s_reflect c then reflect else dst, le_bytes 4 kCeMarkMagic)])
                 else Some (due, x, [])))"

definition deliver_later ::
  "(f64 \<Rightarrow> f64) \<Rightarrow> f64 \<Rightarrow> time \<Rightarrow> draws \<Rightarrow> disturb_config \<Rightarrow> bytes \<Rightarrow> sockaddr \<Rightarrow> sockaddr \<Rightarrow> bool \<Rightarrow> direction \<Rightarrow>
     (direction \<times> (sockaddr \<times> bytes) list) option" where
  "deliver_later fsin el now r c data dst reflect disturb x =
    (case (if disturb then delay_ms c r else Some 0) of
       None \<Rightarrow> None
     | Some dms \<Rightarrow>
         (case (if dms > 0 then duration_ms dms else Some 0) of
            None \<Rightarrow> None
          | Some delay \<Rightarrow>
              let reorder = (disturb \<and> f_reorder_enabled c \<and> r_reorder r < f_reorder_prob c);
                  x = count_reorder reorder (count_delay dms x)
              in (case (if disturb \<and> f_bw_enabled c
                        then through_link fsin el now r c (length data) dst reflect (now + delay) x
                        else Some (now + delay, x, [])) of
                    None \<Rightarrow> None
                  | Some (due, x, marks) \<Rightarrow>
                      let due = (if reorder then due + milliseconds (uint (r_reorder_ms r)) else due);
                          dup = (disturb \<and> r_dup r < f_dup_rate c);
                          corrupt = (disturb \<and> r_corrupt r < f_corrupt_rate c \<and> data \<noteq> []);
                          buf = (if corrupt then corrupted r data else data);
                          p = \<lparr> pk_data = buf, pk_dst = dst, pk_due = due \<rparr>
                      in Some (put_copies dup p (count_copies corrupt dup x), marks))))"

definition process ::
  "(f64 \<Rightarrow> f64) \<Rightarrow> f64 \<Rightarrow> time \<Rightarrow> draws \<Rightarrow> bw_change \<Rightarrow> disturb_config \<Rightarrow> bytes \<Rightarrow> sockaddr \<Rightarrow> sockaddr \<Rightarrow> bool \<Rightarrow>
     direction \<Rightarrow> (direction \<times> (sockaddr \<times> bytes) list) option" where
  "process fsin el now r z c data dst reflect disturb x =
    (case (if x_rescale x then rescale_direction z now x else Some x) of
       None \<Rightarrow> None
     | Some x \<Rightarrow>
         let f = fate_of c r disturb data;
             x = x\<lparr>x_stats := note_intake c f (x_stats x)\<rparr>
         in if f = Passed then deliver_later fsin el now r c data dst reflect disturb x else Some (x, []))"

section \<open>The proxy\<close>

record stall_sched =
  q_active :: bool
  q_low_bps :: f64
  q_normal_bps :: f64
  q_dur_ms :: u64
  q_period_ms :: u64
  q_next_start :: time
  q_restore_at :: time
  q_stalled_now :: bool

definition stall0 :: stall_sched where
  "stall0 = \<lparr> q_active = False, q_low_bps = 0, q_normal_bps = 0, q_dur_ms = 0, q_period_ms = 0, q_next_start = 0,
     q_restore_at = 0, q_stalled_now = False \<rparr>"

record proxy =
  y_cfg :: disturb_config
  y_baseline :: disturb_config
  y_stats_interval :: f64
  y_stall :: stall_sched
  y_target :: sockaddr
  y_client :: sockaddr
  y_fwd :: direction
  y_rev :: direction
  y_bw :: bw_change

definition new_proxy :: "sockaddr \<Rightarrow> disturb_config \<Rightarrow> f64 \<Rightarrow> proxy" where
  "new_proxy tgt c stats_interval =
    \<lparr> y_cfg = c, y_baseline = c, y_stats_interval = stats_interval, y_stall = stall0, y_target = tgt, y_client = (0, 0),
      y_fwd = new_direction (f_queue_cap c), y_rev = new_direction (f_queue_cap c),
      y_bw = \<lparr> z_was = False, z_now = False, z_before = 1, z_after = 1 \<rparr> \<rparr>"

text \<open>A datagram from the target goes back to the last client, any other to the target.\<close>

definition receive ::
  "(f64 \<Rightarrow> f64) \<Rightarrow> f64 \<Rightarrow> time \<Rightarrow> draws \<Rightarrow> sockaddr \<Rightarrow> bytes \<Rightarrow> proxy \<Rightarrow> (proxy \<times> (sockaddr \<times> bytes) list) option" where
  "receive fsin el now r src data y =
    (if src = y_target y then
       map_option (\<lambda>(x, out). (y\<lparr>y_rev := x\<rparr>, out))
         (process fsin el now r (y_bw y) (y_cfg y) data (y_client y) src (\<not> f_clean_reverse (y_cfg y)) (y_rev y))
     else
       map_option (\<lambda>(x, out). (y\<lparr>y_client := src, y_fwd := x\<rparr>, out))
         (process fsin el now r (y_bw y) (y_cfg y) data (y_target y) src True (y_fwd y)))"

text \<open>One round of a sender thread.\<close>

definition send_next :: "time \<Rightarrow> direction \<Rightarrow> direction \<times> (sockaddr \<times> bytes) list" where
  "send_next now x =
    (case queue_pop now (x_queue x) of
       None \<Rightarrow> (x, [])
     | Some (p, q) \<Rightarrow>
         let w = x_stats x
         in (x\<lparr>x_queue := q, x_stats := w\<lparr>w_sent := w_sent w + 1, w_bytes := w_bytes w + of_nat (length (pk_data p))\<rparr>\<rparr>,
             [(pk_dst p, pk_data p)]))"

text \<open>The bandwidth of the engine before and after a change of the configuration; the draws are those of the
  random wave.\<close>

definition current_bw :: "(f64 \<Rightarrow> f64) \<Rightarrow> f64 \<Rightarrow> f64 \<Rightarrow> disturb_config \<Rightarrow> f64" where
  "current_bw fsin el u c = (if f_bw_enabled c then bandwidth fsin el u c else 0)"

definition mark_bw_changed :: "(f64 \<Rightarrow> f64) \<Rightarrow> f64 \<Rightarrow> f64 \<Rightarrow> f64 \<Rightarrow> proxy \<Rightarrow> proxy" where
  "mark_bw_changed fsin el u before y =
    y\<lparr>y_bw := \<lparr> z_was = before > 0, z_now = f_bw_enabled (y_cfg y), z_before = (if before > 0 then before else 1),
                z_after = (if f_bw_enabled (y_cfg y) then bandwidth fsin el u (y_cfg y) else 1) \<rparr>,
      y_fwd := (y_fwd y)\<lparr>x_rescale := True\<rparr>, y_rev := (y_rev y)\<lparr>x_rescale := True\<rparr>\<rparr>"

definition reset_to_baseline :: "(f64 \<Rightarrow> f64) \<Rightarrow> f64 \<Rightarrow> f64 \<Rightarrow> f64 \<Rightarrow> proxy \<Rightarrow> proxy" where
  "reset_to_baseline fsin el u u' y =
    mark_bw_changed fsin el u' (current_bw fsin el u (y_cfg y)) (y\<lparr>y_cfg := y_baseline y\<rparr>)"

definition fix_bw :: "f64 \<Rightarrow> disturb_config \<Rightarrow> disturb_config" where
  "fix_bw v c = c\<lparr>f_bw_enabled := True, f_bw_min_bps := v, f_bw_max_bps := v\<rparr>"

definition apply_stall_schedule :: "(f64 \<Rightarrow> f64) \<Rightarrow> f64 \<Rightarrow> f64 \<Rightarrow> f64 \<Rightarrow> time \<Rightarrow> proxy \<Rightarrow> proxy" where
  "apply_stall_schedule fsin el u u' now y =
    (let s = y_stall y; before = current_bw fsin el u (y_cfg y)
     in if \<not> q_active s then y
        else if q_stalled_now s then
          (if now \<ge> q_restore_at s
           then mark_bw_changed fsin el u' before
                  (y\<lparr>y_cfg := fix_bw (q_normal_bps s) (y_cfg y),
                     y_stall := s\<lparr>q_stalled_now := False, q_next_start := now + milliseconds (uint (q_period_ms s))\<rparr>\<rparr>)
           else y)
        else if now \<ge> q_next_start s
          then mark_bw_changed fsin el u' before
                 (y\<lparr>y_cfg := fix_bw (q_low_bps s) (y_cfg y),
                    y_stall := s\<lparr>q_stalled_now := True, q_restore_at := now + milliseconds (uint (q_dur_ms s))\<rparr>\<rparr>)
        else y)"

end
