(* ===== verification/Proxy_Control.thy ===== *)
theory Proxy_Control
  imports Proxy Text
begin

text \<open>
  The control side of the network simulator: the commands of \<open>apply_command\<close>, read from an
  \<open>std::istringstream\<close>, and the scenario scripts of \<open>set_scenario\<close> and \<open>scenarioLoop\<close>.  Numbers are read the
  way the standard library reads decimal numbers; hexadecimal numbers, infinities and NaN, which
  \<open>strtod\<close> accepts in the duration of a scenario line, are not modelled.
\<close>

section \<open>Reading from a stream\<close>

text \<open>What is left of the text, and whether an earlier read failed.\<close>

type_synonym istream = "string \<times> bool"

definition skip_blanks :: "string \<Rightarrow> string" where
  "skip_blanks s = dropWhile is_space s"

definition read_word :: "istream \<Rightarrow> string \<times> istream" where
  "read_word st =
    (let (s, failed) = st; t = skip_blanks s
     in if failed \<or> t = [] then ([], (t, True))
        else (takeWhile (\<lambda>c. \<not> is_space c) t, (dropWhile (\<lambda>c. \<not> is_space c) t, False)))"

text \<open>\<open>std::getline\<close>.\<close>

definition read_line :: "istream \<Rightarrow> string" where
  "read_line st = (if snd st then [] else takeWhile (\<lambda>c. c \<noteq> CHR 0x0A) (fst st))"

definition is_digit :: "char \<Rightarrow> bool" where
  "is_digit c \<longleftrightarrow> digit_value 10 c \<noteq> None"

definition split_sign :: "string \<Rightarrow> bool \<times> string \<times> string" where
  "split_sign s =
    (case s of
       [] \<Rightarrow> (False, [], [])
     | c # t \<Rightarrow> if c = CHR ''-'' \<or> c = CHR ''+'' then (c = CHR ''-'', [c], t) else (False, [], s))"

definition decimal :: "string \<Rightarrow> nat" where
  "decimal s = fst (scan_digits 10 0 s)"

text \<open>\<open>strtod\<close> without leading blanks: the number and the rest, \<open>None\<close> when there is no number.  An exponent
  without digits is not part of the number.\<close>

definition scan_exponent :: "string \<Rightarrow> int \<times> string" where
  "scan_exponent s =
    (case s of
       [] \<Rightarrow> (0, s)
     | c # t \<Rightarrow>
         if c = CHR ''e'' \<or> c = CHR ''E'' then
           let (neg, _, u) = split_sign t; ds = takeWhile is_digit u
           in if ds = [] then (0, s) else (if neg then - int (decimal ds) else int (decimal ds), dropWhile is_digit u)
         else (0, s))"

definition strtod :: "string \<Rightarrow> (f64 \<times> string) option" where
  "strtod s =
    (let (neg, _, s) = split_sign s;
         whole_part = takeWhile is_digit s; s = dropWhile is_digit s;
         point = (s \<noteq> [] \<and> hd s = CHR ''.'');
         fraction = (if point then takeWhile is_digit (tl s) else []);
         s = (if point then dropWhile is_digit (tl s) else s)
     in if whole_part = [] \<and> fraction = [] then None
        else
          let (e, s) = scan_exponent s;
              k = e - int (length fraction);
              m = (of_nat (decimal (whole_part @ fraction)) :: rat);
              x = rnd (if 0 \<le> k then m * 10 ^ nat k else m / 10 ^ nat (- k))
          in Some (if neg then - x else x, s))"

text \<open>The characters a stream takes for a number; an \<open>e\<close> counts only after a digit.\<close>

definition float_token :: "string \<Rightarrow> string \<times> string" where
  "float_token s =
    (let (_, sign, s) = split_sign s;
         w = takeWhile is_digit s; s = dropWhile is_digit s;
         point = (s \<noteq> [] \<and> hd s = CHR ''.'');
         f = (if point then takeWhile is_digit (tl s) else []);
         s = (if point then dropWhile is_digit (tl s) else s);
         mantissa = sign @ w @ (if point then [CHR ''.''] else []) @ f
     in if w @ f \<noteq> [] \<and> s \<noteq> [] \<and> (hd s = CHR ''e'' \<or> hd s = CHR ''E'') then
          let (_, sign, t) = split_sign (tl s); ds = takeWhile is_digit t
          in (mantissa @ [hd s] @ sign @ ds, dropWhile is_digit t)
        else (mantissa, s))"

text \<open>\<open>iss >> v\<close>: \<open>v\<close> stays as it is when nothing is left to read and becomes 0 when it cannot be read.\<close>

definition read_f64 :: "f64 \<Rightarrow> istream \<Rightarrow> f64 \<times> istream" where
  "read_f64 v st =
    (let (s, failed) = st; t = skip_blanks s
     in if failed \<or> t = [] then (v, (t, True))
        else
          let (tok, rest) = float_token t
          in (case strtod tok of
                Some (x, []) \<Rightarrow> (x, (rest, False))
              | _ \<Rightarrow> (0, (rest, True))))"

text \<open>An unsigned number of \<open>w\<close> bits.  A minus sign negates modulo \<open>2 ^ w\<close>.\<close>

definition read_unsigned :: "nat \<Rightarrow> nat \<Rightarrow> istream \<Rightarrow> nat \<times> istream" where
  "read_unsigned w v st =
    (let (s, failed) = st; t = skip_blanks s
     in if failed \<or> t = [] then (v, (t, True))
        else
          let (neg, _, u) = split_sign t; ds = takeWhile is_digit u; rest = dropWhile is_digit u; n = decimal ds
          in if ds = [] then (0, (rest, True))
             else if n \<ge> 2 ^ w then (2 ^ w - 1, (rest, True))
             else (if neg \<and> n > 0 then 2 ^ w - n else n, (rest, False)))"

definition next_f64 :: "istream \<Rightarrow> f64" where
  "next_f64 st = fst (read_f64 0 st)"

definition next_u32 :: "istream \<Rightarrow> u32" where
  "next_u32 st = of_nat (fst (read_unsigned 64 0 st))"

section \<open>Commands\<close>

definition reset_command :: "disturb_config \<Rightarrow> disturb_config" where
  "reset_command c = c\<lparr>f_loss_rate := 0, f_block_rate := 0, f_dup_rate := 0, f_corrupt_rate := 0, f_report_drop_rate := 0,
     f_delay_enabled := False, f_bw_enabled := False\<rparr>"

text \<open>Commands that touch the bandwidth.\<close>

definition bandwidth_command :: "string \<Rightarrow> istream \<Rightarrow> disturb_config \<Rightarrow> disturb_config option" where
  "bandwidth_command key st c =
    (if key = ''bw'' then Some (if next_f64 st > 0 then fix_bw (next_f64 st) c else c\<lparr>f_bw_enabled := False\<rparr>)
     else if key = ''bw-min'' then Some (c\<lparr>f_bw_min_bps := next_f64 st, f_bw_enabled := True\<rparr>)
     else if key = ''bw-max'' then Some (c\<lparr>f_bw_max_bps := next_f64 st, f_bw_enabled := True\<rparr>)
     else if key = ''bw-period'' then Some (c\<lparr>f_bw_period_ms := next_u32 st\<rparr>)
     else if key = ''bw-duty'' then Some (c\<lparr>f_bw_duty := next_f64 st\<rparr>)
     else if key = ''wave'' then
       (let w = fst (read_word st)
        in Some (if w = ''rect'' then c\<lparr>f_wave := Rect\<rparr>
                 else if w = ''sine'' then c\<lparr>f_wave := Sine\<rparr>
                 else if w = ''sawtooth'' then c\<lparr>f_wave := Sawtooth\<rparr>
                 else if w = ''random'' then c\<lparr>f_wave := Random\<rparr>
                 else if w = ''off'' then c\<lparr>f_bw_enabled := False\<rparr>
                 else c))
     else if key = ''reset'' then Some (reset_command c)
     else None)"

definition rate_command :: "string \<Rightarrow> istream \<Rightarrow> disturb_config \<Rightarrow> disturb_config option" where
  "rate_command key st c =
    (if key = ''loss'' then Some (c\<lparr>f_loss_rate := next_f64 st\<rparr>)
     else if key = ''block'' then Some (c\<lparr>f_block_rate := next_f64 st\<rparr>)
     else if key = ''dup'' then Some (c\<lparr>f_dup_rate := next_f64 st\<rparr>)
     else if key = ''corrupt'' then Some (c\<lparr>f_corrupt_rate := next_f64 st\<rparr>)
     else if key = ''report-drop'' then
       (let v = next_f64 st in Some (c\<lparr>f_report_drop_rate := (if v < 0 then 0 else if v > 1 then 1 else v)\<rparr>))
     else None)"

text \<open>\<open>delay-prob p [min max]\<close>; \<open>delay-normal mean sigma [tail-prob tail-min tail-max]\<close>.\<close>

definition delay_prob_command :: "istream \<Rightarrow> disturb_config \<Rightarrow> disturb_config" where
  "delay_prob_command st c =
    (let (p, st) = read_f64 0 st;
         c = c\<lparr>f_delay_prob := p, f_delay_enabled := p > 0\<rparr>
     in if p > 0 then
          let (lo, rs) = read_unsigned 32 (unat (f_delay_min_ms c)) (read_line st, False);
              (hi, _) = read_unsigned 32 (unat (f_delay_max_ms c)) rs
          in c\<lparr>f_delay_min_ms := of_nat lo, f_delay_max_ms := of_nat (if hi = 0 then lo else hi)\<rparr>
        else c)"

definition delay_normal_command :: "istream \<Rightarrow> disturb_config \<Rightarrow> disturb_config" where
  "delay_normal_command st c =
    (let (mean, st) = read_f64 0 st; (sigma, st) = read_f64 0 st;
         (tp, rs) = read_f64 0 (read_line st, False);
         (tmin, rs) = read_unsigned 32 0 rs; (tmax, _) = read_unsigned 32 0 rs
     in c\<lparr>f_delay_normal := True, f_delay_enabled := True, f_delay_mean_ms := mean, f_delay_sigma_ms := sigma,
          f_delay_tail_prob := (if tp > 0 then tp else f_delay_tail_prob c),
          f_delay_tail_min_ms := (if tmin > 0 then of_nat tmin else f_delay_tail_min_ms c),
          f_delay_tail_max_ms := (if tmax > 0 then of_nat tmax else f_delay_tail_max_ms c)\<rparr>)"

definition delay_command :: "string \<Rightarrow> istream \<Rightarrow> disturb_config \<Rightarrow> disturb_config option" where
  "delay_command key st c =
    (if key = ''delay-prob'' then Some (delay_prob_command st c)
     else if key = ''delay-min'' then Some (c\<lparr>f_delay_enabled := True, f_delay_min_ms := next_u32 st\<rparr>)
     else if key = ''delay-max'' then Some (c\<lparr>f_delay_enabled := True, f_delay_max_ms := next_u32 st\<rparr>)
     else if key = ''delay-normal'' then Some (delay_normal_command st c)
     else if key = ''delay-off'' then Some (c\<lparr>f_delay_enabled := False, f_delay_normal := False\<rparr>)
     else if key = ''reorder-prob'' then Some (c\<lparr>f_reorder_prob := next_f64 st, f_reorder_enabled := next_f64 st > 0\<rparr>)
     else if key = ''reorder-max'' then Some (c\<lparr>f_reorder_enabled := True, f_reorder_max_ms := next_u32 st\<rparr>)
     else None)"

definition l4s_command :: "string \<Rightarrow> istream \<Rightarrow> disturb_config \<Rightarrow> disturb_config option" where
  "l4s_command key st c =
    (let sub = fst (read_word st)
     in if key = ''l4s'' then
          Some (if sub = ''on'' then c\<lparr>f_l4s_enabled := True\<rparr> else if sub = ''off'' then c\<lparr>f_l4s_enabled := False\<rparr> else c)
        else if key = ''l4s-reflect'' then
          Some (if sub = ''on'' then c\<lparr>f_l4s_reflect := True\<rparr> else if sub = ''off'' then c\<lparr>f_l4s_reflect := False\<rparr> else c)
        else if key = ''l4s-threshold'' then
          Some (if next_f64 st \<ge> 0 then c\<lparr>f_l4s_threshold_ms := next_f64 st\<rparr> else c)
        else None)"

text \<open>\<open>stall low dur period\<close> and \<open>stall off\<close>; whether the bandwidth was touched comes last.\<close>

definition stall_command :: "time \<Rightarrow> istream \<Rightarrow> disturb_config \<Rightarrow> stall_sched \<Rightarrow> disturb_config \<times> stall_sched \<times> bool" where
  "stall_command now st c q =
    (let (sub, st) = read_word st
     in if sub = ''off'' then
          (if q_stalled_now q then (fix_bw (q_normal_bps q) c, stall0, True) else (c, stall0, False))
        else
          let (low, s) = read_f64 0 (sub @ '' '' @ read_line st, False);
              (dur, s) = read_f64 0 s; (period, _) = read_f64 0 s
          in if low > 0 \<and> dur > 0 \<and> period > 0 then
               (c\<lparr>f_bw_enabled := True\<rparr>,
                q\<lparr>q_active := True, q_low_bps := low,
                  q_normal_bps := (if f_bw_max_bps c > 0 then f_bw_max_bps c else 4000000),
                  q_dur_ms := u64_of_f64 dur, q_period_ms := u64_of_f64 period,
                  q_next_start := now + milliseconds (uint (u64_of_f64 period)), q_restore_at := 0,
                  q_stalled_now := False\<rparr>, True)
             else (c, q, False))"

definition first_some :: "'a option list \<Rightarrow> 'a option" where
  "first_some xs = (case dropWhile (\<lambda>x. x = None) xs of [] \<Rightarrow> None | x # _ \<Rightarrow> x)"

text \<open>A command nobody knows is only reported.\<close>

definition apply_command :: "(f64 \<Rightarrow> f64) \<Rightarrow> f64 \<Rightarrow> f64 \<Rightarrow> f64 \<Rightarrow> time \<Rightarrow> string \<Rightarrow> proxy \<Rightarrow> proxy" where
  "apply_command fsin el u u' now cmd y =
    (let (key, st) = read_word (cmd, False); c = y_cfg y; before = current_bw fsin el u c
     in if key = [] then y
        else if key = ''stats'' then
          (if next_f64 st \<ge> 0 then y\<lparr>y_stats_interval := next_f64 st\<rparr> else y)
        else if key = ''stall'' then
          let (c, q, touched) = stall_command now st c (y_stall y); y = y\<lparr>y_cfg := c, y_stall := q\<rparr>
          in if touched then mark_bw_changed fsin el u' before y else y
        else
          (case bandwidth_command key st c of
             Some c \<Rightarrow> mark_bw_changed fsin el u' before (y\<lparr>y_cfg := c\<rparr>)
           | None \<Rightarrow>
               (case first_some [rate_command key st c, delay_command key st c, l4s_command key st c] of
                  Some c \<Rightarrow> y\<lparr>y_cfg := c\<rparr>
                | None \<Rightarrow> y)))"

section \<open>Scenarios\<close>

record scenario_step =
  j_duration :: f64
  j_cmds :: "string list"

datatype scenario_error = Cannot_open | Missing_colon nat | Bad_duration nat string | No_steps

definition script_space :: "char \<Rightarrow> bool" where
  "script_space c \<longleftrightarrow> c = CHR '' '' \<or> c = CHR 0x09 \<or> c = CHR 0x0D \<or> c = CHR 0x0A"

definition trim :: "string \<Rightarrow> string" where
  "trim s = rev (dropWhile script_space (rev (dropWhile script_space s)))"

text \<open>The pieces between the separators; a text without any is one piece.\<close>

fun split_on :: "char \<Rightarrow> string \<Rightarrow> string list" where
  "split_on sep [] = [[]]"
| "split_on sep (c # s) =
    (if c = sep then [] # split_on sep s
     else (case split_on sep s of [] \<Rightarrow> [[c]] | p # ps \<Rightarrow> (c # p) # ps))"

text \<open>The lines \<open>std::getline\<close> finds: a line feed at the end does not start another line.\<close>

definition script_lines :: "string \<Rightarrow> string list" where
  "script_lines s =
    (let ls = split_on (CHR 0x0A) s in if last ls = [] then butlast ls else ls)"

definition script_commands :: "string \<Rightarrow> string list" where
  "script_commands body = filter (\<lambda>c. c \<noteq> []) (map trim (split_on (CHR '';'') body))"

text \<open>One line, with its number: nothing, a step, or an error.\<close>

definition script_line :: "nat \<Rightarrow> string \<Rightarrow> scenario_error + scenario_step option" where
  "script_line n line =
    (let line = trim (takeWhile (\<lambda>c. c \<noteq> CHR ''#'') line)
     in if line = [] then Inr None
        else (case find_char (CHR '':'') line of
                None \<Rightarrow> Inl (Missing_colon n)
              | Some colon \<Rightarrow>
                  let dur = take colon line; body = drop (colon + 1) line
                  in (case strtod (skip_blanks dur) of
                        None \<Rightarrow> Inl (Bad_duration n dur)
                      | Some (d, _) \<Rightarrow>
                          if d \<le> 0 then Inl (Bad_duration n dur)
                          else Inr (Some \<lparr> j_duration = d, j_cmds = script_commands body \<rparr>))))"

fun script_steps :: "nat \<Rightarrow> string list \<Rightarrow> scenario_error + scenario_step list" where
  "script_steps n [] = Inr []"
| "script_steps n (l # ls) =
    (case script_line n l of
       Inl e \<Rightarrow> Inl e
     | Inr st \<Rightarrow>
         (case script_steps (n + 1) ls of
            Inl e \<Rightarrow> Inl e
          | Inr sts \<Rightarrow> Inr (case st of None \<Rightarrow> sts | Some st \<Rightarrow> st # sts)))"

text \<open>\<open>None\<close> stands for a file that cannot be opened.\<close>

definition set_scenario :: "string option \<Rightarrow> scenario_error + scenario_step list" where
  "set_scenario content =
    (case content of
       None \<Rightarrow> Inl Cannot_open
     | Some s \<Rightarrow>
         (case script_steps 1 (script_lines s) of
            Inl e \<Rightarrow> Inl e
          | Inr [] \<Rightarrow> Inl No_steps
          | Inr sts \<Rightarrow> Inr sts))"

text \<open>One round of \<open>scenarioLoop\<close>: the new index and the state.  Every command comes with the elapsed time, its
  two draws and its reading of the clock; the first four arguments after the sine are those of the reset.\<close>

fun apply_all :: "(f64 \<Rightarrow> f64) \<Rightarrow> (f64 \<times> f64 \<times> f64 \<times> time) list \<Rightarrow> string list \<Rightarrow> proxy \<Rightarrow> proxy" where
  "apply_all fsin ((el, u, u', now) # es) (c # cs) y = apply_all fsin es cs (apply_command fsin el u u' now c y)"
| "apply_all fsin _ _ y = y"

definition scenario_round ::
  "(f64 \<Rightarrow> f64) \<Rightarrow> f64 \<Rightarrow> f64 \<Rightarrow> f64 \<Rightarrow> (f64 \<times> f64 \<times> f64 \<times> time) list \<Rightarrow> scenario_step list \<Rightarrow> nat \<Rightarrow> proxy \<Rightarrow> nat \<times> proxy" where
  "scenario_round fsin el u u' es sts idx y =
    (let y = (if idx = 0 then reset_to_baseline fsin el u u' y else y)
     in ((idx + 1) mod length sts, apply_all fsin es (j_cmds (sts ! idx)) y))"

end
