(* ===== verification/Proxy_Laws.thy ===== *)
theory Proxy_Laws
  imports Proxy_Control
begin

text \<open>
  Laws of the network simulator: the limited link is a queue, the counters account for every datagram,
  and what a full queue and the command \<open>reset\<close> leave behind.
\<close>

section \<open>Durations\<close>

lemma whole_mono: "x \<le> y \<Longrightarrow> whole x \<le> whole y"
  unfolding whole_def by (auto simp add: floor_mono ceiling_mono intro!: order_trans [of "ceiling x" 0 "floor y"])

lemma whole_nonneg: "0 \<le> x \<Longrightarrow> 0 \<le> whole x"
  by (simp add: whole_def)

lemma duration_mono: "duration x = Some a \<Longrightarrow> duration y = Some b \<Longrightarrow> x \<le> y \<Longrightarrow> a \<le> b"
  by (auto simp add: duration_def whole_mono split: if_splits)

lemma duration_nonneg: "duration x = Some a \<Longrightarrow> 0 \<le> x \<Longrightarrow> 0 \<le> a"
  by (auto simp add: duration_def whole_nonneg split: if_splits)

lemma serial_time_nonneg: "serial_time bw n = Some t \<Longrightarrow> 0 < bw \<Longrightarrow> 0 \<le> t"
  unfolding serial_time_def duration_ms_def
  by (auto simp add: fmul_def fdiv_def f64_of_nat_def rnd_nonneg elim!: duration_nonneg)

lemma scale_time_mono:
  assumes "scale_time now ratio s = Some a" "scale_time now ratio t = Some b" "s \<le> t" "0 \<le> ratio"
  shows "a \<le> b"
proof -
  have "fmul (f64_of_int (s - now)) ratio \<le> fmul (f64_of_int (t - now)) ratio"
    unfolding fmul_def f64_of_int_def using assms(3,4) by (intro rnd_mono mult_right_mono) simp_all
  then show ?thesis using assms(1,2) by (auto simp add: scale_time_def intro: duration_mono)
qed

lemma scale_time_future: "scale_time now ratio t = Some a \<Longrightarrow> now \<le> t \<Longrightarrow> 0 \<le> ratio \<Longrightarrow> now \<le> a"
  by (auto simp add: scale_time_def fmul_def f64_of_int_def rnd_nonneg elim!: duration_nonneg)

section \<open>The link is a queue\<close>

text \<open>Rescheduling one point of time; the queue does this to the times of its packets.\<close>

definition moved :: "time \<Rightarrow> f64 \<Rightarrow> time \<Rightarrow> time option" where
  "moved now ratio t = (if t > now then scale_time now ratio t else Some t)"

lemma moved_mono: "moved now ratio s = Some a \<Longrightarrow> moved now ratio t = Some b \<Longrightarrow> s \<le> t \<Longrightarrow> 0 \<le> ratio \<Longrightarrow> a \<le> b"
  using scale_time_future [of now ratio t b] scale_time_mono [of now ratio s a t b]
  by (auto simp add: moved_def split: if_splits)

lemma scale_all_moved:
  "scale_all now ratio ps = Some qs \<Longrightarrow>
    list_all2 (\<lambda>p q. moved now ratio (pk_due p) = Some (pk_due q) \<and> pk_data q = pk_data p \<and> pk_dst q = pk_dst p) ps qs"
proof (induction ps arbitrary: qs)
  case (Cons p ps)
  then show ?case by (auto simp add: moved_def split: option.splits if_splits)
qed simp

text \<open>The packets are queued in the order they are due, and the link is occupied at least until then.\<close>

definition in_line :: "direction \<Rightarrow> bool" where
  "in_line x \<longleftrightarrow> sorted (map pk_due (u_items (x_queue x))) \<and> (\<forall>p\<in>set (u_items (x_queue x)). pk_due p \<le> x_drain x)"

definition contents :: "direction \<Rightarrow> (sockaddr \<times> bytes) list" where
  "contents x = map (\<lambda>p. (pk_dst p, pk_data p)) (u_items (x_queue x))"

lemma scale_all_sorted:
  assumes "scale_all now ratio ps = Some qs" "0 \<le> ratio" "sorted (map pk_due ps)"
  shows "sorted (map pk_due qs)"
  unfolding sorted_iff_nth_mono
proof (intro allI impI)
  fix i j assume ij: "i \<le> j" "j < length (map pk_due qs)"
  note m = list_all2_nthD [OF scale_all_moved [OF assms(1)]] list_all2_lengthD [OF scale_all_moved [OF assms(1)]]
  have "pk_due (ps ! i) \<le> pk_due (ps ! j)" using assms(3) ij m(2) by (simp add: sorted_iff_nth_mono)
  then show "map pk_due qs ! i \<le> map pk_due qs ! j"
    using m(1) [of i] m(1) [of j] ij m(2) assms(2) by (auto intro: moved_mono)
qed

lemma scale_all_below:
  assumes "scale_all now ratio ps = Some qs" "0 \<le> ratio" "\<forall>p\<in>set ps. pk_due p \<le> t" "moved now ratio t = Some t'" "q \<in> set qs"
  shows "pk_due q \<le> t'"
proof -
  obtain i where i: "i < length qs" "q = qs ! i" using assms(5) by (auto simp add: in_set_conv_nth)
  have "i < length ps" "moved now ratio (pk_due (ps ! i)) = Some (pk_due q)"
    using list_all2_nthD2 [OF scale_all_moved [OF assms(1)] i(1)] list_all2_lengthD [OF scale_all_moved [OF assms(1)]] i
    by simp_all
  then show ?thesis using assms(2,3,4) by (auto intro: moved_mono)
qed

lemma scale_all_contents: "scale_all now ratio ps = Some qs \<Longrightarrow> map (\<lambda>p. (pk_dst p, pk_data p)) qs = map (\<lambda>p. (pk_dst p, pk_data p)) ps"
  by (drule scale_all_moved, induction ps qs rule: list_all2_induct) simp_all

lemma rescale_direction_in_line:
  assumes "rescale_direction z now x = Some x'" "in_line x"
  shows "in_line x' \<and> contents x' = contents x"
proof (cases "\<not> z_was z \<or> \<not> z_now z \<or> z_before z \<le> 0 \<or> z_after z \<le> 0")
  case True
  have due: "pk_due (if pk_due p > now then p\<lparr>pk_due := now\<rparr> else p) = min (pk_due p) now" for p :: packet by simp
  have "sorted (map (\<lambda>p. min (pk_due p) now) ps)" if "sorted (map pk_due ps)" for ps :: "packet list"
    using that by (induction ps) (auto simp add: min_def)
  then show ?thesis using True assms
    by (auto simp add: rescale_direction_def Let_def rebase_def in_line_def contents_def comp_def due simp del: if_split)
next
  case False
  then have r: "0 \<le> fdiv (z_before z) (z_after z)" by (simp add: fdiv_def rnd_nonneg)
  show ?thesis
  proof (cases "z_before z = z_after z")
    case True
    then show ?thesis using False assms by (auto simp add: rescale_direction_def Let_def in_line_def contents_def)
  next
    case ne: False
    then obtain qs drain where q: "scale_all now (fdiv (z_before z) (z_after z)) (u_items (x_queue x)) = Some qs"
      "moved now (fdiv (z_before z) (z_after z)) (x_drain x) = Some drain"
      "u_items (x_queue x') = qs" "x_drain x' = drain"
      using False assms(1) by (auto simp add: rescale_direction_def Let_def rescale_def moved_def split: option.splits if_splits)
    show ?thesis
      using assms(2) scale_all_sorted [OF q(1) r] scale_all_below [OF q(1) r _ q(2)] scale_all_contents [OF q(1)]
      by (auto simp add: in_line_def contents_def q(3,4))
  qed
qed

text \<open>What the queue does with one more packet.\<close>

lemma put_packet_effect:
  "put_packet p x = (ok, x') \<Longrightarrow>
     ok = (length (u_items (x_queue x)) < u_cap (x_queue x)) \<and> x_drain x' = x_drain x \<and>
     u_cap (x_queue x') = u_cap (x_queue x) \<and>
     u_items (x_queue x') = (if ok then u_items (x_queue x) @ [p] else u_items (x_queue x))"
  by (auto simp add: put_packet_def queue_push_def Let_def split: if_splits)

lemma count_frame [simp]:
  "x_queue (count_delay dms x) = x_queue x" "x_drain (count_delay dms x) = x_drain x"
  "x_queue (count_reorder ro x) = x_queue x" "x_drain (count_reorder ro x) = x_drain x"
  "x_queue (count_mark x) = x_queue x" "x_drain (count_mark x) = x_drain x"
  "x_queue (count_copies co du x) = x_queue x" "x_drain (count_copies co du x) = x_drain x"
  by (simp_all add: count_delay_def count_reorder_def count_mark_def count_copies_def Let_def)

lemma serialise_frame:
  "serialise now due tms x = (due', x') \<Longrightarrow> x_queue x' = x_queue x \<and> x_drain x' = due' \<and> x_stats x' = x_stats x \<and>
     due' = Orderings.max due (x_drain x) + tms"
  by (auto simp add: serialise_def Let_def)

lemma through_link_effect:
  assumes "through_link fsin el now r c n dst reflect due x = Some (due', x', marks)"
  obtains tms where "serial_time (bandwidth fsin el (r_bandwidth r) c) n = Some tms"
    "due' = Orderings.max due (x_drain x) + tms" "x_drain x' = due'" "x_queue x' = x_queue x"
  using assms serialise_frame [of now due _ x]
  by (auto simp add: through_link_def Let_def split: option.splits prod.splits if_splits)

text \<open>A run of the link: datagrams arrive and the sender thread sends.\<close>

datatype link_event =
    Arrival time f64 draws bw_change disturb_config bytes sockaddr sockaddr
  | Sending time

text \<open>The new state, what was sent and what entered the queue.\<close>

fun link_step :: "(f64 \<Rightarrow> f64) \<Rightarrow> link_event \<Rightarrow> direction \<Rightarrow> (direction \<times> (sockaddr \<times> bytes) list \<times> (sockaddr \<times> bytes) list) option" where
  "link_step fsin (Arrival now el r z c data dst reflect) x =
    map_option (\<lambda>(x', marks). (x', [], drop (length (contents x)) (contents x')))
      (process fsin el now r z c data dst reflect True x)"
| "link_step fsin (Sending now) x = (let (x', sent) = send_next now x in Some (x', sent, []))"

fun link_run :: "(f64 \<Rightarrow> f64) \<Rightarrow> link_event list \<Rightarrow> direction \<Rightarrow> (direction \<times> (sockaddr \<times> bytes) list \<times> (sockaddr \<times> bytes) list) option" where
  "link_run fsin [] x = Some (x, [], [])"
| "link_run fsin (e # es) x =
    (case link_step fsin e x of
       None \<Rightarrow> None
     | Some (x, sent, taken) \<Rightarrow>
         map_option (\<lambda>(x, sent', taken'). (x, sent @ sent', taken @ taken')) (link_run fsin es x))"

text \<open>An arrival on a limited link that neither reorders nor duplicates.\<close>

fun plain :: "(f64 \<Rightarrow> f64) \<Rightarrow> link_event \<Rightarrow> bool" where
  "plain fsin (Arrival now el r z c data dst reflect) \<longleftrightarrow>
    f_bw_enabled c \<and> bandwidth fsin el (r_bandwidth r) c > 0 \<and> \<not> f_reorder_enabled c \<and> f_dup_rate c \<le> r_dup r"
| "plain fsin (Sending now) \<longleftrightarrow> True"

lemma deliver_later_in_line:
  assumes "deliver_later fsin el now r c data dst reflect True x = Some (x', marks)" "in_line x"
    and "f_bw_enabled c" "bandwidth fsin el (r_bandwidth r) c > 0" "\<not> f_reorder_enabled c" "f_dup_rate c \<le> r_dup r"
  shows "in_line x' \<and> (\<exists>t. contents x' = contents x @ t)"
proof -
  obtain dms delay due x1 where l:
    "through_link fsin el now r c (length data) dst reflect (now + delay) (count_reorder False (count_delay dms x)) = Some (due, x1, marks)"
    "x' = put_copies False \<lparr> pk_data = (if r_corrupt r < f_corrupt_rate c \<and> data \<noteq> [] then corrupted r data else data),
       pk_dst = dst, pk_due = due \<rparr> (count_copies (r_corrupt r < f_corrupt_rate c \<and> data \<noteq> []) False x1)"
    using assms(1,3,5,6) unfolding deliver_later_def
    by (auto simp add: Let_def not_less split: option.splits prod.splits)
  obtain tms where t: "serial_time (bandwidth fsin el (r_bandwidth r) c) (length data) = Some tms"
    "due = Orderings.max (now + delay) (x_drain x) + tms" "x_drain x1 = due" "x_queue x1 = x_queue x"
    using through_link_effect [OF l(1)] by (metis count_frame(1-4))
  have "x_drain x \<le> due" using serial_time_nonneg [OF t(1) assms(4)] by (simp add: t(2))
  then have b: "\<forall>p\<in>set (u_items (x_queue x)). pk_due p \<le> due" using assms(2) by (auto simp add: in_line_def)
  define p where "p = \<lparr> pk_data = (if r_corrupt r < f_corrupt_rate c \<and> data \<noteq> [] then corrupted r data else data), pk_dst = dst, pk_due = due \<rparr>"
  obtain ok x2 where x2: "put_packet p (count_copies (r_corrupt r < f_corrupt_rate c \<and> data \<noteq> []) False x1) = (ok, x2)" by fastforce
  then have "x' = x2" by (simp add: l(2) p_def put_copies_def)
  then show ?thesis
    using put_packet_effect [OF x2] assms(2) b
    by (auto simp add: t in_line_def contents_def sorted_append p_def)
qed

lemma process_in_line:
  assumes "process fsin el now r z c data dst reflect True x = Some (x', marks)" "in_line x"
    and "f_bw_enabled c" "bandwidth fsin el (r_bandwidth r) c > 0" "\<not> f_reorder_enabled c" "f_dup_rate c \<le> r_dup r"
  shows "in_line x' \<and> (\<exists>t. contents x' = contents x @ t)"
proof -
  obtain x1 where x1: "(if x_rescale x then rescale_direction z now x else Some x) = Some x1"
    using assms(1) by (auto simp add: process_def split: option.splits)
  then have i: "in_line x1" "contents x1 = contents x"
    using rescale_direction_in_line [of z now x x1] assms(2) by (auto split: if_splits)
  have s: "in_line (x1\<lparr>x_stats := w\<rparr>) = in_line x1" "contents (x1\<lparr>x_stats := w\<rparr>) = contents x1" for w
    by (simp_all add: in_line_def contents_def)
  show ?thesis
  proof (cases "fate_of c r True data = Passed")
    case True
    then have "deliver_later fsin el now r c data dst reflect True (x1\<lparr>x_stats := note_intake c Passed (x_stats x1)\<rparr>) = Some (x', marks)"
      using assms(1) x1 by (simp add: process_def Let_def)
    from deliver_later_in_line [OF this _ assms(3-6)] show ?thesis using i by (simp add: s)
  next
    case False
    then show ?thesis using assms(1) x1 i by (auto simp add: process_def Let_def s)
  qed
qed

lemma extract_first_sorted: "sorted (map pk_due (x # xs)) \<Longrightarrow> extract_first x xs = (x, xs)"
proof (induction xs arbitrary: x)
  case (Cons y xs)
  then have "extract_first y xs = (y, xs)" by simp
  then show ?case using Cons.prems by simp
qed simp

lemma send_next_in_line:
  assumes "send_next now x = (x', sent)" "in_line x"
  shows "in_line x' \<and> contents x = sent @ contents x'"
proof (cases "u_items (x_queue x)")
  case Nil
  then show ?thesis using assms by (simp add: send_next_def queue_pop_def queue_top_def contents_def)
next
  case (Cons p ps)
  then have "extract_first p ps = (p, ps)" using assms(2) extract_first_sorted by (simp add: in_line_def)
  then show ?thesis
    using assms Cons by (auto simp add: send_next_def queue_pop_def queue_top_def Let_def in_line_def contents_def split: if_splits)
qed

lemma link_step_in_line:
  assumes "link_step fsin e x = Some (x', sent, taken)" "in_line x" "plain fsin e"
  shows "in_line x' \<and> contents x @ taken = sent @ contents x'"
  using assms
proof (cases e)
  case (Arrival now el r z c data dst reflect)
  then obtain marks where "process fsin el now r z c data dst reflect True x = Some (x', marks)"
    "sent = []" "taken = drop (length (contents x)) (contents x')"
    using assms(1) by auto
  then show ?thesis using process_in_line [of fsin el now r z c data dst reflect x x' marks] assms(2,3) Arrival by auto
next
  case (Sending now)
  then show ?thesis using send_next_in_line [of now x x' sent] assms by (auto simp add: split_beta)
qed


definition ex_draws :: draws where
  "ex_draws = \<lparr> r_loss = 1 / 2, r_block = 1 / 2, r_report = 1 / 2, r_normal = 0, r_tail = 1 / 2, r_tail_ms = 0, r_delay = 1 / 2,
     r_delay_ms = 0, r_reorder = 1 / 2, r_reorder_ms = 0, r_bandwidth = 0, r_dup = 1 / 2, r_corrupt = 1 / 2, r_flips = 0,
     r_flip_at = [] \<rparr>"

definition ex_change :: bw_change where
  "ex_change = \<lparr> z_was = False, z_now = False, z_before = 1, z_after = 1 \<rparr>"

text \<open>A link of 8000 bits per second: a byte takes a millisecond.\<close>

definition ex_config :: disturb_config where
  "ex_config = disturb_defaults\<lparr>f_bw_enabled := True, f_bw_min_bps := 8000, f_bw_max_bps := 8000\<rparr>"

definition ex_link :: "link_event list" where
  "ex_link = [Arrival 0 0 ex_draws ex_change ex_config [1, 2] (1, 1) (2, 2), Arrival 0 0 ex_draws ex_change ex_config [3] (1, 1) (2, 2),
     Sending 2000000]"

lemma ex_bandwidth: "bandwidth fsin 0 u ex_config = 8000"
  by (simp add: bandwidth_def ex_config_def disturb_defaults_def Let_def)

lemma rnd_small [simp]: "numeral w \<le> (2 ^ 53 :: int) \<Longrightarrow> rnd (numeral w) = numeral w" "rnd 1 = 1"
  using rnd_of_int_exact [of "numeral w"] rnd_of_int_exact [of 1] by simp_all

lemma ex_serial: "serial_time 8000 (Suc 0) = Some 1000000" "serial_time 8000 (Suc (Suc 0)) = Some 2000000"
  by (simp_all add: serial_time_def duration_ms_def duration_def whole_def fmul_def fdiv_def f64_of_nat_def)

lemma ex_process:
  assumes "serial_time 8000 (length data) = Some t" "\<not> x_rescale x" "length (u_items (x_queue x)) < u_cap (x_queue x)"
  shows "process fsin 0 now ex_draws ex_change ex_config data dst reflect True x =
    Some (x\<lparr>x_stats := note_intake ex_config Passed (x_stats x),
      x_queue := (x_queue x)\<lparr>u_items := u_items (x_queue x) @
        [\<lparr> pk_data = data, pk_dst = dst, pk_due = Orderings.max now (x_drain x) + t \<rparr>]\<rparr>,
      x_drain := Orderings.max now (x_drain x) + t, x_bw_drain := Orderings.max (x_bw_drain x) now + t\<rparr>, [])"
proof -
  have f: "fate_of ex_config ex_draws True data = Passed" "delay_ms ex_config ex_draws = Some 0"
    "\<not> f_reorder_enabled ex_config" "f_bw_enabled ex_config" "\<not> r_dup ex_draws < f_dup_rate ex_config"
    "\<not> r_corrupt ex_draws < f_corrupt_rate ex_config" "ce_mark_due ex_config now y = Some False" for y
    by (simp_all add: fate_of_def delay_ms_def ex_config_def disturb_defaults_def ex_draws_def ce_mark_due_def)
  show ?thesis
    using assms
    by (simp add: process_def deliver_later_def through_link_def f ex_bandwidth serialise_def put_copies_def put_packet_def
        queue_push_def count_delay_def count_reorder_def count_copies_def Let_def)
qed

lemma ex_link_run:
  "\<exists>x. link_run fsin ex_link (new_direction 10) = Some (x, [((1, 1), [1, 2])], [((1, 1), [1, 2]), ((1, 1), [3])])"
  unfolding ex_link_def
  by (simp add: ex_process [where data = "[1, 2]" and t = 2000000] ex_process [where data = "[3]" and t = 1000000] ex_serial new_direction_def contents_def send_next_def queue_pop_def queue_top_def Let_def)


section \<open>The counters\<close>

text \<open>What came in, copies included, less what was dropped, what went out and what waits.\<close>

definition imbalance :: "direction \<Rightarrow> u64" where
  "imbalance x = (let w = x_stats x in w_recv w + w_dup w -
     (w_lost w + w_blocked w + w_report_dropped w + w_qfull w + w_sent w + of_nat (length (u_items (x_queue x)))))"

lemma imbalance_count [simp]:
  "imbalance (count_delay dms x) = imbalance x" "imbalance (count_reorder ro x) = imbalance x"
  "imbalance (count_mark x) = imbalance x" "imbalance (count_copies co du x) = imbalance x + (if du then 1 else 0)"
  "imbalance (x\<lparr>x_stats := note_intake c f (x_stats x)\<rparr>) = imbalance x + (if f = Passed then 1 else 0)"
  by (simp_all add: imbalance_def count_delay_def count_reorder_def count_mark_def count_copies_def note_intake_def Let_def
      split: fate.split)

lemma imbalance_put: "put_packet p x = (ok, x') \<Longrightarrow> imbalance x' = imbalance x - 1"
  by (auto simp add: put_packet_def queue_push_def imbalance_def Let_def algebra_simps split: if_splits)

lemma imbalance_put_copies:
  "imbalance (put_copies dup p x) = imbalance x - (if dup \<and> length (u_items (x_queue x)) < u_cap (x_queue x) then 2 else 1)"
proof -
  obtain ok y where y: "put_packet p x = (ok, y)" by fastforce
  obtain ok' y' where y': "put_packet (p\<lparr>pk_due := pk_due p + microseconds 50\<rparr>) y = (ok', y')" by fastforce
  show ?thesis
    using put_packet_effect [OF y] imbalance_put [OF y] imbalance_put [OF y'] by (simp add: put_copies_def y y')
qed

lemma imbalance_serialise: "serialise now due tms x = (due', x') \<Longrightarrow> imbalance x' = imbalance x"
  by (auto simp add: serialise_def imbalance_def Let_def)

lemma imbalance_through_link:
  "through_link fsin el now r c n dst reflect due x = Some (due', x', marks) \<Longrightarrow> imbalance x' = imbalance x"
  by (auto simp add: through_link_def Let_def imbalance_serialise split: option.splits prod.splits if_splits)

lemma deliver_later_parts:
  assumes "deliver_later fsin el now r c data dst reflect disturb x = Some (x', marks)"
  obtains dms reorder due x1 corrupt p where
    "x' = put_copies (disturb \<and> r_dup r < f_dup_rate c) p (count_copies corrupt (disturb \<and> r_dup r < f_dup_rate c) x1)"
    "imbalance x1 = imbalance x" "x_queue x1 = x_queue x"
proof -
  obtain dms where d: "(if disturb then delay_ms c r else Some 0) = Some dms"
    using assms by (auto simp add: deliver_later_def split: option.splits)
  obtain delay where e: "(if dms > 0 then duration_ms dms else Some 0) = Some delay"
    using assms by (auto simp add: deliver_later_def d split: option.splits)
  let ?y = "count_reorder (disturb \<and> f_reorder_enabled c \<and> r_reorder r < f_reorder_prob c) (count_delay dms x)"
  obtain due x1 m where l: "(if disturb \<and> f_bw_enabled c then through_link fsin el now r c (length data) dst reflect (now + delay) ?y
      else Some (now + delay, ?y, [])) = Some (due, x1, m)"
    using assms unfolding deliver_later_def d option.case e Let_def by (auto split: option.splits)
  have "imbalance x1 = imbalance ?y \<and> x_queue x1 = x_queue ?y"
    using l by (auto split: if_splits elim!: through_link_effect simp add: imbalance_through_link)
  then have "imbalance x1 = imbalance x" "x_queue x1 = x_queue x" by simp_all
  moreover have "\<exists>p corrupt. x' = put_copies (disturb \<and> r_dup r < f_dup_rate c) p
      (count_copies corrupt (disturb \<and> r_dup r < f_dup_rate c) x1)"
    using assms unfolding deliver_later_def d option.case e Let_def l by auto
  ultimately show ?thesis using that by blast
qed

lemma rescale_length:
  "rescale_direction z now x = Some x' \<Longrightarrow> length (u_items (x_queue x')) = length (u_items (x_queue x)) \<and>
     u_cap (x_queue x') = u_cap (x_queue x) \<and> x_stats x' = x_stats x"
  by (auto simp add: rescale_direction_def rebase_def rescale_def Let_def list_all2_lengthD [OF scale_all_moved]
      split: if_splits option.splits)

text \<open>
  C40: the counters account for every datagram.  Receiving and sending keep the balance between what came
  in, with the copies, and what was lost, blocked, dropped, refused by a full queue, sent or still waits;
  with one exception: a datagram that is to be duplicated and finds the queue full is counted as
  duplicated although there is no copy, and the balance is off by one from then on.
\<close>

theorem counters_account:
  "imbalance (new_direction cap) = 0 \<and> imbalance (fst (send_next t y)) = imbalance y \<and>
   (process fsin el now r z c data dst reflect disturb x = Some (x', marks) \<longrightarrow>
     imbalance x' = imbalance x + (if fate_of c r disturb data = Passed \<and> disturb \<and> r_dup r < f_dup_rate c \<and>
       u_cap (x_queue x) \<le> length (u_items (x_queue x)) then 1 else 0))"
proof (intro conjI impI)
  show "imbalance (new_direction cap) = 0" by (simp add: imbalance_def new_direction_def dir_stats0_def Let_def)
  show "imbalance (fst (send_next t y)) = imbalance y"
  proof (cases "u_items (x_queue y)")
    case (Cons p ps)
    obtain f fs where f: "extract_first p ps = (f, fs)" by fastforce
    then have "length ps = length fs"
      by (induction ps arbitrary: p f fs) (auto simp add: Let_def split: prod.splits if_splits)
    then show ?thesis using Cons
      by (auto simp add: send_next_def queue_pop_def queue_top_def imbalance_def Let_def f algebra_simps)
  qed (simp add: send_next_def queue_pop_def queue_top_def)
  assume a: "process fsin el now r z c data dst reflect disturb x = Some (x', marks)"
  then obtain x1 where x1: "(if x_rescale x then rescale_direction z now x else Some x) = Some x1"
    by (auto simp add: process_def split: option.splits)
  then have q: "length (u_items (x_queue x1)) = length (u_items (x_queue x))" "u_cap (x_queue x1) = u_cap (x_queue x)"
    "imbalance x1 = imbalance x"
    using rescale_length [of z now x x1] by (auto simp add: imbalance_def split: if_splits)
  show "imbalance x' = imbalance x + (if fate_of c r disturb data = Passed \<and> disturb \<and> r_dup r < f_dup_rate c \<and>
       u_cap (x_queue x) \<le> length (u_items (x_queue x)) then 1 else 0)"
  proof (cases "fate_of c r disturb data = Passed")
    case True
    then have "deliver_later fsin el now r c data dst reflect disturb (x1\<lparr>x_stats := note_intake c Passed (x_stats x1)\<rparr>) = Some (x', marks)"
      using a x1 by (simp add: process_def Let_def)
    then show ?thesis
      by (rule deliver_later_parts) (use True q in \<open>auto simp add: imbalance_put_copies not_less\<close>)
  next
    case False
    then have "x' = x1\<lparr>x_stats := note_intake c (fate_of c r disturb data) (x_stats x1)\<rparr>"
      using a x1 by (simp add: process_def Let_def)
    then show ?thesis using False q by simp
  qed
qed

lemma counters_account_witness:
  "\<exists>x. process id 0 0 ex_draws ex_change ex_config [3] (1, 1) (2, 2) True (new_direction 10) = Some (x, []) \<and> imbalance x = 0"
proof -
  obtain x where x: "process id 0 0 ex_draws ex_change ex_config [3] (1, 1) (2, 2) True (new_direction 10) = Some (x, [])"
    using ex_process [of "[3]" 1000000 "new_direction 10" id 0 "(1, 1)" "(2, 2)"]
    by (simp add: ex_serial new_direction_def)
  then show ?thesis
    using counters_account [of 10 0 "new_direction 10" id 0 0 ex_draws ex_change ex_config "[3]" "(1, 1)" "(2, 2)" True "new_direction 10" x "[]"]
    by (simp add: new_direction_def)
qed

section \<open>What is left behind\<close>

text \<open>An arrival without delay or mark at a full queue.\<close>

lemma full_arrival:
  assumes "u_cap (x_queue x) \<le> length (u_items (x_queue x))" "\<not> x_rescale x" "x_drain x \<ge> now"
    and "f_bw_enabled c" "serial_time (bandwidth fsin el (r_bandwidth r) c) (length data) = Some t" "0 \<le> t"
    and "\<not> f_delay_enabled c" "\<not> f_l4s_enabled c" "fate_of c r True data = Passed"
  shows "\<exists>x'. process fsin el now r z c data dst reflect True x = Some (x', []) \<and> x_queue x' = x_queue x \<and>
    x_drain x' = x_drain x + t \<and> x_rescale x' = x_rescale x"
  using assms
  by (simp add: process_def deliver_later_def through_link_def serialise_def put_copies_def put_packet_def queue_push_def
      count_delay_def count_reorder_def count_copies_def delay_ms_def ce_mark_due_def Let_def)

text \<open>
  A full queue still occupies the link.  Datagrams that are dropped because the queue is full book the
  time of their transmission all the same: after \<open>n\<close> of them nothing has entered the queue, but the link
  is taken for \<open>n\<close> more transmissions, and whatever is accepted afterwards is due only when they are over.
\<close>

theorem full_queue_occupies_link:
  assumes "u_cap (x_queue x) \<le> length (u_items (x_queue x))" "\<not> x_rescale x" "x_drain x \<ge> now"
    and "f_bw_enabled c" "serial_time (bandwidth fsin el (r_bandwidth r) c) (length data) = Some t" "0 \<le> t"
    and "\<not> f_delay_enabled c" "\<not> f_l4s_enabled c" "fate_of c r True data = Passed"
  shows "\<exists>x'. link_run fsin (replicate n (Arrival now el r z c data dst reflect)) x = Some (x', [], []) \<and>
    x_queue x' = x_queue x \<and> x_drain x' = x_drain x + int n * t"
  using assms(1-3)
proof (induction n arbitrary: x)
  case (Suc n)
  obtain y where y: "process fsin el now r z c data dst reflect True x = Some (y, [])" "x_queue y = x_queue x"
    "x_drain y = x_drain x + t" "x_rescale y = x_rescale x"
    using full_arrival [OF Suc.prems assms(4-9)] by blast
  have "contents y = contents x" by (simp add: contents_def y(2))
  moreover obtain x' where "link_run fsin (replicate n (Arrival now el r z c data dst reflect)) y = Some (x', [], [])"
    "x_queue x' = x_queue y" "x_drain x' = x_drain y + int n * t"
    using Suc.IH [of y] Suc.prems assms(6) by (auto simp add: y)
  ultimately show ?case by (simp add: y algebra_simps)
qed simp

lemma full_queue_occupies_link_witness:
  "\<exists>x'. link_run id (replicate 1000 (Arrival 0 0 ex_draws ex_change ex_config [3] (1, 1) (2, 2))) (new_direction 0) = Some (x', [], []) \<and>
     x_drain x' = seconds 1"
proof -
  have "\<exists>x'. link_run id (replicate 1000 (Arrival 0 0 ex_draws ex_change ex_config [3] (1, 1) (2, 2))) (new_direction 0) =
      Some (x', [], []) \<and> x_queue x' = x_queue (new_direction 0) \<and> x_drain x' = x_drain (new_direction 0) + int 1000 * 1000000"
    by (rule full_queue_occupies_link)
      (simp_all add: new_direction_def ex_bandwidth ex_serial,
       simp_all add: ex_config_def disturb_defaults_def fate_of_def ex_draws_def)
  then show ?thesis by (auto simp add: new_direction_def seconds_def)
qed

lemma read_word_reset: "read_word (''reset'', False) = (''reset'', [], False)"
  by code_simp

text \<open>
  The command \<open>reset\<close> does not stop a stall schedule.  After \<open>reset\<close> the bandwidth is unlimited, but an
  active schedule limits it again, to its low or its normal rate, at its next change.
\<close>

theorem reset_keeps_stall:
  assumes "q_active (y_stall y)" "y' = apply_command fsin el u u' now ''reset'' y"
    and "(if q_stalled_now (y_stall y) then q_restore_at (y_stall y) else q_next_start (y_stall y)) \<le> t"
  shows "\<not> f_bw_enabled (y_cfg y') \<and> f_bw_enabled (y_cfg (apply_stall_schedule fsin el' v v' t y')) \<and>
    f_bw_max_bps (y_cfg (apply_stall_schedule fsin el' v v' t y')) =
      (if q_stalled_now (y_stall y) then q_normal_bps (y_stall y) else q_low_bps (y_stall y))"
proof -
  have "y_cfg y' = reset_command (y_cfg y)" "y_stall y' = y_stall y"
    using assms(2) by (simp_all add: apply_command_def read_word_reset Let_def bandwidth_command_def mark_bw_changed_def)
  then show ?thesis using assms(1,3)
    by (cases "q_stalled_now (y_stall y)")
      (simp_all add: apply_stall_schedule_def mark_bw_changed_def Let_def fix_bw_def reset_command_def)
qed

definition ex_stalling :: proxy where
  "ex_stalling = (new_proxy (1, 1) disturb_defaults 0)\<lparr>y_stall := stall0\<lparr>q_active := True, q_low_bps := 1000, q_next_start := 5\<rparr>\<rparr>"

lemma reset_keeps_stall_witness:
  "f_bw_max_bps (y_cfg (apply_stall_schedule id 0 0 0 5 (apply_command id 0 0 0 1 ''reset'' ex_stalling))) = 1000"
  using reset_keeps_stall [of ex_stalling _ id 0 0 0 1 5, OF _ refl] by (simp add: ex_stalling_def stall0_def)

end
