(* ===== verification/Spec2Isabelle.thy ===== *)
theory Spec2Isabelle
  imports Prelude Wire Crc32 Packet_Codec GF256 Fec Blocking_Queue Ordered_Map Command Float64 Bandwidth
    Peer Fragmenter Reassembler Seq_Tracking Reassembly Delivery Sha256 Aes_Gcm Curve25519 Reports
    Secure_Path Transport_State Link Link_Laws Outbound File_Transfer Pacing Capacity
    Transport Transport_Laws Trust Edge_Cases
    Routing Routing_Laws Circuit_Breaker Mesh_Types Node Node_Laws Text Trace_Context
    Work_Queue Leaf_State Leaf_Stream Leaf_Stream_Laws Leaf Leaf_Laws Leaf_Calls Leaf_Call_Laws
    Proxy Proxy_Control Proxy_Laws
begin

text \<open>
  A model of the repository's own code: \<open>tight\<close>, the reliable datagram transport under
  \<open>src/creek/tight\<close>; \<open>creek\<close>, the mesh of nodes and leaves that proxies gRPC calls over it, under
  \<open>src/creek\<close>; and the network simulator \<open>src/src/udp_proxy.cpp\<close> the transport is tested with.

  \<^bold>\<open>Parts and how they interact.\<close>  An application hands messages to a transport
  (\<open>transport.cpp\<close>); they wait in the send queue, become tasks of an encoding queue, are cut into
  data and parity fragments (\<open>fragmenter.cpp\<close>, \<open>fec.cpp\<close>), get a header (\<open>wire_format.hpp\<close>,
  \<open>packet_codec.cpp\<close>, \<open>crc32.cpp\<close>), are sealed if a session key was negotiated (\<open>crypto.cpp\<close>) and
  wait in the outbound queue until the pacer pays for them.  The receiver decodes and opens a
  datagram, finds or makes the peer of its address (\<open>peer.hpp\<close>), and dispatches it: fragments to
  the reassembler (\<open>reassembler.cpp\<close>), commands to the command channel (\<open>command.cpp\<close>), reports to the
  report handler (\<open>report.cpp\<close>), which drives retransmission and the congestion estimate
  (\<open>bandwidth.cpp\<close>), and the control packets of the handshake to the link.  A reactor runs the
  timers: handshakes, heartbeats, reports, time-outs.

  In the mesh a backend registers with a leaf (\<open>leaf_runtime.cpp\<close>), which tells its parent nodes; a node
  (\<open>node_runtime.cpp\<close>) spreads the directory of endpoints (\<open>routing.cpp\<close>) and routes requests, answers
  and streams by the leaf and node they are for.  A client calls any leaf: the balancer picks an
  endpoint, the circuit breaker (\<open>circuit_breaker.cpp\<close>) may refuse it, and the call goes to a backend of
  the leaf or through the mesh to another leaf; a call of any method becomes a stream of frames
  (\<open>leaf_generic.cpp\<close>).  The simulator takes datagrams in, delays, loses, corrupts or duplicates them and
  sends them on when the simulated link has carried them.

  \<^bold>\<open>Theories.\<close>
  \<^item> \<open>Prelude\<close>: machine integers, byte blocks, clock; lemmas on lists and words.  \<open>Ordered_Map\<close>:
    \<open>std::map\<close> as entries in key order.  \<open>Float64\<close>: binary64 values with rounding.
  \<^item> \<open>Wire\<close>, \<open>Crc32\<close>, \<open>Packet_Codec\<close>: header, checksum, encoder and decoder with their
    out-parameters.  The decoder accepts exactly the encodings; short bursts of errors are refused.
  \<^item> \<open>GF256\<close>, \<open>Fec\<close>: the field with its tables, the erasure code with Gaussian elimination; what is
    decoded is what was sent, and which losses the coefficients cannot repair.
  \<^item> \<open>Blocking_Queue\<close>: the linked list with its recycled nodes refines a bounded FIFO queue.
  \<^item> \<open>Command\<close>: ordered commands with the expiry of gaps.
  \<^item> \<open>Bandwidth\<close>: the congestion estimate; its bounds and its recovery.
  \<^item> \<open>Peer\<close>: the state kept per peer.  \<open>Fragmenter\<close>; \<open>Reassembler\<close> with the laws in \<open>Seq_Tracking\<close>,
    \<open>Reassembly\<close> and \<open>Delivery\<close>: numbers received and missing, assembly, and that a message is
    delivered once or reported lost once.
  \<^item> \<open>Sha256\<close>, \<open>Aes_Gcm\<close>, \<open>Curve25519\<close>: the bytewise algorithms against their reference definitions.
  \<^item> \<open>Reports\<close>: the report payload, its round trip, pruning and bounded retransmission.
  \<^item> \<open>Secure_Path\<close>: session keys, nonces, sealed datagrams.
  \<^item> \<open>Transport_State\<close>: configuration, links, queues, the transport record, effects.
    \<open>Link\<close> and \<open>Link_Laws\<close>: handshake, control packets, clock, link timers, \<open>connect\<close>.
    \<open>Outbound\<close>, \<open>File_Transfer\<close>, \<open>Pacing\<close>, \<open>Capacity\<close>: the way out, the file protocol, the token
    bucket with its loan, the rate offered to the application.
    \<open>Transport\<close>: reception, dispatch, reactor, start and stop, and \<open>transport_step\<close>, the one-step
    function over everything a transport reacts to.  \<open>Transport_Laws\<close>: the type invariant of the peer
    table and the queues.  \<open>Trust\<close> and \<open>Edge_Cases\<close>: what the protocol accepts without proof, and the
    behaviour at full queues, restarts and changes of mode.
  \<^item> \<open>Routing\<close>, \<open>Routing_Laws\<close>: directory and balancer; a locale for replicas that merge news in any
    order, interpreted on the directory, and sessions that keep their endpoint.  \<open>Circuit_Breaker\<close>: its
    state machine, the number of probes, and the probe whose outcome is never reported.
  \<^item> \<open>Mesh_Types\<close>, \<open>Node\<close>, \<open>Node_Laws\<close>: the messages of \<open>creek.proto\<close>, the node, and that routing ends.
    \<open>Text\<close>, \<open>Trace_Context\<close>: addresses, peers and trace headers with their round trips.
  \<^item> \<open>Work_Queue\<close>, \<open>Leaf_State\<close>: the queues of the workers, the state of a leaf, \<open>send_to_mesh\<close>, metadata.
    \<open>Leaf_Stream\<close>: the proxied calls with the events of gRPC, the messages of the mesh and the sweeper,
    collected in \<open>leaf_step\<close>.  \<open>Leaf_Stream_Laws\<close>: the locale \<open>call_blocked\<close> of calls that nothing ends,
    interpreted on the two states the code can get stuck in, and the order of the messages to a backend.
  \<^item> \<open>Leaf\<close>, \<open>Leaf_Laws\<close>: registration, heartbeats, snapshots, start and stop of a leaf; the directory
    mirrors the table of endpoints, and silent endpoints disappear.  \<open>Leaf_Calls\<close>, \<open>Leaf_Call_Laws\<close>: routed
    requests at both ends, \<open>SayHello\<close> with its two attempts, administration; the way of a routed call
    through two nodes and back, sessions that move and sessions that cannot.
  \<^item> \<open>Proxy\<close>, \<open>Proxy_Control\<close>, \<open>Proxy_Laws\<close>: the simulated link, the commands and scripts that control it;
    it is a queue, its counters account for every datagram, and what full queues and \<open>reset\<close> do.

  \<^bold>\<open>Correspondence.\<close>  A C++ class is a record with the names of its members (prefixed where records
  of one state would clash), an operation a function from the state to the state and its results.
  Integers are words of their width.  An exception or a step of undefined behaviour (an index out of
  range, a dangling pointer) is the value \<open>None\<close>.  Calls of the socket and of the application's
  callbacks are effects in the order they are made.  Points of time are nanoseconds of the monotonic
  clock; an operation that reads the clock gets one reading as an argument, also where the code reads
  it twice.  Random numbers, keys and the bytes of files are arguments.  Every operation that takes a
  lock for its whole body is one atomic step; the interleavings of the threads are the sequences of
  steps of \<open>transport_step\<close>.  \<open>std::log2\<close> is a parameter of the fragmenter,
  \<open>std::hash\<close> one of the balancer, the encoding of protobuf one of the runtimes.  What gRPC reports of a call
  is an event, what is asked of it an effect.  A handler of the mesh that takes its lock several times runs
  without interruption, except where it waits for another machine: there the answer, and what others did
  meanwhile, is an argument.  A handler that locks a mutex it holds has the value \<open>None\<close>.

  \<^bold>\<open>Bounds and fuel.\<close>  Loops over containers are structural recursion.  The loops of the pacer and of
  the drains carry the number of rounds the code allows (64 datagrams, 16 tasks, the length of the
  queue) as an explicit bound.  Nothing else uses fuel.

  \<^bold>\<open>Not modelled.\<close>  Socket and thread calls, log messages, the pool of buffers, the priorities of
  threads; the final drain of the sender at shutdown.  Of the leaf the JSON-RPC front end, whose values are
  those of a JSON library, and the servers it starts.  Outside these the components listed as not
  modelled in the manifest: glue to gRPC, Redis, OpenSSL, wasm3 and the media libraries, whose code is
  not in the repository, and the test programs.
\<close>

end
